(* ===== verification/Nc_Prelude.thy ===== *)
theory Nc_Prelude
  imports Main "HOL-Library.Word"
begin

text \<open>
  Shared ground of the development: the integer types of \<^verbatim>\<open>tool_type.h\<close>, the ways a
  C call of this code base can fail to return, C strings as character lists, byte-wise
  equality of words, addressable memory, and the interface (\<open>codec\<close>) that the encoders
  of the later theories implement.
\<close>

unbundle bit_operations_syntax

section \<open>Machine types\<close>

type_synonym u8 = "8 word"
type_synonym u16 = "16 word"
type_synonym u32 = "32 word"
type_synonym u64 = "64 word"

text \<open>The rewrite rules that reduce an equation on bits to a tautology.\<close>

named_theorems bit_calc
lemmas [bit_calc] = bit_simps

text \<open>Facts about memory accesses, buffers and C strings.\<close>

named_theorems mem_simps

section \<open>Failure\<close>

text \<open>
  \<open>Exit\<close>: the call reaches \<^verbatim>\<open>log_fatal\<close>, which ends in \<^verbatim>\<open>tool_sysf_exit()\<close>.
  \<open>Fault\<close>: the call reads or writes outside the object it was given (undefined in C).
  \<open>Fuel\<close>: the model's bound on the number of calls was too small; the theorems on loops
  modelled with fuel show for which bounds this does not happen.
\<close>

datatype halt = Exit | Fault | Fuel

type_synonym 'a outcome = "halt + 'a"

definition andThen :: "'a outcome \<Rightarrow> ('a \<Rightarrow> 'b outcome) \<Rightarrow> 'b outcome" where
  "andThen m f = (case m of Inl e \<Rightarrow> Inl e | Inr x \<Rightarrow> f x)"

lemma andThen_simps [simp]:
  "andThen (Inl e) f = Inl e"
  "andThen (Inr x) f = f x"
  by (simp_all add: andThen_def)

lemma andThen_Inr_iff:
  "andThen m f = Inr y \<longleftrightarrow> (\<exists>x. m = Inr x \<and> f x = Inr y)"
  by (cases m) auto

text \<open>
  Partial correctness of a call: if it returns, what it returns satisfies \<open>P\<close>. The equations push a
  postcondition through a body.
\<close>

definition yields :: "'a outcome \<Rightarrow> ('a \<Rightarrow> bool) \<Rightarrow> bool" where
  "yields m P \<longleftrightarrow> (\<forall>x. m = Inr x \<longrightarrow> P x)"

named_theorems yields_intros

lemma yields_simps [simp]:
  "yields (Inl e) P"
  "yields (Inr x) P \<longleftrightarrow> P x"
  "yields (andThen m f) P \<longleftrightarrow> yields m (\<lambda>x. yields (f x) P)"
  "yields (if c then n else n') P \<longleftrightarrow> (c \<longrightarrow> yields n P) \<and> (\<not> c \<longrightarrow> yields n' P)"
  by (auto simp: yields_def andThen_Inr_iff)

text \<open>Total correctness: the call returns.\<close>

definition returns :: "'a outcome \<Rightarrow> ('a \<Rightarrow> bool) \<Rightarrow> bool" where
  "returns m P \<longleftrightarrow> (\<exists>x. m = Inr x \<and> P x)"

lemma returns_simps [simp]:
  "\<not> returns (Inl e) P"
  "returns (Inr x) P \<longleftrightarrow> P x"
  "returns (andThen m f) P \<longleftrightarrow> returns m (\<lambda>x. returns (f x) P)"
  "returns (if c then n else n') P \<longleftrightarrow> (c \<longrightarrow> returns n P) \<and> (\<not> c \<longrightarrow> returns n' P)"
  by (auto simp: returns_def andThen_Inr_iff)

lemma returns_case [simp]: "returns (case_prod f p) P \<longleftrightarrow> case_prod (\<lambda>a b. returns (f a b) P) p"
  by (cases p) simp

lemma returnsI: "m = Inr x \<Longrightarrow> P x \<Longrightarrow> returns m P"
  by (simp add: returns_def)

lemma yields_case [simp]: "yields (case_prod f p) P \<longleftrightarrow> case_prod (\<lambda>a b. yields (f a b) P) p"
  by (cases p) simp

lemma yieldsI: "(\<And>x. m = Inr x \<Longrightarrow> P x) \<Longrightarrow> yields m P"
  by (simp add: yields_def)

lemma yieldsD: "yields m P \<Longrightarrow> m = Inr x \<Longrightarrow> P x"
  by (simp add: yields_def)

lemma returns_mono: "returns m Q \<Longrightarrow> (\<And>x. Q x \<Longrightarrow> P x) \<Longrightarrow> returns m P"
  by (auto simp: returns_def)

lemma returns_yields: "returns m P \<Longrightarrow> yields m Q \<Longrightarrow> returns m (\<lambda>x. P x \<and> Q x)"
  by (auto simp: returns_def yields_def)

lemma yields_mono: "yields m Q \<Longrightarrow> (\<And>x. Q x \<Longrightarrow> P x) \<Longrightarrow> yields m P"
  by (simp add: yields_def)

section \<open>Words\<close>

lemma u8_eqI:
  fixes a b :: u8
  assumes "bit a 0 = bit b 0" "bit a 1 = bit b 1" "bit a 2 = bit b 2" "bit a 3 = bit b 3"
    "bit a 4 = bit b 4" "bit a 5 = bit b 5" "bit a 6 = bit b 6" "bit a 7 = bit b 7"
  shows "a = b"
proof (rule bit_word_eqI)
  fix n assume "n < LENGTH(8)"
  then have "n \<in> {0, 1, 2, 3, 4, 5, 6, 7}" by auto
  with assms show "bit a n = bit b n" by auto
qed

lemma u16_eqI:
  fixes a b :: u16
  assumes "\<And>n. n \<in> {0, 1, 2, 3, 4, 5, 6, 7, 8, 9, 10, 11, 12, 13, 14, 15} \<Longrightarrow> bit a n = bit b n"
  shows "a = b"
proof (rule bit_word_eqI)
  fix n assume "n < LENGTH(16)"
  then have "n \<in> {0, 1, 2, 3, 4, 5, 6, 7, 8, 9, 10, 11, 12, 13, 14, 15}"
    by (simp add: less_Suc_eq eval_nat_numeral)
  then show "bit a n = bit b n" by (rule assms)
qed

lemma unat_u8_less: "unat (a :: u8) < 256"
  using unsigned_less [of a, where 'a = nat] by simp

text \<open>Reading 32-bit words as numbers.\<close>

lemma unat_of_nat_u32: "unat (of_nat m :: u32) = m mod 2 ^ 32"
  by (simp add: unsigned_of_nat take_bit_eq_mod)

lemma unat_drop_bit_of_nat: "unat (drop_bit k (of_nat m :: u32)) = m mod 2 ^ 32 div 2 ^ k"
  unfolding unat_drop_bit_eq by (simp add: drop_bit_eq_div unat_of_nat_u32)

text \<open>Addition with the carry detected by comparison, as in 32-bit counters.\<close>

lemma div_add_carry:
  fixes a b M :: nat
  assumes "0 < M"
  shows "(a + b) div M = a div M + b div M + (if (a + b) mod M < b mod M then 1 else 0)"
proof -
  have less: "a mod M < M" "b mod M < M" using assms by simp_all
  have d: "(a + b) div M = a div M + b div M + (a mod M + b mod M) div M"
    by (rule div_add1_eq)
  have m: "(a + b) mod M = (a mod M + b mod M) mod M"
    by (simp add: mod_add_eq)
  show ?thesis
  proof (cases "a mod M + b mod M < M")
    case True
    then show ?thesis unfolding d m by simp
  next
    case False
    then have "(a mod M + b mod M) div M = 1" "(a mod M + b mod M) mod M = a mod M + b mod M - M"
    proof -
      have "a mod M + b mod M - M < M" using less by linarith
      then show "(a mod M + b mod M) div M = 1" "(a mod M + b mod M) mod M = a mod M + b mod M - M"
        using False assms by (simp_all add: le_div_geq le_mod_geq)
    qed
    moreover have "a mod M + b mod M - M < b mod M" using less False by linarith
    ultimately show ?thesis unfolding d m by simp
  qed
qed

section \<open>C strings\<close>

text \<open>
  A \<^verbatim>\<open>char*\<close> is a list of characters; the string it denotes ends at the first NUL.
  Reading at the pointer is \<open>deref\<close>: past the listed characters there is the NUL.
\<close>

abbreviation NUL :: char where
  "NUL \<equiv> CHR 0x00"

definition cstr :: "string \<Rightarrow> string" where
  "cstr s = takeWhile (\<lambda>c. c \<noteq> NUL) s"

definition deref :: "string \<Rightarrow> char" where
  "deref s = (case s of [] \<Rightarrow> NUL | c # _ \<Rightarrow> c)"

lemma deref_simps [simp]: "deref [] = NUL" "deref (c # s) = c"
  by (simp_all add: deref_def)

lemma cstr_no_NUL: "NUL \<notin> set s \<Longrightarrow> cstr s = s"
  unfolding cstr_def by auto

lemma cstr_append_NUL [mem_simps]: "NUL \<notin> set s \<Longrightarrow> cstr (s @ NUL # t) = s"
  unfolding cstr_def by (simp add: takeWhile_append)

lemma NUL_notin_cstr [simp]: "NUL \<notin> set (cstr s)"
  unfolding cstr_def by (auto dest: set_takeWhileD)

lemma cstr_idem [simp]: "cstr (cstr s) = cstr s"
  by (rule cstr_no_NUL) simp

section \<open>Addressable memory\<close>

type_synonym mem = "nat \<Rightarrow> u8"

definition mem_write :: "nat \<Rightarrow> u8 list \<Rightarrow> mem \<Rightarrow> mem" where
  "mem_write a bs m = (\<lambda>i. if a \<le> i \<and> i < a + length bs then bs ! (i - a) else m i)"

definition mem_read :: "nat \<Rightarrow> nat \<Rightarrow> mem \<Rightarrow> u8 list" where
  "mem_read a n m = map m [a..<a + n]"

lemma length_mem_read [simp]: "length (mem_read a n m) = n"
  by (simp add: mem_read_def)

lemma mem_read_write_same [mem_simps]:
  "n = length bs \<Longrightarrow> mem_read a n (mem_write a bs m) = bs"
  by (auto simp: mem_read_def mem_write_def intro!: nth_equalityI)

lemma mem_read_write_disjoint [mem_simps]:
  "a + n \<le> b \<or> b + length bs \<le> a \<Longrightarrow> mem_read a n (mem_write b bs m) = mem_read a n m"
  by (auto simp: mem_read_def mem_write_def)

text \<open>Copying into an array: \<open>buf_put a bs buf\<close> overwrites the elements from \<open>a\<close> on.\<close>

definition buf_put :: "nat \<Rightarrow> 'a list \<Rightarrow> 'a list \<Rightarrow> 'a list outcome" where
  "buf_put a bs buf =
     (if a + length bs \<le> length buf
      then Inr (take a buf @ bs @ drop (a + length bs) buf) else Inl Fault)"

lemma buf_put_fits [mem_simps]:
  "a + length bs \<le> length buf \<Longrightarrow>
     buf_put a bs buf = Inr (take a buf @ bs @ drop (a + length bs) buf)"
  by (simp add: buf_put_def)

section \<open>Encoders and decoders\<close>

text \<open>
  What a caller relies on when it sends \<open>enc x\<close> and the peer applies \<open>dec\<close>: the value
  comes back. \<open>valid\<close> is the set of values the encoder is specified for.
\<close>

locale codec =
  fixes enc :: "'a \<Rightarrow> 'c"
    and dec :: "'c \<Rightarrow> 'a option"
    and valid :: "'a \<Rightarrow> bool"
  assumes dec_enc: "valid x \<Longrightarrow> dec (enc x) = Some x"
begin

lemma enc_inj: "valid x \<Longrightarrow> valid y \<Longrightarrow> enc x = enc y \<Longrightarrow> x = y"
  by (metis dec_enc option.inject)

lemma enc_inj_on: "inj_on enc {x. valid x}"
  by (auto intro: inj_onI enc_inj)

lemma dec_map_enc: "list_all valid xs \<Longrightarrow> map (dec \<circ> enc) xs = map Some xs"
  by (induction xs) (auto simp: dec_enc)

end

text \<open>Two encoders one after the other.\<close>

locale codec_comp = c1: codec enc1 dec1 valid1 + c2: codec enc2 dec2 valid2
  for enc1 :: "'a \<Rightarrow> 'b" and dec1 valid1 and enc2 :: "'b \<Rightarrow> 'c" and dec2 valid2 +
  assumes valid_enc1: "valid1 x \<Longrightarrow> valid2 (enc1 x)"
begin

sublocale both: codec "enc2 \<circ> enc1" "\<lambda>y. Option.bind (dec2 y) dec1" valid1
  by unfold_locales (simp add: c1.dec_enc c2.dec_enc valid_enc1)

end

end
