(* ===== verification/Tool_Base64.thy ===== *)
theory Tool_Base64
  imports Nc_Prelude
begin

text \<open>
  The Base64 encoder and decoder of \<^verbatim>\<open>sab_app/jni/nc/tool_base64.c\<close>. Both C loops step
  over their input by a fixed stride, so the models recurse on the input list; the
  results hold every byte the C code writes, the closing NUL included. The decoder reads
  four characters at a time without looking for the NUL in between: leaving the buffer is
  \<open>Fault\<close>.
\<close>

definition base64char :: string where
  "base64char = ''ABCDEFGHIJKLMNOPQRSTUVWXYZabcdefghijklmnopqrstuvwxyz0123456789+/''"

definition b64 :: "u8 \<Rightarrow> char" where
  "b64 current = base64char ! unat current"

fun base64_encode_loop :: "u8 list \<Rightarrow> string" where
  "base64_encode_loop [] = []"
| "base64_encode_loop [b0] =
     [b64 (drop_bit 2 b0 AND 0x3F), b64 (push_bit 4 b0 AND 0x30), CHR ''='', CHR ''='']"
| "base64_encode_loop [b0, b1] =
     [b64 (drop_bit 2 b0 AND 0x3F),
      b64 ((push_bit 4 b0 AND 0x30) OR (drop_bit 4 b1 AND 0x0F)),
      b64 (push_bit 2 b1 AND 0x3C), CHR ''='']"
| "base64_encode_loop (b0 # b1 # b2 # rest) =
     b64 (drop_bit 2 b0 AND 0x3F) #
     b64 ((push_bit 4 b0 AND 0x30) OR (drop_bit 4 b1 AND 0x0F)) #
     b64 ((push_bit 2 b1 AND 0x3C) OR (drop_bit 6 b2 AND 0x03)) #
     b64 (b2 AND 0x3F) # base64_encode_loop rest"

definition base64_encode :: "u8 list \<Rightarrow> string" where
  "base64_encode bindata = base64_encode_loop bindata @ [NUL]"

text \<open>\<open>temp[n]\<close> after the search loop: the last matching index, \<open>0xFF\<close> when there is none.\<close>

definition base64_index :: "char \<Rightarrow> u8" where
  "base64_index c = fold (\<lambda>k t. if base64char ! k = c then of_nat k else t) [0..<64] 0xFF"

fun base64_decode_loop :: "string \<Rightarrow> u8 list outcome" where
  "base64_decode_loop [] = Inl Fault"
| "base64_decode_loop (c0 # s) =
     (if c0 = NUL then Inr [0]
      else case s of
        c1 # c2 # c3 # rest \<Rightarrow>
          (let t0 = base64_index c0; t1 = base64_index c1;
               t2 = base64_index c2; t3 = base64_index c3;
               o0 = (push_bit 2 t0 AND 0xFC) OR (drop_bit 4 t1 AND 0x03);
               o1 = (push_bit 4 t1 AND 0xF0) OR (drop_bit 2 t2 AND 0x0F);
               o2 = (push_bit 6 t2 AND 0xF0) OR (t3 AND 0x3F)
           in if c2 = CHR ''='' then Inr [o0, 0]
              else if c3 = CHR ''='' then Inr [o0, o1, 0]
              else andThen (base64_decode_loop rest) (\<lambda>r. Inr (o0 # o1 # o2 # r)))
      | _ \<Rightarrow> Inl Fault)"

text \<open>The bytes written to \<open>bindata\<close> (with the closing 0) and the returned length \<open>j\<close>.\<close>

definition base64_decode :: "string \<Rightarrow> (u8 list \<times> nat) outcome" where
  "base64_decode base64 = andThen (base64_decode_loop base64) (\<lambda>r. Inr (r, length r - 1))"

section \<open>The table\<close>

lemma base64_index_b64_all:
  "\<forall>k \<in> set [0..<64]. base64_index (base64char ! k) = of_nat k"
  unfolding base64_index_def base64char_def by code_simp

lemma b64_not_special: "\<forall>k \<in> set [0..<64]. base64char ! k \<notin> {NUL, CHR ''=''}"
  unfolding base64char_def by code_simp

lemma base64_index_b64 [simp]: "unat c < 64 \<Longrightarrow> base64_index (b64 c) = c"
  using base64_index_b64_all by (simp add: b64_def)

lemma b64_plain [simp]:
  "unat c < 64 \<Longrightarrow> b64 c \<noteq> NUL" "unat c < 64 \<Longrightarrow> b64 c \<noteq> CHR ''=''"
  using b64_not_special by (simp_all add: b64_def)

text \<open>The six-bit groups the encoder looks up stay inside the table.\<close>

lemma and_mask_less: "unat ((x :: u8) AND y) \<le> unat y"
  by (metis word_and_le1 word_le_nat_alt)

lemma six_bit [simp]:
  "unat (drop_bit 2 (a :: u8) AND 0x3F) < 64"
  "unat (push_bit 4 a AND 0x30) < 64"
  "unat (push_bit 2 a AND 0x3C) < 64"
  "unat (a AND 0x3F) < 64"
  using and_mask_less [of "drop_bit 2 a" "0x3F"] and_mask_less [of "push_bit 4 a" "0x30"]
    and_mask_less [of "push_bit 2 a" "0x3C"] and_mask_less [of a "0x3F"] by simp_all

lemma group_split:
  "(push_bit 4 (a :: u8) AND 0x30) OR (drop_bit 4 b AND 0x0F) =
     ((push_bit 4 a AND 0x30) OR (drop_bit 4 b AND 0x0F)) AND 0x3F"
  "(push_bit 2 (a :: u8) AND 0x3C) OR (drop_bit 6 b AND 0x03) =
     ((push_bit 2 a AND 0x3C) OR (drop_bit 6 b AND 0x03)) AND 0x3F"
  by (rule u8_eqI; (simp add: bit_calc)?; simp add: eval_nat_numeral)+

lemma six_bit_group [simp]:
  "unat ((push_bit 4 (a :: u8) AND 0x30) OR (drop_bit 4 b AND 0x0F)) < 64"
  "unat ((push_bit 2 (a :: u8) AND 0x3C) OR (drop_bit 6 b AND 0x03)) < 64"
  by (subst group_split, rule six_bit)+

section \<open>Regrouping the bits\<close>

lemma byte0:
  "(push_bit 2 (drop_bit 2 (a :: u8) AND 0x3F) AND 0xFC) OR
     (drop_bit 4 ((push_bit 4 a AND 0x30) OR (drop_bit 4 b AND 0x0F)) AND 0x03) = a"
  "(push_bit 2 (drop_bit 2 (a :: u8) AND 0x3F) AND 0xFC) OR
     (drop_bit 4 (push_bit 4 a AND 0x30) AND 0x03) = a"
  "(push_bit 2 (drop_bit 2 (a :: u8)) AND 0xFC) OR (drop_bit 4 (push_bit 4 a) AND 0x03) = a"
  by (rule u8_eqI; (simp add: bit_calc)?; simp add: eval_nat_numeral)+

lemma byte1:
  "(push_bit 4 ((push_bit 4 (a :: u8) AND 0x30) OR (drop_bit 4 b AND 0x0F)) AND 0xF0) OR
     (drop_bit 2 ((push_bit 2 b AND 0x3C) OR (drop_bit 6 c AND 0x03)) AND 0x0F) = b"
  "(push_bit 4 ((push_bit 4 (a :: u8) AND 0x30) OR (drop_bit 4 b AND 0x0F)) AND 0xF0) OR
     (drop_bit 2 (push_bit 2 b AND 0x3C) AND 0x0F) = b"
  "(push_bit 4 (drop_bit 4 (b :: u8)) AND 0xF0) OR (drop_bit 2 (push_bit 2 b) AND 0x0F) = b"
  by (rule u8_eqI; (simp add: bit_calc)?; simp add: eval_nat_numeral)+

lemma byte2:
  "(push_bit 6 ((push_bit 2 (b :: u8) AND 0x3C) OR (drop_bit 6 c AND 0x03)) AND 0xF0) OR
     ((c AND 0x3F) AND 0x3F) = c"
  "((push_bit 6 (drop_bit 6 (c :: u8)) AND 0xC0) AND 0xF0) OR (c AND 0x3F) = c"
  by (rule u8_eqI; (simp add: bit_calc)?; simp add: eval_nat_numeral)+

lemma base64_decode_encode_loop:
  "base64_decode_loop (base64_encode_loop xs @ NUL # t) = Inr (xs @ [0])"
proof (induction xs rule: base64_encode_loop.induct)
  case (2 b0)
  then show ?case by (simp add: Let_def byte0)
next
  case (3 b0 b1)
  then show ?case by (simp add: Let_def byte0 byte1)
next
  case (4 b0 b1 b2 rest)
  then show ?case by (simp add: Let_def byte0 byte1 byte2)
qed simp

section \<open>Shape of the output\<close>

lemma length_base64_encode_loop:
  "length (base64_encode_loop xs) = 4 * ((length xs + 2) div 3)"
proof (induction xs rule: base64_encode_loop.induct)
  case (4 b0 b1 b2 rest)
  have "(5 + length rest) div 3 = Suc ((2 + length rest) div 3)" by presburger
  with 4 show ?case by simp
qed simp_all

lemma b64_in_table [simp]:
  assumes "unat c < 64"
  shows "b64 c \<in> set base64char"
proof -
  have "length base64char = 64" unfolding base64char_def by code_simp
  with assms show ?thesis by (simp add: b64_def)
qed

lemma base64_encode_loop_chars:
  "set (base64_encode_loop xs) \<subseteq> insert (CHR ''='') (set base64char)"
  by (induction xs rule: base64_encode_loop.induct) simp_all

definition base64_bytes :: "string \<Rightarrow> u8 list option" where
  "base64_bytes s = (case base64_decode s of Inl _ \<Rightarrow> None | Inr (r, n) \<Rightarrow> Some (take n r))"

interpretation base64: codec base64_encode base64_bytes "\<lambda>_. True"
  by unfold_locales
    (simp add: base64_bytes_def base64_decode_def base64_encode_def base64_decode_encode_loop)

section \<open>Properties\<close>

text \<open>C28: Decoding what was encoded gives back every byte, for every length: the decoder
  writes exactly the encoded bytes and the closing 0, and returns their number.\<close>

theorem base64_decode_encode:
  "base64_decode (base64_encode xs) = Inr (xs @ [0], length xs)"
  by (simp add: base64_decode_def base64_encode_def base64_decode_encode_loop)

text \<open>The encoder writes \<open>4 * ceil (n / 3)\<close> characters of the alphabet or padding and
  one NUL, so that is the buffer size a caller must provide; two inputs with the same
  text are equal.\<close>

theorem base64_encode_shape:
  "length (base64_encode xs) = 4 * ((length xs + 2) div 3) + 1
   \<and> set (butlast (base64_encode xs)) \<subseteq> insert (CHR ''='') (set base64char)
   \<and> last (base64_encode xs) = NUL
   \<and> inj base64_encode"
  using base64_encode_loop_chars [of xs] base64.enc_inj_on
  by (simp add: base64_encode_def length_base64_encode_loop)

end
