(* ===== verification/C_Lib.thy ===== *)
theory C_Lib
  imports Nc_Prelude
begin

text \<open>
  The functions of the C library that the modelled sources call, on character lists:
  \<open>strncmp\<close>, \<open>strstr\<close>, \<open>strncpy\<close>, \<open>memcmp\<close>, \<open>atoi\<close>, the conversions \<open>%d\<close> of \<open>printf\<close>
  and \<open>scanf\<close>. They have no entry in the map: they are the language's library, not code
  of the repository. The lemmas of this theory are what the protocol theories use.
\<close>

section \<open>Comparing, searching and copying\<close>

fun c_strncmp :: "string \<Rightarrow> string \<Rightarrow> nat \<Rightarrow> int" where
  "c_strncmp a b 0 = 0"
| "c_strncmp a b (Suc n) =
     (let x = deref a; y = deref b
      in if x \<noteq> y then of_char x - of_char y
         else if x = NUL then 0 else c_strncmp (tl a) (tl b) n)"

fun is_prefix :: "string \<Rightarrow> string \<Rightarrow> bool" where
  "is_prefix [] s = True"
| "is_prefix (c # p) [] = False"
| "is_prefix (c # p) (d # s) = (c = d \<and> is_prefix p s)"

text \<open>The pointer \<open>strstr\<close> returns is the rest of the string from the match on.\<close>

fun c_strstr :: "string \<Rightarrow> string \<Rightarrow> string option" where
  "c_strstr [] needle = (if needle = [] then Some [] else None)"
| "c_strstr (c # s) needle =
     (if is_prefix needle (c # s) then Some (c # s)
      else if c = NUL then None else c_strstr s needle)"

text \<open>\<open>strncpy\<close> fills all \<open>n\<close> bytes of the destination, with NUL after the string.\<close>

definition c_strncpy :: "string \<Rightarrow> string \<Rightarrow> nat \<Rightarrow> string outcome" where
  "c_strncpy dst src n =
     (if n \<le> length dst then Inr (take n (cstr src @ replicate n NUL) @ drop n dst)
      else Inl Fault)"

lemma is_prefix_iff: "is_prefix p s \<longleftrightarrow> (\<exists>t. s = p @ t)"
  by (induction p s rule: is_prefix.induct) auto

lemma is_prefix_append [simp]: "is_prefix p (p @ s)"
  by (auto simp: is_prefix_iff)

lemma of_char_eq_0 [simp]: "of_char c = (0 :: int) \<longleftrightarrow> c = NUL"
  using of_char_eq_iff [of c NUL, where 'a = int] by simp

lemma of_char_pos [simp]: "NUL \<noteq> c \<Longrightarrow> 0 < (of_char c :: int)"
  by (metis of_char_eq_0 of_nat_0_le_iff of_nat_of_char order_le_less)

lemma c_strncmp_eq_0:
  "NUL \<notin> set p \<Longrightarrow> n = length p \<Longrightarrow> c_strncmp s p n = 0 \<longleftrightarrow> is_prefix p s"
proof (induction p arbitrary: s n)
  case (Cons c p)
  then show ?case by (cases s) (auto simp: Let_def)
qed simp

lemma c_strstr_Some_suffix: "c_strstr s needle = Some t \<Longrightarrow> \<exists>u. s = u @ t \<and> is_prefix needle t"
proof (induction s needle rule: c_strstr.induct)
  case (2 c s needle)
  then show ?case by (auto split: if_splits intro: exI [of _ "c # _"])
qed (auto split: if_splits)

text \<open>
  A needle that starts with a character missing from \<open>u\<close> is not found inside \<open>u\<close>: the
  search moves past it.
\<close>

lemma c_strstr_skip:
  "q \<notin> set u \<Longrightarrow> NUL \<notin> set u \<Longrightarrow> c_strstr (u @ t) (q # p) = c_strstr t (q # p)"
proof (induction u)
  case (Cons c u)
  then show ?case by auto
qed simp

lemma c_strstr_here: "c_strstr (p @ t) p = Some (p @ t)"
proof (cases "p @ t")
  case Nil
  then show ?thesis by simp
next
  case (Cons c s)
  have "is_prefix p (c # s)" by (metis Cons is_prefix_append)
  then show ?thesis by (simp add: Cons)
qed

section \<open>Numbers as text\<close>

definition is_digit :: "char \<Rightarrow> bool" where
  "is_digit c \<longleftrightarrow> 48 \<le> (of_char c :: nat) \<and> (of_char c :: nat) \<le> 57"

definition digit_val :: "char \<Rightarrow> nat" where
  "digit_val c = of_char c - 48"

definition is_space :: "char \<Rightarrow> bool" where
  "is_space c \<longleftrightarrow> c = CHR '' '' \<or> (9 \<le> (of_char c :: nat) \<and> (of_char c :: nat) \<le> 13)"

definition digit_char :: "nat \<Rightarrow> char" where
  "digit_char d = char_of (48 + d)"

fun print_nat :: "nat \<Rightarrow> string" where
  "print_nat n = (if n < 10 then [digit_char n] else print_nat (n div 10) @ [digit_char (n mod 10)])"

declare print_nat.simps [simp del]

text \<open>\<open>%d\<close>\<close>

definition print_int :: "int \<Rightarrow> string" where
  "print_int i = (if i < 0 then CHR ''-'' # print_nat (nat (- i)) else print_nat (nat i))"

definition digits_val :: "string \<Rightarrow> nat" where
  "digits_val s = foldl (\<lambda>n c. 10 * n + digit_val c) 0 s"

text \<open>
  White space, a sign, the digits: what \<open>atoi\<close> and \<open>scanf\<close>'s \<open>%d\<close> read, with the rest of
  the input. \<open>None\<close>: no number there. Values beyond \<open>int\<close> are undefined in C; the models
  keep the number.
\<close>

definition scan_int :: "string \<Rightarrow> (int \<times> string) option" where
  "scan_int s =
     (let s1 = dropWhile is_space s;
          neg = (deref s1 = CHR ''-'');
          s2 = (if neg \<or> deref s1 = CHR ''+'' then tl s1 else s1);
          ds = takeWhile is_digit s2
      in if ds = [] then None
         else Some (if neg then - int (digits_val ds) else int (digits_val ds),
                    dropWhile is_digit s2))"

definition c_atoi :: "string \<Rightarrow> int" where
  "c_atoi s = (case scan_int s of None \<Rightarrow> 0 | Some (i, _) \<Rightarrow> i)"

text \<open>A literal character of a \<open>scanf\<close> format.\<close>

definition scan_char :: "char \<Rightarrow> string \<Rightarrow> string option" where
  "scan_char c s = (if s \<noteq> [] \<and> hd s = c then Some (tl s) else None)"

lemma digit_char_facts [simp]:
  assumes "d < 10"
  shows "is_digit (digit_char d)" "digit_val (digit_char d) = d"
  using assms by (simp_all add: is_digit_def digit_val_def digit_char_def)

lemma print_nat_not_Nil [simp]: "print_nat n \<noteq> []"
  by (subst print_nat.simps) simp

lemma print_nat_digits: "c \<in> set (print_nat n) \<Longrightarrow> is_digit c"
proof (induction n rule: print_nat.induct)
  case (1 n)
  then show ?case
    by (cases "n < 10") (auto simp: print_nat.simps [of n])
qed

lemma digits_val_print_nat [simp]: "digits_val (print_nat n) = n"
proof (induction n rule: print_nat.induct)
  case (1 n)
  then show ?case
    by (cases "n < 10") (simp_all add: print_nat.simps [of n] digits_val_def)
qed

lemma is_digit_not [simp]:
  "\<not> is_digit (CHR ''-'')" "\<not> is_digit (CHR ''+'')" "\<not> is_digit (CHR '' '')"
  "\<not> is_digit (CHR ''.'')" "\<not> is_digit (CHR 0x22)" "\<not> is_digit NUL"
  by (simp_all add: is_digit_def)

lemma is_digit_not_space: "is_digit c \<Longrightarrow> \<not> is_space c"
  by (auto simp: is_digit_def is_space_def)

lemma takeWhile_print_nat:
  assumes "s = [] \<or> \<not> is_digit (hd s)"
  shows "takeWhile is_digit (print_nat n @ s) = print_nat n"
    and "dropWhile is_digit (print_nat n @ s) = s"
proof -
  have all: "\<And>c. c \<in> set (print_nat n) \<Longrightarrow> is_digit c" by (rule print_nat_digits)
  have "takeWhile is_digit s = []" "dropWhile is_digit s = s"
    using assms by (cases s; simp)+
  then show "takeWhile is_digit (print_nat n @ s) = print_nat n"
    and "dropWhile is_digit (print_nat n @ s) = s"
    using all by simp_all
qed

lemma scan_int_print_int:
  assumes "s = [] \<or> \<not> is_digit (hd s)"
  shows "scan_int (print_int i @ s) = Some (i, s)"
proof -
  have hd_digit: "is_digit (deref (print_nat n @ s))" for n
    using print_nat_digits [of _ n] by (cases "print_nat n") auto
  have nospace: "dropWhile is_space (print_nat n @ s) = print_nat n @ s" for n
    using print_nat_digits [of _ n] is_digit_not_space by (cases "print_nat n") auto
  have sign: "deref (print_nat n @ s) \<noteq> CHR ''-''" "deref (print_nat n @ s) \<noteq> CHR ''+''" for n
    using hd_digit [of n] by auto
  show ?thesis
    by (auto simp: scan_int_def print_int_def nospace sign takeWhile_print_nat [OF assms] is_space_def)
qed

lemma c_atoi_print_int: "s = [] \<or> \<not> is_digit (hd s) \<Longrightarrow> c_atoi (print_int i @ s) = i"
  by (simp add: c_atoi_def scan_int_print_int)

lemma print_int_chars: "c \<in> set (print_int i) \<Longrightarrow> is_digit c \<or> c = CHR ''-''"
  by (auto simp: print_int_def dest: print_nat_digits split: if_splits)

lemma print_int_not_Nil [simp]: "print_int i \<noteq> []"
  by (simp add: print_int_def)

lemma print_int_clean [simp]:
  "CHR 0x22 \<notin> set (print_int i)" "NUL \<notin> set (print_int i)" "CHR '','' \<notin> set (print_int i)"
  by (auto dest!: print_int_chars simp: is_digit_def)

text \<open>
  \<open>strtoul\<close> with base 16, then converted to \<^verbatim>\<open>int\<close>: white space, a sign, an optional
  \<open>0x\<close>, the digits; a value too big for 64 bits saturates.
\<close>

definition hex_digit :: "char \<Rightarrow> nat option" where
  "hex_digit c =
     (let v = of_char c :: nat
      in if 48 \<le> v \<and> v \<le> 57 then Some (v - 48)
         else if 97 \<le> v \<and> v \<le> 102 then Some (v - 87)
         else if 65 \<le> v \<and> v \<le> 70 then Some (v - 55) else None)"

fun hex_val :: "nat \<Rightarrow> string \<Rightarrow> nat" where
  "hex_val n [] = n"
| "hex_val n (c # s) = (case hex_digit c of None \<Rightarrow> n | Some d \<Rightarrow> hex_val (16 * n + d) s)"

definition c_strtoul16 :: "string \<Rightarrow> int" where
  "c_strtoul16 s =
     (let s1 = dropWhile is_space s;
          neg = (deref s1 = CHR ''-'');
          s2 = (if neg \<or> deref s1 = CHR ''+'' then tl s1 else s1);
          s3 = (if is_prefix ''0x'' s2 \<or> is_prefix ''0X'' s2 then drop 2 s2 else s2);
          v = hex_val 0 s3;
          u = (if v \<ge> 2 ^ 64 then 2 ^ 64 - 1 else if neg then (2 ^ 64 - int v) mod 2 ^ 64 else int v)
      in sint (word_of_int u :: u32))"

text \<open>Storing a 32-bit result into an \<^verbatim>\<open>int\<close>.\<close>

definition int32 :: "int \<Rightarrow> int" where
  "int32 i = sint (word_of_int i :: u32)"

lemma int32_id: "- (2 ^ 31) \<le> i \<Longrightarrow> i < 2 ^ 31 \<Longrightarrow> int32 i = i"
  by (simp add: int32_def signed_take_bit_int_eq_self_iff signed_of_int)

lemma int32_mod: "int32 (i + 2 ^ 32 * k) = int32 i"
proof -
  have "(word_of_int (i + 2 ^ 32 * k) :: u32) = word_of_int i"
    by (simp only: word_of_int_eq_iff) (simp add: take_bit_eq_mod)
  then show ?thesis by (simp only: int32_def)
qed

text \<open>
  \<open>snprintf\<close> into a buffer of \<open>n\<close> bytes: what it stores, NUL included; it returns the
  length of the whole text.
\<close>

definition c_snprintf :: "nat \<Rightarrow> string \<Rightarrow> string \<times> int" where
  "c_snprintf n text = (if n = 0 then [] else take (n - 1) text @ [NUL], int (length text))"

end
