(* ===== verification/Tool_Hash.thy ===== *)
theory Tool_Hash
  imports C_Lib
begin

text \<open>
  The string hashes of \<^verbatim>\<open>sab_app/jni/nc/tool_hash.c\<close>. Each C loop walks \<open>len\<close> characters
  and updates 32-bit words, so each model is a fold over those characters. Whether a plain
  \<^verbatim>\<open>char\<close> is signed differs between the targets the library is built for (ARM and x86), so
  the promotion of a character to \<^verbatim>\<open>unsigned int\<close> is an argument \<open>ch\<close> of every function;
  \<open>char_unsigned\<close> and \<open>char_signed\<close> are the two values it takes.
\<close>

definition char_unsigned :: "char \<Rightarrow> u32" where
  "char_unsigned c = of_char c"

definition char_signed :: "char \<Rightarrow> u32" where
  "char_signed c = scast (of_char c :: u8)"

definition RSHash :: "(char \<Rightarrow> u32) \<Rightarrow> string \<Rightarrow> u32" where
  "RSHash ch str =
     (let b = 378551
      in fst (fold (\<lambda>c (hash, a). (hash * a + ch c, a * b)) str (0, 63689)))"

definition JSHash :: "(char \<Rightarrow> u32) \<Rightarrow> string \<Rightarrow> u32" where
  "JSHash ch str =
     fold (\<lambda>c hash. hash XOR (push_bit 5 hash + ch c + drop_bit 2 hash)) str 1315423911"

definition HighBits :: u32 where
  "HighBits = push_bit (32 - 4) 0xFFFFFFFF"

definition PJW_step :: "(char \<Rightarrow> u32) \<Rightarrow> char \<Rightarrow> u32 \<Rightarrow> u32" where
  "PJW_step ch c hash =
     (let hash = push_bit 4 hash + ch c;
          test = hash AND HighBits
      in if test \<noteq> 0 then (hash XOR drop_bit 24 test) AND NOT HighBits else hash)"

definition PJWHash :: "(char \<Rightarrow> u32) \<Rightarrow> string \<Rightarrow> u32" where
  "PJWHash ch str = fold (PJW_step ch) str 0"

definition ELF_step :: "(char \<Rightarrow> u32) \<Rightarrow> char \<Rightarrow> u32 \<Rightarrow> u32" where
  "ELF_step ch c hash =
     (let hash = push_bit 4 hash + ch c;
          x = hash AND 0xF0000000;
          hash = (if x \<noteq> 0 then hash XOR drop_bit 24 x else hash)
      in hash AND NOT x)"

definition ELFHash :: "(char \<Rightarrow> u32) \<Rightarrow> string \<Rightarrow> u32" where
  "ELFHash ch str = fold (ELF_step ch) str 0"

definition BKDRHash :: "(char \<Rightarrow> u32) \<Rightarrow> string \<Rightarrow> u32" where
  "BKDRHash ch str = (let seed = 131 in fold (\<lambda>c hash. hash * seed + ch c) str 0)"

definition SDBMHash :: "(char \<Rightarrow> u32) \<Rightarrow> string \<Rightarrow> u32" where
  "SDBMHash ch str =
     fold (\<lambda>c hash. ch c + push_bit 6 hash + push_bit 16 hash - hash) str 0"

definition DJBHash :: "(char \<Rightarrow> u32) \<Rightarrow> string \<Rightarrow> u32" where
  "DJBHash ch str = fold (\<lambda>c hash. (push_bit 5 hash + hash) + ch c) str 5381"

definition DEKHash :: "(char \<Rightarrow> u32) \<Rightarrow> string \<Rightarrow> u32" where
  "DEKHash ch str =
     fold (\<lambda>c hash. (push_bit 5 hash XOR drop_bit 27 hash) XOR ch c) str (of_nat (length str))"

definition BPHash :: "(char \<Rightarrow> u32) \<Rightarrow> string \<Rightarrow> u32" where
  "BPHash ch str = fold (\<lambda>c hash. push_bit 7 hash XOR ch c) str 0"

definition FNVHash :: "(char \<Rightarrow> u32) \<Rightarrow> string \<Rightarrow> u32" where
  "FNVHash ch str = (let fnv_prime = 0x811C9DC5 in fold (\<lambda>c hash. (hash * fnv_prime) XOR ch c) str 0)"

definition APHash :: "(char \<Rightarrow> u32) \<Rightarrow> string \<Rightarrow> u32" where
  "APHash ch str =
     snd (fold (\<lambda>c (i :: nat, hash).
            (Suc i,
             hash XOR (if even i then push_bit 7 hash XOR (ch c * drop_bit 3 hash)
                       else NOT (push_bit 11 hash + (ch c XOR drop_bit 5 hash)))))
          str (0, 0xAAAAAAAA))"

text \<open>
  The application's hash: \<open>None\<close> stands for a NULL \<open>str\<close>. At most 1000 characters are
  copied, up to the first NUL, and the salt is appended.
\<close>

definition str_pad :: string where
  "str_pad = ''LanBingHua''"

definition tool_hash :: "(char \<Rightarrow> u32) \<Rightarrow> string option \<Rightarrow> nat \<Rightarrow> u32 outcome" where
  "tool_hash ch str len =
     (case str of
        None \<Rightarrow> Inl Exit
      | Some s \<Rightarrow>
          if len = 0 then Inl Exit
          else if len > 1000 then Inr 0
          else let str_ex = cstr (take len s) @ str_pad
               in if length str_ex < 1024 then Inr (BKDRHash ch str_ex) else Inl Fault)"

section \<open>Multiplicative hashes\<close>

text \<open>
  The hashes of the form \<open>hash * m + c\<close>: a locale for what they share, with the seed and
  the multiplier as its parameters.
\<close>

locale rolling_hash =
  fixes hash_fn :: "(char \<Rightarrow> u32) \<Rightarrow> string \<Rightarrow> u32"
    and seed mult :: u32
  assumes hash_fold: "hash_fn ch s = fold (\<lambda>c h. h * mult + ch c) s seed"
begin

lemma fold_shift:
  "fold (\<lambda>c h. h * mult + ch c) s h0 =
     h0 * mult ^ length s + fold (\<lambda>c h. h * mult + ch c) s 0"
proof (induction s arbitrary: h0)
  case (Cons c s)
  show ?case
    using Cons [of "h0 * mult + ch c"] Cons [of "ch c"] by (simp add: algebra_simps)
qed simp

lemma hash_Nil: "hash_fn ch [] = seed"
  by (simp add: hash_fold)

lemma hash_snoc: "hash_fn ch (s @ [c]) = hash_fn ch s * mult + ch c"
  by (simp add: hash_fold)

lemma hash_append:
  "hash_fn ch (s @ t) = (hash_fn ch s - seed) * mult ^ length t + hash_fn ch t"
  using fold_shift [of ch t "hash_fn ch s"] fold_shift [of ch t seed]
  by (simp add: hash_fold algebra_simps)

lemma hash_sum:
  "hash_fn ch s =
     seed * mult ^ length s + (\<Sum>i<length s. ch (s ! i) * mult ^ (length s - Suc i))"
proof (induction s rule: rev_induct)
  case (snoc c s)
  have "(\<Sum>i<length s. ch ((s @ [c]) ! i) * mult ^ (length s - i)) =
        (\<Sum>i<length s. ch (s ! i) * mult ^ (length s - Suc i)) * mult"
    unfolding sum_distrib_right
  proof (rule sum.cong)
    fix i assume "i \<in> {..<length s}"
    then have "length s - i = Suc (length s - Suc i)" by auto
    with \<open>i \<in> _\<close> show "ch ((s @ [c]) ! i) * mult ^ (length s - i) =
        ch (s ! i) * mult ^ (length s - Suc i) * mult"
      by (simp add: nth_append)
  qed simp
  with snoc show ?case
    by (simp add: hash_snoc algebra_simps)
qed (simp add: hash_Nil)

lemma hash_prefix_cong: "hash_fn ch s = hash_fn ch t \<Longrightarrow> hash_fn ch (s @ u) = hash_fn ch (t @ u)"
  by (simp add: hash_append)

end

interpretation bkdr: rolling_hash BKDRHash 0 131
  by unfold_locales (simp add: BKDRHash_def)

lemma push_bit_u32: "push_bit n (h :: u32) = h * 2 ^ n"
  by (simp add: push_bit_eq_mult)

interpretation sdbm: rolling_hash SDBMHash 0 65599
  by unfold_locales (simp add: SDBMHash_def push_bit_u32 algebra_simps)

interpretation djb: rolling_hash DJBHash 5381 33
  by unfold_locales (simp add: DJBHash_def push_bit_u32 algebra_simps)

section \<open>Shift and xor hashes\<close>

lemma u32_eqI:
  fixes a b :: u32
  assumes "\<And>n. n < 32 \<Longrightarrow> bit a n = bit b n"
  shows "a = b"
  by (rule bit_word_eqI) (simp add: assms)

lemma HighBits_eq: "0xF0000000 = HighBits"
  by (simp add: HighBits_def push_bit_u32)

lemma bit_HighBits [simp]: "bit HighBits n \<longleftrightarrow> 28 \<le> n \<and> n < 32"
proof -
  have eq: "HighBits = push_bit 28 (mask 4)"
    by (simp add: mask_eq_exp_minus_1 push_bit_u32 HighBits_def)
  show ?thesis unfolding eq by (auto simp: bit_simps)
qed

lemma no_high: "h AND HighBits = 0 \<Longrightarrow> h AND NOT HighBits = h"
  by (intro u32_eqI) (auto simp: bit_simps dest!: bit_eq_iff [THEN iffD1])

lemma no_high': "h AND HighBits = 0 \<Longrightarrow> h AND NOT (h AND HighBits) = h"
  by simp

lemma clear_high:
  "(h XOR drop_bit 24 (h AND HighBits)) AND NOT (h AND HighBits) =
   (h XOR drop_bit 24 (h AND HighBits)) AND NOT HighBits"
  by (rule u32_eqI) (auto simp: bit_simps)

lemma ELF_step_eq:
  "ELF_step ch c hash =
     (let h = push_bit 4 hash + ch c
      in (h XOR drop_bit 24 (h AND HighBits)) AND NOT HighBits)"
  unfolding ELF_step_def Let_def HighBits_eq
  by (cases "(push_bit 4 hash + ch c) AND HighBits = 0")
    (simp_all only: clear_high no_high no_high' bit.compl_zero and.right_neutral if_True if_False
       xor.right_neutral drop_bit_of_0 simp_thms)

lemma PJW_ELF_step: "PJW_step ch c hash = ELF_step ch c hash"
  unfolding PJW_step_def ELF_step_eq Let_def
  by (cases "(push_bit 4 hash + ch c) AND HighBits = 0")
    (simp_all only: no_high if_True if_False
       drop_bit_of_0 xor.right_neutral simp_thms)

lemma PJW_is_ELF: "PJW_step = ELF_step"
  by (intro ext) (rule PJW_ELF_step)

lemma ELF_step_less: "unat (ELF_step ch c hash) < 2 ^ 28"
proof -
  have "h AND NOT HighBits = take_bit 28 h" for h
    by (rule u32_eqI) (auto simp: bit_simps)
  then have "\<exists>h. ELF_step ch c hash = take_bit 28 h"
    unfolding ELF_step_eq Let_def by metis
  then show ?thesis
    by (auto simp: unsigned_take_bit_eq take_bit_nat_def)
qed

lemma ELFHash_less: "unat (ELFHash ch s) < 2 ^ 28"
  by (cases s rule: rev_cases) (simp_all add: ELFHash_def ELF_step_less [simplified])

lemma BP_fold:
  "fold (\<lambda>c h. push_bit 7 h XOR ch c) s h0 =
     push_bit (7 * length s) h0 XOR fold (\<lambda>c h. push_bit 7 h XOR ch c) s (0 :: u32)"
proof (induction s arbitrary: h0)
  case (Cons c s)
  show ?case
    using Cons [of "push_bit 7 h0 XOR ch c"] Cons [of "ch c"]
    by (simp add: ac_simps)
qed simp

lemma BPHash_append: "BPHash ch (s @ t) = push_bit (7 * length t) (BPHash ch s) XOR BPHash ch t"
  using BP_fold [of ch t "BPHash ch s"] by (simp add: BPHash_def)

section \<open>Properties\<close>

text \<open>The hash the application uses is total: NULL or length 0 ends the program, more
  than 1000 characters give 0, and every other call stays inside its 1024-byte buffer and
  returns the base-131 polynomial of the string continued with the salt, modulo \<open>2 ^ 32\<close>.\<close>

theorem tool_hash_value:
  "tool_hash ch str len =
     (case str of
        None \<Rightarrow> Inl Exit
      | Some s \<Rightarrow>
          if len = 0 then Inl Exit else if len > 1000 then Inr 0
          else Inr (let t = cstr (take len s) @ ''LanBingHua''
                    in \<Sum>i<length t. ch (t ! i) * 131 ^ (length t - Suc i)))"
proof -
  have "length (cstr (take n s)) \<le> n" for n and s :: string
    unfolding cstr_def by (rule order_trans [OF length_takeWhile_le]) simp
  then have "len \<le> 1000 \<Longrightarrow> length (cstr (take len s)) < 1014" for s :: string
    by (rule le_less_trans) simp
  moreover have "length str_pad = 10" by (simp add: str_pad_def)
  ultimately show ?thesis
    unfolding tool_hash_def
    by (auto simp: bkdr.hash_sum Let_def str_pad_def split: option.split)
qed

text \<open>The shift formulations of \<open>SDBMHash\<close> and \<open>DJBHash\<close> are the multiplications by
  65599 and 33: both are polynomials over the characters, modulo \<open>2 ^ 32\<close>.\<close>

theorem SDBM_DJB_polynomial:
  "SDBMHash ch s = (\<Sum>i<length s. ch (s ! i) * 65599 ^ (length s - Suc i))
   \<and> DJBHash ch s = 5381 * 33 ^ length s + (\<Sum>i<length s. ch (s ! i) * 33 ^ (length s - Suc i))"
  using sdbm.hash_sum [of ch s] djb.hash_sum [of ch s] by simp

text \<open>\<open>PJWHash\<close> and \<open>ELFHash\<close> are the same function, for either signedness of \<open>char\<close>,
  and their value always fits 28 bits.\<close>

theorem PJWHash_eq_ELFHash:
  "PJWHash ch s = ELFHash ch s \<and> unat (PJWHash ch s) < 2 ^ 28"
proof -
  have "PJWHash ch s = ELFHash ch s"
    by (simp add: PJWHash_def ELFHash_def PJW_is_ELF)
  with ELFHash_less [of ch s] show ?thesis by simp
qed

text \<open>\<open>BPHash\<close> forgets everything but the last five characters.\<close>

theorem BPHash_last_five: "length t \<ge> 5 \<Longrightarrow> BPHash ch (s @ t) = BPHash ch t"
proof -
  assume "length t \<ge> 5"
  then have "push_bit (7 * length t) (BPHash ch s) = 0"
    by (intro u32_eqI) (auto simp: bit_simps)
  then show ?thesis by (simp add: BPHash_append)
qed

theorem BPHash_last_five_witness:
  "BPHash char_unsigned (''password='' @ ''12345'') = BPHash char_unsigned ''12345''"
  by (rule BPHash_last_five) simp

end
