(* ===== verification/Tool_Md5.thy ===== *)
theory Tool_Md5
  imports Nc_Prelude
begin

text \<open>
  The MD5 implementation of \<^verbatim>\<open>sab_app/jni/nc/tool_md5.c\<close>: its context as a record, the
  block transformation on 32-bit words, the incremental update, the finalisation with its
  padding, and the three digest formats with their checks. The specification is the
  one-shot definition: pad the message, cut it into 64-byte blocks and fold the
  transformation over them.
\<close>

section \<open>The basic functions\<close>

definition F :: "u32 \<Rightarrow> u32 \<Rightarrow> u32 \<Rightarrow> u32" where
  "F x y z = (x AND y) OR (NOT x AND z)"

definition G :: "u32 \<Rightarrow> u32 \<Rightarrow> u32 \<Rightarrow> u32" where
  "G x y z = (x AND z) OR (y AND NOT z)"

definition H :: "u32 \<Rightarrow> u32 \<Rightarrow> u32 \<Rightarrow> u32" where
  "H x y z = x XOR y XOR z"

definition I :: "u32 \<Rightarrow> u32 \<Rightarrow> u32 \<Rightarrow> u32" where
  "I x y z = y XOR (x OR NOT z)"

definition ROTATE_LEFT :: "u32 \<Rightarrow> nat \<Rightarrow> u32" where
  "ROTATE_LEFT x n = push_bit n x OR drop_bit (32 - n) x"

type_synonym md5_state = "u32 \<times> u32 \<times> u32 \<times> u32"

text \<open>
  \<open>FF\<close>, \<open>GG\<close>, \<open>HH\<close> and \<open>II\<close> differ in the function \<open>f\<close>. Each call of a round has the
  arguments of the call before it rotated by one: \<open>(a, b, c, d)\<close>, \<open>(d, a, b, c)\<close>,
  \<open>(c, d, a, b)\<close>, \<open>(b, c, d, a)\<close>; a step therefore returns the variables in the order of
  the next call, and after four of them the order is the first one again.
\<close>

definition md5_step ::
  "(u32 \<Rightarrow> u32 \<Rightarrow> u32 \<Rightarrow> u32) \<Rightarrow> u32 list \<Rightarrow> nat \<times> nat \<times> u32 \<Rightarrow> md5_state \<Rightarrow> md5_state" where
  "md5_step f x = (\<lambda>(k, s, ac) (a, b, c, d).
     let a = a + (f b c d + x ! k + ac);
         a = ROTATE_LEFT a s;
         a = a + b
     in (d, a, b, c))"

definition round1 :: "(nat \<times> nat \<times> u32) list" where
  "round1 =
     [( 0, 7, 0xD76AA478), ( 1, 12, 0xE8C7B756), ( 2, 17, 0x242070DB), ( 3, 22, 0xC1BDCEEE),
      ( 4, 7, 0xF57C0FAF), ( 5, 12, 0x4787C62A), ( 6, 17, 0xA8304613), ( 7, 22, 0xFD469501),
      ( 8, 7, 0x698098D8), ( 9, 12, 0x8B44F7AF), (10, 17, 0xFFFF5BB1), (11, 22, 0x895CD7BE),
      (12, 7, 0x6B901122), (13, 12, 0xFD987193), (14, 17, 0xA679438E), (15, 22, 0x49B40821)]"

definition round2 :: "(nat \<times> nat \<times> u32) list" where
  "round2 =
     [( 1, 5, 0xF61E2562), ( 6, 9, 0xC040B340), (11, 14, 0x265E5A51), ( 0, 20, 0xE9B6C7AA),
      ( 5, 5, 0xD62F105D), (10, 9, 0x02441453), (15, 14, 0xD8A1E681), ( 4, 20, 0xE7D3FBC8),
      ( 9, 5, 0x21E1CDE6), (14, 9, 0xC33707D6), ( 3, 14, 0xF4D50D87), ( 8, 20, 0x455A14ED),
      (13, 5, 0xA9E3E905), ( 2, 9, 0xFCEFA3F8), ( 7, 14, 0x676F02D9), (12, 20, 0x8D2A4C8A)]"

definition round3 :: "(nat \<times> nat \<times> u32) list" where
  "round3 =
     [( 5, 4, 0xFFFA3942), ( 8, 11, 0x8771F681), (11, 16, 0x6D9D6122), (14, 23, 0xFDE5380C),
      ( 1, 4, 0xA4BEEA44), ( 4, 11, 0x4BDECFA9), ( 7, 16, 0xF6BB4B60), (10, 23, 0xBEBFBC70),
      (13, 4, 0x289B7EC6), ( 0, 11, 0xEAA127FA), ( 3, 16, 0xD4EF3085), ( 6, 23, 0x04881D05),
      ( 9, 4, 0xD9D4D039), (12, 11, 0xE6DB99E5), (15, 16, 0x1FA27CF8), ( 2, 23, 0xC4AC5665)]"

definition round4 :: "(nat \<times> nat \<times> u32) list" where
  "round4 =
     [( 0, 6, 0xF4292244), ( 7, 10, 0x432AFF97), (14, 15, 0xAB9423A7), ( 5, 21, 0xFC93A039),
      (12, 6, 0x655B59C3), ( 3, 10, 0x8F0CCC92), (10, 15, 0xFFEFF47D), ( 1, 21, 0x85845DD1),
      ( 8, 6, 0x6FA87E4F), (15, 10, 0xFE2CE6E0), ( 6, 15, 0xA3014314), (13, 21, 0x4E0811A1),
      ( 4, 6, 0xF7537E82), (11, 10, 0xBD3AF235), ( 2, 15, 0x2AD7D2BB), ( 9, 21, 0xEB86D391)]"

section \<open>Words and bytes\<close>

fun tool_md5_encode :: "u32 list \<Rightarrow> u8 list" where
  "tool_md5_encode [] = []"
| "tool_md5_encode (w # ws) =
     ucast (w AND 0xFF) # ucast (drop_bit 8 w AND 0xFF) #
     ucast (drop_bit 16 w AND 0xFF) # ucast (drop_bit 24 w AND 0xFF) # tool_md5_encode ws"

definition le32 :: "u8 \<Rightarrow> u8 \<Rightarrow> u8 \<Rightarrow> u8 \<Rightarrow> u32" where
  "le32 b0 b1 b2 b3 =
     ucast b0 OR push_bit 8 (ucast b1) OR push_bit 16 (ucast b2) OR push_bit 24 (ucast b3)"

fun tool_md5_decode :: "u8 list \<Rightarrow> u32 list outcome" where
  "tool_md5_decode [] = Inr []"
| "tool_md5_decode (b0 # b1 # b2 # b3 # bs) =
     andThen (tool_md5_decode bs) (\<lambda>ws. Inr (le32 b0 b1 b2 b3 # ws))"
| "tool_md5_decode _ = Inl Fault"

section \<open>The transformation\<close>

definition md5_rounds :: "u32 list \<Rightarrow> md5_state \<Rightarrow> md5_state" where
  "md5_rounds x st =
     (let st = fold (md5_step F x) round1 st;
          st = fold (md5_step G x) round2 st;
          st = fold (md5_step H x) round3 st
      in fold (md5_step I x) round4 st)"

definition tool_md5_transform :: "md5_state \<Rightarrow> u8 list \<Rightarrow> md5_state outcome" where
  "tool_md5_transform u32State ucBlock =
     andThen (tool_md5_decode ucBlock) (\<lambda>x.
       if length x = 16 then
         (case u32State of (s0, s1, s2, s3) \<Rightarrow>
            case md5_rounds x u32State of (a, b, c, d) \<Rightarrow>
              Inr (s0 + a, s1 + b, s2 + c, s3 + d))
       else Inl Fault)"

section \<open>The context and its operations\<close>

record md5_ctx =
  u32Cnt0 :: u32
  u32Cnt1 :: u32
  u32State :: md5_state
  szBuffer :: "u8 list"

text \<open>The buffer of a fresh context is not initialised: it is an argument here.\<close>

definition tool_md5_init :: "u8 list \<Rightarrow> md5_ctx" where
  "tool_md5_init buf =
     \<lparr> u32Cnt0 = 0, u32Cnt1 = 0,
       u32State = (0x67452301, 0xEFCDAB89, 0x98BADCFE, 0x10325476), szBuffer = buf \<rparr>"

text \<open>
  The loop over the whole blocks of the input. \<open>i + 63\<close> is computed in 32 bits; when it
  wraps, the loop runs past the input.
\<close>

function md5_blocks :: "u8 list \<Rightarrow> nat \<Rightarrow> md5_state \<Rightarrow> (nat \<times> md5_state) outcome" where
  "md5_blocks input i st =
     (if (i + 63) mod 2 ^ 32 < length input then
        if i + 64 \<le> length input then
          andThen (tool_md5_transform st (take 64 (drop i input))) (md5_blocks input (i + 64))
        else Inl Fault
      else Inr (i, st))"
  by auto
termination by (relation "measure (\<lambda>(input, i, st). length input - i)") auto

declare md5_blocks.simps [simp del]

definition tool_md5_update :: "md5_ctx \<Rightarrow> u8 list \<Rightarrow> md5_ctx outcome" where
  "tool_md5_update ctx input =
     (let ulInputLen = of_nat (length input) :: u32;
          ulIndex = unat (drop_bit 3 (u32Cnt0 ctx) AND 0x3F);
          cnt0 = u32Cnt0 ctx + push_bit 3 ulInputLen;
          cnt1 = (if cnt0 < push_bit 3 ulInputLen then u32Cnt1 ctx + 1 else u32Cnt1 ctx);
          cnt1 = cnt1 + drop_bit 29 ulInputLen;
          ctx = ctx\<lparr>u32Cnt0 := cnt0, u32Cnt1 := cnt1\<rparr>;
          ulPartLen = 64 - ulIndex
      in andThen
           (if length input \<ge> ulPartLen then
              andThen (buf_put ulIndex (take ulPartLen input) (szBuffer ctx)) (\<lambda>buf.
              andThen (tool_md5_transform (u32State ctx) buf) (\<lambda>st.
              andThen (md5_blocks input ulPartLen st) (\<lambda>(i, st).
                Inr (i, 0, ctx\<lparr>u32State := st, szBuffer := buf\<rparr>))))
            else Inr (0, ulIndex, ctx))
           (\<lambda>(i, ulIndex, ctx).
              andThen (buf_put ulIndex (drop i input) (szBuffer ctx)) (\<lambda>buf.
                Inr (ctx\<lparr>szBuffer := buf\<rparr>))))"

definition PADDING :: "u8 list" where
  "PADDING = 0x80 # replicate 63 0"

fun words_of_state :: "md5_state \<Rightarrow> u32 list" where
  "words_of_state (a, b, c, d) = [a, b, c, d]"

definition tool_md5_final :: "md5_ctx \<Rightarrow> u8 list outcome" where
  "tool_md5_final ctx =
     (let bits = tool_md5_encode [u32Cnt0 ctx, u32Cnt1 ctx];
          ulIndex = unat (drop_bit 3 (u32Cnt0 ctx) AND 0x3F);
          padLen = (if ulIndex < 56 then 56 - ulIndex else 120 - ulIndex)
      in andThen (tool_md5_update ctx (take padLen PADDING)) (\<lambda>ctx.
         andThen (tool_md5_update ctx bits) (\<lambda>ctx.
           Inr (tool_md5_encode (words_of_state (u32State ctx))))))"

text \<open>\<open>junk\<close> is what the stack holds where the context's buffer is allocated.\<close>

definition tool_md5_calc :: "u8 list \<Rightarrow> u8 list \<Rightarrow> u8 list outcome" where
  "tool_md5_calc junk input =
     andThen (tool_md5_update (tool_md5_init junk) input) tool_md5_final"

definition tool_md5_calc_16bit :: "u8 list \<Rightarrow> u8 list \<Rightarrow> u8 list outcome" where
  "tool_md5_calc_16bit junk input =
     andThen (tool_md5_calc junk input) (\<lambda>tmp_buf. Inr (take 8 (drop 4 tmp_buf)))"

text \<open>The 62 characters of the third format.\<close>

definition xm_char :: "u8 \<Rightarrow> u8 \<Rightarrow> u8" where
  "xm_char x y =
     (let out = (unat x + unat y) mod 62
      in of_nat (if out \<le> 9 then out + 48 else if out \<le> 35 then out + 55 else out + 61))"

definition tool_md5_calc_xm :: "u8 list \<Rightarrow> u8 list \<Rightarrow> u8 list outcome" where
  "tool_md5_calc_xm junk input =
     andThen (tool_md5_calc junk input) (\<lambda>tmp_buf.
       Inr (map (\<lambda>i. xm_char (tmp_buf ! (2 * i)) (tmp_buf ! (2 * i + 1))) [0..<8]))"

text \<open>The checks return 0 when \<open>memcmp\<close> reports a difference.\<close>

definition tool_md5_check :: "u8 list \<Rightarrow> u8 list \<Rightarrow> u8 list \<Rightarrow> int outcome" where
  "tool_md5_check junk authenticator input =
     andThen (tool_md5_calc junk input) (\<lambda>authBuf.
       Inr (if take 16 authenticator \<noteq> take 16 authBuf then 0 else - 1))"

definition tool_md5_check_16bit :: "u8 list \<Rightarrow> u8 list \<Rightarrow> u8 list \<Rightarrow> int outcome" where
  "tool_md5_check_16bit junk authenticator input =
     andThen (tool_md5_calc junk input) (\<lambda>authBuf.
       Inr (if take 8 authenticator \<noteq> take 8 (drop 4 authBuf) then 0 else - 1))"

definition tool_md5_check_xm :: "u8 list \<Rightarrow> u8 list \<Rightarrow> u8 list \<Rightarrow> int outcome" where
  "tool_md5_check_xm junk authenticator input =
     andThen (tool_md5_calc_xm junk input) (\<lambda>authBuf.
       Inr (if take 8 authenticator \<noteq> take 8 authBuf then 0 else - 1))"

section \<open>Words and bytes are inverse\<close>

lemma le32_bytes:
  "le32 (ucast (w AND 0xFF)) (ucast (drop_bit 8 w AND 0xFF))
     (ucast (drop_bit 16 w AND 0xFF)) (ucast (drop_bit 24 w AND 0xFF)) = w"
proof (rule bit_word_eqI)
  fix n assume "n < LENGTH(32)"
  then consider "n < 8" | "8 \<le> n" "n < 16" | "16 \<le> n" "n < 24" | "24 \<le> n" "n < 32" by fastforce
  note range = this
  have ff: "(0xFF :: u32) = mask 8" by (simp add: mask_eq_exp_minus_1)
  show "bit (le32 (ucast (w AND 0xFF)) (ucast (drop_bit 8 w AND 0xFF))
     (ucast (drop_bit 16 w AND 0xFF)) (ucast (drop_bit 24 w AND 0xFF))) n = bit w n"
    unfolding le32_def ff by (cases rule: range) (auto simp: bit_simps)
qed

lemma md5_decode_encode [simp]: "tool_md5_decode (tool_md5_encode ws) = Inr ws"
  by (induction ws) (simp_all add: le32_bytes del: take_bit_and)

lemma length_md5_encode [simp]: "length (tool_md5_encode ws) = 4 * length ws"
  by (induction ws) simp_all

lemma md5_decode_length:
  "4 * n = length bs \<Longrightarrow> \<exists>ws. tool_md5_decode bs = Inr ws \<and> length ws = n"
proof (induction bs arbitrary: n rule: tool_md5_decode.induct)
  case (2 b0 b1 b2 b3 bs)
  then have "4 * (n - 1) = length bs" by simp
  from "2.IH" [OF this] 2(2) show ?case by auto
qed (auto, presburger+)

interpretation md5_words: codec tool_md5_encode
    "\<lambda>bs. case tool_md5_decode bs of Inl _ \<Rightarrow> None | Inr ws \<Rightarrow> Some ws" "\<lambda>_. True"
  by unfold_locales simp

section \<open>The specification\<close>

definition md5_compress :: "md5_state \<Rightarrow> u8 list \<Rightarrow> md5_state" where
  "md5_compress st blk = (case tool_md5_transform st blk of Inr s \<Rightarrow> s | Inl _ \<Rightarrow> st)"

function md5_fold :: "md5_state \<Rightarrow> u8 list \<Rightarrow> md5_state" where
  "md5_fold st bs =
     (if length bs < 64 then st else md5_fold (md5_compress st (take 64 bs)) (drop 64 bs))"
  by auto
termination by (relation "measure (length \<circ> snd)") auto

declare md5_fold.simps [simp del]

text \<open>The message, a one bit, zeros up to 56 modulo 64, the length in bits on 64 bits.\<close>

definition md5_pad :: "u8 list \<Rightarrow> u8 list" where
  "md5_pad xs =
     xs @ 0x80 # replicate ((119 - length xs mod 64) mod 64) 0 @
     tool_md5_encode [of_nat (8 * length xs), of_nat (8 * length xs div 2 ^ 32)]"

definition md5_spec :: "u8 list \<Rightarrow> u8 list" where
  "md5_spec xs =
     tool_md5_encode (words_of_state
       (md5_fold (0x67452301, 0xEFCDAB89, 0x98BADCFE, 0x10325476) (md5_pad xs)))"

definition md5_tail :: "u8 list \<Rightarrow> u8 list" where
  "md5_tail xs = drop (64 * (length xs div 64)) xs"

lemma transform_compress:
  "length blk = 64 \<Longrightarrow> tool_md5_transform st blk = Inr (md5_compress st blk)"
  using md5_decode_length [of 16 blk]
  by (cases st) (auto simp: tool_md5_transform_def md5_compress_def split: prod.splits)

lemma length_md5_tail [simp]: "length (md5_tail xs) = length xs mod 64"
  by (simp add: md5_tail_def minus_mult_div_eq_mod)

lemma md5_tail_short: "length xs < 64 \<Longrightarrow> md5_tail xs = xs"
  by (simp add: md5_tail_def)

lemma md5_tail_drop: "64 \<le> length xs \<Longrightarrow> md5_tail (drop 64 xs) = md5_tail xs"
  by (simp add: md5_tail_def le_div_geq add.commute)

lemma md5_fold_append: "md5_fold st (xs @ ys) = md5_fold (md5_fold st xs) (md5_tail xs @ ys)"
proof (induction st xs rule: md5_fold.induct)
  case (1 st xs)
  show ?case
  proof (cases "length xs < 64")
    case True
    then show ?thesis by (simp add: md5_fold.simps [of st xs] md5_tail_short)
  next
    case False
    then show ?thesis
      using 1 by (simp add: md5_fold.simps [of st xs] md5_fold.simps [of st "xs @ ys"] md5_tail_drop)
  qed
qed

lemma md5_tail_append: "md5_tail (xs @ ys) = md5_tail (md5_tail xs @ ys)"
proof (induction xs rule: length_induct)
  case (1 xs)
  show ?case
  proof (cases "length xs < 64")
    case False
    then have "md5_tail (drop 64 xs @ ys) = md5_tail (md5_tail (drop 64 xs) @ ys)"
      by (intro 1 [rule_format]) simp
    moreover have "md5_tail (drop 64 xs @ ys) = md5_tail (xs @ ys)"
      using False md5_tail_drop [of "xs @ ys"] by simp
    ultimately show ?thesis using False by (simp only: md5_tail_drop not_less)
  qed (simp add: md5_tail_short)
qed

section \<open>Refinement\<close>

text \<open>A context that has consumed \<open>xs\<close>.\<close>

definition md5_inv :: "u8 list \<Rightarrow> md5_ctx \<Rightarrow> bool" where
  "md5_inv xs ctx \<longleftrightarrow>
     u32Cnt0 ctx = of_nat (8 * length xs) \<and> u32Cnt1 ctx = of_nat (8 * length xs div 2 ^ 32) \<and>
     length (szBuffer ctx) = 64 \<and>
     take (length xs mod 64) (szBuffer ctx) = md5_tail xs \<and>
     u32State ctx = md5_fold (0x67452301, 0xEFCDAB89, 0x98BADCFE, 0x10325476) xs"

lemma md5_inv_init: "length junk = 64 \<Longrightarrow> md5_inv [] (tool_md5_init junk)"
  by (simp add: md5_inv_def tool_md5_init_def md5_tail_def md5_fold.simps)

lemma u32_and_3F: "unat ((w :: u32) AND 0x3F) = unat w mod 64"
proof -
  have "w AND 0x3F = take_bit 6 w"
    by (simp add: take_bit_eq_mask mask_eq_exp_minus_1)
  then show ?thesis
    by (simp only: unsigned_take_bit_eq) (simp add: take_bit_eq_mod)
qed

lemma md5_index: "unat (drop_bit 3 (of_nat (8 * n) :: u32) AND 0x3F) = n mod 64"
proof -
  have "(8 * n) mod 2 ^ 32 = 8 * (n mod 2 ^ 29)"
    using mult_mod_right [of 8 n "2 ^ 29"] by simp
  then have "(8 * n) mod 2 ^ 32 div 2 ^ 3 mod 64 = n mod 2 ^ 29 mod 64" by simp
  also have "\<dots> = n mod 64" by (rule mod_mod_cancel) simp
  finally have "(8 * n) mod 2 ^ 32 div 2 ^ 3 mod 64 = n mod 64" .
  then show ?thesis unfolding u32_and_3F unat_drop_bit_of_nat .
qed

lemma md5_count:
  fixes A l :: nat
  assumes "l < 2 ^ 32"
  defines "c0 \<equiv> of_nat (8 * A) + push_bit 3 (of_nat l) :: u32"
  shows "c0 = of_nat (8 * (A + l))"
    and "(if c0 < push_bit 3 (of_nat l) then of_nat (8 * A div 2 ^ 32) + 1
          else of_nat (8 * A div 2 ^ 32)) + drop_bit 29 (of_nat l :: u32)
         = of_nat (8 * (A + l) div 2 ^ 32)"
proof -
  have p: "push_bit 3 (of_nat l) = (of_nat (8 * l) :: u32)"
    by (simp add: push_bit_eq_mult)
  show c0: "c0 = of_nat (8 * (A + l))"
    by (simp add: c0_def p algebra_simps)
  have d: "drop_bit 29 (of_nat l :: u32) = of_nat (l div 2 ^ 29)"
    by (rule unsigned_word_eqI [where 'a = nat]) (use assms in \<open>simp only: unat_drop_bit_of_nat unat_of_nat_u32; simp\<close>)
  have less: "c0 < push_bit 3 (of_nat l) \<longleftrightarrow> (8 * (A + l)) mod 2 ^ 32 < (8 * l) mod 2 ^ 32"
    unfolding c0 p by (simp only: word_less_nat_alt unat_of_nat_u32)
  have "8 * (A + l) div 2 ^ 32 =
      8 * A div 2 ^ 32 + (if (8 * (A + l)) mod 2 ^ 32 < (8 * l) mod 2 ^ 32 then 1 else 0)
      + l div 2 ^ 29"
  proof -
    have "8 * l div 2 ^ 32 = l div 2 ^ 29"
      using div_mult_mult1 [of 8 l "2 ^ 29"] by simp
    then show ?thesis
      using div_add_carry [of "2 ^ 32" "8 * A" "8 * l"] by (simp add: algebra_simps)
  qed
  then show "(if c0 < push_bit 3 (of_nat l) then of_nat (8 * A div 2 ^ 32) + 1
          else of_nat (8 * A div 2 ^ 32)) + drop_bit 29 (of_nat l :: u32)
         = of_nat (8 * (A + l) div 2 ^ 32)"
    unfolding less d by simp
qed

lemma md5_blocks_fold:
  assumes "length input + 63 < 2 ^ 32" "i \<le> length input"
  shows "\<exists>j. md5_blocks input i st = Inr (j, md5_fold st (drop i input))
             \<and> drop j input = md5_tail (drop i input)"
  using assms(2)
proof (induction "length input - i" arbitrary: i st rule: less_induct)
  case less
  then have small: "(i + 63) mod 4294967296 = i + 63" using assms(1) by simp
  show ?case
  proof (cases "i + 64 \<le> length input")
    case True
    then obtain j where j: "md5_blocks input (i + 64) (md5_compress st (take 64 (drop i input))) =
          Inr (j, md5_fold (md5_compress st (take 64 (drop i input))) (drop (i + 64) input))"
        "drop j input = md5_tail (drop (i + 64) input)"
    proof -
      have "length input - (i + 64) < length input - i" using True by linarith
      from less(1) [OF this True] that show ?thesis by blast
    qed
    have "md5_blocks input i st = md5_blocks input (i + 64) (md5_compress st (take 64 (drop i input)))"
      using True by (simp add: md5_blocks.simps [of input i] small transform_compress)
    moreover have "md5_fold st (drop i input) =
        md5_fold (md5_compress st (take 64 (drop i input))) (drop (i + 64) input)"
      using True by (subst md5_fold.simps) (auto simp: add.commute)
    moreover have "md5_tail (drop (i + 64) input) = md5_tail (drop i input)"
      using True md5_tail_drop [of "drop i input"] by (simp add: add.commute)
    ultimately show ?thesis using j by auto
  next
    case False
    then show ?thesis
      by (auto simp: md5_blocks.simps [of input i] small md5_fold.simps [of st] md5_tail_short)
  qed
qed

lemma md5_update_inv:
  assumes inv: "md5_inv xs ctx" and small: "length ys + 63 < 2 ^ 32"
  shows "\<exists>ctx'. tool_md5_update ctx ys = Inr ctx' \<and> md5_inv (xs @ ys) ctx'"
proof -
  define r where "r = length xs mod 64"
  define T where "T = md5_tail xs"
  define st where "st = u32State ctx"
  define c0 where "c0 = u32Cnt0 ctx + push_bit 3 (of_nat (length ys))"
  define c1 where "c1 = (if c0 < push_bit 3 (of_nat (length ys)) then u32Cnt1 ctx + 1
     else u32Cnt1 ctx) + drop_bit 29 (of_nat (length ys))"
  have r: "r < 64" "length T = r" by (simp_all add: r_def T_def)
  have index: "unat (drop_bit 3 (u32Cnt0 ctx) AND 0x3F) = r"
    using inv md5_index [of "length xs"] by (simp only: md5_inv_def r_def)
  have buf: "length (szBuffer ctx) = 64" "take r (szBuffer ctx) = T"
    using inv by (simp_all add: md5_inv_def r_def T_def)
  have cnt: "c0 = of_nat (8 * length (xs @ ys))" "c1 = of_nat (8 * length (xs @ ys) div 2 ^ 32)"
  proof -
    have len: "length ys < 2 ^ 32" using small by linarith
    have "u32Cnt0 ctx = of_nat (8 * length xs)" "u32Cnt1 ctx = of_nat (8 * length xs div 2 ^ 32)"
      using inv by (simp_all only: md5_inv_def)
    note cnts = this
    show "c0 = of_nat (8 * length (xs @ ys))"
      unfolding c0_def length_append cnts by (rule md5_count(1)) (rule len)
    show "c1 = of_nat (8 * length (xs @ ys) div 2 ^ 32)"
      unfolding c1_def c0_def length_append cnts by (rule md5_count(2)) (rule len)
  qed
  have st': "md5_fold (0x67452301, 0xEFCDAB89, 0x98BADCFE, 0x10325476) (xs @ ys) = md5_fold st (T @ ys)"
    using inv md5_fold_append [of _ xs ys] by (simp only: md5_inv_def st_def T_def)
  have tail': "md5_tail (xs @ ys) = md5_tail (T @ ys)"
    unfolding T_def by (rule md5_tail_append)
  show ?thesis
  proof (cases "64 - r \<le> length ys")
    case True
    obtain j where j: "md5_blocks ys (64 - r) (md5_compress st (T @ take (64 - r) ys)) =
          Inr (j, md5_fold (md5_compress st (T @ take (64 - r) ys)) (drop (64 - r) ys))"
        "drop j ys = md5_tail (drop (64 - r) ys)"
      using md5_blocks_fold [OF small True] by blast
    have fold: "md5_fold st (T @ ys) =
        md5_fold (md5_compress st (T @ take (64 - r) ys)) (drop (64 - r) ys)"
      using True r by (subst md5_fold.simps) auto
    have drop: "drop j ys = md5_tail (T @ ys)"
      using True r j(2) md5_tail_drop [of "T @ ys"] by simp
    have len: "length (drop j ys) < 64" unfolding drop by simp
    have "tool_md5_update ctx ys =
        Inr (ctx\<lparr>u32Cnt0 := c0, u32Cnt1 := c1, u32State := md5_fold st (T @ ys),
               szBuffer := drop j ys @ drop (length (drop j ys)) (T @ take (64 - r) ys)\<rparr>)"
      using True r len j(1) buf
      by (simp add: tool_md5_update_def index Let_def c0_def c1_def st_def buf_put_def
          transform_compress fold [unfolded st_def])
    moreover have "md5_inv (xs @ ys) (ctx\<lparr>u32Cnt0 := c0, u32Cnt1 := c1,
        u32State := md5_fold st (T @ ys),
        szBuffer := drop j ys @ drop (length (drop j ys)) (T @ take (64 - r) ys)\<rparr>)"
    proof -
      have "length (drop j ys) = length (xs @ ys) mod 64"
        unfolding drop tail' [symmetric] by simp
      then show ?thesis
        using True r len by (simp add: md5_inv_def cnt st' tail' drop)
    qed
    ultimately show ?thesis by blast
  next
    case False
    have short: "length (T @ ys) < 64" using False r by simp
    have fold: "md5_fold st (T @ ys) = st" using short by (subst md5_fold.simps) (simp only: if_True)
    have tail: "md5_tail (T @ ys) = T @ ys" using short by (rule md5_tail_short)
    have "tool_md5_update ctx ys =
        Inr (ctx\<lparr>u32Cnt0 := c0, u32Cnt1 := c1, szBuffer := T @ ys @ drop (r + length ys) (szBuffer ctx)\<rparr>)"
      using False r buf
      by (simp add: tool_md5_update_def index Let_def c0_def c1_def buf_put_def)
    moreover have "length (xs @ ys) mod 64 = r + length ys"
    proof -
      have "length (md5_tail (xs @ ys)) = length (T @ ys)" unfolding tail' tail ..
      with r show ?thesis by simp
    qed
    ultimately show ?thesis
      using False r buf by (auto simp: md5_inv_def cnt st' tail' tail fold [unfolded st_def] st_def)
  qed
qed

lemma md5_padding:
  "\<exists>ctx. tool_md5_update (tool_md5_init junk) xs = Inr ctx \<and> md5_inv xs ctx
     \<Longrightarrow> tool_md5_calc junk xs = Inr (md5_spec xs)"
proof -
  assume "\<exists>ctx. tool_md5_update (tool_md5_init junk) xs = Inr ctx \<and> md5_inv xs ctx"
  then obtain ctx where ctx: "tool_md5_update (tool_md5_init junk) xs = Inr ctx" "md5_inv xs ctx"
    by blast
  define n where "n = length xs mod 64"
  define padLen where "padLen = (if n < 56 then 56 - n else 120 - n)"
  have n: "n < 64" by (simp add: n_def)
  have index: "unat (drop_bit 3 (u32Cnt0 ctx) AND 0x3F) = n"
    using ctx(2) md5_index [of "length xs"] by (simp only: md5_inv_def n_def)
  have pad: "take padLen PADDING = 0x80 # replicate ((119 - length xs mod 64) mod 64) 0"
  proof -
    have "padLen = Suc ((119 - n) mod 64)" "(119 - n) mod 64 \<le> 63"
      using n by (auto simp: padLen_def le_mod_geq)
    then show ?thesis by (simp add: PADDING_def n_def)
  qed
  have "length (take padLen PADDING) + 63 < 2 ^ 32" by (simp add: PADDING_def)
  from md5_update_inv [OF ctx(2) this] obtain ctx1 where
    ctx1: "tool_md5_update ctx (take padLen PADDING) = Inr ctx1" "md5_inv (xs @ take padLen PADDING) ctx1"
    by blast
  define bits where "bits = tool_md5_encode [u32Cnt0 ctx, u32Cnt1 ctx]"
  have "length bits + 63 < 2 ^ 32" by (simp add: bits_def)
  from md5_update_inv [OF ctx1(2) this] obtain ctx2 where
    ctx2: "tool_md5_update ctx1 bits = Inr ctx2" "md5_inv ((xs @ take padLen PADDING) @ bits) ctx2"
    by blast
  have "(xs @ take padLen PADDING) @ bits = md5_pad xs"
    using ctx(2) by (simp add: bits_def md5_inv_def pad md5_pad_def)
  with ctx2(2) have "tool_md5_encode (words_of_state (u32State ctx2)) = md5_spec xs"
    by (simp add: md5_inv_def md5_spec_def)
  then show ?thesis
    by (simp add: tool_md5_calc_def ctx(1) tool_md5_final_def index Let_def
        padLen_def [symmetric] ctx1(1) bits_def [symmetric] ctx2(1) del: tool_md5_encode.simps)
qed

lemma md5_calc_refines:
  "length junk = 64 \<Longrightarrow> length xs + 63 < 2 ^ 32 \<Longrightarrow> tool_md5_calc junk xs = Inr (md5_spec xs)"
  using md5_update_inv [OF md5_inv_init] md5_padding [of junk xs] by simp

lemma md5_abc_block:
  "md5_compress (0x67452301, 0xEFCDAB89, 0x98BADCFE, 0x10325476)
     ([0x61, 0x62, 0x63, 0x80] @ replicate 52 0 @ [0x18, 0, 0, 0, 0, 0, 0, 0]) =
   (0x98500190, 0xB04FD23C, 0x7D3F96D6, 0x727FE128)"
  by code_simp

lemma md5_encode_abc:
  "tool_md5_encode [0x98500190, 0xB04FD23C, 0x7D3F96D6, 0x727FE128] =
     [0x90, 0x01, 0x50, 0x98, 0x3C, 0xD2, 0x4F, 0xB0,
      0xD6, 0x96, 0x3F, 0x7D, 0x28, 0xE1, 0x7F, 0x72]"
  by code_simp

lemma md5_pad_abc:
  "md5_pad [0x61, 0x62, 0x63] =
     [0x61, 0x62, 0x63, 0x80] @ replicate 52 0 @ [0x18, 0, 0, 0, 0, 0, 0, 0]"
proof -
  have "tool_md5_encode [24, 0] = [0x18, 0, 0, 0, 0, 0, 0, 0]" by code_simp
  then show ?thesis by (simp add: md5_pad_def del: tool_md5_encode.simps)
qed

lemma md5_spec_abc:
  "md5_spec [0x61, 0x62, 0x63] =
     tool_md5_encode [0x98500190, 0xB04FD23C, 0x7D3F96D6, 0x727FE128]"
proof -
  let ?b = "[0x61, 0x62, 0x63, 0x80] @ replicate 52 0 @ [0x18, 0, 0, 0, 0, 0, 0, 0] :: u8 list"
  have "length ?b = 64" by simp
  then have "md5_fold st ?b = md5_compress st ?b" for st
    by (subst md5_fold.simps, subst md5_fold.simps) simp
  then show ?thesis
    unfolding md5_spec_def md5_pad_abc by (simp only: md5_abc_block words_of_state.simps)
qed

section \<open>Properties\<close>

text \<open>C20: The incremental implementation computes the one-shot definition: for every message
  of less than \<open>2 ^ 32 - 63\<close> bytes the digest is the padded message folded through the block
  transformation, whatever the uninitialised buffer held; no buffer is left.\<close>

theorem tool_md5_calc_spec:
  assumes "length junk = 64" "length xs + 63 < 2 ^ 32"
  shows "tool_md5_calc junk xs = Inr (md5_spec xs)"
  using assms by (rule md5_calc_refines)

theorem tool_md5_calc_spec_witness:
  "tool_md5_calc (replicate 64 7) [0x61, 0x62, 0x63] = Inr (md5_spec [0x61, 0x62, 0x63])"
  by (rule tool_md5_calc_spec) simp_all

text \<open>Feeding a message in two pieces is feeding it at once: if a context has consumed
  \<open>xs\<close>, updating it with \<open>ys\<close> succeeds and gives a context that has consumed \<open>xs @ ys\<close>.\<close>

theorem tool_md5_update_append:
  assumes "md5_inv xs ctx" "length ys + 63 < 2 ^ 32"
  shows "\<exists>ctx'. tool_md5_update ctx ys = Inr ctx' \<and> md5_inv (xs @ ys) ctx'"
  using assms by (rule md5_update_inv)

theorem tool_md5_update_append_witness:
  "\<exists>ctx'. tool_md5_update (tool_md5_init (replicate 64 0)) (replicate 100 1) = Inr ctx'
     \<and> md5_inv ([] @ replicate 100 1) ctx'"
  by (rule tool_md5_update_append) (simp_all add: md5_inv_init)

text \<open>The digest of ''abc'' is the one RFC 1321 lists.\<close>

theorem tool_md5_calc_abc:
  "tool_md5_calc (replicate 64 0) [0x61, 0x62, 0x63] =
     Inr [0x90, 0x01, 0x50, 0x98, 0x3C, 0xD2, 0x4F, 0xB0,
          0xD6, 0x96, 0x3F, 0x7D, 0x28, 0xE1, 0x7F, 0x72]"
  by (simp only: md5_encode_abc [symmetric] md5_spec_abc [symmetric]) (simp add: md5_calc_refines)

text \<open>The third digest format is eight letters and digits whatever the message, and the
  comparison functions built on the digests return 0 exactly when the digests differ and
  -1 when they agree, the reverse of a success code.\<close>

theorem tool_md5_xm_alnum_and_checks:
  assumes "length junk = 64" "length xs + 63 < 2 ^ 32"
  shows "\<exists>out. tool_md5_calc_xm junk xs = Inr out \<and> length out = 8
      \<and> (\<forall>c \<in> set out. 48 \<le> unat c \<and> unat c \<le> 57 \<or> 65 \<le> unat c \<and> unat c \<le> 90
                       \<or> 97 \<le> unat c \<and> unat c \<le> 122)
      \<and> tool_md5_check_xm junk auth xs = Inr (if take 8 auth = out then - 1 else 0)
      \<and> tool_md5_check junk auth xs = Inr (if take 16 auth = md5_spec xs then - 1 else 0)"
proof -
  have alnum: "48 \<le> unat (xm_char x y) \<and> unat (xm_char x y) \<le> 57
      \<or> 65 \<le> unat (xm_char x y) \<and> unat (xm_char x y) \<le> 90
      \<or> 97 \<le> unat (xm_char x y) \<and> unat (xm_char x y) \<le> 122" for x y
  proof -
    define out where "out = (unat x + unat y) mod 62"
    have "out < 62" by (simp add: out_def)
    then show ?thesis
      unfolding xm_char_def out_def [symmetric] Let_def
      by (auto simp: unsigned_of_nat take_bit_eq_mod)
  qed
  have "length (md5_spec xs) = 16"
    by (cases "md5_fold (0x67452301, 0xEFCDAB89, 0x98BADCFE, 0x10325476) (md5_pad xs)")
      (simp add: md5_spec_def del: tool_md5_encode.simps)
  then show ?thesis
    using assms alnum
    by (simp add: tool_md5_calc_xm_def tool_md5_check_xm_def tool_md5_check_def md5_calc_refines)
qed

theorem tool_md5_xm_alnum_and_checks_witness:
  "\<exists>out. tool_md5_calc_xm (replicate 64 0) [1, 2] = Inr out \<and> length out = 8
      \<and> (\<forall>c \<in> set out. 48 \<le> unat c \<and> unat c \<le> 57 \<or> 65 \<le> unat c \<and> unat c \<le> 90
                       \<or> 97 \<le> unat c \<and> unat c \<le> 122)
      \<and> tool_md5_check_xm (replicate 64 0) [] [1, 2] = Inr (if take 8 [] = out then - 1 else 0)
      \<and> tool_md5_check (replicate 64 0) [] [1, 2] =
          Inr (if take 16 [] = md5_spec [1, 2] then - 1 else 0)"
  by (rule tool_md5_xm_alnum_and_checks) simp_all

end
