(* ===== verification/Tool_Char.thy ===== *)
theory Tool_Char
  imports Nc_Prelude
begin

text \<open>
  The conversions between 16-bit code units and UTF-8 of \<^verbatim>\<open>sab_app/jni/nc/tool_char.c\<close>.
  The encoder is a map over the code units; the decoder walks the bytes up to the NUL and
  faults when a truncated sequence carries it past the end of its input.
\<close>

definition utf8_of_unit :: "u16 \<Rightarrow> u8 list" where
  "utf8_of_unit unicode =
     (if unicode \<le> 0x007F then [ucast unicode]
      else if unicode \<le> 0x07FF then
        [0xC0 OR ucast (drop_bit 6 unicode), 0x80 OR ucast (unicode AND 0x3F)]
      else
        [0xE0 OR ucast (drop_bit 12 unicode), 0x80 OR ucast (drop_bit 6 unicode AND 0x00FF),
         0x80 OR ucast (unicode AND 0x3F)])"

text \<open>The contents of \<open>*out\<close>, with the closing NUL.\<close>

definition unicode_to_utf8 :: "u16 list \<Rightarrow> u8 list" where
  "unicode_to_utf8 us = concat (map utf8_of_unit us) @ [0]"

text \<open>
  The bytes the loop leaves in \<open>result\<close> and the count it adds to \<open>resultsize\<close>. The one-byte
  case advances \<open>tmp\<close> once: the NUL it writes behind the byte is overwritten by the next
  character.
\<close>

fun utf8_loop :: "u8 list \<Rightarrow> (u8 list \<times> nat) outcome" where
  "utf8_loop [] = Inl Fault"
| "utf8_loop (p # s) =
     (if p = 0 then Inr ([], 0)
      else if p \<le> 0x7F then andThen (utf8_loop s) (\<lambda>(r, n). Inr (p # r, n + 2))
      else if p AND 0xE0 = 0xC0 then
        (case s of
           [] \<Rightarrow> Inl Fault
         | p2 # s' \<Rightarrow>
             (let t1 = p AND 0x1F; t2 = p2 AND 0x3F
              in andThen (utf8_loop s') (\<lambda>(r, n).
                   Inr ((t2 OR push_bit 6 (t1 AND 0x03)) # drop_bit 2 t1 # r, n + 2))))
      else if p AND 0xF0 = 0xE0 then
        (case s of
           p2 # p3 # s' \<Rightarrow>
             (let t1 = p AND 0x1F; t2 = p2 AND 0x3F; t3 = p3 AND 0x3F
              in andThen (utf8_loop s') (\<lambda>(r, n).
                   Inr ((push_bit 6 (t2 AND 0x03) OR t3) #
                        (push_bit 4 t1 OR drop_bit 2 t2) # r, n + 2)))
         | _ \<Rightarrow> Inl Fault)
      else utf8_loop s)"

definition utf8_to_unicode :: "u8 list \<Rightarrow> (u8 list \<times> nat) outcome" where
  "utf8_to_unicode s = andThen (utf8_loop s) (\<lambda>(r, n). Inr (r @ [0, 0], n + 2))"

section \<open>One code unit\<close>

definition le_bytes :: "u16 \<Rightarrow> u8 list" where
  "le_bytes u = [ucast u, ucast (drop_bit 8 u)]"

lemma bits_above:
  fixes u :: u16
  assumes "unat u < 2 ^ n" "n \<le> k"
  shows "\<not> bit u k"
proof -
  have "unat u < 2 ^ k" using assms by (meson less_le_trans one_le_numeral power_increasing)
  then have "\<not> bit (unat u) k" by (simp add: bit_iff_odd)
  then show ?thesis by (auto simp: bit_unsigned_iff dest: bit_imp_le_length)
qed

lemma le_7F: "u \<le> 0x7F \<longleftrightarrow> unat (u :: u16) < 2 ^ 7"
  by (auto simp: word_le_nat_alt)

lemma le_7FF: "u \<le> 0x7FF \<longleftrightarrow> unat (u :: u16) < 2 ^ 11"
  by (auto simp: word_le_nat_alt)

text \<open>The lead and continuation bytes the decoder sees.\<close>

lemma two_byte_lead:
  fixes u :: u16
  assumes "unat u < 2 ^ 11"
  shows "(0xC0 OR ucast (drop_bit 6 u) :: u8) AND 0xE0 = 0xC0"
    and "((0xC0 OR ucast (drop_bit 6 u) :: u8) AND 0x1F) = ucast (drop_bit 6 u)"
  using bits_above [OF assms, of 11] bits_above [OF assms, of 12] bits_above [OF assms, of 13]
  by (rule_tac [!] u8_eqI) (simp_all add: bit_simps eval_nat_numeral)

lemma high_bit:
  fixes p :: u8
  assumes "bit p 7"
  shows "p \<noteq> 0" "\<not> p \<le> 0x7F"
proof -
  show "p \<noteq> 0" using assms by auto
  show "\<not> p \<le> 0x7F"
  proof
    assume "p \<le> 0x7F"
    then have "unat p < 2 ^ 7" by (simp add: word_le_nat_alt)
    then have "\<not> bit (unat p) 7" by (simp add: bit_iff_odd)
    with assms show False by (auto simp: bit_unsigned_iff)
  qed
qed

lemma two_byte_value:
  fixes u :: u16
  assumes "unat u < 2 ^ 11"
  shows "((0x80 OR ucast (u AND 0x3F) :: u8) AND 0x3F) OR
           push_bit 6 (((0xC0 OR ucast (drop_bit 6 u)) AND 0x1F) AND 0x03) = ucast u"
    and "drop_bit 2 ((0xC0 OR ucast (drop_bit 6 u) :: u8) AND 0x1F) = ucast (drop_bit 8 u)"
proof -
  have no: "\<not> bit u 11" "\<not> bit u 12" "\<not> bit u 13" "\<not> bit u 14" "\<not> bit u 15"
    by (simp_all add: bits_above [OF assms])
  show "((0x80 OR ucast (u AND 0x3F) :: u8) AND 0x3F) OR
           push_bit 6 (((0xC0 OR ucast (drop_bit 6 u)) AND 0x1F) AND 0x03) = ucast u"
    unfolding two_byte_lead(2) [OF assms]
    by (rule u8_eqI; (simp add: bit_calc no)?; simp add: eval_nat_numeral)
  show "drop_bit 2 ((0xC0 OR ucast (drop_bit 6 u) :: u8) AND 0x1F) = ucast (drop_bit 8 u)"
    unfolding two_byte_lead(2) [OF assms]
    by (rule u8_eqI; (simp add: bit_calc no)?; simp add: eval_nat_numeral)
qed

lemma three_byte_lead:
  "(0xE0 OR ucast (drop_bit 12 (u :: u16)) :: u8) AND 0xE0 = 0xE0"
  "(0xE0 OR ucast (drop_bit 12 (u :: u16)) :: u8) AND 0xF0 = 0xE0"
proof -
  have no: "\<not> bit u 16" "\<not> bit u 17" "\<not> bit u 18" "\<not> bit u 19"
    by (auto dest: bit_imp_le_length)
  show "(0xE0 OR ucast (drop_bit 12 u) :: u8) AND 0xE0 = 0xE0"
    "(0xE0 OR ucast (drop_bit 12 u) :: u8) AND 0xF0 = 0xE0"
    by (rule u8_eqI; (simp add: bit_calc no)?; simp add: eval_nat_numeral)+
qed

lemma three_byte_value:
  fixes u :: u16
  shows "push_bit 6 (((0x80 OR ucast (drop_bit 6 u AND 0x00FF) :: u8) AND 0x3F) AND 0x03) OR
           ((0x80 OR ucast (u AND 0x3F)) AND 0x3F) = ucast u"
    and "push_bit 4 ((0xE0 OR ucast (drop_bit 12 u) :: u8) AND 0x1F) OR
           drop_bit 2 ((0x80 OR ucast (drop_bit 6 u AND 0x00FF)) AND 0x3F) = ucast (drop_bit 8 u)"
  by (rule u8_eqI; (simp add: bit_calc)?; simp add: eval_nat_numeral)+

lemma utf8_loop_unit:
  assumes "\<not> u \<le> 0x7F"
  shows "utf8_loop (utf8_of_unit u @ s) =
           andThen (utf8_loop s) (\<lambda>(r, n). Inr (le_bytes u @ r, n + 2))"
proof (cases "u \<le> 0x07FF")
  case True
  then have small: "unat u < 2 ^ 11" by (simp only: le_7FF)
  define p where "p = (0xC0 OR ucast (drop_bit 6 u) :: u8)"
  have "bit p 7" by (simp add: p_def bit_simps)
  then have "p \<noteq> 0" "\<not> p \<le> 0x7F" by (rule high_bit)+
  moreover have "p AND 0xE0 = 0xC0" unfolding p_def by (rule two_byte_lead [OF small])
  ultimately show ?thesis
    using assms True two_byte_value [OF small]
    by (simp only: utf8_of_unit_def append_Cons append_Nil utf8_loop.simps list.case if_False if_True simp_thms
        p_def [symmetric] Let_def le_bytes_def)
next
  case False
  define p where "p = (0xE0 OR ucast (drop_bit 12 u) :: u8)"
  have "bit p 7" by (simp add: p_def bit_simps)
  then have "p \<noteq> 0" "\<not> p \<le> 0x7F" by (rule high_bit)+
  moreover have "p AND 0xE0 = 0xE0" "p AND 0xF0 = 0xE0"
    unfolding p_def by (rule three_byte_lead)+
  moreover have "(0xE0 :: u8) \<noteq> 0xC0" by simp
  ultimately show ?thesis
    using assms False three_byte_value [of u]
    by (simp only: utf8_of_unit_def append_Cons append_Nil utf8_loop.simps list.case if_False if_True simp_thms
        p_def [symmetric] Let_def le_bytes_def)
qed

lemma utf8_loop_units:
  "list_all (\<lambda>u. \<not> u \<le> 0x7F) us \<Longrightarrow>
     utf8_loop (concat (map utf8_of_unit us) @ [0]) = Inr (concat (map le_bytes us), 2 * length us)"
  by (induction us) (simp_all add: utf8_loop_unit del: utf8_loop.simps(2), simp)

lemma utf8_loop_ascii:
  "list_all (\<lambda>c. c \<noteq> 0 \<and> c \<le> 0x7F) s \<Longrightarrow> utf8_loop (s @ [0]) = Inr (s, 2 * length s)"
  by (induction s) auto

fun le_units :: "u8 list \<Rightarrow> u16 list" where
  "le_units (a # b # s) = (ucast a OR push_bit 8 (ucast b)) # le_units s"
| "le_units _ = []"

definition utf8_units :: "u8 list \<Rightarrow> u16 list option" where
  "utf8_units s = (case utf8_to_unicode s of Inl _ \<Rightarrow> None | Inr (r, n) \<Rightarrow> Some (le_units (take (n - 2) r)))"

lemma le_unit: "ucast (ucast u :: u8) OR push_bit 8 (ucast (ucast (drop_bit 8 u) :: u8)) = (u :: u16)"
  by (rule u16_eqI) (auto simp: bit_simps)

lemma le_units_bytes: "le_units (concat (map le_bytes us)) = us"
  by (induction us) (simp_all add: le_bytes_def le_unit)

lemma length_le_bytes: "length (concat (map le_bytes us)) = 2 * length us"
  by (induction us) (simp_all add: le_bytes_def)

interpretation utf8: codec unicode_to_utf8 utf8_units "list_all (\<lambda>u. \<not> u \<le> 0x7F)"
  by unfold_locales
    (simp add: utf8_units_def utf8_to_unicode_def unicode_to_utf8_def utf8_loop_units
      le_units_bytes length_le_bytes)

section \<open>Properties\<close>

text \<open>Code units outside ASCII survive the conversion to UTF-8 and back: the decoder
  writes each of them in little-endian order, closes with a 16-bit NUL, and returns the
  size in bytes.\<close>

theorem utf8_to_unicode_to_utf8:
  assumes "list_all (\<lambda>u. \<not> u \<le> 0x7F) us"
  shows "utf8_to_unicode (unicode_to_utf8 us) =
           Inr (concat (map le_bytes us) @ [0, 0], 2 * length us + 2)"
  using utf8_loop_units [OF assms] by (simp add: utf8_to_unicode_def unicode_to_utf8_def)

theorem utf8_to_unicode_to_utf8_witness:
  "utf8_to_unicode (unicode_to_utf8 [0x5B57, 0xE9]) = Inr ([0x57, 0x5B, 0xE9, 0] @ [0, 0], 6)"
  using utf8_to_unicode_to_utf8 [of "[0x5B57, 0xE9]"] by (simp add: le_bytes_def)

text \<open>ASCII text does not survive: the decoder packs one byte per character where it
  counts two, so the result is the input bytes and two NULs, not 16-bit units.\<close>

theorem utf8_to_unicode_ascii:
  assumes "list_all (\<lambda>c. c \<noteq> 0 \<and> c \<le> 0x7F) s"
  shows "utf8_to_unicode (s @ [0]) = Inr (s @ [0, 0], 2 * length s + 2)"
  using utf8_loop_ascii [OF assms] by (simp add: utf8_to_unicode_def)

theorem utf8_to_unicode_ascii_witness:
  "utf8_to_unicode ([0x61, 0x62] @ [0]) = Inr ([0x61, 0x62] @ [0, 0], 6)"
  using utf8_to_unicode_ascii [of "[0x61, 0x62]"] by simp

text \<open>The second byte of a three-byte sequence is a UTF-8 continuation byte only when
  bit 12 of the code unit is clear: the mask \<open>0x00ff\<close> keeps two bits too many.\<close>

theorem utf8_of_unit_continuation:
  assumes "\<not> u \<le> 0x07FF"
  shows "(utf8_of_unit u ! 1) AND 0xC0 = 0x80 \<longleftrightarrow> \<not> bit u 12"
proof -
  have "\<not> u \<le> 0x7F" using assms by (auto simp: le_7F le_7FF)
  then have nth: "utf8_of_unit u ! 1 = 0x80 OR ucast (drop_bit 6 u AND 0x00FF)"
    using assms by (simp only: utf8_of_unit_def if_False) simp
  have "bit ((0x80 OR ucast (drop_bit 6 u AND 0x00FF) :: u8) AND 0xC0) 6 = bit u 12"
    by (simp add: bit_simps)
  moreover have "\<not> bit (0x80 :: u8) 6" by simp
  ultimately have "(utf8_of_unit u ! 1) AND 0xC0 = 0x80 \<Longrightarrow> \<not> bit u 12"
    unfolding nth by metis
  moreover have "\<not> bit u 12 \<Longrightarrow> (utf8_of_unit u ! 1) AND 0xC0 = 0x80"
    unfolding nth by (rule u8_eqI) (simp_all add: bit_simps eval_nat_numeral)
  ultimately show ?thesis by blast
qed

theorem utf8_of_unit_continuation_witness:
  "\<not> ((utf8_of_unit 0x5B57 ! 1) AND 0xC0 = 0x80)"
  using utf8_of_unit_continuation [of "0x5B57"] by simp

end
