(* ===== verification/Tool_Sysf.thy ===== *)
theory Tool_Sysf
  imports C_Lib "HOL-Library.Multiset"
begin

text \<open>
  The parts of \<^verbatim>\<open>sab_app/jni/nc/tool_sysf.c\<close> that keep state or compute: the counted
  allocator and the thread, mutex and condition counters (a record), the tick arithmetic, the
  hexadecimal text of byte strings, the IPv4 test, the xor masks and the shuffle. What the
  operating system answers (addresses, \<open>pthread\<close> results, the clock, \<open>rand\<close>) is an argument.
\<close>

section \<open>Counted resources\<close>

text \<open>
  An allocated block, by the address \<open>malloc\<close> returned: the size word in front and the
  bytes the caller gets.
\<close>

record heap_block =
  psize :: u32
  payload :: "u8 list"

record sysf =
  g_tool_mem_count :: int
  g_tool_mem_size :: u32
  g_tool_thread_count :: int
  g_tool_mutex_count :: int
  g_tool_cond_count :: int
  heap :: "nat \<rightharpoonup> heap_block"

definition sysf_start :: sysf where
  "sysf_start = \<lparr> g_tool_mem_count = 0, g_tool_mem_size = 0, g_tool_thread_count = 0,
     g_tool_mutex_count = 0, g_tool_cond_count = 0, heap = Map.empty \<rparr>"

text \<open>
  \<open>malloc\<close>'s answer and the contents of fresh memory are arguments. The size is
  computed in 32 bits: when it wraps, the size word does not fit the block.
\<close>

definition tool_mem_malloc ::
  "nat option \<Rightarrow> u8 list \<Rightarrow> u32 \<Rightarrow> bool \<Rightarrow> sysf \<Rightarrow> (nat \<times> sysf) outcome" where
  "tool_mem_malloc answer junk sz isInit s =
     (case answer of
        None \<Rightarrow> Inl Exit
      | Some true_ptr \<Rightarrow>
          if unat (sz + 4) < 4 then Inl Fault
          else Inr (true_ptr + 4,
            s\<lparr> heap := (heap s)(true_ptr \<mapsto>
                 \<lparr> psize = sz + 4,
                   payload = (if isInit then replicate (unat sz) 0 else junk) \<rparr>),
               g_tool_mem_count := g_tool_mem_count s + 1,
               g_tool_mem_size := g_tool_mem_size s + (sz + 4) \<rparr>))"

text \<open>Freeing what was not allocated is undefined; NULL ends the program.\<close>

definition tool_mem_free :: "nat option \<Rightarrow> sysf \<Rightarrow> sysf outcome" where
  "tool_mem_free ptr s =
     (case ptr of
        None \<Rightarrow> Inl Exit
      | Some p \<Rightarrow>
          if p < 4 then Inl Fault
          else (case heap s (p - 4) of
            None \<Rightarrow> Inl Fault
          | Some b \<Rightarrow>
              Inr (s\<lparr> heap := (heap s)(p - 4 := None),
                      g_tool_mem_count := g_tool_mem_count s - 1,
                      g_tool_mem_size := g_tool_mem_size s - psize b \<rparr>)))"

text \<open>The five values written through the pointers, in the order of the parameters.\<close>

definition tool_mem_getState :: "sysf \<Rightarrow> int \<times> u32 \<times> int \<times> int \<times> int" where
  "tool_mem_getState s =
     (g_tool_mem_count s, g_tool_mem_size s, g_tool_thread_count s,
      g_tool_thread_count s, g_tool_thread_count s)"

text \<open>\<open>ret\<close> is what the \<open>pthread\<close> call returned.\<close>

definition tool_thread_create :: "int \<Rightarrow> sysf \<Rightarrow> int \<times> sysf" where
  "tool_thread_create ret s =
     (if ret = 0 then (0, s\<lparr>g_tool_thread_count := g_tool_thread_count s + 1\<rparr>) else (- 1, s))"

definition tool_thread_join :: "int \<Rightarrow> sysf \<Rightarrow> int \<times> sysf" where
  "tool_thread_join ret s =
     (if ret = 0 then (0, s\<lparr>g_tool_thread_count := g_tool_thread_count s - 1\<rparr>) else (- 1, s))"

definition tool_thread_initMutex :: "int \<Rightarrow> sysf \<Rightarrow> int \<times> sysf" where
  "tool_thread_initMutex ret s =
     (if ret = 0 then (0, s\<lparr>g_tool_mutex_count := g_tool_mutex_count s + 1\<rparr>) else (- 1, s))"

definition tool_thread_doneMutex :: "int \<Rightarrow> sysf \<Rightarrow> int \<times> sysf" where
  "tool_thread_doneMutex ret s =
     (if ret = 0 then (0, s\<lparr>g_tool_mutex_count := g_tool_mutex_count s - 1\<rparr>) else (- 1, s))"

definition tool_thread_initCond :: "int \<Rightarrow> sysf \<Rightarrow> int \<times> sysf" where
  "tool_thread_initCond ret s =
     (if ret = 0 then (0, s\<lparr>g_tool_cond_count := g_tool_cond_count s + 1\<rparr>) else (- 1, s))"

definition tool_thread_doneCond :: "int \<Rightarrow> sysf \<Rightarrow> int \<times> sysf" where
  "tool_thread_doneCond ret s =
     (if ret = 0 then (0, s\<lparr>g_tool_cond_count := g_tool_cond_count s - 1\<rparr>) else (- 1, s))"

lemmas thread_ops = tool_thread_create_def tool_thread_join_def tool_thread_initMutex_def
  tool_thread_doneMutex_def tool_thread_initCond_def tool_thread_doneCond_def

text \<open>The counters agree with the blocks that are allocated.\<close>

definition sysf_inv :: "sysf \<Rightarrow> bool" where
  "sysf_inv s \<longleftrightarrow>
     finite (dom (heap s)) \<and> g_tool_mem_count s = int (card (dom (heap s))) \<and>
     g_tool_mem_size s = (\<Sum>a\<in>dom (heap s). psize (the (heap s a)))"

lemma sysf_inv_start: "sysf_inv sysf_start"
  by (simp add: sysf_inv_def sysf_start_def)

lemma sum_upd_new:
  assumes "finite (dom h)" "a \<notin> dom h"
  shows "(\<Sum>x\<in>dom (h(a \<mapsto> b)). psize (the ((h(a \<mapsto> b)) x))) =
         psize b + (\<Sum>x\<in>dom h. psize (the (h x)))"
proof -
  have "(\<Sum>x\<in>dom h. psize (the ((h(a \<mapsto> b)) x))) = (\<Sum>x\<in>dom h. psize (the (h x)))"
    using assms(2) by (intro sum.cong) auto
  then show ?thesis using assms by simp
qed

lemma sum_upd_none:
  assumes "finite (dom h)" "h a = Some b"
  shows "(\<Sum>x\<in>dom (h(a := None)). psize (the ((h(a := None)) x))) =
         (\<Sum>x\<in>dom h. psize (the (h x))) - psize b"
proof -
  have "(\<Sum>x\<in>dom h - {a}. psize (the ((h(a := None)) x))) = (\<Sum>x\<in>dom h - {a}. psize (the (h x)))"
    by (intro sum.cong) auto
  moreover have "(\<Sum>x\<in>dom h. psize (the (h x))) = psize b + (\<Sum>x\<in>dom h - {a}. psize (the (h x)))"
    using assms by (subst sum.remove [of _ a]) auto
  ultimately show ?thesis by simp
qed

lemma malloc_inv:
  assumes "sysf_inv s" "heap s a = None" "tool_mem_malloc (Some a) junk sz z s = Inr (p, s')"
  shows "sysf_inv s'"
proof -
  have fin: "finite (dom (heap s))" "a \<notin> dom (heap s)"
    using assms by (auto simp: sysf_inv_def)
  show ?thesis
    using assms sum_upd_new [OF fin]
    by (auto simp: sysf_inv_def tool_mem_malloc_def Let_def domIff split: if_splits)
qed

lemma free_inv:
  assumes "sysf_inv s" "tool_mem_free ptr s = Inr s'"
  shows "sysf_inv s'"
proof -
  from assms(2) obtain p b where p: "ptr = Some p" "heap s (p - 4) = Some b"
    by (auto simp: tool_mem_free_def split: option.splits if_splits)
  have fin: "finite (dom (heap s))" using assms(1) by (simp add: sysf_inv_def)
  have "card (dom (heap s)) > 0"
    using fin p(2) by (auto simp: card_gt_0_iff)
  then show ?thesis
    using assms p sum_upd_none [OF fin p(2)]
    by (auto simp: sysf_inv_def tool_mem_free_def card_Diff_singleton_if
        split: option.splits if_splits)
qed

section \<open>Ticks\<close>

text \<open>
  The clock is the argument \<open>now\<close> (seconds, microseconds). The difference is stored into a
  32-bit \<^verbatim>\<open>int\<close>.
\<close>

definition tick_elapsed :: "int \<times> int \<Rightarrow> int \<Rightarrow> int \<Rightarrow> int" where
  "tick_elapsed now tv_sec tv_usec =
     (case now of (sec, usec) \<Rightarrow> (sec - tv_sec) * 1000 * 1000 + (usec - tv_usec))"

definition tool_sysf_isTickTimeout :: "int \<times> int \<Rightarrow> int \<Rightarrow> int \<Rightarrow> int \<Rightarrow> int" where
  "tool_sysf_isTickTimeout now tv_sec tv_usec inteval_usec =
     (let result = int32 (tick_elapsed now tv_sec tv_usec)
      in if result < 0 \<or> result > inteval_usec then 1 else 0)"

text \<open>The microseconds slept.\<close>

definition tool_sysf_waitTickTimeout :: "int \<times> int \<Rightarrow> int \<Rightarrow> int \<Rightarrow> int \<Rightarrow> int" where
  "tool_sysf_waitTickTimeout now tv_sec tv_usec inteval_usec =
     (let result = int32 (tick_elapsed now tv_sec tv_usec);
          wait_usec = inteval_usec - result
      in if wait_usec > 0 \<and> wait_usec < 10 * 1000 * 1000 then wait_usec else 0)"

section \<open>Hexadecimal text\<close>

definition szTable :: string where
  "szTable = ''0123456789abcdef''"

definition tool_str_byte2str :: "u8 list \<Rightarrow> string" where
  "tool_str_byte2str bytes =
     concat (map (\<lambda>b. [szTable ! unat (drop_bit 4 b), szTable ! unat (b AND 0x0F)]) bytes) @ [NUL]"

definition hex_value :: "char \<Rightarrow> u8" where
  "hex_value h =
     (let v = of_char h :: nat
      in if 97 \<le> v \<and> v \<le> 102 then of_nat (v - 97 + 10)
         else if 65 \<le> v \<and> v \<le> 70 then of_nat (v - 65 + 10)
         else if 48 \<le> v \<and> v \<le> 57 then of_nat (v - 48)
         else of_nat v)"

text \<open>The bytes written; both characters of a pair are read before the NUL test.\<close>

fun tool_str_str2byte :: "string \<Rightarrow> nat \<Rightarrow> u8 list outcome" where
  "tool_str_str2byte str 0 = Inr []"
| "tool_str_str2byte (h # l # str) (Suc str_len) =
     (if h = NUL \<or> l = NUL then Inr []
      else andThen (tool_str_str2byte str (str_len - 1)) (\<lambda>byte.
             Inr ((hex_value h * 16 + hex_value l) # byte)))"
| "tool_str_str2byte _ (Suc str_len) = Inl Fault"

text \<open>The same loop over \<open>len\<close> pairs.\<close>

fun tool_str_str2num :: "string \<Rightarrow> nat \<Rightarrow> u8 list outcome" where
  "tool_str_str2num str 0 = Inr []"
| "tool_str_str2num (h # l # str) (Suc len) =
     (if h = NUL \<or> l = NUL then Inr []
      else andThen (tool_str_str2num str len) (\<lambda>num.
             Inr ((hex_value h * 16 + hex_value l) # num)))"
| "tool_str_str2num _ (Suc len) = Inl Fault"

lemma hex_value_table:
  "\<forall>k \<in> set [0..<16]. hex_value (szTable ! k) = of_nat k \<and> szTable ! k \<noteq> NUL"
  unfolding szTable_def hex_value_def by code_simp

lemma nibbles:
  "unat (drop_bit 4 (b :: u8)) < 16" "unat (b AND 0x0F) < 16"
  "of_nat (unat (drop_bit 4 b)) * 16 + of_nat (unat (b AND 0x0F)) = b"
proof -
  have and15: "unat (b AND 0x0F) = unat b mod 16"
  proof -
    have "b AND 0x0F = take_bit 4 b" by (simp add: take_bit_eq_mask mask_eq_exp_minus_1)
    then show ?thesis by (simp only: unsigned_take_bit_eq) (simp add: take_bit_eq_mod)
  qed
  have drop4: "unat (drop_bit 4 b) = unat b div 16"
    unfolding unat_drop_bit_eq by (simp add: drop_bit_eq_div)
  show "unat (drop_bit 4 b) < 16" unfolding drop4 using unat_u8_less [of b] by linarith
  show "unat (b AND 0x0F) < 16" unfolding and15 by simp
  have "of_nat (unat (drop_bit 4 b)) * 16 + of_nat (unat (b AND 0x0F)) =
        (of_nat (unat b div 16 * 16 + unat b mod 16) :: u8)"
    by (simp only: and15 drop4 of_nat_add of_nat_mult of_nat_numeral)
  also have "unat b div 16 * 16 + unat b mod 16 = unat b" by simp
  also have "(of_nat (unat b) :: u8) = b" by simp
  finally show "of_nat (unat (drop_bit 4 b)) * 16 + of_nat (unat (b AND 0x0F)) = b" .
qed

lemma hex_pair [simp]:
  "szTable ! unat (drop_bit 4 b) \<noteq> NUL" "szTable ! unat (b AND 0x0F) \<noteq> NUL"
  "hex_value (szTable ! unat (drop_bit 4 b)) * 16 + hex_value (szTable ! unat (b AND 0x0F)) = b"
proof -
  have "hex_value (szTable ! k) = of_nat k \<and> szTable ! k \<noteq> NUL" if "k < 16" for k
    using hex_value_table that by simp
  note at = this [OF nibbles(1)] this [OF nibbles(2)]
  show "szTable ! unat (drop_bit 4 b) \<noteq> NUL" "szTable ! unat (b AND 0x0F) \<noteq> NUL"
    using at by blast+
  show "hex_value (szTable ! unat (drop_bit 4 b)) * 16 + hex_value (szTable ! unat (b AND 0x0F)) = b"
    by (simp only: at nibbles(3))
qed

lemma str2byte_byte2str:
  "tool_str_str2byte (concat (map (\<lambda>b. [szTable ! unat (drop_bit 4 b), szTable ! unat (b AND 0x0F)]) bs)
     @ t) (2 * length bs) = Inr bs"
  by (induction bs) simp_all

lemma str2num_byte2str:
  "tool_str_str2num (concat (map (\<lambda>b. [szTable ! unat (drop_bit 4 b), szTable ! unat (b AND 0x0F)]) bs)
     @ t) (length bs) = Inr bs"
  by (induction bs) simp_all

lemma length_byte2str: "length (tool_str_byte2str bs) = 2 * length bs + 1"
  unfolding tool_str_byte2str_def by (induction bs) simp_all

definition hex_bytes :: "string \<Rightarrow> u8 list option" where
  "hex_bytes s = (case tool_str_str2byte s (length s - 1) of Inl _ \<Rightarrow> None | Inr bs \<Rightarrow> Some bs)"

interpretation hex: codec tool_str_byte2str hex_bytes "\<lambda>_. True"
  by unfold_locales
    (simp add: hex_bytes_def length_byte2str, simp add: tool_str_byte2str_def str2byte_byte2str)

section \<open>Addresses and masks\<close>

text \<open>\<^verbatim>\<open>sscanf(str, "%d.%d.%d.%d", ...)\<close>: the numbers converted, at most four.\<close>

fun scan_dots :: "nat \<Rightarrow> string \<Rightarrow> int list" where
  "scan_dots 0 s = []"
| "scan_dots (Suc n) s =
     (case scan_int s of
        None \<Rightarrow> []
      | Some (i, s1) \<Rightarrow>
          i # (case scan_char (CHR ''.'') s1 of None \<Rightarrow> [] | Some s2 \<Rightarrow> scan_dots n s2))"

definition tool_str_isIpv4 :: "string option \<Rightarrow> int" where
  "tool_str_isIpv4 str =
     (case str of
        None \<Rightarrow> 0
      | Some s \<Rightarrow>
          (case scan_dots 4 s of
             [num1, num2, num3, num4] \<Rightarrow>
               if num1 \<le> 0 \<or> num1 > 255 \<or> num2 < 0 \<or> num2 > 255 \<or>
                  num3 < 0 \<or> num3 > 255 \<or> num4 < 0 \<or> num4 > 255 then 0 else 1
           | _ \<Rightarrow> 0))"

definition tool_str_xorInt32 :: "u32 \<Rightarrow> u32" where
  "tool_str_xorInt32 data = (let i = 0x51484B4A in data XOR i)"

definition tool_str_xorInt16 :: "u16 \<Rightarrow> u16" where
  "tool_str_xorInt16 data = (let i = 0x4B4A in data XOR i)"

interpretation xor32: codec tool_str_xorInt32 "\<lambda>d. Some (tool_str_xorInt32 d)" "\<lambda>_. True"
  by unfold_locales (simp add: tool_str_xorInt32_def ac_simps)

interpretation xor16: codec tool_str_xorInt16 "\<lambda>d. Some (tool_str_xorInt16 d)" "\<lambda>_. True"
  by unfold_locales (simp add: tool_str_xorInt16_def ac_simps)

text \<open>The printed form of an address.\<close>

definition dotted :: "int \<Rightarrow> int \<Rightarrow> int \<Rightarrow> int \<Rightarrow> string" where
  "dotted a b c d =
     print_int a @ ''.'' @ print_int b @ ''.'' @ print_int c @ ''.'' @ print_int d"

lemma scan_dots_step:
  "scan_dots (Suc n) (print_int i @ CHR ''.'' # s) = i # scan_dots n s"
  by (simp add: scan_int_print_int scan_char_def)

lemma scan_dots_end:
  "s = [] \<or> \<not> is_digit (hd s) \<Longrightarrow> scan_dots (Suc 0) (print_int i @ s) = [i]"
  by (simp add: scan_int_print_int split: option.split)

lemma scan_dotted:
  "s = [] \<or> \<not> is_digit (hd s) \<Longrightarrow> scan_dots 4 (dotted a b c d @ s) = [a, b, c, d]"
proof -
  assume "s = [] \<or> \<not> is_digit (hd s)"
  moreover have "(4 :: nat) = Suc (Suc (Suc (Suc 0)))" by simp
  ultimately show ?thesis
    unfolding dotted_def by (simp only: append.assoc append_Cons append_Nil scan_dots_step scan_dots_end)
qed

section \<open>The shuffle\<close>

definition swap :: "nat \<Rightarrow> nat \<Rightarrow> 'a list \<Rightarrow> 'a list" where
  "swap i pos array = (let tmp = array ! i in (array[i := array ! pos])[pos := tmp])"

text \<open>\<open>rnd i\<close> is the value \<open>rand\<close> returns in round \<open>i\<close> after \<open>srand (seed)\<close>.\<close>

definition tool_ran_wash :: "(nat \<Rightarrow> nat) \<Rightarrow> nat \<Rightarrow> nat list" where
  "tool_ran_wash rnd len =
     fold (\<lambda>i array. swap i (rnd i mod (len - 1)) array) [0..<len - 1] [0..<len]"

lemma length_swap [simp]: "length (swap i pos xs) = length xs"
  by (simp add: swap_def Let_def)

lemma mset_swap_eq:
  "i < length xs \<Longrightarrow> pos < length xs \<Longrightarrow> mset (swap i pos xs) = mset xs"
  by (simp add: swap_def Let_def mset_swap)

lemma swap_other: "k \<noteq> i \<Longrightarrow> k \<noteq> pos \<Longrightarrow> swap i pos xs ! k = xs ! k"
  by (simp add: swap_def Let_def)

lemma wash_fold:
  assumes "set is \<subseteq> {..<n}" "length xs = Suc n"
  shows "mset (fold (\<lambda>i. swap i (rnd i mod n)) is xs) = mset xs
       \<and> length (fold (\<lambda>i. swap i (rnd i mod n)) is xs) = Suc n
       \<and> fold (\<lambda>i. swap i (rnd i mod n)) is xs ! n = xs ! n"
  using assms
proof (induction "is" arbitrary: xs)
  case (Cons i "is")
  then have i: "i < n" by simp
  then have pos: "rnd i mod n < n" by simp
  have "mset (swap i (rnd i mod n) xs) = mset xs" "swap i (rnd i mod n) xs ! n = xs ! n"
  proof -
    have "rnd i mod n < length xs" "n \<noteq> i" "n \<noteq> rnd i mod n"
      using i pos Cons.prems(2) by linarith+
    then show "mset (swap i (rnd i mod n) xs) = mset xs" "swap i (rnd i mod n) xs ! n = xs ! n"
      using i Cons.prems(2) by (simp_all add: mset_swap_eq swap_other)
  qed
  with Cons show ?case by simp
qed simp

lemma wash_mset: "mset (tool_ran_wash rnd len) = mset [0..<len]"
  and wash_last: "len > 0 \<Longrightarrow> tool_ran_wash rnd len ! (len - 1) = len - 1"
proof -
  show "mset (tool_ran_wash rnd len) = mset [0..<len]"
  proof (cases len)
    case (Suc n)
    have "set [0..<n] \<subseteq> {..<n}" by auto
    from wash_fold [OF this, of "[0..<len]" rnd] Suc show ?thesis
      by (simp add: tool_ran_wash_def del: upt_Suc mset_upt)
  qed (simp add: tool_ran_wash_def)
  assume "len > 0"
  then obtain n where n: "len = Suc n" by (cases len) auto
  have "set [0..<n] \<subseteq> {..<n}" by auto
  from wash_fold [OF this, of "[0..<len]" rnd] n show "tool_ran_wash rnd len ! (len - 1) = len - 1"
    by (simp add: tool_ran_wash_def del: upt_Suc mset_upt)
qed

lemma wash_length: "length (tool_ran_wash rnd len) = len"
  using arg_cong [OF wash_mset, of size] by simp

section \<open>Properties\<close>

text \<open>C27: The allocation counters are exact: from a state in which the block count and the byte count
  agree with the allocated blocks, allocating at a fresh address adds one to the count and the block
  with its size word to the bytes; releasing any allocated block, the new one or an older one, takes
  out that block alone with its bytes, and the counters agree again; releasing the new block restores
  the state; and releasing an address that no block starts at is undefined.\<close>

theorem sysf_counters:
  assumes "sysf_inv s" "heap s a = None"
    and "tool_mem_malloc (Some a) junk sz z s = Inr (p, s1)"
  shows "sysf_inv s1 \<and> g_tool_mem_count s1 = g_tool_mem_count s + 1 \<and> g_tool_mem_size s1 = g_tool_mem_size s + (sz + 4)
     \<and> tool_mem_free (Some p) s1 = Inr s
     \<and> (\<forall>b blk. heap s1 b = Some blk \<longrightarrow> (\<exists>s2. tool_mem_free (Some (b + 4)) s1 = Inr s2 \<and> sysf_inv s2
          \<and> heap s2 = (heap s1)(b := None) \<and> g_tool_mem_count s2 = g_tool_mem_count s1 - 1
          \<and> g_tool_mem_size s2 = g_tool_mem_size s1 - psize blk))
     \<and> (\<forall>b. heap s1 b = None \<longrightarrow> tool_mem_free (Some (b + 4)) s1 = Inl Fault)"
proof -
  have s1: "sysf_inv s1" using assms by (rule malloc_inv)
  have "p = a + 4" and blk: "s1 = s\<lparr>heap := (heap s)(a \<mapsto> \<lparr> psize = sz + 4,
          payload = (if z then replicate (unat sz) 0 else junk) \<rparr>),
      g_tool_mem_count := g_tool_mem_count s + 1, g_tool_mem_size := g_tool_mem_size s + (sz + 4)\<rparr>"
    using assms(3) by (auto simp: tool_mem_malloc_def split: if_splits)
  moreover have "(heap s)(a := None) = heap s" using assms(2) by (simp add: fun_upd_idem)
  ultimately have "tool_mem_free (Some p) s1 = Inr s" by (simp add: tool_mem_free_def)
  moreover have "\<exists>s2. tool_mem_free (Some (b + 4)) s1 = Inr s2 \<and> sysf_inv s2
      \<and> heap s2 = (heap s1)(b := None) \<and> g_tool_mem_count s2 = g_tool_mem_count s1 - 1
      \<and> g_tool_mem_size s2 = g_tool_mem_size s1 - psize k" if k: "heap s1 b = Some k" for b k
  proof -
    obtain s2 where s2: "tool_mem_free (Some (b + 4)) s1 = Inr s2" using k by (simp add: tool_mem_free_def)
    with free_inv [OF s1 s2] k show ?thesis by (auto simp: tool_mem_free_def)
  qed
  ultimately show ?thesis using s1 blk by (auto simp: tool_mem_free_def)
qed

text \<open>Two blocks are allocated and the older one is released: the younger one stays, and is counted.\<close>

theorem sysf_counters_witness:
  "\<exists>s0 s1 s2. tool_mem_malloc (Some 16) [] 8 True sysf_start = Inr (20, s0)
     \<and> tool_mem_malloc (Some 64) [] 100 True s0 = Inr (68, s1) \<and> g_tool_mem_count s1 = 2 \<and> g_tool_mem_size s1 = 116
     \<and> tool_mem_free (Some 20) s1 = Inr s2 \<and> sysf_inv s2
     \<and> g_tool_mem_count s2 = 1 \<and> g_tool_mem_size s2 = 104 \<and> dom (heap s2) = {64}"
proof -
  obtain s0 where s0: "tool_mem_malloc (Some 16) [] 8 True sysf_start = Inr (20, s0)"
    by (simp add: tool_mem_malloc_def)
  then have i: "sysf_inv s0" using malloc_inv [OF sysf_inv_start _ s0] by (simp add: sysf_start_def)
  obtain s1 where s1: "tool_mem_malloc (Some 64) [] 100 True s0 = Inr (68, s1)"
    by (simp add: tool_mem_malloc_def)
  have h: "heap s0 64 = None" "heap s1 16 = Some \<lparr> psize = 12, payload = replicate 8 0 \<rparr>"
      "g_tool_mem_count s0 = 1" "g_tool_mem_size s0 = 12" "dom (heap s1) = {16, 64}"
    using s0 s1 by (auto simp: tool_mem_malloc_def sysf_start_def split: if_splits)
  note c = sysf_counters [OF i h(1) s1]
  with h(2) obtain s2 where "tool_mem_free (Some (16 + 4)) s1 = Inr s2" "sysf_inv s2"
      "heap s2 = (heap s1)(16 := None)" "g_tool_mem_count s2 = g_tool_mem_count s1 - 1"
      "g_tool_mem_size s2 = g_tool_mem_size s1 - 12" by fastforce
  moreover from c h(3,4) have "g_tool_mem_count s1 = 2" "g_tool_mem_size s1 = 116" by simp_all
  ultimately show ?thesis using s0 s1 h(5) by (intro exI [of _ s0] exI [of _ s1] exI [of _ s2]) auto
qed

text \<open>The state report is wrong for mutexes and conditions: after any number of mutex and
  condition initialisations it still shows the thread count in their place.\<close>

theorem tool_mem_getState_reports_threads:
  "tool_mem_getState (snd (tool_thread_initCond 0 (snd (tool_thread_initMutex 0 s)))) =
     (g_tool_mem_count s, g_tool_mem_size s, g_tool_thread_count s,
      g_tool_thread_count s, g_tool_thread_count s)"
  by (simp add: tool_mem_getState_def thread_ops)

text \<open>A tick times out exactly when the interval has passed, as long as less than
  \<open>2 ^ 31\<close> microseconds have; a clock set back counts as a timeout; and an elapsed time that
  is a multiple of \<open>2 ^ 32\<close> microseconds too long is taken for the remainder.\<close>

theorem tool_sysf_isTickTimeout_range:
  assumes "- (2 ^ 31) \<le> e" "e < 2 ^ 31" "tick_elapsed now tv_sec tv_usec = e + 2 ^ 32 * k"
  shows "tool_sysf_isTickTimeout now tv_sec tv_usec inteval_usec =
           (if 0 \<le> e \<and> e \<le> inteval_usec then 0 else 1)"
  using assms by (simp add: tool_sysf_isTickTimeout_def assms(3) int32_mod int32_id Let_def
      del: power_numeral)

theorem tool_sysf_isTickTimeout_range_witness:
  "tool_sysf_isTickTimeout (4300, 967296) 5 0 1000000 = 0"
  using tool_sysf_isTickTimeout_range [of 1000000 "(4300, 967296)" 5 0 1 1000000]
  by (simp add: tick_elapsed_def)

text \<open>The hexadecimal text of a byte string has two digits per byte and a NUL, and both
  parsers read it back, from any buffer that starts with it.\<close>

theorem hex_roundtrip:
  "length (tool_str_byte2str bs) = 2 * length bs + 1
   \<and> tool_str_str2byte (tool_str_byte2str bs @ t) (2 * length bs) = Inr bs
   \<and> tool_str_str2num (tool_str_byte2str bs @ t) (length bs) = Inr bs"
  using length_byte2str [of bs]
  by (simp add: tool_str_byte2str_def str2byte_byte2str str2num_byte2str)

text \<open>The address test accepts exactly the addresses whose first number is in 1..255 and
  whose others are in 0..255, whatever text follows the last digit.\<close>

theorem tool_str_isIpv4_dotted:
  assumes "rest = [] \<or> \<not> is_digit (hd rest)"
  shows "tool_str_isIpv4 (Some (dotted a b c d @ rest)) =
     (if a \<in> {1..255} \<and> b \<in> {0..255} \<and> c \<in> {0..255} \<and> d \<in> {0..255} then 1 else 0)"
  by (auto simp: tool_str_isIpv4_def scan_dotted [OF assms])

theorem tool_str_isIpv4_dotted_witness:
  "tool_str_isIpv4 (Some (dotted 192 168 0 1 @ ''xyz'')) = 1"
  using tool_str_isIpv4_dotted [of "''xyz''" 192 168 0 1] by (simp add: is_digit_def)

text \<open>The shuffle returns a permutation of \<open>0 .. len - 1\<close> for every sequence of random
  numbers, with the last position left in place.\<close>

theorem tool_ran_wash_permutation:
  "mset (tool_ran_wash rnd len) = mset [0..<len] \<and> distinct (tool_ran_wash rnd len)
   \<and> (len > 0 \<longrightarrow> tool_ran_wash rnd len ! (len - 1) = len - 1)"
  using wash_mset [of rnd len] wash_last [of len rnd]
  by (metis distinct_upt mset_eq_imp_distinct_iff)

theorem tool_ran_wash_permutation_witness:
  "tool_ran_wash (\<lambda>i. i + 1) 3 ! (3 - 1) = 3 - 1"
  using tool_ran_wash_permutation [of "\<lambda>i. i + 1" 3] by simp

end
