(* ===== verification/Tool_Sock.thy ===== *)
theory Tool_Sock
  imports Tool_Sysf
begin

text \<open>
  The socket layer of \<^verbatim>\<open>sab_app/jni/nc/tool_sock.c\<close> and the system-call wrappers it uses
  (\<open>tool_sysf_write\<close>, \<open>_read\<close>, \<open>_recvPeek\<close>). The C loops poll: every round looks at the
  caller's flag and at the tick counter of the manager thread, then makes one system call. A
  \<open>sock_step\<close> is what one round observes; \<open>net\<close> holds the rounds to come, the tick seen last,
  the bytes the peer has sent that are not read yet and those written so far. The end of
  the list of rounds, with the loop still running, is \<open>Fuel\<close>.
\<close>

section \<open>State\<close>

datatype TOOL_SOCK_TYPE1_E =
    TOOL_SOCK_TYPE1_NONE | TOOL_SOCK_TYPE1_TCP | TOOL_SOCK_TYPE1_UDP | TOOL_SOCK_TYPE1_MCAST
  | TOOL_SOCK_TYPE1_BCAST

datatype TOOL_SOCK_TYPE2_E =
    TOOL_SOCK_TYPE2_NONE | TOOL_SOCK_TYPE2_SERVER1 | TOOL_SOCK_TYPE2_SERVER2
  | TOOL_SOCK_TYPE2_CLIENT

text \<open>The fields the socket layer reads and writes; \<open>has_flag\<close>: the pointer \<open>flag\<close> is not NULL.\<close>

record tool_sock_item =
  type1 :: TOOL_SOCK_TYPE1_E
  type2 :: TOOL_SOCK_TYPE2_E
  timeout :: int
  is_error :: bool
  has_flag :: bool
  item_tick :: int
  fd :: int

record tool_sock_manager =
  manager_tick :: int
  manager_count :: int
  ys_port :: int

text \<open>
  One round: the value of the flag, the tick counter, and how many bytes the system call can
  move; 0 stands for \<open>EAGAIN\<close>, \<open>EINTR\<close> and a closed peer, a negative number for an error. In the wait
  for a connection it is what polling the socket for writing returns.
\<close>

record sock_step =
  flag_on :: bool
  clock :: int
  ready :: int

record net =
  steps :: "sock_step list"
  now :: int
  inbox :: "u8 list"
  outbox :: "u8 list"

section \<open>The manager\<close>

definition TOOL_SOCK_YS_BEGIN :: int where "TOOL_SOCK_YS_BEGIN = 22000"
definition TOOL_SOAK_YS_END :: int where "TOOL_SOAK_YS_END = 23000"

text \<open>\<open>None\<close>: \<open>g_tool_sock_manager\<close> is NULL.\<close>

definition tool_sock_init :: "tool_sock_manager option \<Rightarrow> tool_sock_manager" where
  "tool_sock_init g =
     (case g of
        Some m \<Rightarrow> m
      | None \<Rightarrow> \<lparr> manager_tick = 0, manager_count = 0, ys_port = TOOL_SOCK_YS_BEGIN \<rparr>)"

definition tool_sock_done :: "tool_sock_manager option \<Rightarrow> tool_sock_manager option" where
  "tool_sock_done g = None"

definition tool_sock_setTick :: "tool_sock_manager option \<Rightarrow> int outcome" where
  "tool_sock_setTick g = (case g of None \<Rightarrow> Inl Exit | Some m \<Rightarrow> Inr (manager_tick m))"

definition tool_sock_isTickTimeout :: "tool_sock_manager option \<Rightarrow> int \<Rightarrow> int \<Rightarrow> int outcome" where
  "tool_sock_isTickTimeout g tick sec =
     (case g of
        None \<Rightarrow> Inl Exit
      | Some m \<Rightarrow>
          Inr (if manager_tick m - tick \<ge> sec \<or> manager_tick m < tick then 1 else 0))"

definition tool_sock_getYsPort ::
  "tool_sock_manager option \<Rightarrow> (int \<times> tool_sock_manager) outcome" where
  "tool_sock_getYsPort g =
     (case g of
        None \<Rightarrow> Inl Exit
      | Some m \<Rightarrow>
          (let m = (if ys_port m > TOOL_SOAK_YS_END then m\<lparr> ys_port := TOOL_SOCK_YS_BEGIN \<rparr> else m);
               ret = ys_port m
           in Inr (ret, m\<lparr> ys_port := ys_port m + 2 \<rparr>)))"

section \<open>Items\<close>

definition tool_sock_item_init :: "tool_sock_item \<Rightarrow> tool_sock_item" where
  "tool_sock_item_init item = item\<lparr> item_tick := - 12345678, fd := 0 \<rparr>"

definition tool_sock_item_setTimeout :: "tool_sock_item \<Rightarrow> int \<Rightarrow> tool_sock_item" where
  "tool_sock_item_setTimeout item t = item\<lparr> timeout := t mod 256 \<rparr>"

definition tool_sock_item_isLive :: "tool_sock_item \<Rightarrow> int" where
  "tool_sock_item_isLive item = (if fd item > 0 then 1 else 0)"

definition tool_sock_item_isTimeout :: "tool_sock_manager \<Rightarrow> tool_sock_item \<Rightarrow> int \<Rightarrow> int" where
  "tool_sock_item_isTimeout m item inteval =
     (if manager_tick m - item_tick item \<ge> inteval \<or> manager_tick m < item_tick item then 1 else 0)"

definition tool_sock_item_setTick :: "tool_sock_manager \<Rightarrow> tool_sock_item \<Rightarrow> tool_sock_item" where
  "tool_sock_item_setTick m item = item\<lparr> item_tick := manager_tick m \<rparr>"

text \<open>\<open>ret\<close>: what \<open>tool_sysf_pollRead\<close> returned.\<close>

definition tool_sock_item_pollRead :: "int \<Rightarrow> tool_sock_item \<Rightarrow> int \<times> tool_sock_item" where
  "tool_sock_item_pollRead ret item =
     (if is_error item then (- 1, item)
      else (ret, if ret < 0 then item\<lparr> is_error := True \<rparr> else item))"

text \<open>\<open>sock\<close>: what \<open>accept\<close> returned.\<close>

definition tool_sock_item_accept ::
  "int \<Rightarrow> tool_sock_manager \<Rightarrow> tool_sock_item \<Rightarrow> tool_sock_item
     \<Rightarrow> int \<times> tool_sock_item \<times> tool_sock_item \<times> tool_sock_manager" where
  "tool_sock_item_accept sock m listen_item recv_item =
     (if is_error listen_item then (- 1, listen_item, recv_item, m)
      else let recv_item = recv_item\<lparr> fd := sock \<rparr>
           in if sock < 0 then
                (- 1, listen_item\<lparr> is_error := True \<rparr>, recv_item\<lparr> is_error := True \<rparr>, m)
              else (0, listen_item,
                    recv_item\<lparr> type1 := TOOL_SOCK_TYPE1_TCP, type2 := TOOL_SOCK_TYPE2_SERVER2,
                      timeout := timeout listen_item, item_tick := manager_tick m,
                      is_error := False \<rparr>,
                    m\<lparr> manager_count := manager_count m + 1 \<rparr>))"

text \<open>\<open>ret\<close>: what \<open>close\<close> returned.\<close>

definition tool_sock_item_close ::
  "int \<Rightarrow> tool_sock_manager \<Rightarrow> tool_sock_item \<Rightarrow> tool_sock_item \<times> tool_sock_manager" where
  "tool_sock_item_close ret m item =
     (if fd item > 0 then
        (let (item, m) =
           (if ret = 0 then (item\<lparr> fd := - 1 \<rparr>, m\<lparr> manager_count := manager_count m - 1 \<rparr>)
            else (item, m))
         in (item\<lparr> item_tick := manager_tick m \<rparr>, m))
      else (item, m))"

section \<open>The polling loops\<close>

text \<open>
  Leaving a loop by its condition or by the flag: the item's tick is set and the number of
  bytes moved so far is returned.
\<close>

definition sock_leave :: "tool_sock_item \<Rightarrow> net \<Rightarrow> sock_step list \<Rightarrow> tool_sock_item \<times> net" where
  "sock_leave item nt sts = (item\<lparr> item_tick := now nt \<rparr>, nt\<lparr> steps := sts \<rparr>)"

primrec sock_send_loop ::
  "sock_step list \<Rightarrow> int \<Rightarrow> tool_sock_item \<Rightarrow> net \<Rightarrow> nat \<Rightarrow> u8 list
     \<Rightarrow> (int \<times> tool_sock_item \<times> net) outcome" where
  "sock_send_loop [] start item nt sent bs =
     (if bs = [] then Inr (int sent, sock_leave item nt []) else Inl Fuel)"
| "sock_send_loop (st # sts) start item nt sent bs =
     (if bs = [] then Inr (int sent, sock_leave item nt (st # sts)) else
      let nt = nt\<lparr> now := clock st \<rparr>
      in if has_flag item \<and> \<not> flag_on st then Inr (int sent, sock_leave item nt sts)
         else if clock st - start \<ge> timeout item then Inr (int sent, sock_leave item nt sts)
         else if ready st < 0 then Inr (- 1, item\<lparr> is_error := True \<rparr>, nt\<lparr> steps := sts \<rparr>)
         else let ret = min (nat (ready st)) (length bs)
              in sock_send_loop sts start item
                   (nt\<lparr> outbox := outbox nt @ take ret bs \<rparr>) (sent + ret) (drop ret bs))"

definition tool_sock_item_send ::
  "tool_sock_item \<times> net \<Rightarrow> u8 list \<Rightarrow> (int \<times> tool_sock_item \<times> net) outcome" where
  "tool_sock_item_send = (\<lambda>(item, nt) buf.
     if is_error item then Inr (- 1, item, nt)
     else sock_send_loop (steps nt) (now nt) item nt 0 buf)"

text \<open>
  \<open>got\<close>: the bytes stored so far; the result carries what is in the caller's buffer. A timeout
  of the receiver returns -1.
\<close>

primrec sock_recv_loop ::
  "sock_step list \<Rightarrow> int \<Rightarrow> tool_sock_item \<Rightarrow> net \<Rightarrow> u8 list \<Rightarrow> nat
     \<Rightarrow> (int \<times> u8 list \<times> tool_sock_item \<times> net) outcome" where
  "sock_recv_loop [] start item nt got n =
     (if n = 0 then Inr (int (length got), got, sock_leave item nt []) else Inl Fuel)"
| "sock_recv_loop (st # sts) start item nt got n =
     (if n = 0 then Inr (int (length got), got, sock_leave item nt (st # sts)) else
      let nt = nt\<lparr> now := clock st \<rparr>
      in if has_flag item \<and> \<not> flag_on st
         then Inr (int (length got), got, sock_leave item nt sts)
         else if clock st - start \<ge> timeout item then Inr (- 1, got, item, nt\<lparr> steps := sts \<rparr>)
         else if ready st < 0
         then Inr (- 1, got, item\<lparr> is_error := True \<rparr>, nt\<lparr> steps := sts \<rparr>)
         else let ret = min (min (nat (ready st)) (length (inbox nt))) n
              in sock_recv_loop sts start item (nt\<lparr> inbox := drop ret (inbox nt) \<rparr>)
                   (got @ take ret (inbox nt)) (n - ret))"

definition tool_sock_item_recv ::
  "tool_sock_item \<times> net \<Rightarrow> nat \<Rightarrow> (int \<times> u8 list \<times> tool_sock_item \<times> net) outcome" where
  "tool_sock_item_recv = (\<lambda>(item, nt) n.
     if is_error item then Inr (- 1, [], item, nt)
     else sock_recv_loop (steps nt) (now nt) item nt [] n)"

text \<open>
  \<open>MSG_PEEK\<close> leaves the bytes where they are. When the flag is cleared the loop is left and
  \<open>n\<close> is returned all the same.
\<close>

primrec sock_peek_loop ::
  "sock_step list \<Rightarrow> int \<Rightarrow> tool_sock_item \<Rightarrow> net \<Rightarrow> u8 list \<Rightarrow> nat
     \<Rightarrow> (int \<times> u8 list \<times> tool_sock_item \<times> net) outcome" where
  "sock_peek_loop [] start item nt buf n = Inl Fuel"
| "sock_peek_loop (st # sts) start item nt buf n =
     (let nt = nt\<lparr> now := clock st \<rparr>
      in if has_flag item \<and> \<not> flag_on st then Inr (int n, buf, sock_leave item nt sts)
         else if clock st - start \<ge> timeout item then Inr (- 1, buf, item, nt\<lparr> steps := sts \<rparr>)
         else if ready st < 0 then Inr (- 1, buf, item, nt\<lparr> steps := sts \<rparr>)
         else let ret = min (min (nat (ready st)) (length (inbox nt))) n;
                  buf = take ret (inbox nt) @ drop ret buf
              in if ret = n then Inr (int n, buf, sock_leave item nt sts)
                 else sock_peek_loop sts start item nt buf n)"

definition tool_sock_item_recvPeek ::
  "tool_sock_item \<times> net \<Rightarrow> u8 list \<Rightarrow> nat \<Rightarrow> (int \<times> u8 list \<times> tool_sock_item \<times> net) outcome" where
  "tool_sock_item_recvPeek = (\<lambda>(item, nt) buf n.
     if is_error item then Inr (- 1, buf, item, nt)
     else sock_peek_loop (steps nt) (now nt) item nt buf n)"

text \<open>One byte per round up to a line feed, and never more than \<open>lineSize - 1\<close>.\<close>

primrec sock_line_loop ::
  "sock_step list \<Rightarrow> int \<Rightarrow> tool_sock_item \<Rightarrow> net \<Rightarrow> u8 list \<Rightarrow> int
     \<Rightarrow> (int \<times> u8 list \<times> tool_sock_item \<times> net) outcome" where
  "sock_line_loop [] start item nt got lineSize = Inl Fuel"
| "sock_line_loop (st # sts) start item nt got lineSize =
     (let nt = nt\<lparr> now := clock st \<rparr>
      in if has_flag item \<and> \<not> flag_on st
         then Inr (int (length got), got, sock_leave item nt sts)
         else if clock st - start \<ge> timeout item then Inr (- 1, got, item, nt\<lparr> steps := sts \<rparr>)
         else if ready st < 0
         then Inr (- 1, got, item\<lparr> is_error := True \<rparr>, nt\<lparr> steps := sts \<rparr>)
         else if ready st = 0 \<or> inbox nt = [] then sock_line_loop sts start item nt got lineSize
         else let b = hd (inbox nt);
                  nt = nt\<lparr> inbox := tl (inbox nt) \<rparr>;
                  got = got @ [b]
              in if b = 0x0A then Inr (int (length got), got, sock_leave item nt sts)
                 else if int (length got) \<ge> lineSize - 1
                 then Inr (- 1, got, item, nt\<lparr> steps := sts \<rparr>)
                 else sock_line_loop sts start item nt got lineSize)"

definition tool_sock_item_recvLine ::
  "tool_sock_item \<times> net \<Rightarrow> int \<Rightarrow> (int \<times> u8 list \<times> tool_sock_item \<times> net) outcome" where
  "tool_sock_item_recvLine = (\<lambda>(item, nt) lineSize.
     if is_error item then Inr (- 1, [], item, nt)
     else sock_line_loop (steps nt) (now nt) item nt [] lineSize)"

section \<open>Opening\<close>

definition TOOL_SOCK_TIMEOUT :: int where "TOOL_SOCK_TIMEOUT = 10"

text \<open>
  The system calls that open a socket: \<^verbatim>\<open>tool_sysf_initAddr\<close> for an address (\<open>None\<close>: NULL, any address)
  and a port, \<open>socket\<close> (which ends the program when it fails), \<open>bind\<close>, \<open>listen\<close>, \<open>connect\<close> to the remote
  address and port, and reading the socket's pending error.
\<close>

record sock_dial =
  dial_addr :: "string option \<Rightarrow> int \<Rightarrow> int"
  dial_sock :: int
  dial_bind :: int
  dial_listen :: int
  dial_conn :: "string option \<Rightarrow> int \<Rightarrow> int"
  dial_err :: int

text \<open>The wait for a connection: the flag and the timeout are looked at around the poll.\<close>

primrec connect_poll :: "sock_step list \<Rightarrow> int \<Rightarrow> tool_sock_item \<Rightarrow> net \<Rightarrow> int \<Rightarrow> (int \<times> net) outcome" where
  "connect_poll [] start item nt pool_ret = Inl Fuel"
| "connect_poll (st # sts) start item nt pool_ret =
     (let nt = nt\<lparr> now := clock st, steps := sts \<rparr>
      in if has_flag item \<and> \<not> flag_on st then Inr (pool_ret, nt)
         else if ready st \<noteq> 0 then Inr (ready st, nt)
         else if clock st - start \<ge> timeout item then Inr (0, nt)
         else connect_poll sts start item nt 0)"

definition tool_sock_item_connect :: "int \<Rightarrow> int \<Rightarrow> tool_sock_item \<times> net \<Rightarrow> (int \<times> net) outcome" where
  "tool_sock_item_connect conn sockerr = (\<lambda>(item, nt).
     if conn < 0 then Inr (- 1, nt)
     else andThen (connect_poll (steps nt) (now nt) item nt 0) (\<lambda>(pool_ret, nt).
       Inr (if pool_ret < 0 then - 1 else if pool_ret = 0 then - 1 else if sockerr < 0 then - 1 else 0, nt)))"

text \<open>A port is passed as an unsigned 16-bit number.\<close>

definition tool_sock_item_open_v2 ::
  "sock_dial \<Rightarrow> tool_sock_manager option \<Rightarrow> tool_sock_item \<times> net \<Rightarrow> TOOL_SOCK_TYPE1_E \<Rightarrow> TOOL_SOCK_TYPE2_E
     \<Rightarrow> string option \<Rightarrow> int \<Rightarrow> string option \<Rightarrow> int \<Rightarrow> (int \<times> tool_sock_item \<times> tool_sock_manager \<times> net) outcome" where
  "tool_sock_item_open_v2 d g s t1 t2 remote_ip remote_port source_ip source_port =
     (let m = tool_sock_init g;
          (item, nt) = s;
          item = item\<lparr> item_tick := manager_tick m, type1 := t1, type2 := t2, timeout := TOOL_SOCK_TIMEOUT \<rparr>;
          remote_port = remote_port mod 65536;
          source_port = source_port mod 65536
      in if dial_addr d remote_ip remote_port < 0 then Inr (- 1, item, m, nt)
         else if dial_addr d source_ip source_port < 0 then Inr (- 1, item, m, nt)
         else if dial_sock d < 0 then Inl Exit
         else let item = item\<lparr> fd := dial_sock d \<rparr>
         in if dial_bind d < 0 then Inr (- 1, item\<lparr> fd := - 1 \<rparr>, m, nt)
         else if t1 = TOOL_SOCK_TYPE1_TCP \<and> t2 = TOOL_SOCK_TYPE2_SERVER1 \<and> dial_listen d < 0
         then Inr (- 1, item\<lparr> fd := - 1 \<rparr>, m, nt)
         else andThen (if t1 = TOOL_SOCK_TYPE1_TCP \<and> t2 = TOOL_SOCK_TYPE2_CLIENT
                       then tool_sock_item_connect (dial_conn d remote_ip remote_port) (dial_err d) (item, nt)
                       else Inr (0, nt)) (\<lambda>(ret, nt).
              if ret < 0 then Inr (- 1, item\<lparr> fd := - 1 \<rparr>, m, nt)
              else Inr (0, item\<lparr> is_error := False \<rparr>, m\<lparr> manager_count := manager_count m + 1 \<rparr>, nt)))"

text \<open>\<open>item\<close>: the zeroed item on the stack.\<close>

definition tool_sock_item_ping ::
  "sock_dial \<Rightarrow> tool_sock_manager option \<Rightarrow> tool_sock_item \<times> net \<Rightarrow> string \<Rightarrow> int \<Rightarrow> int
     \<Rightarrow> (int \<times> tool_sock_manager \<times> net) outcome" where
  "tool_sock_item_ping d g s remote_ip remote_port tmo =
     (let m = tool_sock_init g;
          (item, nt) = s;
          item = item\<lparr> item_tick := manager_tick m, type1 := TOOL_SOCK_TYPE1_TCP, type2 := TOOL_SOCK_TYPE2_CLIENT,
            timeout := tmo \<rparr>;
          remote_port = remote_port mod 65536
      in if dial_addr d (Some remote_ip) remote_port < 0 then Inr (- 1, m, nt)
         else if dial_sock d < 0 then Inl Exit
         else andThen (tool_sock_item_connect (dial_conn d (Some remote_ip) remote_port) (dial_err d)
                        (item\<lparr> fd := dial_sock d \<rparr>, nt)) (\<lambda>(ret, nt). Inr (ret, m, nt)))"

section \<open>What a prompt network gives\<close>

text \<open>
  The rounds to come are prompt from tick \<open>t\<close> on: the clock does not run backwards and stays
  below the deadline \<open>d\<close>, the flag stays set, no call fails. \<open>moves\<close> counts the rounds
  in which a byte can move.
\<close>

definition prompt :: "tool_sock_item \<Rightarrow> int \<Rightarrow> int \<Rightarrow> sock_step list \<Rightarrow> bool" where
  "prompt item t d sts \<longleftrightarrow>
     sorted (t # map clock sts) \<and>
     (\<forall>st \<in> set sts. (has_flag item \<longrightarrow> flag_on st) \<and> 0 \<le> ready st \<and> clock st < d)"

definition moves :: "sock_step list \<Rightarrow> nat" where
  "moves sts = length (filter (\<lambda>st. 1 \<le> ready st) sts)"

definition carries :: "tool_sock_item \<times> net \<Rightarrow> nat \<Rightarrow> bool" where
  "carries s k \<longleftrightarrow>
     (case s of (item, nt) \<Rightarrow>
        \<not> is_error item \<and> prompt item (now nt) (now nt + timeout item) (steps nt) \<and> k \<le> moves (steps nt))"

lemma moves_simps [simp]:
  "moves [] = 0" "moves (st # sts) = (if 1 \<le> ready st then Suc (moves sts) else moves sts)"
  by (simp_all add: moves_def)

lemma prompt_Cons:
  "prompt item t d (st # sts) \<longleftrightarrow>
     t \<le> clock st \<and> (has_flag item \<longrightarrow> flag_on st) \<and> 0 \<le> ready st \<and> clock st < d \<and>
     prompt item (clock st) d sts"
  by (auto simp: prompt_def)

lemma prompt_item [simp]: "prompt (item\<lparr>item_tick := x\<rparr>) = prompt item"
  by (intro ext) (simp add: prompt_def)

lemma connect_poll_all:
  assumes "prompt item (now nt) d sts" "d \<le> start + timeout item" "Suc k \<le> moves sts"
  shows "\<exists>r nt'. connect_poll sts start item nt p = Inr (r, nt') \<and> 0 < r
         \<and> outbox nt' = outbox nt \<and> inbox nt' = inbox nt \<and> now nt \<le> now nt'
         \<and> prompt item (now nt') d (steps nt') \<and> k \<le> moves (steps nt')"
  using assms
proof (induction sts arbitrary: nt p)
  case (Cons st sts)
  define nt1 where "nt1 = nt\<lparr> now := clock st, steps := sts \<rparr>"
  have st: "now nt \<le> clock st" "has_flag item \<longrightarrow> flag_on st" "0 \<le> ready st" "clock st < d"
    "prompt item (now nt1) d sts"
    using Cons.prems(1) by (auto simp: prompt_Cons nt1_def)
  show ?case
  proof (cases "ready st = 0")
    case True
    with Cons.IH [OF st(5) Cons.prems(2), of 0] Cons.prems(2,3) st show ?thesis
      by (fastforce simp: Let_def nt1_def)
  next
    case False
    with st Cons.prems(3) show ?thesis by (auto simp: Let_def nt1_def)
  qed
qed simp

lemma send_loop_all:
  assumes "prompt item (now nt) d sts" "d \<le> start + timeout item" "k + length bs \<le> moves sts"
  shows "\<exists>nt'. sock_send_loop sts start item nt sent bs =
            Inr (int (sent + length bs), item\<lparr>item_tick := now nt'\<rparr>, nt')
         \<and> outbox nt' = outbox nt @ bs \<and> inbox nt' = inbox nt \<and> now nt \<le> now nt'
         \<and> prompt item (now nt') d (steps nt') \<and> k \<le> moves (steps nt')"
  using assms
proof (induction sts arbitrary: nt sent bs)
  case Nil
  then show ?case by (simp add: sock_leave_def)
next
  case (Cons st sts)
  show ?case
  proof (cases "bs = []")
    case True
    with Cons show ?thesis by (simp add: sock_leave_def)
  next
    case False
    define r where "r = min (nat (ready st)) (length bs)"
    define nt1 where "nt1 = nt\<lparr> now := clock st, outbox := outbox nt @ take r bs \<rparr>"
    have st: "now nt \<le> clock st" "has_flag item \<longrightarrow> flag_on st" "0 \<le> ready st" "clock st < d"
      "prompt item (now nt1) d sts"
      using Cons.prems(1) by (auto simp: prompt_Cons nt1_def)
    have r: "r \<le> length bs" "1 \<le> ready st \<Longrightarrow> 1 \<le> r"
      using False by (auto simp: r_def Suc_le_eq)
    have "k + length (drop r bs) \<le> moves sts"
      using Cons.prems(3) r by (auto split: if_splits)
    from Cons.IH [OF st(5) Cons.prems(2) this, of "sent + r"] obtain nt' where
      "sock_send_loop sts start item nt1 (sent + r) (drop r bs) =
         Inr (int (sent + r + length (drop r bs)), item\<lparr>item_tick := now nt'\<rparr>, nt')"
      "outbox nt' = outbox nt1 @ drop r bs" "inbox nt' = inbox nt1" "now nt1 \<le> now nt'"
      "prompt item (now nt') d (steps nt')" "k \<le> moves (steps nt')" by blast
    moreover have "sock_send_loop (st # sts) start item nt sent bs =
        sock_send_loop sts start item nt1 (sent + r) (drop r bs)"
      using False st Cons.prems(2) by (auto simp: nt1_def r_def Let_def)
    ultimately show ?thesis
      using r st by (intro exI [of _ nt']) (simp add: nt1_def)
  qed
qed

lemma recv_loop_all:
  assumes "prompt item (now nt) d sts" "d \<le> start + timeout item" "k + n \<le> moves sts"
    and "n \<le> length (inbox nt)"
  shows "\<exists>nt'. sock_recv_loop sts start item nt got n =
            Inr (int (length got + n), got @ take n (inbox nt), item\<lparr>item_tick := now nt'\<rparr>, nt')
         \<and> inbox nt' = drop n (inbox nt) \<and> outbox nt' = outbox nt \<and> now nt \<le> now nt'
         \<and> prompt item (now nt') d (steps nt') \<and> k \<le> moves (steps nt')"
  using assms
proof (induction sts arbitrary: nt got n)
  case Nil
  then show ?case by (simp add: sock_leave_def)
next
  case (Cons st sts)
  show ?case
  proof (cases "n = 0")
    case True
    with Cons show ?thesis by (simp add: sock_leave_def)
  next
    case False
    define r where "r = min (min (nat (ready st)) (length (inbox nt))) n"
    define nt1 where "nt1 = nt\<lparr> now := clock st, inbox := drop r (inbox nt) \<rparr>"
    have st: "now nt \<le> clock st" "has_flag item \<longrightarrow> flag_on st" "0 \<le> ready st" "clock st < d"
      "prompt item (now nt1) d sts"
      using Cons.prems(1) by (auto simp: prompt_Cons nt1_def)
    have r: "r \<le> n" "1 \<le> ready st \<Longrightarrow> 1 \<le> r"
      using False Cons.prems(4) by (auto simp: r_def Suc_le_eq)
    have "k + (n - r) \<le> moves sts" "n - r \<le> length (inbox nt1)"
      using Cons.prems(3,4) r by (auto simp: nt1_def split: if_splits)
    from Cons.IH [OF st(5) Cons.prems(2) this, of "got @ take r (inbox nt)"] obtain nt' where
      "sock_recv_loop sts start item nt1 (got @ take r (inbox nt)) (n - r) =
         Inr (int (length (got @ take r (inbox nt)) + (n - r)),
              (got @ take r (inbox nt)) @ take (n - r) (inbox nt1), item\<lparr>item_tick := now nt'\<rparr>, nt')"
      "inbox nt' = drop (n - r) (inbox nt1)" "outbox nt' = outbox nt1" "now nt1 \<le> now nt'"
      "prompt item (now nt') d (steps nt')" "k \<le> moves (steps nt')" by blast
    moreover have "sock_recv_loop (st # sts) start item nt got n =
        sock_recv_loop sts start item nt1 (got @ take r (inbox nt)) (n - r)"
      using False st Cons.prems(2) by (auto simp: nt1_def r_def Let_def)
    moreover have "take r (inbox nt) @ take (n - r) (drop r (inbox nt)) = take n (inbox nt)"
      using r(1) by (metis le_add_diff_inverse take_add)
    moreover have "length (take r (inbox nt)) = r" using r(1) Cons.prems(4) by simp
    ultimately show ?thesis
      using r st by (intro exI [of _ nt']) (simp add: nt1_def)
  qed
qed

section \<open>The interface to the protocols\<close>

text \<open>
  What the message layers rely on: while the connection \<open>carries\<close> enough bytes, sending \<open>bs\<close>
  moves all of it to the peer, in order, and receiving \<open>n\<close> bytes gives the next \<open>n\<close> the peer sent.
\<close>

locale transport =
  fixes send :: "'s \<Rightarrow> u8 list \<Rightarrow> (int \<times> 's) outcome"
    and recv :: "'s \<Rightarrow> nat \<Rightarrow> (int \<times> u8 list \<times> 's) outcome"
    and can :: "'s \<Rightarrow> nat \<Rightarrow> bool"
    and incoming outgoing :: "'s \<Rightarrow> u8 list"
  assumes send_all: "can s (k + length bs) \<Longrightarrow> \<exists>s'. send s bs = Inr (int (length bs), s') \<and> can s' k
      \<and> outgoing s' = outgoing s @ bs \<and> incoming s' = incoming s"
    and recv_all: "can s (k + n) \<Longrightarrow> n \<le> length (incoming s) \<Longrightarrow>
      \<exists>s'. recv s n = Inr (int n, take n (incoming s), s') \<and> can s' k
      \<and> incoming s' = drop n (incoming s) \<and> outgoing s' = outgoing s"
begin

lemma send_two:
  assumes "can s (k + (length as + length bs))"
  shows "\<exists>s1 s2. send s as = Inr (int (length as), s1) \<and> send s1 bs = Inr (int (length bs), s2)
      \<and> can s2 k \<and> outgoing s2 = outgoing s @ as @ bs \<and> incoming s2 = incoming s"
proof -
  from assms have "can s ((k + length bs) + length as)" by (simp add: ac_simps)
  from send_all [OF this] obtain s1 where s1: "send s as = Inr (int (length as), s1)"
    "can s1 (k + length bs)" "outgoing s1 = outgoing s @ as" "incoming s1 = incoming s" by blast
  from send_all [OF s1(2)] s1 show ?thesis by auto
qed

lemma recv_two:
  assumes "can s (k + (m + n))" "m + n \<le> length (incoming s)"
  shows "\<exists>s1 s2. recv s m = Inr (int m, take m (incoming s), s1)
      \<and> recv s1 n = Inr (int n, take n (drop m (incoming s)), s2)
      \<and> can s2 k \<and> incoming s2 = drop (m + n) (incoming s) \<and> outgoing s2 = outgoing s"
proof -
  from assms have "can s ((k + n) + m)" "m \<le> length (incoming s)" by (simp_all add: ac_simps)
  from recv_all [OF this] obtain s1 where s1: "recv s m = Inr (int m, take m (incoming s), s1)"
    "can s1 (k + n)" "incoming s1 = drop m (incoming s)" "outgoing s1 = outgoing s" by blast
  moreover have "n \<le> length (incoming s1)" using s1(3) assms(2) by simp
  from recv_all [OF s1(2) this] obtain s2 where "recv s1 n = Inr (int n, take n (incoming s1), s2)"
    "can s2 k" "incoming s2 = drop n (incoming s1)" "outgoing s2 = outgoing s1" by blast
  ultimately show ?thesis by (auto simp: drop_drop add.commute)
qed

end

definition sock_incoming :: "tool_sock_item \<times> net \<Rightarrow> u8 list" where
  "sock_incoming s = inbox (snd s)"

definition sock_outgoing :: "tool_sock_item \<times> net \<Rightarrow> u8 list" where
  "sock_outgoing s = outbox (snd s)"

lemma carries_later:
  assumes "prompt item (now nt') d (steps nt')" "d \<le> now nt' + timeout item" "k \<le> moves (steps nt')"
    "\<not> is_error item"
  shows "carries (item\<lparr>item_tick := x\<rparr>, nt') k"
  using assms by (auto simp: carries_def prompt_def)

lemma sock_send_all:
  assumes "carries s (k + length bs)"
  shows "\<exists>s'. tool_sock_item_send s bs = Inr (int (length bs), s') \<and> carries s' k
      \<and> sock_outgoing s' = sock_outgoing s @ bs \<and> sock_incoming s' = sock_incoming s"
proof -
  obtain item nt where s: "s = (item, nt)" by (cases s)
  from assms have c: "\<not> is_error item" "prompt item (now nt) (now nt + timeout item) (steps nt)"
    "k + length bs \<le> moves (steps nt)" by (simp_all add: carries_def s)
  from send_loop_all [OF c(2) order_refl c(3), of 0] obtain nt' where
    "sock_send_loop (steps nt) (now nt) item nt 0 bs =
       Inr (int (length bs), item\<lparr>item_tick := now nt'\<rparr>, nt')"
    "outbox nt' = outbox nt @ bs" "inbox nt' = inbox nt" "now nt \<le> now nt'"
    "prompt item (now nt') (now nt + timeout item) (steps nt')" "k \<le> moves (steps nt')" by auto
  then show ?thesis
    using c(1) carries_later [of item nt' "now nt + timeout item" k]
    by (auto simp: tool_sock_item_send_def s sock_outgoing_def sock_incoming_def)
qed

lemma sock_recv_all:
  assumes "carries s (k + n)" "n \<le> length (sock_incoming s)"
  shows "\<exists>s'. tool_sock_item_recv s n = Inr (int n, take n (sock_incoming s), s') \<and> carries s' k
      \<and> sock_incoming s' = drop n (sock_incoming s) \<and> sock_outgoing s' = sock_outgoing s"
proof -
  obtain item nt where s: "s = (item, nt)" by (cases s)
  from assms have c: "\<not> is_error item" "prompt item (now nt) (now nt + timeout item) (steps nt)"
    "k + n \<le> moves (steps nt)" "n \<le> length (inbox nt)" by (simp_all add: carries_def s sock_incoming_def)
  from recv_loop_all [OF c(2) order_refl c(3,4), of "[]"] obtain nt' where
    "sock_recv_loop (steps nt) (now nt) item nt [] n =
       Inr (int n, take n (inbox nt), item\<lparr>item_tick := now nt'\<rparr>, nt')"
    "inbox nt' = drop n (inbox nt)" "outbox nt' = outbox nt" "now nt \<le> now nt'"
    "prompt item (now nt') (now nt + timeout item) (steps nt')" "k \<le> moves (steps nt')" by auto
  then show ?thesis
    using c(1) carries_later [of item nt' "now nt + timeout item" k]
    by (auto simp: tool_sock_item_recv_def s sock_outgoing_def sock_incoming_def)
qed

interpretation sock: transport tool_sock_item_send tool_sock_item_recv carries sock_incoming sock_outgoing
  by unfold_locales (fact sock_send_all sock_recv_all)+

lemma send_loop_prefix:
  "sock_send_loop sts start item nt sent bs = Inr (ret, item', nt') \<Longrightarrow>
     \<exists>m \<le> length bs. outbox nt' = outbox nt @ take m bs \<and> inbox nt' = inbox nt
       \<and> (ret = int (sent + m) \<or> ret = - 1 \<and> is_error item')"
proof (induction sts arbitrary: nt sent bs)
  case Nil
  then show ?case by (auto simp: sock_leave_def split: if_splits)
next
  case (Cons st sts)
  define r where "r = min (nat (ready st)) (length bs)"
  define nt1 where "nt1 = nt\<lparr> now := clock st, outbox := outbox nt @ take r bs \<rparr>"
  consider (stop) "outbox nt' = outbox nt" "inbox nt' = inbox nt" "ret = int sent \<or> ret = - 1 \<and> is_error item'"
    | (more) "sock_send_loop sts start item nt1 (sent + r) (drop r bs) = Inr (ret, item', nt')"
    using Cons.prems by (auto simp: sock_leave_def Let_def r_def nt1_def split: if_splits)
  then show ?case
  proof cases
    case stop
    then show ?thesis by (intro exI [of _ 0]) auto
  next
    case more
    from Cons.IH [OF this] obtain m where m: "m \<le> length (drop r bs)"
      "outbox nt' = outbox nt1 @ take m (drop r bs)" "inbox nt' = inbox nt1"
      "ret = int (sent + r + m) \<or> ret = - 1 \<and> is_error item'" by blast
    have "r + m \<le> length bs" using m(1) by (simp add: r_def)
    moreover have "take r bs @ take m (drop r bs) = take (r + m) bs" by (simp add: take_add)
    ultimately show ?thesis
      using m by (intro exI [of _ "r + m"]) (auto simp: nt1_def)
  qed
qed

text \<open>The items whose descriptor is open, as the manager counts them.\<close>

definition port_ok :: "tool_sock_manager \<Rightarrow> bool" where
  "port_ok m \<longleftrightarrow> even (ys_port m) \<and> 22000 \<le> ys_port m \<and> ys_port m \<le> 23002"

lemma getYsPort_ok:
  "port_ok m \<Longrightarrow> \<exists>p m'. tool_sock_getYsPort (Some m) = Inr (p, m') \<and> port_ok m'
     \<and> even p \<and> 22000 \<le> p \<and> p \<le> 23000"
  by (auto simp: tool_sock_getYsPort_def port_ok_def TOOL_SOAK_YS_END_def TOOL_SOCK_YS_BEGIN_def Let_def)

section \<open>Properties\<close>

text \<open>C18: However the system calls split the transfer, a prompt connection delivers: sending
  returns the full length and has put exactly the bytes, in order, behind what was sent
  before, and a following receive of \<open>n\<close> bytes returns \<open>n\<close> and the next \<open>n\<close> bytes of the peer.\<close>

theorem sock_send_recv_complete:
  assumes "carries s (length bs + n)" "n \<le> length (sock_incoming s)"
  shows "\<exists>s1 s2. tool_sock_item_send s bs = Inr (int (length bs), s1)
      \<and> sock_outgoing s1 = sock_outgoing s @ bs
      \<and> tool_sock_item_recv s1 n = Inr (int n, take n (sock_incoming s), s2)
      \<and> sock_incoming s2 = drop n (sock_incoming s)"
proof -
  have "carries s (n + length bs)" using assms(1) by (simp add: add.commute)
  from sock.send_all [OF this] obtain s1 where s1: "tool_sock_item_send s bs = Inr (int (length bs), s1)"
    "carries s1 (0 + n)" "sock_outgoing s1 = sock_outgoing s @ bs" "sock_incoming s1 = sock_incoming s"
    by auto
  moreover have "n \<le> length (sock_incoming s1)" using s1(4) assms(2) by simp
  from sock.recv_all [OF s1(2) this] s1(4) obtain s2 where
    "tool_sock_item_recv s1 n = Inr (int n, take n (sock_incoming s), s2)"
    "sock_incoming s2 = drop n (sock_incoming s)" by auto
  ultimately show ?thesis by blast
qed

definition demo_item :: tool_sock_item where
  "demo_item = \<lparr> type1 = TOOL_SOCK_TYPE1_TCP, type2 = TOOL_SOCK_TYPE2_CLIENT, timeout = 10,
     is_error = False, has_flag = False, item_tick = 0, fd = 5 \<rparr>"

definition demo_net :: "nat \<Rightarrow> u8 list \<Rightarrow> net" where
  "demo_net n bs = \<lparr> steps = replicate n \<lparr> flag_on = True, clock = 3, ready = 2 \<rparr>, now = 0,
     inbox = bs, outbox = [] \<rparr>"

lemma demo_carries: "k \<le> n \<Longrightarrow> carries (demo_item, demo_net n bs) k"
  by (auto simp: carries_def demo_item_def demo_net_def prompt_def moves_def sorted_replicate
      filter_replicate map_replicate split: if_splits)

theorem sock_send_recv_complete_witness:
  "\<exists>s1 s2. tool_sock_item_send (demo_item, demo_net 6 [7, 8, 9]) [1, 2, 3] = Inr (3, s1)
      \<and> tool_sock_item_recv s1 3 = Inr (3, [7, 8, 9], s2)"
proof -
  have "carries (demo_item, demo_net 6 [7, 8, 9]) (length [1, 2, 3 :: u8] + 3)"
    by (rule demo_carries) simp
  moreover have "3 \<le> length (sock_incoming (demo_item, demo_net 6 [7, 8, 9]))"
    by (simp add: sock_incoming_def demo_net_def)
  ultimately show ?thesis
    using sock_send_recv_complete [of "(demo_item, demo_net 6 [7, 8, 9])" "[1, 2, 3]" 3]
    by (auto simp: sock_incoming_def demo_net_def)
qed

text \<open>Whatever happens during a send (flag cleared, timeout, error at any round), what went out is
  a prefix of the buffer, and its length is what is returned unless -1 is, in which case the
  item is marked so that later calls fail at once.\<close>

theorem sock_send_prefix:
  assumes "tool_sock_item_send (item, nt) bs = Inr (ret, item', nt')" "\<not> is_error item"
  shows "\<exists>m \<le> length bs. outbox nt' = outbox nt @ take m bs \<and> inbox nt' = inbox nt
       \<and> (ret = int m \<or> ret = - 1 \<and> is_error item'
            \<and> (\<forall>cs. tool_sock_item_send (item', nt') cs = Inr (- 1, item', nt')))"
  using assms send_loop_prefix [of "steps nt" "now nt" item nt 0 bs ret item' nt']
  by (auto simp: tool_sock_item_send_def)

theorem sock_send_prefix_witness:
  "\<exists>ret item' nt' m. tool_sock_item_send (demo_item, demo_net 1 []) [1, 2] = Inr (ret, item', nt')
     \<and> m \<le> 2 \<and> outbox nt' = take m [1, 2] \<and> (ret = int m \<or> ret = - 1)"
proof -
  have "\<exists>ret item' nt'. tool_sock_item_send (demo_item, demo_net 1 []) [1, 2] = Inr (ret, item', nt')"
    by (simp add: tool_sock_item_send_def demo_item_def demo_net_def Let_def)
  then obtain ret item' nt' where
    r: "tool_sock_item_send (demo_item, demo_net 1 []) [1, 2] = Inr (ret, item', nt')" by blast
  from sock_send_prefix [OF r] have "\<exists>m \<le> 2. outbox nt' = take m [1, 2] \<and> (ret = int m \<or> ret = - 1)"
    by (fastforce simp: demo_item_def demo_net_def numeral_2_eq_2)
  then obtain m where "m \<le> 2" "outbox nt' = take m [1, 2]" "ret = int m \<or> ret = - 1" by blast
  with r show ?thesis by blast
qed

text \<open>The ports handed out for RTP are even and stay in 22000..23000 (so that the odd one
  behind each stays free for RTCP), however many are asked for, and two successive ones differ.\<close>

theorem getYsPort_range:
  assumes "port_ok m"
  shows "\<exists>p m' q m''. tool_sock_getYsPort (Some m) = Inr (p, m') \<and> port_ok m'
     \<and> even p \<and> 22000 \<le> p \<and> p \<le> 23000
     \<and> tool_sock_getYsPort (Some m') = Inr (q, m'') \<and> p \<noteq> q"
  using assms
  by (auto simp: tool_sock_getYsPort_def port_ok_def TOOL_SOAK_YS_END_def TOOL_SOCK_YS_BEGIN_def Let_def)

theorem getYsPort_range_witness:
  "\<exists>p m' q m''. tool_sock_getYsPort (Some (tool_sock_init None)) = Inr (p, m') \<and> port_ok m'
     \<and> even p \<and> 22000 \<le> p \<and> p \<le> 23000
     \<and> tool_sock_getYsPort (Some m') = Inr (q, m'') \<and> p \<noteq> q"
  by (rule getYsPort_range) (simp add: port_ok_def tool_sock_init_def TOOL_SOCK_YS_BEGIN_def)

text \<open>Opening and closing keep the socket count exact: a failed open leaves it, a successful
  one adds 1, closing the opened item takes it back, and closing again changes nothing.\<close>

theorem open_close_count:
  assumes "tool_sock_item_open_v2 d (Some m) s t1 t2 ip port ip' port' = Inr (ret, item', m', nt')" "0 < dial_sock d"
  shows "(ret = - 1 \<longrightarrow> manager_count m' = manager_count m) \<and>
    (ret = 0 \<longrightarrow> manager_count m' = manager_count m + 1 \<and>
       (case tool_sock_item_close 0 m' item' of (item'', m'') \<Rightarrow>
          manager_count m'' = manager_count m \<and> tool_sock_item_isLive item'' = 0 \<and>
          tool_sock_item_close 0 m'' item'' = (item'', m'')))"
  using assms
  by (auto simp: tool_sock_item_open_v2_def tool_sock_item_close_def tool_sock_item_isLive_def
      tool_sock_init_def Let_def andThen_Inr_iff split: if_splits prod.splits)

definition demo_dial :: sock_dial where
  "demo_dial = \<lparr> dial_addr = (\<lambda>_ _. 0), dial_sock = 5, dial_bind = 0, dial_listen = 0,
     dial_conn = (\<lambda>ip port. if ip = Some ''10.0.0.1'' \<and> port = 80 then 0 else - 1), dial_err = 0 \<rparr>"

theorem open_close_count_witness:
  "\<exists>item' m' nt'. tool_sock_item_open_v2 demo_dial (Some (tool_sock_init None)) (demo_item, demo_net 1 [])
       TOOL_SOCK_TYPE1_TCP TOOL_SOCK_TYPE2_CLIENT (Some ''10.0.0.1'') 80 None 0 = Inr (0, item', m', nt')
     \<and> manager_count m' = 1"
proof -
  obtain item' m' nt' where r: "tool_sock_item_open_v2 demo_dial (Some (tool_sock_init None)) (demo_item, demo_net 1 [])
       TOOL_SOCK_TYPE1_TCP TOOL_SOCK_TYPE2_CLIENT (Some ''10.0.0.1'') 80 None 0 = Inr (0, item', m', nt')"
    by (simp add: tool_sock_item_open_v2_def tool_sock_item_connect_def demo_dial_def demo_net_def demo_item_def Let_def)
  from open_close_count [OF r] have "manager_count m' = manager_count (tool_sock_init None) + 1"
    by (simp add: demo_dial_def)
  with r show ?thesis by (auto simp: tool_sock_init_def)
qed

text \<open>A peek whose flag is cleared reports success: it returns the number of bytes asked for
  with the caller's buffer unchanged.\<close>

theorem recvPeek_flag_cleared:
  assumes "has_flag item" "\<not> is_error item" "steps nt = st # sts" "\<not> flag_on st"
  shows "\<exists>s'. tool_sock_item_recvPeek (item, nt) buf n = Inr (int n, buf, s')"
  using assms by (simp add: tool_sock_item_recvPeek_def Let_def)

theorem recvPeek_flag_cleared_witness:
  "\<exists>s'. tool_sock_item_recvPeek (demo_item\<lparr>has_flag := True\<rparr>,
      demo_net 1 []\<lparr>steps := [\<lparr> flag_on = False, clock = 0, ready = 0 \<rparr>]\<rparr>) [9, 9] 2 = Inr (2, [9, 9], s')"
  using recvPeek_flag_cleared [of "demo_item\<lparr>has_flag := True\<rparr>"
      "demo_net 1 []\<lparr>steps := [\<lparr> flag_on = False, clock = 0, ready = 0 \<rparr>]\<rparr>"
      "\<lparr> flag_on = False, clock = 0, ready = 0 \<rparr>" "[]" "[9, 9]" 2]
  by (simp add: demo_item_def)

end
