(* ===== verification/Tool_Json2.thy ===== *)
theory Tool_Json2
  imports Tool_Sysf
begin

text \<open>
  The second JSON reader of \<^verbatim>\<open>sab_app/jni/nc/tool_json.c\<close>, \<open>tool_json2_*\<close>, which searches
  the text of a message for a quoted name instead of parsing it. A pointer into the text is
  the rest of the text from there on. The second half of the theory is about the messages
  the code base writes, \<open>json_obj\<close>: which field a search finds and what it reads there.
\<close>

section \<open>Character classes\<close>

datatype json_ch =
    TOOL_JSON_CH_BLANK | TOOL_JSON_CH_QUOTATION | TOOL_JSON_CH_COLON | TOOL_JSON_CH_COMMA
  | TOOL_JSON_CH_BEGIN_BRACKET | TOOL_JSON_CH_END_BRACKET | TOOL_JSON_CH_BEGIN_BRACE
  | TOOL_JSON_CH_END_BRACE | TOOL_JSON_CH_FALSE | TOOL_JSON_CH_TRUE | TOOL_JSON_CH_NULL
  | TOOL_JSON_CH_NUMBER | TOOL_JONS_CH_FINISH | TOOL_JSON_CH_UNKNOWN

definition tool_json2_char :: "string \<Rightarrow> json_ch" where
  "tool_json2_char ch =
     (let c = deref ch
      in if is_space c then TOOL_JSON_CH_BLANK
         else if c = NUL then TOOL_JONS_CH_FINISH
         else if c = CHR 0x22 then TOOL_JSON_CH_QUOTATION
         else if c = CHR '':'' then TOOL_JSON_CH_COLON
         else if c = CHR '','' then TOOL_JSON_CH_COMMA
         else if c = CHR ''['' then TOOL_JSON_CH_BEGIN_BRACKET
         else if c = CHR '']'' then TOOL_JSON_CH_END_BRACKET
         else if c = CHR ''{'' then TOOL_JSON_CH_BEGIN_BRACE
         else if c = CHR ''}'' then TOOL_JSON_CH_END_BRACE
         else if c_strncmp ch ''false'' 5 = 0 then TOOL_JSON_CH_FALSE
         else if c_strncmp ch ''true'' 4 = 0 then TOOL_JSON_CH_TRUE
         else if c_strncmp ch ''null'' 4 = 0 then TOOL_JSON_CH_NULL
         else if c = CHR ''+'' \<or> c = CHR ''-'' \<or> is_digit c then TOOL_JSON_CH_NUMBER
         else TOOL_JSON_CH_UNKNOWN)"

section \<open>Looking up a value\<close>

text \<open>The quoted name, in a buffer of 128 characters.\<close>

definition json2_key :: "string \<Rightarrow> string" where
  "json2_key pch_name = cstr (fst (c_snprintf 128 (CHR 0x22 # pch_name @ [CHR 0x22])))"

text \<open>The first loop: past white space and the colon.\<close>

fun json2_colon :: "string \<Rightarrow> string option" where
  "json2_colon [] = None"
| "json2_colon (c # s) =
     (case tool_json2_char (c # s) of
        TOOL_JSON_CH_COLON \<Rightarrow> Some s
      | TOOL_JSON_CH_BLANK \<Rightarrow> json2_colon s
      | _ \<Rightarrow> None)"

text \<open>The copying loops: what is stored for a buffer of \<open>n\<close> characters.\<close>

fun copy_until :: "nat \<Rightarrow> (char \<Rightarrow> bool) \<Rightarrow> string \<Rightarrow> string" where
  "copy_until 0 stop s = []"
| "copy_until (Suc n) stop s =
     (if n = 0 \<or> deref s = NUL \<or> stop (deref s) then [NUL]
      else deref s # copy_until n stop (tl s))"

text \<open>The second loop: the characters stored at the start of \<open>pch_value\<close>; \<open>None\<close>: -1.\<close>

fun json2_stored :: "nat \<Rightarrow> string \<Rightarrow> string option" where
  "json2_stored n [] = None"
| "json2_stored n (c # s) =
     (case tool_json2_char (c # s) of
        TOOL_JSON_CH_QUOTATION \<Rightarrow> Some (copy_until n (\<lambda>c. c = CHR 0x22) s)
      | TOOL_JSON_CH_FALSE \<Rightarrow> Some ''false''
      | TOOL_JSON_CH_TRUE \<Rightarrow> Some ''true''
      | TOOL_JSON_CH_NULL \<Rightarrow> Some ''null''
      | TOOL_JSON_CH_NUMBER \<Rightarrow> Some (copy_until n (\<lambda>c. c = CHR '','' \<or> c = CHR ''}'') (c # s))
      | TOOL_JSON_CH_BLANK \<Rightarrow> json2_stored n s
      | _ \<Rightarrow> None)"

text \<open>
  \<open>pch_value\<close> is the buffer before the call; the result is the return value and the buffer
  after it. The pointers are never NULL here, so the NULL test is not reached.
\<close>

definition tool_json2_getValue ::
  "string \<Rightarrow> string \<Rightarrow> string \<Rightarrow> nat \<Rightarrow> (int \<times> string) outcome" where
  "tool_json2_getValue pch_str pch_name pch_value sz =
     (let name = json2_key pch_name
      in case c_strstr (cstr pch_str) name of
           None \<Rightarrow> Inr (- 1, pch_value)
         | Some pch_index \<Rightarrow>
             (case json2_colon (drop (length name) pch_index) of
                None \<Rightarrow> Inr (- 1, pch_value)
              | Some pch_index \<Rightarrow>
                  (case json2_stored sz pch_index of
                     None \<Rightarrow> Inr (- 1, pch_value)
                   | Some text \<Rightarrow>
                       andThen (buf_put 0 text pch_value) (\<lambda>buf. Inr (0, buf)))))"

definition json2_number :: "(string \<Rightarrow> int) \<Rightarrow> string \<Rightarrow> int" where
  "json2_number convert value =
     (if c_strncmp value ''false'' 5 = 0 then 0
      else if c_strncmp value ''true'' 4 = 0 then 1
      else if c_strncmp value ''0x'' 2 = 0 \<or> c_strncmp value ''0X'' 2 = 0 then c_strtoul16 value
      else convert value)"

text \<open>\<open>None\<close>: the function returns -1 and leaves \<open>*pch_number\<close> alone.\<close>

definition tool_json2_getNumber :: "string \<Rightarrow> string \<Rightarrow> int option outcome" where
  "tool_json2_getNumber pch_str pch_name =
     andThen (tool_json2_getValue pch_str pch_name (replicate 64 NUL) 64) (\<lambda>(ret, value).
       Inr (if ret < 0 then None else Some (json2_number (\<lambda>v. int32 (c_atoi v)) value)))"

definition tool_json2_getInt64 :: "string \<Rightarrow> string \<Rightarrow> int option outcome" where
  "tool_json2_getInt64 pch_str pch_name =
     andThen (tool_json2_getValue pch_str pch_name (replicate 64 NUL) 64) (\<lambda>(ret, value).
       Inr (if ret < 0 then None else Some (json2_number c_atoi value)))"

definition tool_json2_getIpv4 :: "string \<Rightarrow> string \<Rightarrow> u8 list option outcome" where
  "tool_json2_getIpv4 pch_str pch_name =
     andThen (tool_json2_getValue pch_str pch_name (replicate 64 NUL) 64) (\<lambda>(ret, value).
       Inr (if ret < 0 then None
            else (case scan_dots 4 (cstr value) of
              [ip0, ip1, ip2, ip3] \<Rightarrow> Some (map of_int [ip0, ip1, ip2, ip3])
            | _ \<Rightarrow> None)))"

section \<open>Arrays of objects\<close>

definition skip_blank :: "string \<Rightarrow> string" where
  "skip_blank s = dropWhile is_space s"

text \<open>
  The search for \<open>name":[\<close>. When the name is followed by a colon and something other than
  \<open>[\<close>, the loop starts again from the same \<open>pch_str\<close>; the first argument bounds the rounds.
\<close>

fun json2_array_start :: "nat \<Rightarrow> string \<Rightarrow> string \<Rightarrow> string option outcome" where
  "json2_array_start 0 pch_array_name pch_str = Inl Fuel"
| "json2_array_start (Suc fuel) pch_array_name pch_str =
     (case c_strstr pch_str pch_array_name of
        None \<Rightarrow> Inr None
      | Some p \<Rightarrow>
          (let p = drop (length pch_array_name) p
           in if deref p = NUL then Inr None
              else if deref p \<noteq> CHR 0x22 then json2_array_start fuel pch_array_name p
              else let p = skip_blank (tl p)
                   in if deref p = NUL then Inr None
                      else if deref p \<noteq> CHR '':'' then json2_array_start fuel pch_array_name p
                      else let p = skip_blank (tl p)
                           in if deref p = NUL then Inr None
                              else if deref p = CHR ''['' then Inr (Some (tl p))
                              else json2_array_start fuel pch_array_name pch_str))"

text \<open>
  One row: characters up to the one behind a closing brace, the NUL included, and the rest
  of the text. \<open>prev\<close> is \<open>*(pch_index-1)\<close>.
\<close>

fun json2_row :: "nat \<Rightarrow> char \<Rightarrow> string \<Rightarrow> (string \<times> string) option" where
  "json2_row 0 prev s = None"
| "json2_row (Suc y) prev s =
     (if deref s = NUL then None
      else if prev = CHR ''}'' then Some ([NUL], s)
      else map_option (\<lambda>(row, r). (deref s # row, r)) (json2_row y (deref s) (tl s)))"

text \<open>
  The rows, at most the first argument of them. What stands before the brace of a row is
  \<open>[\<close>, a comma or white space, so \<open>prev\<close> starts as a character that is not a brace.
\<close>

fun json2_rows :: "nat \<Rightarrow> nat \<Rightarrow> string \<Rightarrow> string list option" where
  "json2_rows 0 y s = None"
| "json2_rows (Suc x) y s =
     (if deref s \<noteq> CHR ''{'' then None
      else case json2_row y (CHR ''['') s of
        None \<Rightarrow> None
      | Some (row, r) \<Rightarrow>
          (let r = skip_blank r
           in if deref r = CHR '']'' then Some [row]
              else if deref r \<noteq> CHR '','' then None
              else map_option ((#) row) (json2_rows x y (skip_blank (tl r)))))"

text \<open>The rows stored at the start of each \<open>y_size\<close> bytes; their number is returned. \<open>None\<close>: -1.\<close>

definition tool_json2_getArray ::
  "nat \<Rightarrow> string \<Rightarrow> string \<Rightarrow> nat \<Rightarrow> nat \<Rightarrow> string list option outcome" where
  "tool_json2_getArray fuel pch_str pch_array_name x_size y_size =
     (if x_size = 0 \<or> y_size = 0 then Inl Exit
      else andThen (json2_array_start fuel pch_array_name (cstr pch_str)) (\<lambda>p.
        Inr (case p of
               None \<Rightarrow> None
             | Some p \<Rightarrow>
                 (let p = skip_blank p
                  in if deref p = CHR '']'' then Some [] else json2_rows x_size y_size p))))"

section \<open>The reader is total\<close>

lemma length_copy_until: "length (copy_until n stop s) \<le> n"
  by (induction n stop s rule: copy_until.induct) auto

lemma length_json2_stored: "json2_stored n s = Some out \<Longrightarrow> length out \<le> max n 5"
proof (induction n s rule: json2_stored.induct)
  case (2 n c s)
  then show ?case
    using length_copy_until [of n _ "c # s"] length_copy_until [of n _ s]
    by (auto split: json_ch.splits simp: max_def dest!: meta_spec)
qed simp

lemma getValue_total:
  assumes "sz \<le> length buf" "5 \<le> length buf"
  shows "\<exists>ret buf'. tool_json2_getValue s n buf sz = Inr (ret, buf') \<and> length buf' = length buf
           \<and> (ret = 0 \<or> ret = - 1 \<and> buf' = buf)"
proof -
  have "length out \<le> length buf" if "json2_stored sz t = Some out" for t out
    using length_json2_stored [OF that] assms by linarith
  then show ?thesis
    by (auto simp: tool_json2_getValue_def Let_def buf_put_def split: option.splits)
qed

lemma getNumber_total: "\<exists>r. tool_json2_getNumber s n = Inr r"
  using getValue_total [of 64 "replicate 64 NUL" s n]
  by (auto simp: tool_json2_getNumber_def)

section \<open>Messages\<close>

text \<open>The text the encoders write: \<open>{"name":"value",...}\<close>.\<close>

definition json_field :: "string \<times> string \<Rightarrow> string" where
  "json_field f = CHR 0x22 # fst f @ CHR 0x22 # CHR '':'' # CHR 0x22 # snd f @ [CHR 0x22]"

fun json_fields :: "(string \<times> string) list \<Rightarrow> string" where
  "json_fields [] = []"
| "json_fields [f] = json_field f"
| "json_fields (f # g # fs) = json_field f @ CHR '','' # json_fields (g # fs)"

definition json_obj :: "(string \<times> string) list \<Rightarrow> string" where
  "json_obj fs = ''{'' @ json_fields fs @ ''}''"

text \<open>Text that can stand between quotes.\<close>

definition plain :: "string \<Rightarrow> bool" where
  "plain s \<longleftrightarrow> CHR 0x22 \<notin> set s \<and> NUL \<notin> set s"

lemma plain_simps [simp]:
  "plain []" "plain (c # s) \<longleftrightarrow> c \<noteq> CHR 0x22 \<and> c \<noteq> NUL \<and> plain s"
  "plain (s @ t) \<longleftrightarrow> plain s \<and> plain t"
  by (auto simp: plain_def)

lemma plain_print_int [simp]: "plain (print_int i)"
  by (simp add: plain_def)

definition quoted :: "string \<Rightarrow> string" where
  "quoted s = CHR 0x22 # s @ [CHR 0x22]"

lemma prefix_quoted_token:
  "plain n \<Longrightarrow> plain m \<Longrightarrow> is_prefix (quoted n) (CHR 0x22 # m @ CHR 0x22 # t) \<longleftrightarrow> m = n"
proof -
  assume "plain n" "plain m"
  then have "is_prefix (n @ [CHR 0x22]) (m @ CHR 0x22 # t) \<longleftrightarrow> m = n"
  proof (induction n arbitrary: m)
    case Nil
    then show ?case by (cases m) auto
  next
    case (Cons c n)
    then show ?case by (cases m) auto
  qed
  then show ?thesis by (simp add: quoted_def)
qed

text \<open>The search passes over every quoted or unquoted piece that is not the name.\<close>

lemma skip_token:
  assumes "plain n" "plain m" "m \<noteq> n"
  shows "c_strstr (CHR 0x22 # m @ CHR 0x22 # t) (quoted n) = c_strstr (CHR 0x22 # t) (quoted n)"
proof -
  have "\<not> is_prefix (quoted n) (CHR 0x22 # m @ CHR 0x22 # t)"
    using assms by (simp add: prefix_quoted_token)
  then have "c_strstr (CHR 0x22 # m @ CHR 0x22 # t) (quoted n) = c_strstr (m @ CHR 0x22 # t) (quoted n)"
    by simp
  also have "\<dots> = c_strstr (CHR 0x22 # t) (quoted n)"
    unfolding quoted_def using assms(2) by (intro c_strstr_skip) (auto simp: plain_def)
  finally show ?thesis .
qed

lemma json_fields_Cons:
  "json_fields ((n, v) # fs) = CHR 0x22 # n @ CHR 0x22 # '':'' @ CHR 0x22 # v @ CHR 0x22 #
     (if fs = [] then [] else CHR '','' # json_fields fs)"
  by (cases fs) (simp_all add: json_field_def)

lemma json_fields_quote: "fs \<noteq> [] \<Longrightarrow> \<exists>t. json_fields fs = CHR 0x22 # t"
  by (cases fs rule: json_fields.cases) (auto simp: json_field_def)

definition clean_fields :: "(string \<times> string) list \<Rightarrow> bool" where
  "clean_fields fs \<longleftrightarrow> (\<forall>(m, v) \<in> set fs. plain m \<and> plain v)"

lemma strstr_fields:
  assumes "plain n" "n \<noteq> '':''" "n \<noteq> '',''"
    and "clean_fields before" "\<forall>(m, w) \<in> set before. m \<noteq> n \<and> w \<noteq> n"
  shows "c_strstr (json_fields (before @ (n, v) # after) @ t) (quoted n) =
           Some (json_fields ((n, v) # after) @ t)"
  using assms(4,5)
proof (induction before)
  case Nil
  show ?case
    unfolding append_Nil json_fields_Cons
    using c_strstr_here [of "quoted n"] by (simp add: quoted_def)
next
  case (Cons f before)
  obtain m w where f: "f = (m, w)" by (cases f)
  define rest where "rest = before @ (n, v) # after"
  obtain r where r: "json_fields rest = CHR 0x22 # r"
    using json_fields_quote [of rest] by (auto simp: rest_def)
  have pl: "plain m" "plain w" "m \<noteq> n" "w \<noteq> n"
    using Cons.prems by (auto simp: f clean_fields_def)
  have "json_fields (f # rest) @ t =
      CHR 0x22 # m @ CHR 0x22 # '':'' @ CHR 0x22 # w @ CHR 0x22 # '','' @ CHR 0x22 # (r @ t)"
    unfolding f json_fields_Cons using r by (simp add: rest_def)
  then have "c_strstr (json_fields (f # rest) @ t) (quoted n) = c_strstr (CHR 0x22 # r @ t) (quoted n)"
  proof -
    have sep: "plain '':''" "'':'' \<noteq> n" "plain '',''" "'','' \<noteq> n"
      using assms(2,3) by auto
    then show ?thesis
      using \<open>json_fields (f # rest) @ t = _\<close> skip_token [OF assms(1) pl(1,3)] skip_token [OF assms(1) pl(2,4)]
        skip_token [OF assms(1) sep(1,2)] skip_token [OF assms(1) sep(3,4)]
      by (simp only:)
  qed
  also have "\<dots> = c_strstr (json_fields rest @ t) (quoted n)"
    by (simp add: r)
  finally show ?case
    using Cons by (simp add: rest_def clean_fields_def)
qed

lemma copy_until_plain:
  "plain v \<Longrightarrow> length v < n \<Longrightarrow> copy_until n (\<lambda>c. c = CHR 0x22) (v @ CHR 0x22 # t) = v @ [NUL]"
proof (induction v arbitrary: n)
  case Nil
  then show ?case by (cases n) auto
next
  case (Cons c v)
  then show ?case by (cases n) auto
qed

lemma key_quoted:
  assumes "plain n" "length n \<le> 125"
  shows "json2_key n = quoted n"
proof -
  have "NUL \<notin> set (quoted n)" using assms(1) by (simp add: quoted_def plain_def)
  then have "cstr (quoted n @ [NUL]) = quoted n" by (rule cstr_append_NUL)
  then show ?thesis
    using assms(2) by (simp add: json2_key_def c_snprintf_def quoted_def)
qed

lemma clean_NUL: "clean_fields fs \<Longrightarrow> NUL \<notin> set (json_fields fs)"
  by (induction fs rule: json_fields.induct) (auto simp: clean_fields_def json_field_def plain_def)

lemma clean_append [simp]:
  "clean_fields (fs @ gs) \<longleftrightarrow> clean_fields fs \<and> clean_fields gs"
  "clean_fields (f # gs) \<longleftrightarrow> plain (fst f) \<and> plain (snd f) \<and> clean_fields gs"
  "clean_fields []"
  by (auto simp: clean_fields_def split: prod.splits)

lemma cstr_obj: "clean_fields fs \<Longrightarrow> cstr (json_obj fs @ NUL # t) = json_obj fs"
  unfolding json_obj_def by (rule cstr_append_NUL) (simp add: clean_NUL)

lemma colon_quote: "json2_colon (CHR '':'' # s) = Some s"
  by (simp add: tool_json2_char_def is_space_def)

lemma stored_quote: "json2_stored k (CHR 0x22 # s) = Some (copy_until k (\<lambda>c. c = CHR 0x22) s)"
  by (simp add: tool_json2_char_def is_space_def)

text \<open>
  The fields of a message a reader looks at: a name that no earlier field has as its name
  or as its value.
\<close>

definition first_field :: "(string \<times> string) list \<Rightarrow> string \<Rightarrow> string \<Rightarrow> bool" where
  "first_field fs n v \<longleftrightarrow>
     (\<exists>before after. fs = before @ (n, v) # after \<and> (\<forall>(m, w) \<in> set before. m \<noteq> n \<and> w \<noteq> n))"

definition field_name :: "string \<Rightarrow> bool" where
  "field_name n \<longleftrightarrow> plain n \<and> length n \<le> 125 \<and> n \<noteq> '':'' \<and> n \<noteq> '',''"

lemma first_field_Cons:
  "first_field ((m, w) # fs) n v \<longleftrightarrow>
     (if m = n \<and> w = v then True else m \<noteq> n \<and> w \<noteq> n \<and> first_field fs n v)"
proof -
  have "first_field ((n, v) # fs) n v"
    unfolding first_field_def by (rule exI [of _ "[]"]) simp
  moreover have "first_field ((m, w) # fs) n v" if "m \<noteq> n" "w \<noteq> n" "first_field fs n v"
  proof -
    from that(3) obtain before after where "fs = before @ (n, v) # after"
      "\<forall>(m, w) \<in> set before. m \<noteq> n \<and> w \<noteq> n" unfolding first_field_def by blast
    with that(1,2) have "(m, w) # fs = ((m, w) # before) @ (n, v) # after"
      "\<forall>(m, w) \<in> set ((m, w) # before). m \<noteq> n \<and> w \<noteq> n" by auto
    then show ?thesis unfolding first_field_def by blast
  qed
  moreover have "m = n \<and> w = v \<or> m \<noteq> n \<and> w \<noteq> n \<and> first_field fs n v"
    if "first_field ((m, w) # fs) n v"
  proof -
    from that obtain before after where b: "(m, w) # fs = before @ (n, v) # after"
      "\<forall>(m, w) \<in> set before. m \<noteq> n \<and> w \<noteq> n" unfolding first_field_def by blast
    then show ?thesis unfolding first_field_def by (cases before) auto
  qed
  ultimately show ?thesis by auto
qed

lemma getValue_field:
  assumes "field_name n" "clean_fields fs" "first_field fs n v" "length v < sz"
  shows "tool_json2_getValue (json_obj fs @ NUL # t) n buf sz =
           andThen (buf_put 0 (v @ [NUL]) buf) (\<lambda>b. Inr (0, b))"
proof -
  from assms(3) obtain before after where fs: "fs = before @ (n, v) # after"
    "\<forall>(m, w) \<in> set before. m \<noteq> n \<and> w \<noteq> n" unfolding first_field_def by blast
  have n: "plain n" "n \<noteq> '':''" "n \<noteq> '',''" "plain v" "clean_fields before"
    using assms(1,2) by (auto simp: field_name_def fs)
  obtain u where u: "json_fields ((n, v) # after) @ ''}'' = quoted n @ CHR '':'' # CHR 0x22 # v @ CHR 0x22 # u"
    unfolding json_fields_Cons quoted_def by (cases after) auto
  have "c_strstr (json_obj fs) (quoted n) = c_strstr (json_fields fs @ ''}'') (quoted n)"
    unfolding json_obj_def quoted_def by simp
  also have "\<dots> = Some (quoted n @ CHR '':'' # CHR 0x22 # v @ CHR 0x22 # u)"
    unfolding fs(1) strstr_fields [OF n(1,2,3,5) fs(2)] u ..
  finally have found: "c_strstr (json_obj fs) (quoted n) = \<dots>" .
  have "json2_key n = quoted n" using assms(1) by (intro key_quoted) (auto simp: field_name_def)
  then show ?thesis
    using n assms(4)
    by (simp add: tool_json2_getValue_def cstr_obj [OF assms(2)] found Let_def colon_quote stored_quote
        copy_until_plain del: json2_colon.simps json2_stored.simps)
qed

section \<open>Fields of messages\<close>

lemma int32_print_length:
  assumes "- (2 ^ 31) \<le> i" "i < 2 ^ 31"
  shows "length (print_int i) \<le> 11"
proof -
  have len: "length (print_nat n) \<le> k" if "n < 10 ^ k" "0 < k" for n k
    using that
  proof (induction n arbitrary: k rule: print_nat.induct)
    case (1 n)
    show ?case
    proof (cases "n < 10")
      case False
      obtain j where j: "k = Suc j" "0 < j"
        using 1 False by (cases k) (auto, cases "k - 1", auto)
      have "n div 10 < 10 ^ j" using 1(2) j by (simp add: less_mult_imp_div_less mult.commute)
      then have "length (print_nat (n div 10)) \<le> j" using 1(1) False j(2) by blast
      then show ?thesis by (subst print_nat.simps) (simp add: False j)
    qed (use 1 in \<open>subst print_nat.simps, simp\<close>)
  qed
  show ?thesis
  proof (cases "i < 0")
    case True
    then have "nat (- i) < 10 ^ 10" using assms by simp
    then show ?thesis using True len [of "nat (- i)" 10] by (simp add: print_int_def)
  next
    case False
    then have "nat i < 10 ^ 10" using assms by simp
    then show ?thesis using False len [of "nat i" 10] by (simp add: print_int_def)
  qed
qed

lemma print_int_not_special:
  "c_strncmp (print_int i @ NUL # t) ''false'' 5 \<noteq> 0"
  "c_strncmp (print_int i @ NUL # t) ''true'' 4 \<noteq> 0"
  "c_strncmp (print_int i @ NUL # t) ''0x'' 2 \<noteq> 0"
  "c_strncmp (print_int i @ NUL # t) ''0X'' 2 \<noteq> 0"
proof -
  have chars: "is_digit c \<or> c = CHR ''-''" if "c \<in> set (print_int i)" for c
    using that by (rule print_int_chars)
  have no: "\<not> is_prefix (q @ [a]) (print_int i @ NUL # t)"
    if "a \<noteq> NUL" "\<not> is_digit a" "a \<noteq> CHR ''-''" "NUL \<notin> set q" for q a
  proof
    assume "is_prefix (q @ [a]) (print_int i @ NUL # t)"
    then obtain u where u: "print_int i @ NUL # t = (q @ [a]) @ u" by (auto simp: is_prefix_iff)
    show False
    proof (cases "length q < length (print_int i)")
      case True
      then have "(print_int i @ NUL # t) ! length q = print_int i ! length q" by (simp add: nth_append)
      then have "a = print_int i ! length q" by (simp add: u)
      then show False using chars [of a] that True by auto
    next
      case False
      then have "(print_int i @ NUL # t) ! length (print_int i) \<in> set (q @ [a])"
        unfolding u by (simp add: nth_append)
      then show False using that by simp
    qed
  qed
  have "\<not> is_prefix (''f'' @ u) (print_int i @ NUL # t)" "\<not> is_prefix (''t'' @ u) (print_int i @ NUL # t)" for u
    using no [of "CHR ''f''" "[]"] no [of "CHR ''t''" "[]"]
    by (auto simp: is_prefix_iff is_digit_def)
  then show "c_strncmp (print_int i @ NUL # t) ''false'' 5 \<noteq> 0"
    "c_strncmp (print_int i @ NUL # t) ''true'' 4 \<noteq> 0"
    by (simp_all add: c_strncmp_eq_0)
  show "c_strncmp (print_int i @ NUL # t) ''0x'' 2 \<noteq> 0" "c_strncmp (print_int i @ NUL # t) ''0X'' 2 \<noteq> 0"
    using no [of "CHR ''x''" "''0''"] no [of "CHR ''X''" "''0''"]
    by (simp_all add: c_strncmp_eq_0 is_digit_def)
qed

lemma buf_put_start: "length v < n \<Longrightarrow> buf_put 0 (v @ [NUL]) (replicate n NUL) = Inr (v @ replicate (n - length v) NUL)"
proof -
  assume "length v < n"
  then have "replicate (n - length v) NUL = NUL # replicate (n - Suc (length v)) NUL"
    by (metis Suc_diff_Suc replicate_Suc)
  then show ?thesis using \<open>length v < n\<close> by (simp add: buf_put_def)
qed

lemma getNumber_field:
  assumes "field_name n" "clean_fields fs" "first_field fs n (print_int i)"
    and "- (2 ^ 31) \<le> i" "i < 2 ^ 31"
  shows "tool_json2_getNumber (json_obj fs @ NUL # t) n = Inr (Some i)"
proof -
  have len: "length (print_int i) < 64"
    using int32_print_length [OF assms(4,5)] by simp
  define z where "z = 63 - length (print_int i)"
  have z: "replicate (64 - length (print_int i)) NUL = NUL # replicate z NUL"
    using len by (simp add: z_def flip: replicate_Suc)
  have "json2_number (\<lambda>v. int32 (c_atoi v)) (print_int i @ NUL # replicate z NUL) = i"
    using int32_id [OF assms(4,5)]
    by (simp only: json2_number_def print_int_not_special if_False simp_thms) (simp add: c_atoi_print_int)
  then show ?thesis
    using getValue_field [OF assms(1-3) len]
    by (simp add: tool_json2_getNumber_def buf_put_start [OF len] z)
qed

lemma getIpv4_field:
  assumes "field_name n" "clean_fields fs" "length (dotted a b c d) < 64"
    and "first_field fs n (dotted a b c d)"
  shows "tool_json2_getIpv4 (json_obj fs @ NUL # t) n = Inr (Some (map of_int [a, b, c, d]))"
proof -
  have "NUL \<notin> set (dotted a b c d)" by (simp add: dotted_def)
  moreover obtain z where "replicate (64 - length (dotted a b c d)) NUL = NUL # replicate z NUL"
    using assms(3) by (cases "64 - length (dotted a b c d)") auto
  ultimately have "cstr (dotted a b c d @ replicate (64 - length (dotted a b c d)) NUL) = dotted a b c d"
    by (simp add: cstr_append_NUL)
  then show ?thesis
    using getValue_field [OF assms(1,2,4,3)] scan_dotted [of "[]" a b c d]
    by (simp add: tool_json2_getIpv4_def buf_put_start [OF assms(3)])
qed

section \<open>Rows of arrays\<close>

lemma json2_row_brace:
  assumes "CHR ''}'' \<notin> set r" "NUL \<notin> set r" "prev \<noteq> CHR ''}''" "length r + 1 < y" "c \<noteq> NUL"
  shows "json2_row y prev (r @ CHR ''}'' # c # s) = Some (r @ [CHR ''}'', NUL], c # s)"
  using assms
proof (induction r arbitrary: prev y)
  case Nil
  then obtain k where "y = Suc (Suc k)" by (cases y; cases "y - 1") auto
  with Nil show ?case by simp
next
  case (Cons x r)
  then obtain k where k: "y = Suc k" by (cases y) auto
  have "x \<noteq> NUL" "x \<noteq> CHR ''}''" using Cons.prems by auto
  with Cons k show ?case by simp
qed

text \<open>The objects of an array as the encoders write them.\<close>

fun json_rows :: "string list \<Rightarrow> string" where
  "json_rows [] = []"
| "json_rows [r] = r"
| "json_rows (r # q # rs) = r @ CHR '','' # json_rows (q # rs)"

definition row_text :: "string \<Rightarrow> bool" where
  "row_text r \<longleftrightarrow> (\<exists>b. r = CHR ''{'' # b @ ''}'' \<and> CHR ''}'' \<notin> set b \<and> NUL \<notin> set b)"

lemma row_text_parse:
  assumes "row_text r" "length r < y" "c \<noteq> NUL"
  shows "json2_row y (CHR ''['') (r @ c # s) = Some (r @ [NUL], c # s)"
proof -
  from assms(1) obtain b where b: "r = CHR ''{'' # b @ ''}''" "CHR ''}'' \<notin> set b" "NUL \<notin> set b"
    by (auto simp: row_text_def)
  have "json2_row y (CHR ''['') ((CHR ''{'' # b) @ CHR ''}'' # c # s) =
      Some ((CHR ''{'' # b) @ [CHR ''}'', NUL], c # s)"
    using b assms(2,3) by (intro json2_row_brace) auto
  then show ?thesis by (simp add: b(1))
qed

lemma json2_rows_parse:
  assumes "list_all (\<lambda>r. row_text r \<and> length r < y) rs" "rs \<noteq> []" "length rs \<le> x"
  shows "json2_rows x y (json_rows rs @ CHR '']'' # s) = Some (map (\<lambda>r. r @ [NUL]) rs)"
  using assms
proof (induction rs arbitrary: x rule: json_rows.induct)
  case (2 r)
  then obtain k where k: "x = Suc k" by (cases x) auto
  obtain b where "r = CHR ''{'' # b" using 2 by (auto simp: row_text_def)
  with 2 k show ?case
    using row_text_parse [of r y "CHR '']''" s] by (simp add: skip_blank_def is_space_def)
next
  case (3 r q rs)
  then obtain k where k: "x = Suc k" by (cases x) auto
  obtain b where b: "r = CHR ''{'' # b" using 3 by (auto simp: row_text_def)
  obtain e where e: "json_rows (q # rs) @ CHR '']'' # s = CHR ''{'' # e"
    using 3 by (cases rs) (auto simp: row_text_def)
  have "json2_rows k y (json_rows (q # rs) @ CHR '']'' # s) = Some (map (\<lambda>r. r @ [NUL]) (q # rs))"
    using 3 k by (intro "3.IH") auto
  then show ?case
    using row_text_parse [of r y "CHR '',''" "json_rows (q # rs) @ CHR '']'' # s"] 3(2) k
    unfolding json_rows.simps append.assoc append_Cons e
    by (simp add: b skip_blank_def is_space_def)
qed simp

lemma array_start_stuck:
  assumes "c_strstr s name = Some (name @ CHR 0x22 # CHR '':'' # c # t)"
    and "\<not> is_space c" "c \<noteq> NUL" "c \<noteq> CHR ''[''"
  shows "json2_array_start fuel name s = Inl Fuel"
proof -
  have colon: "\<not> is_space (CHR '':'')" by (simp add: is_space_def)
  show ?thesis using assms colon by (induction fuel) (simp_all add: skip_blank_def Let_def)
qed

lemma array_start_found:
  assumes "c_strstr s name = Some (name @ CHR 0x22 # CHR '':'' # CHR ''['' # t)"
  shows "json2_array_start (Suc fuel) name s = Inr (Some t)"
  using assms by (simp add: skip_blank_def is_space_def Let_def)

lemma getArray_rows:
  assumes "c_strstr (h @ json_rows rs @ '']}'') name =
           Some (name @ CHR 0x22 # CHR '':'' # CHR ''['' # json_rows rs @ '']}'')"
    and "NUL \<notin> set (h @ json_rows rs)" "list_all (\<lambda>r. row_text r \<and> length r < y) rs"
    and "length rs \<le> x" "0 < x" "0 < y"
  shows "tool_json2_getArray (Suc fuel) (h @ json_rows rs @ '']}'' @ NUL # t) name x y =
           Inr (Some (map (\<lambda>r. r @ [NUL]) rs))"
proof -
  have "cstr ((h @ json_rows rs @ '']}'') @ NUL # t) = h @ json_rows rs @ '']}''"
    using assms(2) by (intro cstr_append_NUL) simp
  then have start: "json2_array_start (Suc fuel) name (cstr (h @ json_rows rs @ '']}'' @ NUL # t)) =
      Inr (Some (json_rows rs @ '']}''))"
    using array_start_found [OF assms(1)] by simp
  show ?thesis
  proof (cases "rs = []")
    case True
    then show ?thesis
      using assms(5,6) start by (simp add: tool_json2_getArray_def skip_blank_def is_space_def del: json2_array_start.simps)
  next
    case False
    then obtain e where e: "json_rows rs @ '']}'' = CHR ''{'' # e"
      using assms(3) by (cases rs rule: json_rows.cases) (auto simp: row_text_def)
    have "json2_rows x y (json_rows rs @ '']}'') = Some (map (\<lambda>r. r @ [NUL]) rs)"
      using json2_rows_parse [OF assms(3) False assms(4), of "''}''"] by simp
    then show ?thesis
      using assms(5,6) start e
      by (simp add: tool_json2_getArray_def skip_blank_def is_space_def del: json2_array_start.simps)
  qed
qed

section \<open>Properties\<close>

text \<open>Reading a number from a message the code base wrote gives the number of the first
  field with that name, for every 32-bit number, whatever follows the message in its buffer,
  provided no earlier field has the name as its value.\<close>

theorem json2_getNumber_field:
  assumes "field_name n" "clean_fields fs" "first_field fs n (print_int i)"
    and "- (2 ^ 31) \<le> i" "i < 2 ^ 31"
  shows "tool_json2_getNumber (json_obj fs @ NUL # t) n = Inr (Some i)"
  using assms by (rule getNumber_field)

theorem json2_getNumber_field_witness:
  "tool_json2_getNumber (json_obj [(''cmd'', ''7''), (''zone'', print_int (- 8))] @ NUL # ''xx'') ''zone''
     = Inr (Some (- 8))"
  by (rule json2_getNumber_field) (simp_all add: field_name_def first_field_Cons)

text \<open>C29: Looking up a value is total and stays inside the caller's buffer: it returns 0, or -1
  with the buffer as it was, for every text, name and buffer of at least five characters.\<close>

theorem json2_getValue_safe:
  assumes "sz \<le> length buf" "5 \<le> length buf"
  shows "\<exists>ret buf'. tool_json2_getValue s n buf sz = Inr (ret, buf') \<and> length buf' = length buf
           \<and> (ret = 0 \<or> ret = - 1 \<and> buf' = buf)"
  using assms by (rule getValue_total)

theorem json2_getValue_safe_witness:
  "\<exists>ret buf'. tool_json2_getValue ''{}'' ''zone'' (replicate 64 NUL) 64 = Inr (ret, buf')
     \<and> length buf' = length (replicate 64 NUL) \<and> (ret = 0 \<or> ret = - 1 \<and> buf' = replicate 64 NUL)"
  by (rule json2_getValue_safe) simp_all

text \<open>Looking up an array does not return when the first member with that name has a value
  that is not an array: the search starts again from the same place, however often.\<close>

theorem json2_getArray_hangs:
  assumes "c_strstr (cstr s) name = Some (name @ CHR 0x22 # CHR '':'' # c # t)"
    and "\<not> is_space c" "c \<noteq> NUL" "c \<noteq> CHR ''[''" "x \<noteq> 0" "y \<noteq> 0"
  shows "tool_json2_getArray fuel s name x y = Inl Fuel"
  using assms array_start_stuck [OF assms(1-4)] by (simp add: tool_json2_getArray_def)

theorem json2_getArray_hangs_witness:
  "tool_json2_getArray 1000 (CHR ''{'' # CHR 0x22 # ''log'' @ CHR 0x22 # '':5}'') ''log'' 1024 512 = Inl Fuel"
  by (rule json2_getArray_hangs [where c = "CHR ''5''" and t = "''}''"])
    (simp_all add: cstr_def is_space_def)

end
