(* ===== verification/Ptc_Qh.thy ===== *)
theory Ptc_Qh
  imports Tool_Sock Tool_Md5 Tool_Json2
begin

text \<open>
  The framing of the QH protocol, \<^verbatim>\<open>sab_app/jni/nc/tool_ptc.c\<close> lines 20 to 299: messages (a
  32-byte head and up to 4096 bytes of data), frames split into packets of 1024 bytes, the
  shuffled second version of the frame functions, and the text forms of addresses and nonces. The send and
  receive calls of the socket layer are the functions of \<^verbatim>\<open>Tool_Sock\<close>; the model's functions
  take them as their first argument so that the lemmas can be proved once for everything
  that behaves as a \<open>transport\<close>, and the properties are about the socket layer's own.
\<close>

section \<open>Heads\<close>

record ptc_head =
  h_flag :: u32
  h_cmd :: u32
  h_len :: u32
  h_ver :: u16
  h_ack :: u16
  h_pack_count :: u16
  h_pack_no :: u16
  h_pack_len :: u32
  h_channel_type :: u8
  h_channel_no :: u8
  h_reserved :: "u8 list"

text \<open>The head in memory, little endian; \<open>sizeof (ptc_head_t)\<close> is 32.\<close>

definition le4 :: "u32 \<Rightarrow> u8 list" where
  "le4 w = [ucast w, ucast (drop_bit 8 w), ucast (drop_bit 16 w), ucast (drop_bit 24 w)]"

definition le2 :: "u16 \<Rightarrow> u8 list" where
  "le2 w = [ucast w, ucast (drop_bit 8 w)]"

definition le16 :: "u8 \<Rightarrow> u8 \<Rightarrow> u16" where
  "le16 b0 b1 = ucast b0 OR push_bit 8 (ucast b1)"

definition head_bytes :: "ptc_head \<Rightarrow> u8 list" where
  "head_bytes h = le4 (h_flag h) @ le4 (h_cmd h) @ le4 (h_len h) @ le2 (h_ver h) @ le2 (h_ack h) @
     le2 (h_pack_count h) @ le2 (h_pack_no h) @ le4 (h_pack_len h) @
     [h_channel_type h, h_channel_no h] @ h_reserved h"

definition head_of_bytes :: "u8 list \<Rightarrow> ptc_head" where
  "head_of_bytes b = \<lparr>
     h_flag = le32 (b ! 0) (b ! 1) (b ! 2) (b ! 3),
     h_cmd = le32 (b ! 4) (b ! 5) (b ! 6) (b ! 7),
     h_len = le32 (b ! 8) (b ! 9) (b ! 10) (b ! 11),
     h_ver = le16 (b ! 12) (b ! 13), h_ack = le16 (b ! 14) (b ! 15),
     h_pack_count = le16 (b ! 16) (b ! 17), h_pack_no = le16 (b ! 18) (b ! 19),
     h_pack_len = le32 (b ! 20) (b ! 21) (b ! 22) (b ! 23),
     h_channel_type = b ! 24, h_channel_no = b ! 25,
     h_reserved = take 6 (drop 26 b) \<rparr>"

definition PTC_FLAG :: u32 where "PTC_FLAG = 0x51484B4A"
definition PTC_VERSION :: u16 where "PTC_VERSION = 0x2223"
definition PTC_MSG_SIZE :: nat where "PTC_MSG_SIZE = 4 * 1024"
definition PTC_PACK_SIZE :: nat where "PTC_PACK_SIZE = 1024"
definition PTC_PACK_NUM :: nat where "PTC_PACK_NUM = 2000"
definition PTC_VIDEO_FRAME_SIZE :: nat where "PTC_VIDEO_FRAME_SIZE = 500 * 1024"

section \<open>Messages\<close>

record ptc_msg =
  head :: ptc_head
  data :: "u8 list"

type_synonym 's sender = "'s \<Rightarrow> u8 list \<Rightarrow> (int \<times> 's) outcome"
type_synonym 's receiver = "'s \<Rightarrow> nat \<Rightarrow> (int \<times> u8 list \<times> 's) outcome"

text \<open>The fields \<open>sendMsg\<close> and \<open>sendtoMsg\<close> fill in.\<close>

definition msg_stamp :: "ptc_msg \<Rightarrow> ptc_msg" where
  "msg_stamp msg = msg\<lparr> head := (head msg)\<lparr> h_flag := PTC_FLAG, h_ver := PTC_VERSION,
     h_pack_count := 1, h_pack_no := 1, h_pack_len := h_len (head msg) \<rparr> \<rparr>"

text \<open>
  The first \<open>len\<close> bytes of the message object; a negative \<open>len\<close> makes the send loop end at once.
\<close>

definition msg_image :: "ptc_msg \<Rightarrow> int \<Rightarrow> u8 list outcome" where
  "msg_image msg len =
     (if len \<le> 0 then Inr []
      else if nat len \<le> length (head_bytes (head msg) @ data msg)
      then Inr (take (nat len) (head_bytes (head msg) @ data msg)) else Inl Fault)"

definition qh_sendMsg :: "'s sender \<Rightarrow> 's \<Rightarrow> ptc_msg \<Rightarrow> (int \<times> ptc_msg \<times> 's) outcome" where
  "qh_sendMsg send s msg =
     (let msg = msg_stamp msg;
          len = int32 (32 + uint (h_len (head msg)))
      in andThen (msg_image msg len) (\<lambda>bytes.
         andThen (send s bytes) (\<lambda>(ret, s).
           Inr (if ret \<noteq> len then - 1 else 0, msg, s))))"

text \<open>Bytes arriving at the start of a head object.\<close>

definition head_store :: "u8 list \<Rightarrow> ptc_head \<Rightarrow> ptc_head" where
  "head_store bytes h = head_of_bytes (bytes @ drop (length bytes) (head_bytes h))"

definition qh_recvMsg :: "'s receiver \<Rightarrow> 's \<Rightarrow> ptc_msg \<Rightarrow> (int \<times> ptc_msg \<times> 's) outcome" where
  "qh_recvMsg recv s msg =
     andThen (recv s 32) (\<lambda>(ret, bytes, s).
         (let msg = msg\<lparr> head := head_store bytes (head msg) \<rparr>;
              len = h_len (head msg)
          in if ret \<noteq> 32 then Inr (- 1, msg, s)
             else if h_flag (head msg) \<noteq> PTC_FLAG then Inr (- 1, msg, s)
             else if unat len \<ge> PTC_MSG_SIZE then Inr (- 1, msg, s)
             else andThen (recv s (unat len)) (\<lambda>(ret, bytes, s).
                    andThen (buf_put 0 bytes (data msg)) (\<lambda>d.
                      let msg = msg\<lparr> data := d \<rparr>
                      in if ret \<noteq> int (unat len) then Inr (- 1, msg, s)
                         else andThen (buf_put (unat len) [0] (data msg)) (\<lambda>d.
                                Inr (0, msg\<lparr> data := d \<rparr>, s))))))"

definition tool_ptc_qh_sendMsg ::
  "tool_sock_item \<times> net \<Rightarrow> ptc_msg \<Rightarrow> (int \<times> ptc_msg \<times> tool_sock_item \<times> net) outcome" where
  "tool_ptc_qh_sendMsg = qh_sendMsg tool_sock_item_send"

definition tool_ptc_qh_recvMsg ::
  "tool_sock_item \<times> net \<Rightarrow> ptc_msg \<Rightarrow> (int \<times> ptc_msg \<times> tool_sock_item \<times> net) outcome" where
  "tool_ptc_qh_recvMsg = qh_recvMsg tool_sock_item_recv"

text \<open>
  Datagrams: \<open>sent\<close> is what \<open>sendto\<close> returned for the length handed to it. For \<open>recvfrom\<close> the
  argument is the datagram, cut to the size of the message object, or an error.
\<close>

definition tool_ptc_qh_sendtoMsg ::
  "(u8 list \<Rightarrow> int) \<Rightarrow> ptc_msg \<Rightarrow> (int \<times> ptc_msg) outcome" where
  "tool_ptc_qh_sendtoMsg sent msg =
     (let msg = msg_stamp msg;
          len = int32 (32 + uint (h_len (head msg)))
      in andThen (msg_image msg len) (\<lambda>bytes.
           Inr (if sent bytes \<noteq> len then - 1 else 0, msg)))"

definition tool_ptc_qh_recvfromMsg ::
  "u8 list option \<Rightarrow> ptc_msg \<Rightarrow> int \<times> ptc_msg" where
  "tool_ptc_qh_recvfromMsg datagram msg =
     (case datagram of
        None \<Rightarrow> (- 1, msg)
      | Some bytes \<Rightarrow>
          (let image = take (32 + length (data msg)) bytes;
               whole = image @ drop (length image) (head_bytes (head msg) @ data msg);
               msg = \<lparr> head = head_of_bytes whole, data = drop 32 whole \<rparr>
           in if length image < 32 then (- 1, msg)
              else if h_flag (head msg) \<noteq> PTC_FLAG then (- 1, msg)
              else if unat (h_len (head msg)) > PTC_MSG_SIZE then (- 1, msg)
              else (0, msg)))"

section \<open>Frames\<close>

record ptc_frame =
  f_head :: ptc_head
  f_data :: "u8 list"

text \<open>The number of packets, as stored in the 16-bit field, and the length of packet \<open>i\<close>.\<close>

definition frame_stamp :: "ptc_frame \<Rightarrow> ptc_frame" where
  "frame_stamp frame =
     (let h = (f_head frame)\<lparr> h_flag := PTC_FLAG, h_ver := PTC_VERSION \<rparr>;
          len = unat (h_len h)
      in frame\<lparr> f_head := h\<lparr> h_pack_count :=
           (if len = 0 then 1
            else if len mod PTC_PACK_SIZE = 0 then of_nat (len div PTC_PACK_SIZE)
            else of_nat (len div PTC_PACK_SIZE + 1)) \<rparr> \<rparr>)"

definition pack_head :: "ptc_head \<Rightarrow> nat \<Rightarrow> ptc_head" where
  "pack_head h i =
     (let h = h\<lparr> h_pack_no := of_nat (i + 1) \<rparr>
      in h\<lparr> h_pack_len := (if h_pack_no h < h_pack_count h then of_nat PTC_PACK_SIZE
                            else h_len h - of_nat (i * PTC_PACK_SIZE)) \<rparr>)"

text \<open>\<open>n\<close> bytes of an object from offset \<open>a\<close> on.\<close>

definition slice :: "nat \<Rightarrow> nat \<Rightarrow> u8 list \<Rightarrow> u8 list outcome" where
  "slice a n d = (if a + n \<le> length d then Inr (take n (drop a d)) else Inl Fault)"

text \<open>
  The packets \<open>i\<close>, \<open>i + 1\<close>, ...; \<open>pos i\<close> is the block of the data packet \<open>i\<close> carries. A
  \<open>pack_len\<close> of 2 ^ 31 or more is a negative length for the socket layer, which then moves
  nothing; the comparison with its result is unsigned.
\<close>

fun send_packs ::
  "'s sender \<Rightarrow> (nat \<Rightarrow> nat) \<Rightarrow> nat list \<Rightarrow> 's \<Rightarrow> ptc_frame \<Rightarrow> (int \<times> ptc_frame \<times> 's) outcome" where
  "send_packs send pos [] s frame = Inr (0, frame, s)"
| "send_packs send pos (i # is) s frame =
     (let frame = frame\<lparr> f_head := pack_head (f_head frame) i \<rparr>;
          plen = (if sint (h_pack_len (f_head frame)) < 0 then 0 else unat (h_pack_len (f_head frame)))
      in andThen (send s (head_bytes (f_head frame))) (\<lambda>(ret, s).
           if ret \<noteq> 32 then Inr (- 1, frame, s)
           else andThen (slice (pos i * PTC_PACK_SIZE) plen (f_data frame)) (\<lambda>bytes.
                andThen (send s bytes) (\<lambda>(ret, s).
                  if of_int ret \<noteq> h_pack_len (f_head frame) then Inr (- 1, frame, s)
                  else send_packs send pos is s frame))))"

definition qh_sendFrame :: "'s sender \<Rightarrow> 's \<Rightarrow> ptc_frame \<Rightarrow> (int \<times> ptc_frame \<times> 's) outcome" where
  "qh_sendFrame send s frame =
     (let frame = frame_stamp frame
      in send_packs send (\<lambda>i. i) [0..<unat (h_pack_count (f_head frame))] s frame)"

text \<open>
  Receiving: \<open>len\<close> is the 32-bit count of bytes so far. \<open>big\<close> is the size test, which the two
  versions write differently. The first argument bounds the packets.
\<close>

fun recv_packs ::
  "nat \<Rightarrow> 's receiver \<Rightarrow> (nat \<Rightarrow> bool) \<Rightarrow> 's \<Rightarrow> u32 \<Rightarrow> ptc_frame \<Rightarrow> (int \<times> u32 \<times> ptc_frame \<times> 's) outcome" where
  "recv_packs 0 recv big s len frame = Inl Fuel"
| "recv_packs (Suc fuel) recv big s len frame =
     andThen (recv s 32) (\<lambda>(ret, bytes, s).
       let frame = frame\<lparr> f_head := head_store bytes (f_head frame) \<rparr>;
           h = f_head frame
       in if ret \<noteq> 32 then Inr (- 1, len, frame, s)
          else if h_flag h \<noteq> PTC_FLAG then Inr (- 1, len, frame, s)
          else if big (unat (len + h_pack_len h)) then Inr (- 1, len, frame, s)
          else andThen (recv s (if sint (h_pack_len h) < 0 then 0 else unat (h_pack_len h)))
                (\<lambda>(ret, bytes, s).
                 andThen (buf_put (unat len) bytes (f_data frame)) (\<lambda>d.
                   let frame = frame\<lparr> f_data := d \<rparr>
                   in if of_int ret \<noteq> h_pack_len h then Inr (- 1, len, frame, s)
                      else let len = len + h_pack_len h
                           in if h_pack_count h = h_pack_no h then Inr (0, len, frame, s)
                              else recv_packs fuel recv big s len frame)))"

definition qh_recvFrame ::
  "nat \<Rightarrow> 's receiver \<Rightarrow> 's \<Rightarrow> ptc_frame \<Rightarrow> (int \<times> ptc_frame \<times> 's) outcome" where
  "qh_recvFrame fuel recv s frame =
     andThen (recv_packs fuel recv (\<lambda>n. n \<ge> PTC_VIDEO_FRAME_SIZE) s 0 frame) (\<lambda>(ret, len, frame, s).
       if ret < 0 then Inr (- 1, frame, s)
       else if len \<noteq> h_len (f_head frame) then Inr (- 1, frame, s)
       else andThen (buf_put (unat len) [0] (f_data frame)) (\<lambda>d. Inr (0, frame\<lparr> f_data := d \<rparr>, s)))"

text \<open>
  The second version: the sender takes the blocks in the order of a shuffle. \<open>rnd\<close> stands for
  the values \<open>rand\<close> returns after \<open>srand (seed)\<close>. The receiver computes a shuffle of its own
  and does not use it.
\<close>

definition qh_sendFrame_v2 ::
  "'s sender \<Rightarrow> (nat \<Rightarrow> nat) \<Rightarrow> 's \<Rightarrow> ptc_frame \<Rightarrow> (int \<times> ptc_frame \<times> 's) outcome" where
  "qh_sendFrame_v2 send rnd s frame =
     (let frame = frame_stamp frame;
          count = unat (h_pack_count (f_head frame))
      in if count > PTC_PACK_NUM then Inr (- 1, frame, s)
         else let array = tool_ran_wash rnd count
              in send_packs send (\<lambda>i. array ! i) [0..<count] s frame)"

definition qh_recvFrame_v2 ::
  "nat \<Rightarrow> 's receiver \<Rightarrow> 's \<Rightarrow> ptc_frame \<Rightarrow> (int \<times> ptc_frame \<times> 's) outcome" where
  "qh_recvFrame_v2 fuel recv s frame =
     (if unat (h_pack_count (f_head frame)) > PTC_PACK_NUM then Inl Fault
      else andThen (recv_packs fuel recv (\<lambda>n. n > PTC_VIDEO_FRAME_SIZE) s 0 frame)
        (\<lambda>(ret, len, frame, s).
           if ret < 0 then Inr (- 1, frame, s)
           else if len \<noteq> h_len (f_head frame) then Inr (- 1, frame, s)
           else Inr (0, frame, s)))"

definition tool_ptc_qh_sendFrame ::
  "tool_sock_item \<times> net \<Rightarrow> ptc_frame \<Rightarrow> (int \<times> ptc_frame \<times> tool_sock_item \<times> net) outcome" where
  "tool_ptc_qh_sendFrame = qh_sendFrame tool_sock_item_send"

definition tool_ptc_qh_recvFrame ::
  "nat \<Rightarrow> tool_sock_item \<times> net \<Rightarrow> ptc_frame \<Rightarrow> (int \<times> ptc_frame \<times> tool_sock_item \<times> net) outcome" where
  "tool_ptc_qh_recvFrame fuel = qh_recvFrame fuel tool_sock_item_recv"

definition tool_ptc_qh_sendFrame_v2 ::
  "(nat \<Rightarrow> nat) \<Rightarrow> tool_sock_item \<times> net \<Rightarrow> ptc_frame
     \<Rightarrow> (int \<times> ptc_frame \<times> tool_sock_item \<times> net) outcome" where
  "tool_ptc_qh_sendFrame_v2 rnd = qh_sendFrame_v2 tool_sock_item_send rnd"

definition tool_ptc_qh_recvFrame_v2 ::
  "nat \<Rightarrow> tool_sock_item \<times> net \<Rightarrow> ptc_frame \<Rightarrow> (int \<times> ptc_frame \<times> tool_sock_item \<times> net) outcome" where
  "tool_ptc_qh_recvFrame_v2 fuel = qh_recvFrame_v2 fuel tool_sock_item_recv"

section \<open>Heads as a codec\<close>

text \<open>The reserved bytes are an array of six.\<close>

definition head_ok :: "ptc_head \<Rightarrow> bool" where
  "head_ok h \<longleftrightarrow> length (h_reserved h) = 6"

lemma le4_le32: "le32 (ucast w) (ucast (drop_bit 8 w)) (ucast (drop_bit 16 w)) (ucast (drop_bit 24 w)) = (w :: u32)"
proof (rule bit_word_eqI)
  fix n assume n: "n < LENGTH(32)"
  then consider "n < 8" | "8 \<le> n" "n < 16" | "16 \<le> n" "n < 24" | "24 \<le> n" "n < 32" by force
  then show "bit (le32 (ucast w) (ucast (drop_bit 8 w)) (ucast (drop_bit 16 w)) (ucast (drop_bit 24 w)) :: u32) n = bit w n"
    by cases (auto simp: le32_def bit_calc)
qed

lemma le2_le16: "le16 (ucast w) (ucast (drop_bit 8 w)) = (w :: u16)"
proof (rule bit_word_eqI)
  fix n assume n: "n < LENGTH(16)"
  then consider "n < 8" | "8 \<le> n" "n < 16" by force
  then show "bit (le16 (ucast w) (ucast (drop_bit 8 w)) :: u16) n = bit w n"
    by cases (auto simp: le16_def bit_calc)
qed

lemma length_head_bytes [simp]: "head_ok h \<Longrightarrow> length (head_bytes h) = 32"
  by (simp add: head_bytes_def head_ok_def le4_def le2_def)

lemma head_of_head_bytes: "head_ok h \<Longrightarrow> head_of_bytes (head_bytes h @ x) = h"
  by (cases h) (simp add: head_ok_def head_bytes_def head_of_bytes_def le4_def le2_def le4_le32 le2_le16)

lemma head_ok_updates [simp]:
  "head_ok (h\<lparr>h_flag := a\<rparr>) = head_ok h" "head_ok (h\<lparr>h_ver := b\<rparr>) = head_ok h"
  "head_ok (h\<lparr>h_pack_count := b\<rparr>) = head_ok h" "head_ok (h\<lparr>h_pack_no := b\<rparr>) = head_ok h"
  "head_ok (h\<lparr>h_pack_len := a\<rparr>) = head_ok h"
  by (simp_all add: head_ok_def)

lemma head_store_whole: "head_ok h \<Longrightarrow> head_ok g \<Longrightarrow> head_store (head_bytes h) g = h"
  by (simp add: head_store_def head_of_head_bytes [where x = "[]", simplified])

definition head_parse :: "u8 list \<Rightarrow> ptc_head option" where
  "head_parse b = (if length b = 32 then Some (head_of_bytes b) else None)"

interpretation head_codec: codec head_bytes head_parse head_ok
  by unfold_locales (simp add: head_parse_def head_of_head_bytes [where x = "[]", simplified])

section \<open>The two ends of a transport\<close>

text \<open>What a frame occupies on the wire: head and block of each packet.\<close>

definition pack_stream :: "ptc_head \<Rightarrow> (nat \<Rightarrow> u8 list) \<Rightarrow> nat list \<Rightarrow> u8 list" where
  "pack_stream h blk is = concat (map (\<lambda>i. head_bytes (pack_head h i) @ blk i) is)"

lemma pack_stream_simps [simp]:
  "pack_stream h blk [] = []"
  "pack_stream h blk (i # is) = head_bytes (pack_head h i) @ blk i @ pack_stream h blk is"
  by (simp_all add: pack_stream_def)

text \<open>The packets of \<open>n\<close> bytes, and the length of packet \<open>i\<close>.\<close>

definition frame_count :: "nat \<Rightarrow> nat" where
  "frame_count n = (if n = 0 then 1 else (n + 1023) div 1024)"

definition pack_size :: "nat \<Rightarrow> nat \<Rightarrow> nat" where
  "pack_size n i = (if i + 1 < frame_count n then 1024 else n - i * 1024)"

definition frame_block :: "(nat \<Rightarrow> nat) \<Rightarrow> u8 list \<Rightarrow> nat \<Rightarrow> nat \<Rightarrow> u8 list" where
  "frame_block pos d n i = take (pack_size n i) (drop (pos i * 1024) d)"

text \<open>A head \<open>sendFrame\<close> has filled in, for a frame a receiver accepts.\<close>

definition stamped :: "nat \<Rightarrow> ptc_head \<Rightarrow> bool" where
  "stamped n h \<longleftrightarrow> head_ok h \<and> h_flag h = PTC_FLAG \<and> unat (h_len h) = n \<and> n < PTC_VIDEO_FRAME_SIZE \<and>
     unat (h_pack_count h) = frame_count n"

lemma unat_of_nat_u16: "unat (of_nat m :: u16) = m mod 2 ^ 16"
  by (simp add: unsigned_of_nat take_bit_eq_mod)

lemma frame_count_bounds:
  "n < PTC_VIDEO_FRAME_SIZE \<Longrightarrow> 1 \<le> frame_count n \<and> frame_count n \<le> 500
     \<and> n \<le> frame_count n * 1024 \<and> (frame_count n - 1) * 1024 \<le> n"
  by (auto simp: frame_count_def PTC_VIDEO_FRAME_SIZE_def)

lemma frame_count_cases:
  "frame_count n = (if n = 0 then 1 else if n mod 1024 = 0 then n div 1024 else n div 1024 + 1)"
proof -
  define q r where "q = n div 1024" and "r = n mod 1024"
  have n: "n = r + q * 1024" "r < 1024" by (simp_all add: q_def r_def)
  have "(n + 1023) div 1024 = (r + 1023) div 1024 + q" unfolding n(1) by simp
  also have "(r + 1023) div 1024 = (if r = 0 then 0 else 1)"
    using n(2) by auto
  finally show ?thesis by (simp add: frame_count_def q_def r_def)
qed

lemma frame_stamp_stamped:
  assumes "head_ok (f_head frame)" "unat (h_len (f_head frame)) < PTC_VIDEO_FRAME_SIZE"
  shows "stamped (unat (h_len (f_head frame))) (f_head (frame_stamp frame))"
proof -
  define n where "n = unat (h_len (f_head frame))"
  have "n < 512000" using assms(2) by (simp add: n_def PTC_VIDEO_FRAME_SIZE_def)
  then have "n div 1024 + 1 < 65536" by simp
  then have "(n div 1024 + 1) mod 65536 = n div 1024 + 1" "n div 1024 mod 65536 = n div 1024" by simp_all
  then have "unat (h_pack_count (f_head (frame_stamp frame))) = frame_count n"
    unfolding frame_count_cases
    by (simp add: frame_stamp_def Let_def n_def [symmetric] PTC_PACK_SIZE_def unat_of_nat_u16
        del: of_nat_Suc of_nat_add)
  with assms show ?thesis
    by (simp add: stamped_def frame_stamp_def Let_def n_def)
qed

lemma sint_small:
  assumes "unat (w :: u32) < 2147483648"
  shows "0 \<le> sint w"
proof -
  have "uint w = int (unat w)" by simp
  then have "uint w < 2147483648" using assms by linarith
  moreover have "0 \<le> uint w" by simp
  ultimately have "uint w div 2147483648 = 0" by (simp only: div_pos_pos_trivial)
  then show ?thesis by (simp add: sint_uint signed_take_bit_nonnegative_iff bit_iff_odd)
qed

lemma sint_nonneg:
  assumes "0 \<le> sint (w :: u32)"
  shows "unat w < 2147483648"
proof (rule ccontr)
  assume a: "\<not> unat w < 2147483648"
  moreover have "unat w < 4294967296" using unsigned_less [of w, where 'a = nat] by simp
  moreover have "uint w = int (unat w)" by simp
  ultimately have "uint w div 2147483648 = 1" by linarith
  with assms show False by (simp add: sint_uint signed_take_bit_nonnegative_iff bit_iff_odd)
qed

lemma pack_head_fields:
  assumes "stamped n h" "i < frame_count n"
  shows "unat (h_pack_len (pack_head h i)) = pack_size n i" "0 \<le> sint (h_pack_len (pack_head h i))"
    "h_flag (pack_head h i) = PTC_FLAG" "head_ok (pack_head h i)" "h_len (pack_head h i) = h_len h"
    "h_pack_count (pack_head h i) = h_pack_no (pack_head h i) \<longleftrightarrow> i + 1 = frame_count n"
proof -
  have b: "frame_count n \<le> 500" "n < 512000" "(frame_count n - 1) * 1024 \<le> n"
    using assms(1) frame_count_bounds [of n] by (auto simp: stamped_def PTC_VIDEO_FRAME_SIZE_def)
  have i: "i * 1024 \<le> n"
  proof -
    have "i \<le> frame_count n - 1" using assms(2) by simp
    then have "i * 1024 \<le> (frame_count n - 1) * 1024" by (rule mult_le_mono1)
    with b(3) show ?thesis by simp
  qed
  have no: "unat (h_pack_no (pack_head h i)) = i + 1"
    using assms b unfolding pack_head_def Let_def by (simp add: unat_of_nat_u16 del: of_nat_add of_nat_Suc)
  have "h_pack_no (pack_head h i) < h_pack_count h \<longleftrightarrow> i + 1 < frame_count n"
    using assms(1) no by (simp add: word_less_nat_alt stamped_def)
  then have less: "(of_nat (i + 1) :: u16) < h_pack_count h \<longleftrightarrow> i + 1 < frame_count n"
    unfolding pack_head_def Let_def by simp
  have sub: "unat (h_len h - of_nat (i * 1024)) = n - i * 1024"
  proof -
    have "unat (of_nat (i * 1024) :: u32) = i * 1024" using i b by (simp add: unat_of_nat_u32 del: of_nat_mult)
    then show ?thesis using assms(1) i by (subst unat_sub) (simp_all add: word_le_nat_alt stamped_def)
  qed
  show len: "unat (h_pack_len (pack_head h i)) = pack_size n i"
    using less sub unfolding pack_head_def Let_def
    by (simp add: pack_size_def PTC_PACK_SIZE_def del: of_nat_add of_nat_mult of_nat_Suc)
  have "pack_size n i \<le> n + 1024" by (auto simp: pack_size_def)
  then show "0 \<le> sint (h_pack_len (pack_head h i))"
    using b(2) by (intro sint_small) (simp add: len)
  show "h_flag (pack_head h i) = PTC_FLAG" "head_ok (pack_head h i)" "h_len (pack_head h i) = h_len h"
    using assms(1) by (simp_all add: pack_head_def Let_def stamped_def)
  have "h_pack_count (pack_head h i) = h_pack_count h" by (simp add: pack_head_def Let_def)
  then show "h_pack_count (pack_head h i) = h_pack_no (pack_head h i) \<longleftrightarrow> i + 1 = frame_count n"
    using assms(1) no by (auto simp: stamped_def word_unat_eq_iff)
qed

lemma pack_head_again [simp]: "pack_head (pack_head h j) i = pack_head h i"
  by (simp add: pack_head_def Let_def)

lemma pack_size_end:
  assumes "n < PTC_VIDEO_FRAME_SIZE" "i < frame_count n"
  shows "i * 1024 + pack_size n i \<le> n" "i + 1 < frame_count n \<Longrightarrow> i * 1024 + pack_size n i = (i + 1) * 1024"
    "i + 1 = frame_count n \<Longrightarrow> i * 1024 + pack_size n i = n"
  using assms frame_count_bounds [of n]
  by (auto simp: pack_size_def frame_count_def split: if_splits)

lemma length_frame_block:
  "pos i * 1024 + pack_size n i \<le> length d \<Longrightarrow> length (frame_block pos d n i) = pack_size n i"
  by (simp add: frame_block_def)

context transport
begin

lemma sendMsg_image:
  assumes "head_ok (head msg)" "unat (h_len (head msg)) = n" "n \<le> length (data msg)" "n < 2147483000"
    and "can s (k + (32 + n))"
  shows "\<exists>s'. qh_sendMsg send s msg = Inr (0, msg_stamp msg, s') \<and> can s' k
      \<and> outgoing s' = outgoing s @ head_bytes (head (msg_stamp msg)) @ take n (data msg)
      \<and> incoming s' = incoming s"
proof -
  let ?m = "msg_stamp msg"
  have m: "head_ok (head ?m)" "unat (h_len (head ?m)) = n" "data ?m = data msg"
    using assms(1,2) by (simp_all add: msg_stamp_def)
  have "uint (h_len (head ?m)) = int n" using m(2) by (metis uint_nat)
  then have len: "int32 (32 + uint (h_len (head ?m))) = int (32 + n)"
    using assms(4) by (simp add: int32_id)
  let ?b = "head_bytes (head ?m) @ take n (data msg)"
  have b: "msg_image ?m (int (32 + n)) = Inr ?b"
    using m assms(3) by (simp add: msg_image_def nat_add_distrib)
  have "length ?b = 32 + n" using m assms(3) by simp
  with send_all [of s k ?b] assms(5) obtain s' where "send s ?b = Inr (int (32 + n), s')" "can s' k"
    "outgoing s' = outgoing s @ ?b" "incoming s' = incoming s" by auto
  then show ?thesis
    using len b by (simp add: qh_sendMsg_def Let_def)
qed

lemma recvMsg_image:
  assumes "head_ok h" "h_flag h = PTC_FLAG" "unat (h_len h) = length bs" "length bs < PTC_MSG_SIZE"
    and "incoming s = head_bytes h @ bs @ rest" "can s (k + (32 + length bs))"
    and "head_ok (head buf)" "length bs < length (data buf)"
  shows "\<exists>s'. qh_recvMsg recv s buf =
        Inr (0, buf\<lparr> head := h, data := bs @ 0 # drop (Suc (length bs)) (data buf) \<rparr>, s')
      \<and> can s' k \<and> incoming s' = rest \<and> outgoing s' = outgoing s"
proof -
  from recv_two [OF assms(6)] assms(1,5) obtain s1 s2 where
    "recv s 32 = Inr (32, head_bytes h, s1)" "recv s1 (length bs) = Inr (int (length bs), bs, s2)"
    "can s2 k" "incoming s2 = rest" "outgoing s2 = outgoing s" by auto
  then show ?thesis
    using assms(1-4,7,8)
    by (simp add: qh_recvMsg_def Let_def head_store_whole buf_put_def Suc_diff_le not_le)
qed

lemma send_packs_all:
  assumes "stamped n h" "\<forall>i \<in> set is. i < frame_count n \<and> pos i * 1024 + pack_size n i \<le> length (f_data frame)"
    and "pack_head (f_head frame) = pack_head h"
    and "can s (k + length (pack_stream h (frame_block pos (f_data frame) n) is))"
  shows "\<exists>s'. send_packs send pos is s frame =
        Inr (0, frame\<lparr> f_head := (if is = [] then f_head frame else pack_head h (last is)) \<rparr>, s')
      \<and> can s' k \<and> incoming s' = incoming s
      \<and> outgoing s' = outgoing s @ pack_stream h (frame_block pos (f_data frame) n) is"
  using assms
proof (induction "is" arbitrary: s frame)
  case Nil
  then show ?case by simp
next
  case (Cons i "is")
  define fr where "fr = frame\<lparr> f_head := pack_head h i \<rparr>"
  have i: "i < frame_count n" "pos i * 1024 + pack_size n i \<le> length (f_data frame)"
    using Cons.prems(2) by simp_all
  note ph = pack_head_fields [OF Cons.prems(1) i(1)]
  let ?blk = "frame_block pos (f_data frame) n"
  have blk: "length (?blk i) = pack_size n i" using i(2) by (rule length_frame_block)
  from send_two [of s "k + length (pack_stream h ?blk is)" "head_bytes (pack_head h i)" "?blk i"]
    Cons.prems(4) ph(4) blk obtain s1 s2 where
    s1: "send s (head_bytes (pack_head h i)) = Inr (32, s1)"
    and s2: "send s1 (?blk i) = Inr (int (pack_size n i), s2)" "can s2 (k + length (pack_stream h ?blk is))"
      "outgoing s2 = outgoing s @ head_bytes (pack_head h i) @ ?blk i" "incoming s2 = incoming s"
    by (auto simp: ac_simps)
  have "slice (pos i * PTC_PACK_SIZE) (pack_size n i) (f_data frame) = Inr (?blk i)"
    using i(2) by (simp add: slice_def frame_block_def PTC_PACK_SIZE_def)
  moreover have "of_int (int (pack_size n i)) = h_pack_len (pack_head h i)"
    by (simp flip: ph(1))
  ultimately have step: "send_packs send pos (i # is) s frame = send_packs send pos is s2 fr"
    using Cons.prems(3) s1 s2(1) ph(1,2) by (simp add: Let_def fr_def del: of_int_of_nat_eq)
  have "\<exists>s'. send_packs send pos is s2 fr =
        Inr (0, fr\<lparr> f_head := (if is = [] then f_head fr else pack_head h (last is)) \<rparr>, s')
      \<and> can s' k \<and> incoming s' = incoming s2
      \<and> outgoing s' = outgoing s2 @ pack_stream h (frame_block pos (f_data fr) n) is"
  proof (rule Cons.IH [OF Cons.prems(1)])
    show "pack_head (f_head fr) = pack_head h" by (rule ext) (simp add: fr_def)
  qed (use Cons.prems s2(2) in \<open>simp_all add: fr_def\<close>)
  then show ?case unfolding step by (auto simp: fr_def s2)
qed

lemma recv_packs_all:
  assumes "stamped n h" "i < frame_count n" "frame_count n - i \<le> fuel"
    and "\<forall>j. i \<le> j \<and> j < frame_count n \<longrightarrow> length (blk j) = pack_size n j" "\<forall>m \<le> n. \<not> big m"
    and "incoming s = pack_stream h blk [i..<frame_count n] @ rest"
    and "can s (k + length (pack_stream h blk [i..<frame_count n]))"
    and "head_ok (f_head frame)" "n \<le> length (f_data frame)"
  shows "\<exists>s'. recv_packs fuel recv big s (of_nat (i * 1024)) frame =
        Inr (0, h_len h, frame\<lparr> f_head := pack_head h (frame_count n - 1),
          f_data := take (i * 1024) (f_data frame) @ concat (map blk [i..<frame_count n])
            @ drop n (f_data frame) \<rparr>, s')
      \<and> can s' k \<and> incoming s' = rest \<and> outgoing s' = outgoing s"
  using assms
proof (induction fuel arbitrary: i s frame)
  case 0
  then show ?case by simp
next
  case (Suc fuel)
  note st = Suc.prems(1) and i = Suc.prems(2)
  note ph = pack_head_fields [OF st i]
  let ?len = "i * 1024 + pack_size n i"
  have n: "n < PTC_VIDEO_FRAME_SIZE" "unat (h_len h) = n" using st by (simp_all add: stamped_def)
  note e = pack_size_end [OF n(1) i]
  have blk: "length (blk i) = pack_size n i" using Suc.prems(4) i by simp
  have split: "[i..<frame_count n] = i # [i + 1..<frame_count n]" using i by (simp add: upt_conv_Cons)
  let ?more = "pack_stream h blk [i + 1..<frame_count n]"
  from recv_two [of s "k + length ?more" 32 "pack_size n i"] Suc.prems(6,7) ph(4) blk
  obtain s1 s2 where s1: "recv s 32 = Inr (32, head_bytes (pack_head h i), s1)"
    and s2: "recv s1 (pack_size n i) = Inr (int (pack_size n i), blk i, s2)"
      "can s2 (k + length ?more)" "incoming s2 = ?more @ rest" "outgoing s2 = outgoing s"
    unfolding split by (auto simp: ac_simps)
  have small: "i * 1024 + pack_size n i < 2 ^ 32" "i * 1024 < 2 ^ 32"
    using e(1) n(1) by (simp_all add: PTC_VIDEO_FRAME_SIZE_def)
  have plen: "h_pack_len (pack_head h i) = of_nat (pack_size n i)"
    by (simp flip: ph(1))
  have sum: "of_nat (i * 1024) + h_pack_len (pack_head h i) = of_nat ?len"
    unfolding plen by simp
  have usum: "unat (of_nat ?len :: u32) = ?len" "unat (of_nat (i * 1024) :: u32) = i * 1024"
    using small unfolding unat_of_nat_u32 by simp_all
  define d where "d = take (i * 1024) (f_data frame) @ blk i @ drop ?len (f_data frame)"
  define fr where "fr = frame\<lparr> f_head := pack_head h i, f_data := d \<rparr>"
  have put: "buf_put (i * 1024) (blk i) (f_data frame) = Inr d"
    using e(1) Suc.prems(9) by (simp add: buf_put_def blk d_def)
  have step: "recv_packs (Suc fuel) recv big s (of_nat (i * 1024)) frame =
      (if i + 1 = frame_count n then Inr (0, of_nat ?len, fr, s2)
       else recv_packs fuel recv big s2 (of_nat ?len) fr)"
  proof -
    define l l' :: u32 where "l = of_nat (i * 1024)" and "l' = of_nat ?len"
    have l: "l + h_pack_len (pack_head h i) = l'" "unat l = i * 1024" "\<not> big (unat l')"
      using sum usum Suc.prems(5) e(1) unfolding l_def l'_def by simp_all
    have "of_int (int (pack_size n i)) = h_pack_len (pack_head h i)" by (simp flip: ph(1))
    then show ?thesis
      unfolding l_def [symmetric] l'_def [symmetric]
      using s1 s2(1) Suc.prems(8) ph put l
      by (simp add: Let_def head_store_whole fr_def del: of_int_of_nat_eq)
  qed
  show ?case
  proof (cases "i + 1 = frame_count n")
    case True
    have "of_nat ?len = h_len h" unfolding e(3) [OF True] by (simp flip: n(2))
    moreover have "fr = frame\<lparr> f_head := pack_head h (frame_count n - 1),
          f_data := take (i * 1024) (f_data frame) @ concat (map blk [i..<frame_count n])
            @ drop n (f_data frame) \<rparr>"
      unfolding fr_def d_def split e(3) [OF True] using True by (simp flip: True)
    ultimately show ?thesis using True s2 unfolding step by (simp flip: True)
  next
    case False
    then have i1: "i + 1 < frame_count n" using i by simp
    note len = e(2) [OF i1]
    have "\<exists>s'. recv_packs fuel recv big s2 (of_nat ((i + 1) * 1024)) fr =
        Inr (0, h_len h, fr\<lparr> f_head := pack_head h (frame_count n - 1),
          f_data := take ((i + 1) * 1024) (f_data fr) @ concat (map blk [i + 1..<frame_count n])
            @ drop n (f_data fr) \<rparr>, s')
      \<and> can s' k \<and> incoming s' = rest \<and> outgoing s' = outgoing s2"
    proof (rule Suc.IH [OF st i1])
      show "n \<le> length (f_data fr)"
        using Suc.prems(9) e(1) by (simp add: fr_def d_def blk)
    qed (use Suc.prems(3,4,5) s2 ph(4) in \<open>simp_all add: fr_def\<close>)
    moreover have "take ((i + 1) * 1024) d = take (i * 1024) (f_data frame) @ blk i"
      using Suc.prems(9) e(1) unfolding len [symmetric] d_def by (simp add: blk)
    moreover have "drop n d = drop n (f_data frame)"
      using Suc.prems(9) e(1) by (simp add: d_def blk)
    ultimately show ?thesis
      using False s2(4) unfolding step len split by (simp add: fr_def)
  qed
qed

end

section \<open>Frames end to end\<close>

lemma frame_stamp_fields:
  "f_data (frame_stamp frame) = f_data frame" "h_len (f_head (frame_stamp frame)) = h_len (f_head frame)"
  "h_cmd (f_head (frame_stamp frame)) = h_cmd (f_head frame)"
  by (simp_all add: frame_stamp_def Let_def)

lemma concat_frame_blocks:
  assumes "n < PTC_VIDEO_FRAME_SIZE" "i \<le> frame_count n" "n \<le> length d"
  shows "concat (map (frame_block (\<lambda>i. i) d n) [i..<frame_count n]) = drop (i * 1024) (take n d)"
  using assms(2)
proof (induction i rule: inc_induct)
  case base
  then show ?case using frame_count_bounds [OF assms(1)] by (simp add: min_def)
next
  case (step i)
  note e = pack_size_end [OF assms(1) step.hyps(2)]
  have "drop (i * 1024) (take n d) = take (pack_size n i) (drop (i * 1024) d) @ drop (i * 1024 + pack_size n i) (take n d)"
  proof -
    have "drop (i * 1024) (take n d) = take (pack_size n i) (drop (i * 1024) (take n d))
        @ drop (pack_size n i) (drop (i * 1024) (take n d))"
      by (rule append_take_drop_id [symmetric])
    also have "drop (pack_size n i) (drop (i * 1024) (take n d)) = drop (i * 1024 + pack_size n i) (take n d)"
      by (simp only: drop_drop add.commute)
    also have "take (pack_size n i) (drop (i * 1024) (take n d)) = take (pack_size n i) (drop (i * 1024) d)"
      using e(1) by (simp add: drop_take)
    finally show ?thesis .
  qed
  moreover have "drop (i * 1024 + pack_size n i) (take n d) = drop (Suc i * 1024) (take n d)"
  proof (cases "i + 1 < frame_count n")
    case True
    then show ?thesis using e(2) by (simp add: add.commute)
  next
    case False
    then have "i + 1 = frame_count n" using step.hyps by simp
    with e(3) frame_count_bounds [OF assms(1)] show ?thesis by (metis Suc_eq_plus1 drop_all length_take min.cobounded2 order_trans)
  qed
  ultimately show ?case
    using step by (simp add: upt_conv_Cons frame_block_def)
qed

lemma length_concat_blocks:
  assumes "n < PTC_VIDEO_FRAME_SIZE" "i \<le> frame_count n"
    and "\<forall>j. j < frame_count n \<longrightarrow> length (blk j) = pack_size n j"
  shows "length (concat (map blk [i..<frame_count n])) = n - i * 1024"
  using assms(2)
proof (induction i rule: inc_induct)
  case base
  then show ?case using frame_count_bounds [OF assms(1)] by simp
next
  case (step i)
  note e = pack_size_end [OF assms(1) step.hyps(2)]
  from step e show ?case
    by (cases "i + 1 = frame_count n") (auto simp: upt_conv_Cons assms(3))
qed

text \<open>The wire image of a frame: \<open>pos\<close> is the identity, or the shuffle of the second version.\<close>

definition frame_image :: "(nat \<Rightarrow> nat) \<Rightarrow> ptc_frame \<Rightarrow> u8 list" where
  "frame_image pos frame =
     (let n = unat (h_len (f_head frame))
      in pack_stream (f_head (frame_stamp frame)) (frame_block pos (f_data frame) n) [0..<frame_count n])"

definition frame_wellformed :: "ptc_frame \<Rightarrow> bool" where
  "frame_wellformed frame \<longleftrightarrow> head_ok (f_head frame) \<and> unat (h_len (f_head frame)) < PTC_VIDEO_FRAME_SIZE
     \<and> length (f_data frame) = PTC_VIDEO_FRAME_SIZE"

lemma frame_blocks_fit:
  assumes "frame_wellformed frame" "n = unat (h_len (f_head frame))" "i < frame_count n" "j < frame_count n"
  shows "j * 1024 + pack_size n i \<le> length (f_data frame)"
proof -
  have "frame_count n \<le> 500" "n \<le> frame_count n * 1024"
    using assms(1,2) frame_count_bounds [of n] by (simp_all add: frame_wellformed_def)
  moreover have "pack_size n i \<le> 1024"
    using assms(3) calculation(2) by (auto simp: pack_size_def)
  ultimately show ?thesis using assms(1,4) by (simp add: frame_wellformed_def PTC_VIDEO_FRAME_SIZE_def)
qed

lemma sendFrame_image:
  assumes "frame_wellformed frame" "n = unat (h_len (f_head frame))" "\<forall>i < frame_count n. pos i < frame_count n"
    and "carries s (k + length (frame_image pos frame))"
  shows "\<exists>s' h. send_packs tool_sock_item_send pos [0..<frame_count n] s (frame_stamp frame) =
        Inr (0, frame\<lparr> f_head := h \<rparr>, s')
      \<and> carries s' k \<and> sock_outgoing s' = sock_outgoing s @ frame_image pos frame"
proof -
  let ?f = "frame_stamp frame"
  have st: "stamped n (f_head ?f)"
    using assms(1,2) frame_stamp_stamped [of frame] by (simp add: frame_wellformed_def)
  have "\<forall>i \<in> set [0..<frame_count n]. i < frame_count n \<and> pos i * 1024 + pack_size n i \<le> length (f_data ?f)"
    using assms(1,3) frame_blocks_fit [OF assms(1,2)] by (auto simp: frame_stamp_fields)
  moreover have "frame_image pos frame = pack_stream (f_head ?f) (frame_block pos (f_data ?f) n) [0..<frame_count n]"
    by (simp add: frame_image_def Let_def frame_stamp_fields assms(2))
  moreover have "?f\<lparr>f_head := g\<rparr> = frame\<lparr>f_head := g\<rparr>" for g
    by (simp add: frame_stamp_def Let_def)
  ultimately show ?thesis
    using sock.send_packs_all [OF st, of "[0..<frame_count n]" pos ?f s k] assms(4) by (auto split: if_splits)
qed

lemma recvFrame_image:
  assumes "frame_wellformed frame" "n = unat (h_len (f_head frame))" "\<forall>i < frame_count n. pos i < frame_count n"
    and "\<forall>m \<le> n. \<not> big m" "frame_count n \<le> fuel"
    and "carries s (k + length (frame_image pos frame))" "sock_incoming s = frame_image pos frame @ rest"
    and "head_ok (f_head buf)" "length (f_data buf) = PTC_VIDEO_FRAME_SIZE"
  shows "\<exists>s' h. recv_packs fuel tool_sock_item_recv big s 0 buf =
        Inr (0, of_nat n, buf\<lparr> f_head := h, f_data :=
           concat (map (frame_block pos (f_data frame) n) [0..<frame_count n]) @ drop n (f_data buf) \<rparr>, s')
      \<and> h_len h = of_nat n \<and> h_cmd h = h_cmd (f_head frame)
      \<and> carries s' k \<and> sock_incoming s' = rest"
proof -
  let ?h = "f_head (frame_stamp frame)"
  have st: "stamped n ?h"
    using assms(1,2) frame_stamp_stamped [of frame] by (simp add: frame_wellformed_def)
  have n: "n < PTC_VIDEO_FRAME_SIZE" using assms(1,2) by (simp add: frame_wellformed_def)
  have im: "frame_image pos frame = pack_stream ?h (frame_block pos (f_data frame) n) [0..<frame_count n]"
    by (simp add: frame_image_def Let_def assms(2))
  have "\<forall>j. 0 \<le> j \<and> j < frame_count n \<longrightarrow> length (frame_block pos (f_data frame) n j) = pack_size n j"
    using assms(3) frame_blocks_fit [OF assms(1,2)] by (simp add: length_frame_block)
  moreover have "h_len (pack_head ?h i) = of_nat n" "h_cmd (pack_head ?h i) = h_cmd (f_head frame)" for i
    using assms(2) by (simp_all add: pack_head_def Let_def frame_stamp_fields)
  moreover have "\<exists>s'. recv_packs fuel tool_sock_item_recv big s (of_nat (0 * 1024)) buf =
        Inr (0, h_len ?h, buf\<lparr> f_head := pack_head ?h (frame_count n - 1), f_data :=
           take (0 * 1024) (f_data buf) @ concat (map (frame_block pos (f_data frame) n) [0..<frame_count n])
             @ drop n (f_data buf) \<rparr>, s')
      \<and> carries s' k \<and> sock_incoming s' = rest \<and> sock_outgoing s' = sock_outgoing s"
  proof (rule sock.recv_packs_all [OF st])
    show "0 < frame_count n" using frame_count_bounds [OF n] by simp
    show "n \<le> length (f_data buf)" using assms(9) n by simp
  qed (use assms(4-8) calculation(1) im in simp_all)
  ultimately show ?thesis
    using assms(2)
    by (elim exE conjE, intro exI [of _ "pack_head ?h (frame_count n - 1)"] exI)
      (simp add: frame_stamp_fields)
qed

section \<open>Receiving from a peer that may send anything\<close>

text \<open>All a receiver needs of the socket layer in order to stay inside its buffers.\<close>

locale reader =
  fixes recv :: "'s receiver"
  assumes recv_within: "recv s n = Inr (ret, bytes, s') \<Longrightarrow>
      length bytes \<le> n \<and> (ret = int (length bytes) \<or> ret = - 1)"
    and recv_stops: "recv s n = Inl e \<Longrightarrow> e = Fuel"
begin

lemma recvMsg_within:
  assumes "head_ok (head buf)" "length (data buf) = PTC_MSG_SIZE"
  shows "case qh_recvMsg recv s buf of
      Inl e \<Rightarrow> e = Fuel
    | Inr (ret, m, s') \<Rightarrow> length (data m) = PTC_MSG_SIZE \<and>
        (ret = - 1 \<or> ret = 0 \<and> h_flag (head m) = PTC_FLAG \<and> unat (h_len (head m)) < PTC_MSG_SIZE
           \<and> data m ! unat (h_len (head m)) = 0)"
proof (cases "recv s 32")
  case (Inl e)
  then show ?thesis using recv_stops by (simp add: qh_recvMsg_def)
next
  case (Inr r)
  obtain ret bytes s1 where r: "r = (ret, bytes, s1)" by (cases r)
  define h where "h = head_store bytes (head buf)"
  show ?thesis
  proof (cases "ret = 32 \<and> h_flag h = PTC_FLAG \<and> unat (h_len h) < PTC_MSG_SIZE")
    case False
    then show ?thesis using Inr assms by (auto simp: qh_recvMsg_def r Let_def h_def [symmetric])
  next
    case ok: True
    show ?thesis
    proof (cases "recv s1 (unat (h_len h))")
      case (Inl e)
      then show ?thesis using Inr ok recv_stops by (simp add: qh_recvMsg_def r Let_def h_def [symmetric])
    next
      case (Inr r2)
      obtain ret2 b2 s2 where r2: "r2 = (ret2, b2, s2)" by (cases r2)
      have "length b2 \<le> unat (h_len h)" using Inr recv_within r2 by blast
      then show ?thesis
        using Inr \<open>recv s 32 = Inr r\<close> ok assms(2)
        by (auto simp: qh_recvMsg_def r r2 Let_def h_def [symmetric] buf_put_def nth_append)
    qed
  qed
qed

lemma recv_packs_within:
  assumes "\<forall>m. \<not> big m \<longrightarrow> m \<le> B" "B \<le> PTC_VIDEO_FRAME_SIZE" "unat len \<le> B"
    and "length (f_data frame) = PTC_VIDEO_FRAME_SIZE"
  shows "case recv_packs fuel recv big s len frame of
      Inl e \<Rightarrow> e = Fuel
    | Inr (ret, len', frame', s') \<Rightarrow> (ret = 0 \<or> ret = - 1) \<and> unat len' \<le> B
        \<and> length (f_data frame') = PTC_VIDEO_FRAME_SIZE \<and> (ret = 0 \<longrightarrow> h_flag (f_head frame') = PTC_FLAG)"
  using assms(3,4)
proof (induction fuel arbitrary: s len frame)
  case 0
  then show ?case by simp
next
  case (Suc fuel)
  show ?case
  proof (cases "recv s 32")
    case (Inl e)
    then show ?thesis using recv_stops by simp
  next
    case (Inr r)
    obtain ret bytes s1 where r: "r = (ret, bytes, s1)" by (cases r)
    define h where "h = head_store bytes (f_head frame)"
    define m where "m = (if sint (h_pack_len h) < 0 then 0 else unat (h_pack_len h))"
    show ?thesis
    proof (cases "ret = 32 \<and> h_flag h = PTC_FLAG \<and> \<not> big (unat (len + h_pack_len h))")
      case False
      then show ?thesis using Inr Suc.prems by (auto simp: r Let_def h_def [symmetric])
    next
      case ok: True
      have new: "unat (len + h_pack_len h) \<le> B" using ok assms(1) by blast
      have room: "unat len + m \<le> PTC_VIDEO_FRAME_SIZE"
      proof (cases "sint (h_pack_len h) < 0")
        case True
        then show ?thesis using Suc.prems(1) assms(2) by (simp add: m_def)
      next
        case False
        then have "unat (h_pack_len h) < 2147483648" by (simp add: sint_nonneg)
        moreover have "unat len \<le> 512000" using Suc.prems(1) assms(2) by (simp add: PTC_VIDEO_FRAME_SIZE_def)
        ultimately have "unat (len + h_pack_len h) = unat len + unat (h_pack_len h)"
          by (subst unat_add_lem [THEN iffD1]) simp_all
        then show ?thesis using new assms(2) False by (simp add: m_def)
      qed
      show ?thesis
      proof (cases "recv s1 m")
        case (Inl e)
        then show ?thesis using Inr ok recv_stops by (cases "sint (h_pack_len h) < 0") (simp_all add: r Let_def h_def [symmetric] m_def)
      next
        case (Inr r2)
        obtain ret2 b2 s2 where r2: "r2 = (ret2, b2, s2)" by (cases r2)
        have "length b2 \<le> m" using Inr recv_within r2 by blast
        with room Suc.prems(2) obtain d where d: "buf_put (unat len) b2 (f_data frame) = Inr d"
          "length d = PTC_VIDEO_FRAME_SIZE" by (simp add: buf_put_def)
        note run = \<open>recv s 32 = Inr r\<close> Inr ok d(1)
        note IH = Suc.IH [OF new, of "frame\<lparr>f_head := h, f_data := d\<rparr>" s2]
        show ?thesis
          using run Suc.prems(1) new d(2) IH by (cases "sint (h_pack_len h) < 0") (simp_all add: r r2 Let_def h_def [symmetric] m_def)
      qed
    qed
  qed
qed

end

lemma sock_recv_loop_within:
  "sock_recv_loop sts start item nt got n = Inr (ret, bytes, s') \<Longrightarrow>
     length bytes \<le> length got + n \<and> (ret = int (length bytes) \<or> ret = - 1)"
proof (induction sts arbitrary: nt got n)
  case Nil
  then show ?case by (auto simp: sock_leave_def split: if_splits)
next
  case (Cons st sts)
  define r where "r = min (min (nat (ready st)) (length (inbox nt))) n"
  have r: "r \<le> n" by (simp add: r_def)
  from Cons.prems consider "bytes = got" "ret = int (length got) \<or> ret = - 1"
    | nt' where "sock_recv_loop sts start item nt' (got @ take r (inbox nt)) (n - r) = Inr (ret, bytes, s')"
    by (auto simp: Let_def r_def split: if_splits)
  then show ?case
  proof cases
    case 2
    from Cons.IH [OF 2] r show ?thesis by auto
  qed auto
qed

lemma sock_recv_loop_stops: "sock_recv_loop sts start item nt got n = Inl e \<Longrightarrow> e = Fuel"
  by (induction sts arbitrary: nt got n) (auto simp: Let_def split: if_splits)

interpretation sock_reader: reader tool_sock_item_recv
proof unfold_locales
  fix s n ret bytes s'
  assume "tool_sock_item_recv s n = Inr (ret, bytes, s')"
  then show "length bytes \<le> n \<and> (ret = int (length bytes) \<or> ret = - 1)"
    by (cases s) (auto simp: tool_sock_item_recv_def split: if_splits dest!: sock_recv_loop_within)
next
  fix s n e
  assume "tool_sock_item_recv s n = Inl e"
  then show "e = Fuel"
    by (cases s) (auto simp: tool_sock_item_recv_def split: if_splits dest!: sock_recv_loop_stops)
qed

section \<open>Properties\<close>

text \<open>C19: A message handed to the sender is the message the receiver gets: over any two prompt
  connections, sending appends one image to the stream, and receiving that image gives back
  the head (as the sender stamped it) and the data, zero-terminated, and leaves what follows
  it in the stream for the next call.\<close>

theorem ptc_msg_roundtrip:
  assumes "head_ok (head msg)" "n = unat (h_len (head msg))" "n \<le> length (data msg)" "n < PTC_MSG_SIZE"
    and "carries a (32 + n)"
  shows "\<exists>m a' image. tool_ptc_qh_sendMsg a msg = Inr (0, m, a')
      \<and> h_cmd (head m) = h_cmd (head msg) \<and> data m = data msg
      \<and> sock_outgoing a' = sock_outgoing a @ image \<and> length image = 32 + n
      \<and> (\<forall>b rest buf. sock_incoming b = image @ rest \<and> carries b (32 + n)
           \<and> head_ok (head buf) \<and> length (data buf) = PTC_MSG_SIZE \<longrightarrow>
           (\<exists>m' b'. tool_ptc_qh_recvMsg b buf = Inr (0, m', b') \<and> head m' = head m
              \<and> take n (data m') = take n (data msg) \<and> data m' ! n = 0 \<and> sock_incoming b' = rest))"
proof -
  let ?m = "msg_stamp msg" and ?bs = "take n (data msg)"
  let ?image = "head_bytes (head ?m) @ ?bs"
  have m: "head_ok (head ?m)" "h_flag (head ?m) = PTC_FLAG" "unat (h_len (head ?m)) = length ?bs"
    "length ?bs < PTC_MSG_SIZE"
    using assms by (simp_all add: msg_stamp_def)
  have "n < 2147483000" using assms(4) by (simp add: PTC_MSG_SIZE_def)
  with sock.sendMsg_image [of msg n a 0] assms obtain a' where a':
    "tool_ptc_qh_sendMsg a msg = Inr (0, ?m, a')" "sock_outgoing a' = sock_outgoing a @ ?image"
    by (auto simp: tool_ptc_qh_sendMsg_def)
  have "\<exists>m' b'. tool_ptc_qh_recvMsg b buf = Inr (0, m', b') \<and> head m' = head ?m
          \<and> take n (data m') = take n (data msg) \<and> data m' ! n = 0 \<and> sock_incoming b' = rest"
    if b: "sock_incoming b = ?image @ rest" "carries b (32 + n)" "head_ok (head buf)"
      "length (data buf) = PTC_MSG_SIZE" for b rest buf
  proof -
    from sock.recvMsg_image [OF m, of b rest 0 buf] b assms(3,4) obtain b' where
      "tool_ptc_qh_recvMsg b buf =
         Inr (0, buf\<lparr> head := head ?m, data := ?bs @ 0 # drop (Suc (length ?bs)) (data buf) \<rparr>, b')"
      "sock_incoming b' = rest" by (auto simp: tool_ptc_qh_recvMsg_def)
    then show ?thesis using assms(3) by (simp add: nth_append)
  qed
  moreover have "length ?image = 32 + n" using m(1) assms(3) by simp
  moreover have "h_cmd (head ?m) = h_cmd (head msg)" "data ?m = data msg" by (simp_all add: msg_stamp_def)
  ultimately show ?thesis using a' by blast
qed

definition demo_head :: "nat \<Rightarrow> ptc_head" where
  "demo_head n = \<lparr> h_flag = 0, h_cmd = 0x0301, h_len = of_nat n, h_ver = 0, h_ack = 0,
     h_pack_count = 0, h_pack_no = 0, h_pack_len = 0, h_channel_type = 0, h_channel_no = 2,
     h_reserved = [0, 0, 0, 0, 0, 0] \<rparr>"

lemma demo_head_ok [simp]: "head_ok (demo_head n)" "h_len (demo_head n) = of_nat n"
  by (simp_all add: demo_head_def head_ok_def)

theorem ptc_msg_roundtrip_witness:
  "\<exists>m a' m' b'. tool_ptc_qh_sendMsg (demo_item, demo_net 34 []) \<lparr> head = demo_head 2, data = [8, 9] \<rparr> = Inr (0, m, a')
     \<and> tool_ptc_qh_recvMsg (demo_item, demo_net 34 (sock_outgoing a' @ [5, 5]))
          \<lparr> head = demo_head 0, data = replicate 4096 1 \<rparr> = Inr (0, m', b')
     \<and> take 2 (data m') = [8, 9] \<and> data m' ! 2 = 0 \<and> sock_incoming b' = [5, 5]"
proof -
  let ?msg = "\<lparr> head = demo_head 2, data = [8, 9 :: u8] \<rparr>" and ?a = "(demo_item, demo_net 34 [])"
  let ?buf = "\<lparr> head = demo_head 0, data = replicate 4096 1 \<rparr>"
  have "carries ?a (32 + 2)" by (rule demo_carries) simp
  from ptc_msg_roundtrip [of ?msg 2 ?a, OF _ _ _ _ this] obtain m a' image where
    a: "tool_ptc_qh_sendMsg ?a ?msg = Inr (0, m, a')" "sock_outgoing a' = sock_outgoing ?a @ image"
    and b: "\<forall>b rest buf. sock_incoming b = image @ rest \<and> carries b (32 + 2)
           \<and> head_ok (head buf) \<and> length (data buf) = PTC_MSG_SIZE \<longrightarrow>
           (\<exists>m' b'. tool_ptc_qh_recvMsg b buf = Inr (0, m', b') \<and> head m' = head m
              \<and> take 2 (data m') = take 2 (data ?msg) \<and> data m' ! 2 = 0 \<and> sock_incoming b' = rest)"
    by (auto simp: PTC_MSG_SIZE_def)
  have out: "sock_outgoing a' = image" using a(2) by (simp add: sock_outgoing_def demo_net_def)
  have "carries (demo_item, demo_net 34 (image @ [5, 5])) (32 + 2)" by (rule demo_carries) simp
  with b [rule_format, of "(demo_item, demo_net 34 (image @ [5, 5]))" "[5, 5]" ?buf]
  show ?thesis unfolding out [symmetric] using a
    by (auto simp: PTC_MSG_SIZE_def sock_incoming_def demo_net_def)
qed

text \<open>C11: A frame sent in packets is reassembled: for every frame of fewer than 500 KB the
  receiver accepts the sender's packets and ends with the frame's bytes in order, its length
  and its command, and leaves the stream behind the last packet.\<close>

theorem ptc_frame_roundtrip:
  assumes "frame_wellformed frame" "n = unat (h_len (f_head frame))"
    and "carries a (length (frame_image (\<lambda>i. i) frame))"
    and "carries b (length (frame_image (\<lambda>i. i) frame))"
    and "sock_incoming b = frame_image (\<lambda>i. i) frame @ rest"
    and "head_ok (f_head buf)" "length (f_data buf) = PTC_VIDEO_FRAME_SIZE" "500 \<le> fuel"
  shows "\<exists>sent a' got b'. tool_ptc_qh_sendFrame a frame = Inr (0, sent, a')
      \<and> sock_outgoing a' = sock_outgoing a @ frame_image (\<lambda>i. i) frame
      \<and> tool_ptc_qh_recvFrame fuel b buf = Inr (0, got, b')
      \<and> h_len (f_head got) = h_len (f_head frame) \<and> h_cmd (f_head got) = h_cmd (f_head frame)
      \<and> take n (f_data got) = take n (f_data frame) \<and> sock_incoming b' = rest"
proof -
  have n: "n < PTC_VIDEO_FRAME_SIZE" "frame_count n \<le> 500"
    using assms(1,2) frame_count_bounds [of n] by (simp_all add: frame_wellformed_def)
  have len: "of_nat n = h_len (f_head frame)" "unat (h_len (f_head frame)) = n" by (simp_all add: assms(2))
  have blocks: "concat (map (frame_block (\<lambda>i. i) (f_data frame) n) [0..<frame_count n]) = take n (f_data frame)"
    using concat_frame_blocks [OF n(1), of 0 "f_data frame"] assms(1) n(1) by (simp add: frame_wellformed_def)
  have "unat (h_pack_count (f_head (frame_stamp frame))) = frame_count n"
    using frame_stamp_stamped [of frame] assms(1,2) by (simp add: frame_wellformed_def stamped_def)
  with sendFrame_image [OF assms(1,2), of "\<lambda>i. i" a 0] assms(3) obtain sent a' where
    "tool_ptc_qh_sendFrame a frame = Inr (0, sent, a')"
    "sock_outgoing a' = sock_outgoing a @ frame_image (\<lambda>i. i) frame"
    by (auto simp: tool_ptc_qh_sendFrame_def qh_sendFrame_def)
  moreover have "\<exists>s' h. recv_packs fuel tool_sock_item_recv (\<lambda>n. n \<ge> PTC_VIDEO_FRAME_SIZE) b 0 buf =
        Inr (0, of_nat n, buf\<lparr> f_head := h, f_data := take n (f_data frame) @ drop n (f_data buf) \<rparr>, s')
      \<and> h_len h = of_nat n \<and> h_cmd h = h_cmd (f_head frame) \<and> carries s' 0 \<and> sock_incoming s' = rest"
    unfolding blocks [symmetric]
    by (rule recvFrame_image [OF assms(1,2)]) (use n assms in simp_all)
  then obtain got b' where "tool_ptc_qh_recvFrame fuel b buf = Inr (0, got, b')"
    "h_len (f_head got) = of_nat n" "h_cmd (f_head got) = h_cmd (f_head frame)"
    "take n (f_data got) = take n (f_data frame)" "sock_incoming b' = rest"
    using n assms(1,7) len
    by (auto simp: tool_ptc_qh_recvFrame_def qh_recvFrame_def buf_put_def frame_wellformed_def)
  ultimately show ?thesis unfolding len(1) by blast
qed

definition demo_frame :: "nat \<Rightarrow> ptc_frame" where
  "demo_frame n = \<lparr> f_head = demo_head n,
     f_data = replicate 1024 1 @ replicate 1024 2 @ replicate (PTC_VIDEO_FRAME_SIZE - 2048) 3 \<rparr>"

lemma demo_frame_wf: "n < 512000 \<Longrightarrow> frame_wellformed (demo_frame n)"
  by (simp add: frame_wellformed_def demo_frame_def PTC_VIDEO_FRAME_SIZE_def unat_of_nat_u32)

lemma demo_frame_fields:
  "f_head (demo_frame n) = demo_head n" "length (f_data (demo_frame n)) = PTC_VIDEO_FRAME_SIZE"
  by (simp_all add: demo_frame_def PTC_VIDEO_FRAME_SIZE_def)

theorem ptc_frame_roundtrip_witness:
  "\<exists>a b sent a' got b'. tool_ptc_qh_sendFrame a (demo_frame 1500) = Inr (0, sent, a')
      \<and> sock_incoming b = frame_image (\<lambda>i. i) (demo_frame 1500)
      \<and> tool_ptc_qh_recvFrame 500 b (demo_frame 0) = Inr (0, got, b')
      \<and> take 1500 (f_data got) = replicate 1024 1 @ replicate 476 2 \<and> sock_incoming b' = []"
proof -
  let ?f = "demo_frame 1500"
  let ?i = "frame_image (\<lambda>i. i) ?f"
  let ?a = "(demo_item, demo_net (length ?i) [])" and ?b = "(demo_item, demo_net (length ?i) ?i)"
  have "frame_wellformed ?f" by (rule demo_frame_wf) simp
  moreover have "1500 = unat (h_len (f_head ?f))" by (simp add: demo_frame_fields)
  moreover have "carries ?a (length ?i)" "carries ?b (length ?i)" by (simp_all add: demo_carries)
  moreover have "sock_incoming ?b = ?i @ []" by (simp add: sock_incoming_def demo_net_def)
  ultimately obtain sent a' got b' where
    "tool_ptc_qh_sendFrame ?a ?f = Inr (0, sent, a')" "tool_ptc_qh_recvFrame 500 ?b (demo_frame 0) = Inr (0, got, b')"
    "take 1500 (f_data got) = take 1500 (f_data ?f)" "sock_incoming b' = []"
    using ptc_frame_roundtrip [of ?f 1500 ?a ?b "[]" "demo_frame 0" 500] by (auto simp: demo_frame_fields)
  moreover have "take 1500 (f_data ?f) = replicate 1024 1 @ replicate 476 2"
    by (simp add: demo_frame_def)
  moreover have "sock_incoming ?b = ?i" by (simp add: sock_incoming_def demo_net_def)
  ultimately show ?thesis by metis
qed

text \<open>The second version does not put a shuffled frame back in order: the receiver accepts
  the packets with the right total length, but what it stores is the blocks in the order
  of the sender's shuffle.\<close>

theorem ptc_frame_v2_stays_shuffled:
  assumes "frame_wellformed frame" "n = unat (h_len (f_head frame))" "array = tool_ran_wash rnd (frame_count n)"
    and "carries a (length (frame_image (\<lambda>i. array ! i) frame))"
    and "carries b (length (frame_image (\<lambda>i. array ! i) frame))"
    and "sock_incoming b = frame_image (\<lambda>i. array ! i) frame @ rest"
    and "head_ok (f_head buf)" "length (f_data buf) = PTC_VIDEO_FRAME_SIZE" "500 \<le> fuel"
    and "unat (h_pack_count (f_head buf)) \<le> PTC_PACK_NUM"
  shows "\<exists>sent a' got b'. tool_ptc_qh_sendFrame_v2 rnd a frame = Inr (0, sent, a')
      \<and> sock_outgoing a' = sock_outgoing a @ frame_image (\<lambda>i. array ! i) frame
      \<and> tool_ptc_qh_recvFrame_v2 fuel b buf = Inr (0, got, b')
      \<and> h_len (f_head got) = h_len (f_head frame) \<and> sock_incoming b' = rest
      \<and> take n (f_data got) = concat (map (\<lambda>i. take (pack_size n i) (drop (array ! i * 1024) (f_data frame)))
           [0..<frame_count n])"
proof -
  let ?pos = "\<lambda>i. array ! i"
  have n: "n < PTC_VIDEO_FRAME_SIZE" "frame_count n \<le> 500"
    using assms(1,2) frame_count_bounds [of n] by (simp_all add: frame_wellformed_def)
  have len: "of_nat n = h_len (f_head frame)" by (simp add: assms(2))
  have "mset array = mset [0..<frame_count n]" "length array = frame_count n"
    unfolding assms(3) by (simp_all add: wash_mset wash_length)
  then have pos: "\<forall>i < frame_count n. ?pos i < frame_count n"
    by (metis atLeastLessThan_iff nth_mem set_mset_mset set_upt)
  let ?blocks = "concat (map (frame_block ?pos (f_data frame) n) [0..<frame_count n])"
  have blk: "length ?blocks = n"
    using length_concat_blocks [OF n(1), of 0 "frame_block ?pos (f_data frame) n"]
      frame_blocks_fit [OF assms(1,2)] pos by (simp add: length_frame_block)
  have "unat (h_pack_count (f_head (frame_stamp frame))) = frame_count n"
    using frame_stamp_stamped [of frame] assms(1,2) by (simp add: frame_wellformed_def stamped_def)
  with sendFrame_image [OF assms(1,2) pos, of a 0] assms(3,4) n(2) obtain sent a' where
    "tool_ptc_qh_sendFrame_v2 rnd a frame = Inr (0, sent, a')"
    "sock_outgoing a' = sock_outgoing a @ frame_image ?pos frame"
    by (auto simp: tool_ptc_qh_sendFrame_v2_def qh_sendFrame_v2_def Let_def PTC_PACK_NUM_def)
  moreover have "\<exists>s' h. recv_packs fuel tool_sock_item_recv (\<lambda>n. n > PTC_VIDEO_FRAME_SIZE) b 0 buf =
        Inr (0, of_nat n, buf\<lparr> f_head := h, f_data := ?blocks @ drop n (f_data buf) \<rparr>, s')
      \<and> h_len h = of_nat n \<and> h_cmd h = h_cmd (f_head frame) \<and> carries s' 0 \<and> sock_incoming s' = rest"
    by (rule recvFrame_image [OF assms(1,2) pos]) (use n assms in simp_all)
  then obtain got b' where "tool_ptc_qh_recvFrame_v2 fuel b buf = Inr (0, got, b')"
    "h_len (f_head got) = of_nat n" "take n (f_data got) = ?blocks" "sock_incoming b' = rest"
    using blk assms(10) by (auto simp: tool_ptc_qh_recvFrame_v2_def qh_recvFrame_v2_def)
  ultimately show ?thesis using len by (auto simp: frame_block_def [abs_def])
qed

theorem ptc_frame_v2_stays_shuffled_witness:
  "\<exists>a b sent a' got b'. tool_ptc_qh_sendFrame_v2 (\<lambda>i. 1) a (demo_frame 2049) = Inr (0, sent, a')
      \<and> sock_incoming b = sock_outgoing a'
      \<and> tool_ptc_qh_recvFrame_v2 500 b (demo_frame 0) = Inr (0, got, b')
      \<and> take 2049 (f_data got) = replicate 1024 2 @ replicate 1024 1 @ [3]
      \<and> take 2049 (f_data (demo_frame 2049)) = replicate 1024 1 @ replicate 1024 2 @ [3]"
proof -
  let ?f = "demo_frame 2049" and ?w = "tool_ran_wash (\<lambda>i. 1) (frame_count 2049)"
  let ?i = "frame_image (\<lambda>i. ?w ! i) ?f"
  let ?a = "(demo_item, demo_net (length ?i) [])" and ?b = "(demo_item, demo_net (length ?i) ?i)"
  have "frame_wellformed ?f" by (rule demo_frame_wf) simp
  moreover have "2049 = unat (h_len (f_head ?f))" by (simp add: demo_frame_fields)
  moreover have "carries ?a (length ?i)" "carries ?b (length ?i)" by (simp_all add: demo_carries)
  moreover have "sock_incoming ?b = ?i @ []" by (simp add: sock_incoming_def demo_net_def)
  moreover have "unat (h_pack_count (f_head (demo_frame 0))) \<le> PTC_PACK_NUM"
    by (simp add: demo_frame_def demo_head_def)
  ultimately obtain sent a' got b' where
    r: "tool_ptc_qh_sendFrame_v2 (\<lambda>i. 1) ?a ?f = Inr (0, sent, a')" "sock_outgoing a' = sock_outgoing ?a @ ?i"
    "tool_ptc_qh_recvFrame_v2 500 ?b (demo_frame 0) = Inr (0, got, b')"
    and d: "take 2049 (f_data got) = concat (map (\<lambda>i. take (pack_size 2049 i) (drop (?w ! i * 1024) (f_data ?f)))
           [0..<frame_count 2049])"
    using ptc_frame_v2_stays_shuffled [of ?f 2049 ?w "\<lambda>i. 1" ?a ?b "[]" "demo_frame 0" 500]
    by (auto simp: demo_frame_fields)
  have "frame_count 2049 = 3" by (simp add: frame_count_def)
  moreover have "tool_ran_wash (\<lambda>i. 1) 3 = [1, 0, 2]"
    by (simp add: tool_ran_wash_def swap_def Let_def eval_nat_numeral)
  moreover have "[0..<3] = [0, 1, 2 :: nat]" by (simp add: upt_rec)
  moreover have "pack_size 2049 0 = 1024" "pack_size 2049 1 = 1024" "pack_size 2049 2 = 1"
    by (simp_all add: pack_size_def frame_count_def)
  ultimately have "take 2049 (f_data got) = replicate 1024 2 @ replicate 1024 1 @ [3]"
    unfolding d by (simp add: demo_frame_def PTC_VIDEO_FRAME_SIZE_def numeral_2_eq_2)
  moreover have "take 2049 (f_data ?f) = replicate 1024 1 @ replicate 1024 2 @ [3]"
    by (simp add: demo_frame_def PTC_VIDEO_FRAME_SIZE_def)
  moreover have "sock_incoming ?b = sock_outgoing a'"
    using r(2) by (simp add: sock_incoming_def sock_outgoing_def demo_net_def)
  ultimately show ?thesis using r by metis
qed

text \<open>C16: Whatever a peer sends and however the connection fails, receiving a message or a frame
  stays inside the message's 4096 and the frame's 512000 bytes, and success means a valid head
  and zero-terminated data.\<close>

theorem ptc_recv_within_buffers:
  assumes "length (data buf) = PTC_MSG_SIZE" "head_ok (head buf)" "length (f_data frame) = PTC_VIDEO_FRAME_SIZE"
  shows "(case tool_ptc_qh_recvMsg s buf of
      Inl e \<Rightarrow> e = Fuel
    | Inr (ret, m, s') \<Rightarrow> length (data m) = PTC_MSG_SIZE \<and>
        (ret = - 1 \<or> ret = 0 \<and> h_flag (head m) = PTC_FLAG \<and> unat (h_len (head m)) < PTC_MSG_SIZE
           \<and> data m ! unat (h_len (head m)) = 0)) \<and>
   (case tool_ptc_qh_recvFrame fuel s frame of
      Inl e \<Rightarrow> e = Fuel
    | Inr (ret, f, s') \<Rightarrow> length (f_data f) = PTC_VIDEO_FRAME_SIZE \<and>
        (ret = - 1 \<or> ret = 0 \<and> h_flag (f_head f) = PTC_FLAG
           \<and> unat (h_len (f_head f)) < PTC_VIDEO_FRAME_SIZE \<and> f_data f ! unat (h_len (f_head f)) = 0))"
proof
  show "case tool_ptc_qh_recvMsg s buf of
      Inl e \<Rightarrow> e = Fuel
    | Inr (ret, m, s') \<Rightarrow> length (data m) = PTC_MSG_SIZE \<and>
        (ret = - 1 \<or> ret = 0 \<and> h_flag (head m) = PTC_FLAG \<and> unat (h_len (head m)) < PTC_MSG_SIZE
           \<and> data m ! unat (h_len (head m)) = 0)"
    unfolding tool_ptc_qh_recvMsg_def by (rule sock_reader.recvMsg_within [OF assms(2,1)])
next
  let ?big = "\<lambda>n. n \<ge> PTC_VIDEO_FRAME_SIZE"
  have "\<forall>m. \<not> ?big m \<longrightarrow> m \<le> PTC_VIDEO_FRAME_SIZE - 1" by auto
  from sock_reader.recv_packs_within [OF this, of 0 frame fuel s] assms(3)
  show "case tool_ptc_qh_recvFrame fuel s frame of
      Inl e \<Rightarrow> e = Fuel
    | Inr (ret, f, s') \<Rightarrow> length (f_data f) = PTC_VIDEO_FRAME_SIZE \<and>
        (ret = - 1 \<or> ret = 0 \<and> h_flag (f_head f) = PTC_FLAG
           \<and> unat (h_len (f_head f)) < PTC_VIDEO_FRAME_SIZE \<and> f_data f ! unat (h_len (f_head f)) = 0)"
    unfolding tool_ptc_qh_recvFrame_def qh_recvFrame_def
    by (auto simp: buf_put_def nth_append PTC_VIDEO_FRAME_SIZE_def split: sum.splits prod.splits)
qed

theorem ptc_recv_within_buffers_witness:
  "case tool_ptc_qh_recvMsg (demo_item, demo_net 40 (replicate 64 0xFF)) \<lparr> head = demo_head 0, data = replicate 4096 0 \<rparr> of
      Inl e \<Rightarrow> e = Fuel
    | Inr (ret, m, s') \<Rightarrow> ret = - 1 \<or> unat (h_len (head m)) < 4096"
  using ptc_recv_within_buffers [of "\<lparr> head = demo_head 0, data = replicate 4096 0 \<rparr>" "demo_frame 0"
      "(demo_item, demo_net 40 (replicate 64 0xFF))"]
  by (auto simp: PTC_MSG_SIZE_def demo_frame_fields split: sum.splits)

end
