(* ===== verification/Tool_Json.thy ===== *)
theory Tool_Json
  imports Tool_Json2
begin

text \<open>
  The first JSON reader of \<^verbatim>\<open>sab_app/jni/nc/tool_json.c\<close>, \<open>tool_json_parse\<close>: it copies the
  text into a buffer of 4096 bytes, walks it once with \<open>pch_index\<close>, ends the strings it meets
  by writing NULs into the buffer, and collects pointers to them in a table of 1024 items.
  The buffer and the pointer into it are one pair \<open>before\<close>, \<open>rest\<close>: the characters in front
  of \<open>pch_index\<close> and those from it on. What follows the text is NUL as far as the buffer reaches; when
  the text fills it, nothing ends it, and reading on is a read outside the buffer. A pointer kept in an item is its offset. The C functions
  call each other recursively; their models have a bound on the depth as first argument, and
  \<open>tool_json_parse_safe\<close> shows the bound that is always enough.
\<close>

section \<open>State\<close>

datatype jptr = Null | Off nat | Lit string

datatype json_item_type =
  TOOL_JSON_ITEM_TYPE_STRING | TOOL_JSON_ITEM_TYPE_NULL | TOOL_JSON_ITEM_TYPE_NUMBER

record json_item =
  pch_name :: jptr
  pch_value :: jptr
  n32_number :: int
  e_type :: json_item_type
  pch_array_name :: jptr
  n32_array_index :: nat

definition zero_item :: json_item where
  "zero_item = \<lparr> pch_name = Null, pch_value = Null, n32_number = 0,
     e_type = TOOL_JSON_ITEM_TYPE_STRING, pch_array_name = Null, n32_array_index = 0 \<rparr>"

text \<open>\<open>st_item\<close> holds the items below \<open>n32_num\<close>, \<open>cur_item\<close> the slot at \<open>n32_num\<close>.\<close>

record tool_json =
  before :: string
  rest :: string
  st_item :: "json_item list"
  cur_item :: json_item
  pch_cur_array_name :: jptr
  n32_cur_array_index :: nat

definition TOOL_JSON_STR_SIZE :: nat where "TOOL_JSON_STR_SIZE = 4096"
definition TOOL_JSON_ITEM_NUM :: nat where "TOOL_JSON_ITEM_NUM = 1024"
definition TOOL_JSON_NULL :: string where "TOOL_JSON_NULL = ''TOOL_JSON_NULL''"
definition ROOT_ARRAY_NAME :: string where "ROOT_ARRAY_NAME = ''TOOL_JSON_ROOT_ARRAY_NAME''"

text \<open>\<open>pch_index ++\<close>, \<open>*pch_index = 0\<close>, and the end of an item: \<open>n32_num ++\<close>.\<close>

definition json_inc :: "tool_json \<Rightarrow> tool_json" where
  "json_inc j = j\<lparr> before := before j @ [deref (rest j)], rest := tl (rest j) \<rparr>"

definition json_cut :: "tool_json \<Rightarrow> tool_json" where
  "json_cut j = j\<lparr> rest := NUL # tl (rest j) \<rparr>"

definition json_store :: "(json_item \<Rightarrow> json_item) \<Rightarrow> tool_json \<Rightarrow> tool_json outcome" where
  "json_store f j =
     (if length (st_item j) < TOOL_JSON_ITEM_NUM
      then Inr (j\<lparr> st_item := st_item j @
                     [(f (cur_item j))\<lparr> pch_array_name := pch_cur_array_name j,
                                        n32_array_index := n32_cur_array_index j \<rparr>],
                   cur_item := zero_item \<rparr>)
      else Inl Fault)"

section \<open>Scanning\<close>

text \<open>
  The length of the text never changes. A loop that has reached its end reads the byte after it: the
  NUL the buffer was filled with, which makes the caller return, or a byte behind the buffer.
\<close>

definition json_size :: "tool_json \<Rightarrow> nat" where
  "json_size j = length (before j) + length (rest j)"

definition json_end :: "tool_json \<Rightarrow> 'a \<Rightarrow> 'a outcome" where
  "json_end j x = (if json_size j < TOOL_JSON_STR_SIZE then Inr x else Inl Fault)"

text \<open>The loops that look for one of some characters and fail at the NUL.\<close>

fun json_skip :: "(char \<Rightarrow> bool) \<Rightarrow> string \<Rightarrow> string \<Rightarrow> (string \<times> string) option" where
  "json_skip p b [] = None"
| "json_skip p b (c # r) =
     (if p c then Some (b, c # r) else if c = NUL then None else json_skip p (b @ [c]) r)"

definition json_scan :: "(char \<Rightarrow> bool) \<Rightarrow> tool_json \<Rightarrow> tool_json option" where
  "json_scan p j =
     map_option (\<lambda>(b, r). j\<lparr> before := b, rest := r \<rparr>) (json_skip p (before j) (rest j))"

definition json_look :: "(char \<Rightarrow> bool) \<Rightarrow> tool_json \<Rightarrow> tool_json option outcome" where
  "json_look p j = (case json_scan p j of None \<Rightarrow> json_end j None | Some j' \<Rightarrow> Inr (Some j'))"

definition tool_json_parseDoubleQuote :: "tool_json \<Rightarrow> tool_json option outcome" where
  "tool_json_parseDoubleQuote = json_look (\<lambda>c. c = CHR 0x22)"

definition tool_json_parseDoubleQuoteCaseMidBracket :: "tool_json \<Rightarrow> tool_json option outcome" where
  "tool_json_parseDoubleQuoteCaseMidBracket = json_look (\<lambda>c. c = CHR 0x22 \<or> c = CHR ''['')"

definition tool_json_parseSemicolon :: "tool_json \<Rightarrow> tool_json option outcome" where
  "tool_json_parseSemicolon = json_look (\<lambda>c. c = CHR '':'')"

definition tool_json_parseCommaCaseBigBracket :: "tool_json \<Rightarrow> tool_json option outcome" where
  "tool_json_parseCommaCaseBigBracket = json_look (\<lambda>c. c = CHR '','' \<or> c = CHR ''}'')"

definition tool_json_parseCommaCaseMidBracket :: "tool_json \<Rightarrow> tool_json option outcome" where
  "tool_json_parseCommaCaseMidBracket = json_look (\<lambda>c. c = CHR '','' \<or> c = CHR '']'')"

text \<open>
  The scan of \<open>parseNull\<close> and of \<open>parseNumber\<close> with a local pointer: \<open>None\<close> at the end of the text,
  \<open>Some (Inl r)\<close> for the return value \<open>r\<close>, otherwise the distance of the end of the scan. (The
  comparison with \<^verbatim>\<open>null\<close> can look at the byte after the text only where the scan reads it too.)
\<close>

fun null_scan :: "nat \<Rightarrow> string \<Rightarrow> (int + nat) option" where
  "null_scan k [] = None"
| "null_scan k (c # r) =
     (if c = NUL then Some (Inl (- 1))
      else if c = CHR '','' \<or> c = CHR ''}'' \<or> c = CHR 0x22 then Some (Inl 0)
      else if c_strncmp (c # r) ''null'' 4 = 0 then Some (Inr k)
      else null_scan (Suc k) r)"

fun number_scan :: "bool \<Rightarrow> nat \<Rightarrow> string \<Rightarrow> (int + nat) option" where
  "number_scan flag k [] = None"
| "number_scan flag k (c # r) =
     (if c = NUL then Some (Inl (- 1))
      else if \<not> flag then
        (if c = CHR 0x22 \<or> c = CHR ''['' then Some (Inl 0)
         else if c = CHR ''-'' \<or> is_digit c then number_scan True (Suc k) r else Some (Inl (- 1)))
      else if c = CHR '','' \<or> c = CHR ''}'' then Some (Inr k)
      else if \<not> is_digit c then Some (Inl (- 1)) else number_scan True (Suc k) r)"

definition json_advance :: "nat \<Rightarrow> tool_json \<Rightarrow> tool_json" where
  "json_advance k j = j\<lparr> before := before j @ take k (rest j), rest := drop k (rest j) \<rparr>"

definition tool_json_parseNull :: "tool_json \<Rightarrow> (int \<times> tool_json) outcome" where
  "tool_json_parseNull j =
     (case null_scan 0 (rest j) of
        None \<Rightarrow> json_end j (- 1, j)
      | Some (Inl r) \<Rightarrow> Inr (r, j)
      | Some (Inr k) \<Rightarrow>
          andThen (json_store (\<lambda>it. it\<lparr> pch_value := Lit TOOL_JSON_NULL,
                                        e_type := TOOL_JSON_ITEM_TYPE_NULL \<rparr>) j)
            (\<lambda>j. Inr (1, json_advance (k + 4) j)))"

definition tool_json_parseNumber :: "tool_json \<Rightarrow> (int \<times> tool_json) outcome" where
  "tool_json_parseNumber j =
     (case number_scan False 0 (rest j) of
        None \<Rightarrow> json_end j (- 1, j)
      | Some (Inl r) \<Rightarrow> Inr (r, j)
      | Some (Inr k) \<Rightarrow>
          andThen (json_store (\<lambda>it. it\<lparr> pch_value := Off (length (before j)),
                                        n32_number := int32 (c_atoi (rest j)),
                                        e_type := TOOL_JSON_ITEM_TYPE_NUMBER \<rparr>) j)
            (\<lambda>j. Inr (1, json_advance k j)))"

definition tool_json_parseName :: "tool_json \<Rightarrow> tool_json option outcome" where
  "tool_json_parseName j =
     andThen (tool_json_parseDoubleQuote j) (\<lambda>r.
       case r of
         None \<Rightarrow> Inr None
       | Some j \<Rightarrow>
           if length (st_item j) \<ge> TOOL_JSON_ITEM_NUM then Inl Fault
           else
             (let j = json_inc j;
                  j = j\<lparr> cur_item := (cur_item j)\<lparr> pch_name := Off (length (before j)) \<rparr> \<rparr>
              in andThen (tool_json_parseDoubleQuote j) (\<lambda>r.
                   case r of
                     None \<Rightarrow> Inr None
                   | Some j \<Rightarrow>
                       andThen (tool_json_parseSemicolon (json_inc (json_cut j))) (\<lambda>r.
                         Inr (map_option json_inc r)))))"

section \<open>The recursive parser\<close>

text \<open>
  \<open>json_members\<close> is the loop of \<open>parseBigBracket\<close> over the members of an object; the loop of
  \<open>parseMidBracket\<close> is the recursion on its index \<open>i\<close>. \<open>Inr None\<close> stands for -1.
\<close>

fun tool_json_parseValue :: "nat \<Rightarrow> tool_json \<Rightarrow> tool_json option outcome"
  and tool_json_parseMidBracket :: "nat \<Rightarrow> jptr \<Rightarrow> nat \<Rightarrow> tool_json \<Rightarrow> tool_json option outcome"
  and tool_json_parseBigBracket :: "nat \<Rightarrow> tool_json \<Rightarrow> tool_json option outcome"
  and json_members :: "nat \<Rightarrow> tool_json \<Rightarrow> tool_json option outcome"
where
  "tool_json_parseValue 0 j = Inl Fuel"
| "tool_json_parseValue (Suc fuel) j =
     andThen (tool_json_parseNull j) (\<lambda>(ret, j).
       if ret < 0 then Inr None
       else if ret > 0 then Inr (Some j)
       else andThen (tool_json_parseNumber j) (\<lambda>(ret, j).
         if ret < 0 then Inr None
         else if ret > 0 then Inr (Some j)
         else andThen (tool_json_parseDoubleQuoteCaseMidBracket j) (\<lambda>r.
           case r of
             None \<Rightarrow> Inr None
           | Some j \<Rightarrow>
               if deref (rest j) = CHR ''['' then
                 tool_json_parseMidBracket fuel (pch_name (cur_item j)) 0 (json_inc j)
               else
                 (let j = json_inc j;
                      value = Off (length (before j))
                  in andThen (tool_json_parseDoubleQuote j) (\<lambda>r.
                       case r of
                         None \<Rightarrow> Inr None
                       | Some j \<Rightarrow>
                         andThen (json_store (\<lambda>it. it\<lparr> pch_value := value,
                                    e_type := TOOL_JSON_ITEM_TYPE_STRING \<rparr>) (json_cut j))
                           (\<lambda>j. Inr (Some (json_inc j))))))))"
| "tool_json_parseMidBracket 0 array_name i j = Inl Fuel"
| "tool_json_parseMidBracket (Suc fuel) array_name i j =
     (let j = j\<lparr> pch_cur_array_name := array_name, n32_cur_array_index := i \<rparr>
      in andThen (tool_json_parseBigBracket fuel j) (\<lambda>r.
           case r of
             None \<Rightarrow> Inr None
           | Some j \<Rightarrow>
               andThen (tool_json_parseCommaCaseMidBracket (json_inc j)) (\<lambda>r.
                case r of
                  None \<Rightarrow> Inr None
                | Some j \<Rightarrow>
                    if deref (rest j) = CHR '']'' then
                      Inr (Some (j\<lparr> pch_cur_array_name := Lit ROOT_ARRAY_NAME,
                                    n32_cur_array_index := 0 \<rparr>))
                    else tool_json_parseMidBracket fuel array_name (i + 1) (json_inc j))))"
| "tool_json_parseBigBracket 0 j = Inl Fuel"
| "tool_json_parseBigBracket (Suc fuel) j =
     andThen (json_look (\<lambda>c. c = CHR ''{'') j) (\<lambda>r.
      case r of
        None \<Rightarrow> Inr None
      | Some j \<Rightarrow> json_members fuel (json_inc j))"
| "json_members 0 j = Inl Fuel"
| "json_members (Suc fuel) j =
     andThen (tool_json_parseName j) (\<lambda>r.
       case r of
         None \<Rightarrow> Inr None
       | Some j \<Rightarrow>
           andThen (tool_json_parseValue fuel j) (\<lambda>r.
             case r of
               None \<Rightarrow> Inr None
             | Some j \<Rightarrow>
                 andThen (tool_json_parseCommaCaseBigBracket j) (\<lambda>r.
                  case r of
                    None \<Rightarrow> Inr None
                  | Some j \<Rightarrow>
                      if deref (rest j) = CHR ''}'' then Inr (Some j)
                      else json_members fuel (json_inc j))))"

text \<open>
  \<open>None\<close>: the pointer is NULL. The text is copied with its own length as the bound, so
  a text longer than the buffer is written past it.
\<close>

definition tool_json_parse :: "nat \<Rightarrow> string option \<Rightarrow> tool_json option outcome" where
  "tool_json_parse fuel pch_str =
     (case pch_str of
        None \<Rightarrow> Inl Exit
      | Some s \<Rightarrow>
          if length (cstr s) > TOOL_JSON_STR_SIZE then Inl Fault
          else tool_json_parseBigBracket fuel
            \<lparr> before = [], rest = cstr s, st_item = [], cur_item = zero_item,
              pch_cur_array_name = Lit ROOT_ARRAY_NAME, n32_cur_array_index = 0 \<rparr>)"

section \<open>Lookup\<close>

text \<open>The string a pointer of an item denotes.\<close>

definition json_string :: "tool_json \<Rightarrow> jptr \<Rightarrow> string" where
  "json_string j p =
     (case p of
        Null \<Rightarrow> []
      | Off o1 \<Rightarrow> cstr (drop o1 (before j @ rest j))
      | Lit s \<Rightarrow> s)"

fun json_find :: "(json_item \<Rightarrow> bool) \<Rightarrow> (json_item \<Rightarrow> bool) \<Rightarrow> json_item list \<Rightarrow> jptr outcome" where
  "json_find null match [] = Inr Null"
| "json_find null match (it # its) =
     (if null it then Inl Exit
      else if match it then Inr (pch_value it) else json_find null match its)"

definition tool_json_getValue :: "tool_json \<Rightarrow> string \<Rightarrow> jptr outcome" where
  "tool_json_getValue j name =
     json_find (\<lambda>it. pch_name it = Null) (\<lambda>it. json_string j (pch_name it) = name) (st_item j)"

definition tool_json_getValue_V2 :: "tool_json \<Rightarrow> string \<Rightarrow> nat \<Rightarrow> string \<Rightarrow> jptr outcome" where
  "tool_json_getValue_V2 j array_name array_index name =
     json_find (\<lambda>it. pch_array_name it = Null \<or> pch_name it = Null)
       (\<lambda>it. json_string j (pch_array_name it) = array_name \<and> n32_array_index it = array_index
           \<and> json_string j (pch_name it) = name) (st_item j)"

section \<open>The parser stays inside the buffer and ends\<close>

text \<open>The text leaves room for its NUL, and how much of it each item accounts for.\<close>

definition json_ok :: "nat \<Rightarrow> tool_json \<Rightarrow> bool" where
  "json_ok k j \<longleftrightarrow> json_size j < TOOL_JSON_STR_SIZE \<and> 4 * length (st_item j) + k \<le> length (before j)"

lemma json_skip_spec:
  "json_skip p b r = Some (b', r') \<Longrightarrow>
     length b + length r = length b' + length r' \<and> length b \<le> length b' \<and> r' \<noteq> [] \<and> p (hd r')"
  by (induction p b r rule: json_skip.induct) (auto split: if_splits)

lemma json_scan_spec:
  assumes "json_scan p j = Some j'"
  shows "json_size j' = json_size j \<and> length (before j) \<le> length (before j') \<and> rest j' \<noteq> []
       \<and> p (hd (rest j')) \<and> st_item j' = st_item j \<and> cur_item j' = cur_item j"
  using assms json_skip_spec [of p "before j" "rest j"] by (auto simp: json_scan_def json_size_def)

lemma json_inc_spec:
  "rest j \<noteq> [] \<Longrightarrow> json_size (json_inc j) = json_size j"
  "length (before (json_inc j)) = Suc (length (before j))" "st_item (json_inc j) = st_item j"
  by (cases "rest j"; simp add: json_inc_def json_size_def)+

lemma json_cut_spec:
  "rest j \<noteq> [] \<Longrightarrow> json_size (json_cut j) = json_size j"
  "before (json_cut j) = before j" "st_item (json_cut j) = st_item j" "rest (json_cut j) \<noteq> []"
  by (cases "rest j"; simp add: json_cut_def json_size_def)+

lemmas json_scans = tool_json_parseDoubleQuote_def tool_json_parseDoubleQuoteCaseMidBracket_def
  tool_json_parseSemicolon_def tool_json_parseCommaCaseBigBracket_def
  tool_json_parseCommaCaseMidBracket_def

lemmas json_steps = json_inc_spec json_cut_spec

definition safe_res :: "tool_json \<Rightarrow> nat \<Rightarrow> nat \<Rightarrow> tool_json option outcome \<Rightarrow> bool" where
  "safe_res j d k r \<longleftrightarrow>
     (\<exists>x. r = Inr x \<and> (\<forall>j'. x = Some j' \<longrightarrow>
        json_ok k j' \<and> json_size j' = json_size j \<and> length (before j) + d \<le> length (before j')))"

lemma safe_None [simp]: "safe_res j d k (Inr None)"
  by (simp add: safe_res_def)

lemma safe_Some [simp]:
  "safe_res j d k (Inr (Some j')) \<longleftrightarrow>
     json_ok k j' \<and> json_size j' = json_size j \<and> length (before j) + d \<le> length (before j')"
  by (auto simp: safe_res_def)

lemma safe_bind:
  assumes "safe_res j d k r"
    and "\<And>j'. r = Inr (Some j') \<Longrightarrow> json_ok k j' \<Longrightarrow> json_size j' = json_size j \<Longrightarrow>
          length (before j) + d \<le> length (before j') \<Longrightarrow> safe_res j e l (f (Some j'))"
    and "f None = Inr None"
  shows "safe_res j e l (andThen r f)"
proof -
  from assms(1) obtain x where x: "r = Inr x" "\<forall>j'. x = Some j' \<longrightarrow> json_ok k j'
      \<and> json_size j' = json_size j \<and> length (before j) + d \<le> length (before j')"
    by (auto simp: safe_res_def)
  then show ?thesis using assms(2,3) by (cases x) auto
qed

lemma safe_later:
  "safe_res j' d k r \<Longrightarrow> json_size j' = json_size j \<Longrightarrow> length (before j) + e \<le> length (before j') + d \<Longrightarrow>
     safe_res j e k r"
  by (auto simp: safe_res_def)

lemma null_scan_spec:
  "null_scan k r = Some (Inr m) \<Longrightarrow> k \<le> m \<and> m - k + 4 \<le> length r"
proof (induction k r rule: null_scan.induct)
  case (2 k c r)
  show ?case
  proof (cases "c_strncmp (c # r) ''null'' 4 = 0")
    case True
    then have "is_prefix ''null'' (c # r)" by (subst (asm) c_strncmp_eq_0) auto
    then have "4 \<le> length (c # r)" by (auto simp: is_prefix_iff)
    with 2 True show ?thesis by (auto split: if_splits)
  next
    case False
    with 2 show ?thesis by (fastforce split: if_splits)
  qed
qed simp

lemma number_scan_spec:
  "number_scan flag k r = Some (Inr m) \<Longrightarrow> k \<le> m \<and> m - k \<le> length r \<and> (\<not> flag \<longrightarrow> k < m)"
  by (induction flag k r rule: number_scan.induct) (auto split: if_splits)

lemma advance_spec:
  "k \<le> length (rest j) \<Longrightarrow> json_size (json_advance k j) = json_size j"
  "k \<le> length (rest j) \<Longrightarrow> length (before (json_advance k j)) = length (before j) + k"
  "st_item (json_advance k j) = st_item j"
  by (simp_all add: json_advance_def json_size_def)

lemma null_scan_ret: "null_scan k r = Some (Inl x) \<Longrightarrow> x = 0 \<or> x = - 1"
  by (induction k r rule: null_scan.induct) (auto split: if_splits)

lemma number_scan_ret: "number_scan flag k r = Some (Inl x) \<Longrightarrow> x = 0 \<or> x = - 1"
  by (induction flag k r rule: number_scan.induct) (auto split: if_splits)

lemma end_ok: "json_ok k j \<Longrightarrow> json_end j x = Inr x"
  by (simp add: json_ok_def json_end_def)

lemma look_ok: "json_ok k j \<Longrightarrow> json_look p j = Inr (json_scan p j)"
  by (simp add: json_look_def end_ok split: option.split)

lemma store_ok:
  assumes "json_ok 3 j" "rest j \<noteq> []"
  shows "\<exists>j'. json_store f j = Inr j' \<and> before j' = before j \<and> rest j' = rest j
           \<and> length (st_item j') = Suc (length (st_item j))"
  using assms by (cases "rest j") (auto simp: json_store_def json_ok_def json_size_def
      TOOL_JSON_STR_SIZE_def TOOL_JSON_ITEM_NUM_def)

lemma parseNull_spec:
  assumes "json_ok 3 j"
  shows "\<exists>ret j'. tool_json_parseNull j = Inr (ret, j') \<and> (ret = 0 \<longrightarrow> j' = j)
    \<and> (ret > 0 \<longrightarrow> json_ok 0 j' \<and> json_size j' = json_size j \<and> length (before j) + 1 \<le> length (before j'))"
proof (cases "null_scan 0 (rest j)")
  case (Some r)
  show ?thesis
  proof (cases r)
    case (Inr k)
    with \<open>null_scan 0 (rest j) = Some r\<close> have k: "null_scan 0 (rest j) = Some (Inr k)" by simp
    from null_scan_spec [OF this] have len: "k + 4 \<le> length (rest j)" by simp
    then have "rest j \<noteq> []" by auto
    from store_ok [OF assms this] obtain j1 where
      "json_store (\<lambda>it. it\<lparr> pch_value := Lit TOOL_JSON_NULL, e_type := TOOL_JSON_ITEM_TYPE_NULL \<rparr>) j = Inr j1"
      "before j1 = before j" "rest j1 = rest j" "length (st_item j1) = Suc (length (st_item j))" by blast
    then show ?thesis
      using len assms advance_spec [of "k + 4" j1]
      by (auto simp: tool_json_parseNull_def k json_ok_def json_size_def)
  next
    case (Inl x)
    with \<open>null_scan 0 (rest j) = Some r\<close> null_scan_ret show ?thesis
      by (fastforce simp: tool_json_parseNull_def)
  qed
qed (simp add: tool_json_parseNull_def end_ok [OF assms])

lemma parseNumber_spec:
  assumes "json_ok 3 j"
  shows "\<exists>ret j'. tool_json_parseNumber j = Inr (ret, j') \<and> (ret = 0 \<longrightarrow> j' = j)
    \<and> (ret > 0 \<longrightarrow> json_ok 0 j' \<and> json_size j' = json_size j \<and> length (before j) + 1 \<le> length (before j'))"
proof (cases "number_scan False 0 (rest j)")
  case (Some r)
  show ?thesis
  proof (cases r)
    case (Inr k)
    with \<open>number_scan False 0 (rest j) = Some r\<close> have k: "number_scan False 0 (rest j) = Some (Inr k)" by simp
    from number_scan_spec [OF this] have len: "0 < k" "k \<le> length (rest j)" by simp_all
    then have "rest j \<noteq> []" by auto
    from store_ok [OF assms this] obtain j1 where
      "json_store (\<lambda>it. it\<lparr> pch_value := Off (length (before j)), n32_number := int32 (c_atoi (rest j)),
          e_type := TOOL_JSON_ITEM_TYPE_NUMBER \<rparr>) j = Inr j1"
      "before j1 = before j" "rest j1 = rest j" "length (st_item j1) = Suc (length (st_item j))" by blast
    then show ?thesis
      using len assms advance_spec [of k j1]
      by (auto simp: tool_json_parseNumber_def k json_ok_def json_size_def)
  next
    case (Inl x)
    with \<open>number_scan False 0 (rest j) = Some r\<close> number_scan_ret show ?thesis
      by (fastforce simp: tool_json_parseNumber_def)
  qed
qed (simp add: tool_json_parseNumber_def end_ok [OF assms])

lemma scan_safe:
  assumes "json_scan p j = Some j'" "json_ok k j"
  shows "json_ok k j' \<and> json_size j' = json_size j \<and> length (before j) \<le> length (before j')
       \<and> rest j' \<noteq> [] \<and> p (deref (rest j'))"
  using json_scan_spec [OF assms(1)] assms(2)
  by (cases "rest j'") (auto simp: json_ok_def)

lemma inc_safe:
  assumes "rest j \<noteq> []" "json_ok k j"
  shows "json_ok (Suc k) (json_inc j) \<and> json_size (json_inc j) = json_size j
       \<and> length (before (json_inc j)) = Suc (length (before j))"
  using assms json_inc_spec [of j] by (simp add: json_ok_def)

lemma cut_safe:
  assumes "rest j \<noteq> []" "json_ok k j"
  shows "json_ok k (json_cut j) \<and> json_size (json_cut j) = json_size j
       \<and> before (json_cut j) = before j \<and> rest (json_cut j) \<noteq> []"
  using assms json_cut_spec [of j] by (simp add: json_ok_def)

lemma cur_item_upd [simp]:
  "json_size (j\<lparr>cur_item := it\<rparr>) = json_size j" "json_ok k (j\<lparr>cur_item := it\<rparr>) = json_ok k j"
  by (simp_all add: json_size_def json_ok_def)

lemma array_upd [simp]:
  "json_size (j\<lparr>pch_cur_array_name := a, n32_cur_array_index := i\<rparr>) = json_size j"
  "json_ok k (j\<lparr>pch_cur_array_name := a, n32_cur_array_index := i\<rparr>) = json_ok k j"
  by (simp_all add: json_size_def json_ok_def)

lemma json_ok_mono: "json_ok k j \<Longrightarrow> l \<le> k \<Longrightarrow> json_ok l j"
  by (simp add: json_ok_def)

lemma parseName_safe:
  assumes ok: "json_ok 0 j"
  shows "safe_res j 3 3 (tool_json_parseName j)"
proof (cases "json_scan (\<lambda>c. c = CHR 0x22) j")
  case None
  then show ?thesis by (simp add: tool_json_parseName_def json_scans look_ok [OF ok])
next
  case (Some j1)
  note s1 = scan_safe [OF Some ok]
  have few: "\<not> TOOL_JSON_ITEM_NUM \<le> length (st_item j1)"
    using s1 by (cases "rest j1") (auto simp: json_ok_def json_size_def TOOL_JSON_STR_SIZE_def TOOL_JSON_ITEM_NUM_def)
  define j2 where "j2 = (json_inc j1)\<lparr> cur_item := (cur_item (json_inc j1))\<lparr>
      pch_name := Off (length (before (json_inc j1))) \<rparr> \<rparr>"
  have s2: "json_ok 1 j2" "json_size j2 = json_size j" "length (before j2) = Suc (length (before j1))"
    using inc_safe [of j1 0] s1 by (simp_all add: j2_def)
  show ?thesis
  proof (cases "json_scan (\<lambda>c. c = CHR 0x22) j2")
    case None
    then show ?thesis using few by (simp add: tool_json_parseName_def Some json_scans look_ok [OF ok] look_ok [OF s2(1)] Let_def j2_def [symmetric])
  next
    case (Some j3)
    note s3 = scan_safe [OF Some s2(1)]
    define j4 where "j4 = json_inc (json_cut j3)"
    have s4: "json_ok 2 j4" "json_size j4 = json_size j" "length (before j4) = Suc (length (before j3))"
      using cut_safe [of j3 1] inc_safe [of "json_cut j3" 1] s3 s2 by (simp_all add: j4_def numeral_2_eq_2)
    show ?thesis
    proof (cases "json_scan (\<lambda>c. c = CHR '':'') j4")
      case None
      then show ?thesis using few \<open>json_scan (\<lambda>c. c = CHR 0x22) j = Some j1\<close> Some
        by (simp add: tool_json_parseName_def json_scans look_ok [OF ok] look_ok [OF s2(1)] look_ok [OF s4(1)] Let_def j2_def [symmetric] j4_def [symmetric])
    next
      case (Some j5)
      note s5 = scan_safe [OF Some s4(1)]
      have "json_ok 3 (json_inc j5)" "json_size (json_inc j5) = json_size j"
        "length (before (json_inc j5)) = Suc (length (before j5))"
        using inc_safe [of j5 2] s5 s4 by (simp_all add: numeral_3_eq_3 numeral_2_eq_2)
      then show ?thesis
        using few \<open>json_scan (\<lambda>c. c = CHR 0x22) j = Some j1\<close> \<open>json_scan (\<lambda>c. c = CHR 0x22) j2 = Some j3\<close> Some
          s1 s2 s3 s4 s5
        by (simp add: tool_json_parseName_def json_scans look_ok [OF ok] look_ok [OF s2(1)] look_ok [OF s4(1)] Let_def j2_def [symmetric] j4_def [symmetric])
    qed
  qed
qed

definition at_end :: "tool_json option outcome \<Rightarrow> bool" where
  "at_end r \<longleftrightarrow> (\<forall>j. r = Inr (Some j) \<longrightarrow> rest j \<noteq> [])"

lemma rest_less:
  "json_size j' = json_size j \<Longrightarrow> length (before j) + d \<le> length (before j') \<Longrightarrow>
     length (rest j') + d \<le> length (rest j)"
  by (simp add: json_size_def)

lemma value_step:
  assumes mid: "\<And>a i j. json_ok 0 j \<Longrightarrow> 3 * length (rest j) + 2 \<le> fuel \<Longrightarrow>
      safe_res j 0 0 (tool_json_parseMidBracket fuel a i j)"
    and ok: "json_ok 3 j" "3 * length (rest j) + 1 \<le> Suc fuel"
  shows "safe_res j 1 0 (tool_json_parseValue (Suc fuel) j)"
proof -
  from parseNull_spec [OF ok(1)] obtain ret j1 where null: "tool_json_parseNull j = Inr (ret, j1)"
    "ret = 0 \<longrightarrow> j1 = j" "ret > 0 \<longrightarrow> json_ok 0 j1 \<and> json_size j1 = json_size j \<and>
      length (before j) + 1 \<le> length (before j1)" by blast
  from parseNumber_spec [OF ok(1)] obtain ret2 j2 where num: "tool_json_parseNumber j = Inr (ret2, j2)"
    "ret2 = 0 \<longrightarrow> j2 = j" "ret2 > 0 \<longrightarrow> json_ok 0 j2 \<and> json_size j2 = json_size j \<and>
      length (before j) + 1 \<le> length (before j2)" by blast
  consider "ret < 0" | "ret > 0" | "ret = 0" "ret2 < 0" | "ret = 0" "ret2 > 0" | "ret = 0" "ret2 = 0" by linarith
  then show ?thesis
  proof cases
    case 5
    then have eq: "j1 = j" "j2 = j" using null num by auto
    show ?thesis
    proof (cases "json_scan (\<lambda>c. c = CHR 0x22 \<or> c = CHR ''['') j")
      case None
      then show ?thesis using 5 null num eq by (simp add: json_scans look_ok [OF ok(1)])
    next
      case (Some j3)
      note s3 = scan_safe [OF Some ok(1)]
      have s4: "json_ok 4 (json_inc j3)" "json_size (json_inc j3) = json_size j"
        "length (before j) + 1 \<le> length (before (json_inc j3))"
        using inc_safe [of j3 3] s3 by (simp_all add: eval_nat_numeral)
      show ?thesis
      proof (cases "deref (rest j3) = CHR ''[''")
        case True
        have "3 * length (rest (json_inc j3)) + 2 \<le> fuel"
          using rest_less [OF s4(2,3)] ok(2) by simp
        from safe_later [OF mid [OF json_ok_mono [OF s4(1)] this] s4(2)] True
        show ?thesis using 5 null num eq Some s4(3) by (simp add: json_scans look_ok [OF ok(1)])
      next
        case False
        show ?thesis
        proof (cases "json_scan (\<lambda>c. c = CHR 0x22) (json_inc j3)")
          case None
          then show ?thesis using 5 null num eq Some False by (simp add: Let_def json_scans look_ok [OF ok(1)] look_ok [OF s4(1)])
        next
          case (Some j5)
          note s5 = scan_safe [OF Some s4(1)]
          note s6 = cut_safe [of j5 4]
          have "json_ok 3 (json_cut j5)" "rest (json_cut j5) \<noteq> []"
            using s5 s6 by (auto intro: json_ok_mono)
          from store_ok [OF this, of "\<lambda>it. it\<lparr> pch_value := Off (length (before (json_inc j3))),
              e_type := TOOL_JSON_ITEM_TYPE_STRING \<rparr>"] obtain j7 where
            j7: "json_store (\<lambda>it. it\<lparr> pch_value := Off (length (before (json_inc j3))),
              e_type := TOOL_JSON_ITEM_TYPE_STRING \<rparr>) (json_cut j5) = Inr j7"
            "before j7 = before (json_cut j5)" "rest j7 = rest (json_cut j5)"
            "length (st_item j7) = Suc (length (st_item (json_cut j5)))" by blast
          have "json_ok 0 (json_inc j7)" "json_size (json_inc j7) = json_size j"
            "length (before j) + 1 \<le> length (before (json_inc j7))"
            using j7 s4 s5 s6 json_inc_spec [of j7] by (auto simp: json_ok_def json_size_def)
          then show ?thesis
            using 5 null num eq \<open>json_scan (\<lambda>c. c = CHR 0x22 \<or> c = CHR ''['') j = Some j3\<close> False Some j7(1)
            by (simp add: Let_def json_scans look_ok [OF ok(1)] look_ok [OF s4(1)])
        qed
      qed
    qed
  qed (use null num in auto)
qed

lemma mid_step:
  assumes mid: "\<And>a i j. json_ok 0 j \<Longrightarrow> 3 * length (rest j) + 2 \<le> fuel \<Longrightarrow>
      safe_res j 0 0 (tool_json_parseMidBracket fuel a i j)"
    and big: "\<And>j. json_ok 0 j \<Longrightarrow> 3 * length (rest j) + 1 \<le> fuel \<Longrightarrow>
      safe_res j 1 0 (tool_json_parseBigBracket fuel j) \<and> at_end (tool_json_parseBigBracket fuel j)"
    and ok: "json_ok 0 j" "3 * length (rest j) + 2 \<le> Suc fuel"
  shows "safe_res j 0 0 (tool_json_parseMidBracket (Suc fuel) a i j)"
proof -
  define j0 where "j0 = j\<lparr> pch_cur_array_name := a, n32_cur_array_index := i \<rparr>"
  have j0: "json_ok 0 j0" "json_size j0 = json_size j" "rest j0 = rest j" "before j0 = before j"
    using ok(1) by (simp_all add: j0_def)
  have b: "safe_res j0 1 0 (tool_json_parseBigBracket fuel j0)" "at_end (tool_json_parseBigBracket fuel j0)"
    using big [OF j0(1)] ok(2) j0(3) by auto
  have "safe_res j0 0 0 (tool_json_parseMidBracket (Suc fuel) a i j)"
    unfolding tool_json_parseMidBracket.simps Let_def j0_def [symmetric]
  proof (rule safe_bind [OF b(1)])
    fix j1
    assume r: "tool_json_parseBigBracket fuel j0 = Inr (Some j1)" "json_ok 0 j1"
      "json_size j1 = json_size j0" "length (before j0) + 1 \<le> length (before j1)"
    have ne: "rest j1 \<noteq> []" using b(2) r(1) by (auto simp: at_end_def)
    note s1 = inc_safe [OF ne r(2)]
    show "safe_res j0 0 0 (case Some j1 of None \<Rightarrow> Inr None | Some j \<Rightarrow>
        andThen (tool_json_parseCommaCaseMidBracket (json_inc j)) (\<lambda>r. case r of None \<Rightarrow> Inr None
         | Some j \<Rightarrow> if deref (rest j) = CHR '']''
             then Inr (Some (j\<lparr>pch_cur_array_name := Lit ROOT_ARRAY_NAME, n32_cur_array_index := 0\<rparr>))
             else tool_json_parseMidBracket fuel a (i + 1) (json_inc j)))"
    proof (cases "json_scan (\<lambda>c. c = CHR '','' \<or> c = CHR '']'') (json_inc j1)")
      case (Some j2)
      note s2 = scan_safe [OF Some conjunct1 [OF s1]]
      have s3: "json_ok 0 (json_inc j2)" "json_size (json_inc j2) = json_size j0"
        "length (before j0) + 1 \<le> length (before (json_inc j2))"
        using inc_safe [of j2 "Suc 0"] s2 s1 r by (auto intro: json_ok_mono)
      have "3 * length (rest (json_inc j2)) + 2 \<le> fuel"
        using rest_less [OF s3(2,3)] ok(2) j0(3) by simp
      from safe_later [OF mid [OF s3(1) this] s3(2)] s3(3)
      show ?thesis
        using Some s2 s1 r
        by (auto intro: json_ok_mono simp: tool_json_parseCommaCaseMidBracket_def look_ok [OF conjunct1 [OF s1]])
    qed (simp add: tool_json_parseCommaCaseMidBracket_def look_ok [OF conjunct1 [OF s1]])
  qed simp
  then show ?thesis using j0 by (simp add: safe_res_def)
qed

lemma big_step:
  assumes members: "\<And>j. json_ok 0 j \<Longrightarrow> 3 * length (rest j) + 1 \<le> fuel \<Longrightarrow>
      safe_res j 0 0 (json_members fuel j) \<and> at_end (json_members fuel j)"
    and ok: "json_ok 0 j" "3 * length (rest j) + 1 \<le> Suc fuel"
  shows "safe_res j 1 0 (tool_json_parseBigBracket (Suc fuel) j)
       \<and> at_end (tool_json_parseBigBracket (Suc fuel) j)"
proof (cases "json_scan (\<lambda>c. c = CHR ''{'') j")
  case None
  then show ?thesis by (simp add: at_end_def look_ok [OF ok(1)])
next
  case (Some j1)
  note s1 = scan_safe [OF Some ok(1)]
  have s2: "json_ok 0 (json_inc j1)" "json_size (json_inc j1) = json_size j"
    "length (before j) + 1 \<le> length (before (json_inc j1))"
    using inc_safe [of j1 0] s1 by (auto intro: json_ok_mono)
  have "3 * length (rest (json_inc j1)) + 1 \<le> fuel"
    using rest_less [OF s2(2,3)] ok(2) by simp
  from members [OF s2(1) this] show ?thesis
    using Some safe_later [OF _ s2(2), of 0 0 _ 1] s2(3) by (simp add: look_ok [OF ok(1)])
qed

lemma members_step:
  assumes val: "\<And>j. json_ok 3 j \<Longrightarrow> 3 * length (rest j) + 1 \<le> fuel \<Longrightarrow>
      safe_res j 1 0 (tool_json_parseValue fuel j)"
    and members: "\<And>j. json_ok 0 j \<Longrightarrow> 3 * length (rest j) + 1 \<le> fuel \<Longrightarrow>
      safe_res j 0 0 (json_members fuel j) \<and> at_end (json_members fuel j)"
    and ok: "json_ok 0 j" "3 * length (rest j) + 1 \<le> Suc fuel"
  shows "safe_res j 0 0 (json_members (Suc fuel) j) \<and> at_end (json_members (Suc fuel) j)"
proof -
  from parseName_safe [OF ok(1)] obtain x where x: "tool_json_parseName j = Inr x"
    "\<And>j'. x = Some j' \<Longrightarrow> json_ok 3 j' \<and> json_size j' = json_size j \<and> length (before j) + 3 \<le> length (before j')"
    by (auto simp: safe_res_def)
  show ?thesis
  proof (cases x)
    case None
    then show ?thesis by (simp add: x(1) at_end_def)
  next
    case (Some j1)
    note s1 = x(2) [OF Some]
    have "3 * length (rest j1) + 1 \<le> fuel"
      using rest_less [of j1 j 3] s1 ok(2) by simp
    from val [OF conjunct1 [OF s1] this] obtain y where y: "tool_json_parseValue fuel j1 = Inr y"
      "\<And>j'. y = Some j' \<Longrightarrow> json_ok 0 j' \<and> json_size j' = json_size j1 \<and> length (before j1) + 1 \<le> length (before j')"
      by (auto simp: safe_res_def)
    show ?thesis
    proof (cases y)
      case None
      then show ?thesis using Some by (simp add: x(1) y(1) at_end_def)
    next
      case (Some j2)
      note s2 = y(2) [OF Some]
      show ?thesis
      proof (cases "json_scan (\<lambda>c. c = CHR '','' \<or> c = CHR ''}'') j2")
        case None
        then show ?thesis using Some \<open>x = Some j1\<close>
          by (simp add: x(1) y(1) at_end_def tool_json_parseCommaCaseBigBracket_def look_ok [OF conjunct1 [OF s2]])
      next
        case c: (Some j3)
        note s3 = scan_safe [OF c conjunct1 [OF s2]]
        have s4: "json_ok 0 (json_inc j3)" "json_size (json_inc j3) = json_size j"
          "length (before j) + 1 \<le> length (before (json_inc j3))"
          using inc_safe [of j3 0] s3 s2 s1 by (auto intro: json_ok_mono)
        have "3 * length (rest (json_inc j3)) + 1 \<le> fuel"
          using rest_less [OF s4(2,3)] ok(2) by simp
        note rec = members [OF s4(1) this]
        have "safe_res j 0 0 (json_members fuel (json_inc j3))"
          using rec safe_later [OF _ s4(2), of 0 0 _ 0] s4(3) by simp
        then show ?thesis
          using rec Some \<open>x = Some j1\<close> c s1 s2 s3
          by (simp add: x(1) y(1) at_end_def tool_json_parseCommaCaseBigBracket_def look_ok [OF conjunct1 [OF s2]])
      qed
    qed
  qed
qed

lemma parser_safe:
  "(\<forall>j. json_ok 3 j \<longrightarrow> 3 * length (rest j) + 1 \<le> fuel \<longrightarrow> safe_res j 1 0 (tool_json_parseValue fuel j))
   \<and> (\<forall>a i j. json_ok 0 j \<longrightarrow> 3 * length (rest j) + 2 \<le> fuel \<longrightarrow>
        safe_res j 0 0 (tool_json_parseMidBracket fuel a i j))
   \<and> (\<forall>j. json_ok 0 j \<longrightarrow> 3 * length (rest j) + 1 \<le> fuel \<longrightarrow>
        safe_res j 1 0 (tool_json_parseBigBracket fuel j) \<and> at_end (tool_json_parseBigBracket fuel j))
   \<and> (\<forall>j. json_ok 0 j \<longrightarrow> 3 * length (rest j) + 1 \<le> fuel \<longrightarrow>
        safe_res j 0 0 (json_members fuel j) \<and> at_end (json_members fuel j))"
proof (induction fuel)
  case (Suc fuel)
  then show ?case
    using value_step [of fuel] mid_step [of fuel] big_step [of fuel] members_step [of fuel] by blast
qed simp

lemma json_parse_total:
  assumes "length (cstr s) < 4096" "3 * length (cstr s) + 1 \<le> fuel"
  shows "\<exists>r. tool_json_parse fuel (Some s) = Inr r \<and>
      (\<forall>j. r = Some j \<longrightarrow> 4 * length (st_item j) \<le> length (cstr s))"
proof -
  define j0 where "j0 = \<lparr> before = [], rest = cstr s, st_item = [], cur_item = zero_item,
      pch_cur_array_name = Lit ROOT_ARRAY_NAME, n32_cur_array_index = 0 \<rparr>"
  have "json_ok 0 j0" "3 * length (rest j0) + 1 \<le> fuel"
    using assms by (simp_all add: j0_def json_ok_def json_size_def TOOL_JSON_STR_SIZE_def)
  then have "safe_res j0 1 0 (tool_json_parseBigBracket fuel j0)"
    using parser_safe [of fuel] by blast
  then obtain r where "tool_json_parseBigBracket fuel j0 = Inr r"
    "\<And>j. r = Some j \<Longrightarrow> json_ok 0 j \<and> json_size j = json_size j0"
    by (auto simp: safe_res_def)
  note r = this
  have "tool_json_parse fuel (Some s) = Inr r"
    using assms(1) r(1) by (simp add: tool_json_parse_def j0_def TOOL_JSON_STR_SIZE_def)
  moreover have "json_size j0 = length (cstr s)" by (simp add: j0_def json_size_def)
  then have "4 * length (st_item j) \<le> length (cstr s)" if "r = Some j" for j
    using r(2) [OF that] by (auto simp: json_ok_def json_size_def)
  ultimately show ?thesis by blast
qed

section \<open>Reading messages\<close>

text \<open>The buffer after the members of a message have been read, and their items.\<close>

definition cut_field :: "string \<times> string \<Rightarrow> string" where
  "cut_field f = CHR 0x22 # fst f @ NUL # CHR '':'' # CHR 0x22 # snd f @ [NUL]"

fun cut_fields :: "(string \<times> string) list \<Rightarrow> string" where
  "cut_fields [] = []"
| "cut_fields [f] = cut_field f"
| "cut_fields (f # g # fs) = cut_field f @ CHR '','' # cut_fields (g # fs)"

definition field_item :: "nat \<Rightarrow> string \<times> string \<Rightarrow> jptr \<Rightarrow> nat \<Rightarrow> json_item" where
  "field_item o1 f a i = \<lparr> pch_name = Off (o1 + 1), pch_value = Off (o1 + length (fst f) + 4),
     n32_number = 0, e_type = TOOL_JSON_ITEM_TYPE_STRING, pch_array_name = a, n32_array_index = i \<rparr>"

fun field_items :: "nat \<Rightarrow> (string \<times> string) list \<Rightarrow> jptr \<Rightarrow> nat \<Rightarrow> json_item list" where
  "field_items o1 [] a i = []"
| "field_items o1 (f # fs) a i =
     field_item o1 f a i # field_items (o1 + length (cut_field f) + 1) fs a i"

lemma json_skip_plain:
  "(\<And>c. c \<in> set u \<Longrightarrow> \<not> p c \<and> c \<noteq> NUL) \<Longrightarrow> p q \<Longrightarrow> json_skip p b (u @ q # t) = Some (b @ u, q # t)"
  by (induction u arbitrary: b) auto

lemma scan_plain:
  assumes "rest j = u @ q # t" "\<And>c. c \<in> set u \<Longrightarrow> \<not> p c \<and> c \<noteq> NUL" "p q"
  shows "json_scan p j = Some (j\<lparr> before := before j @ u, rest := q # t \<rparr>)"
  using json_skip_plain [of u p q "before j" t] assms by (simp add: json_scan_def)

lemma look_plain:
  assumes "rest j = u @ q # t" "\<And>c. c \<in> set u \<Longrightarrow> \<not> p c \<and> c \<noteq> NUL" "p q"
  shows "json_look p j = Inr (Some (j\<lparr> before := before j @ u, rest := q # t \<rparr>))"
  using scan_plain [of j u q t p] assms by (simp add: json_look_def)

lemma length_cut_field: "length (cut_field f) = length (fst f) + length (snd f) + 5"
  by (simp add: cut_field_def)

text \<open>One member \<open>"n":"v"\<close>: its name, then its value.\<close>

lemma parseName_field:
  assumes "rest j = CHR 0x22 # n @ CHR 0x22 # CHR '':'' # t" "plain n" "length (st_item j) < 1024"
  shows "tool_json_parseName j = Inr (Some (j\<lparr>
           before := before j @ CHR 0x22 # n @ [NUL, CHR '':''], rest := t,
           cur_item := (cur_item j)\<lparr> pch_name := Off (length (before j) + 1) \<rparr> \<rparr>))"
proof -
  define j2 where "j2 = (json_inc j)\<lparr> cur_item := (cur_item (json_inc j))\<lparr>
      pch_name := Off (length (before (json_inc j))) \<rparr> \<rparr>"
  have "tool_json_parseDoubleQuote j = Inr (Some j)"
    using look_plain [of j "[]" "CHR 0x22" "n @ CHR 0x22 # CHR '':'' # t" "\<lambda>c. c = CHR 0x22"] assms(1)
    by (simp add: tool_json_parseDoubleQuote_def)
  moreover have "rest j2 = n @ CHR 0x22 # CHR '':'' # t" by (simp add: j2_def json_inc_def assms(1))
  then have "tool_json_parseDoubleQuote j2 =
      Inr (Some (j2\<lparr> before := before j2 @ n, rest := CHR 0x22 # CHR '':'' # t \<rparr>))"
    unfolding tool_json_parseDoubleQuote_def using assms(2)
    by (intro look_plain) (auto simp: plain_def)
  moreover have "tool_json_parseSemicolon (json_inc (json_cut
      (j2\<lparr> before := before j2 @ n, rest := CHR 0x22 # CHR '':'' # t \<rparr>))) =
      Inr (Some (j2\<lparr> before := before j2 @ n @ [NUL], rest := CHR '':'' # t \<rparr>))"
    unfolding tool_json_parseSemicolon_def json_inc_def json_cut_def
    by (subst look_plain [where u = "[]" and q = "CHR '':''" and t = t]) simp_all
  ultimately show ?thesis
    using assms(1,3)
    by (simp add: tool_json_parseName_def Let_def j2_def [symmetric] TOOL_JSON_ITEM_NUM_def)
      (simp add: j2_def json_inc_def)
qed

lemma parseValue_field:
  assumes "rest j = CHR 0x22 # v @ CHR 0x22 # t" "plain v" "length (st_item j) < 1024"
  shows "tool_json_parseValue (Suc fuel) j = Inr (Some (j\<lparr>
           before := before j @ CHR 0x22 # v @ [NUL], rest := t,
           st_item := st_item j @ [(cur_item j)\<lparr> pch_value := Off (length (before j) + 1),
             e_type := TOOL_JSON_ITEM_TYPE_STRING, pch_array_name := pch_cur_array_name j,
             n32_array_index := n32_cur_array_index j \<rparr>],
           cur_item := zero_item \<rparr>))"
proof -
  have "tool_json_parseNull j = Inr (0, j)" "tool_json_parseNumber j = Inr (0, j)"
    using assms(1) by (simp_all add: tool_json_parseNull_def tool_json_parseNumber_def)
  moreover have "tool_json_parseDoubleQuoteCaseMidBracket j = Inr (Some j)"
    using look_plain [of j "[]" "CHR 0x22" "v @ CHR 0x22 # t" "\<lambda>c. c = CHR 0x22 \<or> c = CHR ''[''"] assms(1)
    by (simp add: tool_json_parseDoubleQuoteCaseMidBracket_def)
  moreover have "tool_json_parseDoubleQuote (json_inc j) =
      Inr (Some (j\<lparr> before := before j @ CHR 0x22 # v, rest := CHR 0x22 # t \<rparr>))"
    unfolding tool_json_parseDoubleQuote_def using assms(1,2)
    by (subst look_plain [where u = v and q = "CHR 0x22" and t = t]) (auto simp: plain_def json_inc_def)
  ultimately show ?thesis
    using assms(1,3)
    by (simp add: Let_def json_store_def json_cut_def json_inc_def TOOL_JSON_ITEM_NUM_def)
qed

lemma members_fields:
  assumes "rest j = json_fields fs @ CHR ''}'' # t" "fs \<noteq> []" "clean_fields fs"
    and "length (st_item j) + length fs \<le> 1024" "cur_item j = zero_item" "Suc (length fs) \<le> fuel"
  shows "json_members fuel j = Inr (Some (j\<lparr>
           before := before j @ cut_fields fs, rest := CHR ''}'' # t,
           st_item := st_item j @ field_items (length (before j)) fs (pch_cur_array_name j)
                        (n32_cur_array_index j) \<rparr>))"
  using assms
proof (induction fs arbitrary: j fuel)
  case (Cons f fs)
  obtain n v where f: "f = (n, v)" by (cases f)
  have pl: "plain n" "plain v" "clean_fields fs" using Cons.prems(3) by (auto simp: f)
  obtain k where k: "fuel = Suc (Suc k)" using Cons.prems(6) by (cases fuel; cases "fuel - 1") auto
  define t1 where "t1 = (if fs = [] then CHR ''}'' # t else CHR '','' # json_fields fs @ CHR ''}'' # t)"
  have r: "rest j = CHR 0x22 # n @ CHR 0x22 # CHR '':'' # CHR 0x22 # v @ CHR 0x22 # t1"
    using Cons.prems(1) unfolding f json_fields_Cons t1_def by simp
  define j1 where "j1 = j\<lparr> before := before j @ CHR 0x22 # n @ [NUL, CHR '':''],
      rest := CHR 0x22 # v @ CHR 0x22 # t1,
      cur_item := (cur_item j)\<lparr> pch_name := Off (length (before j) + 1) \<rparr> \<rparr>"
  have name: "tool_json_parseName j = Inr (Some j1)"
    using Cons.prems(4) unfolding j1_def by (intro parseName_field r pl) simp
  define j2 where "j2 = j\<lparr> before := before j @ cut_field f, rest := t1,
      st_item := st_item j @ [field_item (length (before j)) f (pch_cur_array_name j)
                                 (n32_cur_array_index j)] \<rparr>"
  have val: "tool_json_parseValue (Suc k) j1 = Inr (Some j2)"
  proof -
    have "length (st_item j1) < 1024" using Cons.prems(4) by (simp add: j1_def)
    from parseValue_field [of j1 v t1 k, OF _ pl(2) this] show ?thesis
      using Cons.prems(5)
      by (simp add: j1_def j2_def f cut_field_def field_item_def zero_item_def)
  qed
  show ?case
  proof (cases "fs = []")
    case True
    have "tool_json_parseCommaCaseBigBracket j2 = Inr (Some j2)"
      using look_plain [of j2 "[]" "CHR ''}''" t "\<lambda>c. c = CHR '','' \<or> c = CHR ''}''"] True
      by (simp add: tool_json_parseCommaCaseBigBracket_def j2_def t1_def)
    then show ?thesis
      using True by (simp add: k name val del: tool_json_parseValue.simps) (simp add: j2_def t1_def)
  next
    case False
    have "tool_json_parseCommaCaseBigBracket j2 = Inr (Some j2)"
      using look_plain [of j2 "[]" "CHR '',''" "json_fields fs @ CHR ''}'' # t"
          "\<lambda>c. c = CHR '','' \<or> c = CHR ''}''"] False
      by (simp add: tool_json_parseCommaCaseBigBracket_def j2_def t1_def)
    then have "json_members fuel j = json_members (Suc k) (json_inc j2)"
      using False by (simp add: k name val del: tool_json_parseValue.simps json_members.simps(2))
        (subst json_members.simps(2), simp add: name val j2_def t1_def del: tool_json_parseValue.simps json_members.simps(2))
    also have "\<dots> = Inr (Some ((json_inc j2)\<lparr>
           before := before (json_inc j2) @ cut_fields fs, rest := CHR ''}'' # t,
           st_item := st_item (json_inc j2) @ field_items (length (before (json_inc j2))) fs
             (pch_cur_array_name (json_inc j2)) (n32_cur_array_index (json_inc j2)) \<rparr>))"
      using False pl Cons.prems k
      by (intro Cons.IH) (auto simp: json_inc_def j2_def t1_def)
    finally show ?thesis
      using False by (cases fs) (simp_all add: json_inc_def j2_def t1_def)
  qed
qed simp

lemma cut_fields_Cons: "cut_fields (f # fs) = cut_field f @ (if fs = [] then [] else CHR '','' # cut_fields fs)"
  by (cases fs) simp_all

lemma field_strings:
  assumes "plain n" "plain v"
  shows "cstr (drop (length p + 1) (p @ cut_field (n, v) @ q)) = n"
    and "cstr (drop (length p + length n + 4) (p @ cut_field (n, v) @ q)) = v"
proof -
  have "drop (length p + 1) (p @ cut_field (n, v) @ q) = n @ NUL # CHR '':'' # CHR 0x22 # v @ NUL # q"
    by (simp add: cut_field_def)
  then show "cstr (drop (length p + 1) (p @ cut_field (n, v) @ q)) = n"
    using assms(1) by (simp add: cstr_append_NUL plain_def)
  have "p @ cut_field (n, v) @ q = (p @ CHR 0x22 # n @ NUL # CHR '':'' # [CHR 0x22]) @ v @ NUL # q"
    by (simp add: cut_field_def)
  moreover have "length (p @ CHR 0x22 # n @ NUL # CHR '':'' # [CHR 0x22]) = length p + length n + 4"
    by simp
  ultimately have "drop (length p + length n + 4) (p @ cut_field (n, v) @ q) = v @ NUL # q"
    by (metis append_eq_conv_conj)
  then show "cstr (drop (length p + length n + 4) (p @ cut_field (n, v) @ q)) = v"
    using assms(2) by (simp add: cstr_append_NUL plain_def)
qed

lemma find_fields:
  assumes "clean_fields fs" "before j @ rest j = p @ cut_fields fs @ q"
  shows "\<exists>r. json_find (\<lambda>it. pch_name it = Null) (\<lambda>it. json_string j (pch_name it) = n)
            (field_items (length p) fs a i) = Inr r \<and>
          (case map_of fs n of None \<Rightarrow> r = Null | Some v \<Rightarrow> r \<noteq> Null \<and> json_string j r = v)"
  using assms
proof (induction fs arbitrary: p)
  case (Cons f fs)
  obtain m v where f: "f = (m, v)" by (cases f)
  have pl: "plain m" "plain v" "clean_fields fs" using Cons.prems(1) by (auto simp: f)
  obtain u where u: "before j @ rest j = p @ cut_field (m, v) @ u"
    using Cons.prems(2) by (simp add: cut_fields_Cons f)
  have str: "json_string j (Off (length p + 1)) = m" "json_string j (Off (length p + length m + 4)) = v"
    using field_strings [OF pl(1,2)] by (simp_all add: json_string_def u)
  show ?case
  proof (cases "m = n")
    case True
    then show ?thesis using str by (simp add: field_item_def f)
  next
    case False
    show ?thesis
    proof (cases "fs = []")
      case True
      then show ?thesis using False str by (simp add: field_item_def f)
    next
      case ne: False
      have "before j @ rest j = (p @ cut_field (m, v) @ '','') @ cut_fields fs @ q"
        using Cons.prems(2) ne by (simp add: cut_fields_Cons f)
      from Cons.IH [OF pl(3) this] show ?thesis
        using False str by (simp add: field_item_def f)
    qed
  qed
qed simp

lemma cut_fields_length: "length (cut_fields fs) = length (json_fields fs)"
  by (induction fs rule: json_fields.induct) (simp_all add: cut_field_def json_field_def)

lemma fields_count: "5 * length fs \<le> length (json_fields fs)"
  by (induction fs rule: json_fields.induct) (simp_all add: json_field_def)

text \<open>What a caller relies on: the message it parsed answers with the first value of a name.\<close>

lemma parse_obj:
  assumes "clean_fields fs" "fs \<noteq> []" "length (json_obj fs) \<le> 4096" "length fs + 2 \<le> fuel"
  shows "\<exists>j. tool_json_parse fuel (Some (json_obj fs @ NUL # t)) = Inr (Some j) \<and>
    (\<forall>n. \<exists>r. tool_json_getValue j n = Inr r \<and>
       (case map_of fs n of None \<Rightarrow> r = Null | Some v \<Rightarrow> r \<noteq> Null \<and> json_string j r = v))"
proof -
  obtain k where k: "fuel = Suc k" "Suc (length fs) \<le> k" using assms(4) by (cases fuel) auto
  define j0 where "j0 = \<lparr> before = ''{'', rest = json_fields fs @ ''}'', st_item = [], cur_item = zero_item,
      pch_cur_array_name = Lit ROOT_ARRAY_NAME, n32_cur_array_index = 0 \<rparr>"
  have few: "length fs \<le> 1024"
    using assms(3) fields_count [of fs] by (simp add: json_obj_def)
  define j where "j = j0\<lparr> before := ''{'' @ cut_fields fs, rest := ''}'',
      st_item := field_items 1 fs (Lit ROOT_ARRAY_NAME) 0 \<rparr>"
  have "json_members k j0 = Inr (Some j)"
    using members_fields [of j0 fs "[]" k] assms(1,2) few k by (simp add: j0_def j_def)
  moreover have "tool_json_parse fuel (Some (json_obj fs @ NUL # t)) = json_members k j0"
    using assms(3) unfolding k(1)
    by (simp add: tool_json_parse_def cstr_obj [OF assms(1)] TOOL_JSON_STR_SIZE_def)
      (simp add: j0_def json_obj_def json_look_def json_scan_def json_inc_def comp_def)
  moreover have "\<exists>r. tool_json_getValue j n = Inr r \<and>
       (case map_of fs n of None \<Rightarrow> r = Null | Some v \<Rightarrow> r \<noteq> Null \<and> json_string j r = v)" for n
    using find_fields [OF assms(1), of j "''{''" "''}''" n "Lit ROOT_ARRAY_NAME" 0]
    by (simp add: tool_json_getValue_def j_def)
  ultimately show ?thesis by auto
qed

section \<open>Properties\<close>

text \<open>C17: The parser is safe and ends on every text that leaves room for its NUL in the buffer, that is,
  of fewer than 4096 characters: it returns (an item table or -1) without reading or writing outside
  the buffer or the table, the recursion is never deeper than three calls per character, and at most a
  quarter as many items as characters result.\<close>

theorem tool_json_parse_safe:
  assumes "length (cstr s) < 4096" "3 * length (cstr s) + 1 \<le> fuel"
  shows "\<exists>r. tool_json_parse fuel (Some s) = Inr r \<and>
      (\<forall>j. r = Some j \<longrightarrow> 4 * length (st_item j) \<le> length (cstr s))"
  using assms by (rule json_parse_total)

theorem tool_json_parse_safe_witness:
  "\<exists>r. tool_json_parse 40 (Some ''{a:[{[['') = Inr r \<and>
      (\<forall>j. r = Some j \<longrightarrow> 4 * length (st_item j) \<le> length (cstr ''{a:[{[[''))"
  by (rule tool_json_parse_safe) (simp_all add: cstr_def)

text \<open>C21: Parsing a message the code base wrote and asking for a name gives the value of the first
  field of that name, and NULL for a name the message does not have.\<close>

theorem tool_json_parse_message:
  assumes "clean_fields fs" "fs \<noteq> []" "length (json_obj fs) \<le> 4096" "length fs + 2 \<le> fuel"
  shows "\<exists>j. tool_json_parse fuel (Some (json_obj fs @ NUL # t)) = Inr (Some j) \<and>
    (\<forall>n. \<exists>r. tool_json_getValue j n = Inr r \<and>
       (case map_of fs n of None \<Rightarrow> r = Null | Some v \<Rightarrow> r \<noteq> Null \<and> json_string j r = v))"
  using assms by (rule parse_obj)

theorem tool_json_parse_message_witness:
  "\<exists>j r. tool_json_parse 9 (Some (json_obj [(''ip'', ''1.2.3.4''), (''port'', ''80'')] @ NUL # [])) = Inr (Some j)
     \<and> tool_json_getValue j ''port'' = Inr r \<and> json_string j r = ''80''"
proof -
  have "length (json_obj [(''ip'', ''1.2.3.4''), (''port'', ''80'')]) \<le> 4096"
    by (simp add: json_obj_def json_field_def)
  from tool_json_parse_message [OF _ _ this, of 9 "[]"] obtain j where
    j: "tool_json_parse 9 (Some (json_obj [(''ip'', ''1.2.3.4''), (''port'', ''80'')] @ NUL # [])) = Inr (Some j)"
      "\<forall>n. \<exists>r. tool_json_getValue j n = Inr r \<and>
       (case map_of [(''ip'', ''1.2.3.4''), (''port'', ''80'')] n of None \<Rightarrow> r = Null
        | Some v \<Rightarrow> r \<noteq> Null \<and> json_string j r = v)"
    by auto
  from spec [OF j(2), of "''port''"] j(1) show ?thesis by auto
qed

text \<open>
  A text of exactly 4096 characters leaves no NUL in the buffer: when no brace is in it, the scan for
  one reads behind the buffer. A longer text is written past the end.
\<close>

theorem tool_json_parse_unterminated:
  assumes "length (cstr s) = 4096" "CHR ''{'' \<notin> set (cstr s)"
  shows "tool_json_parse (Suc fuel) (Some s) = Inl Fault"
proof -
  have "json_skip (\<lambda>c. c = CHR ''{'') b u = None" if "CHR ''{'' \<notin> set u" for b u
    using that by (induction "\<lambda>c. c = CHR ''{''" b u rule: json_skip.induct) auto
  then show ?thesis
    using assms
    by (simp add: tool_json_parse_def json_look_def json_scan_def json_end_def json_size_def TOOL_JSON_STR_SIZE_def)
qed

theorem tool_json_parse_unterminated_witness:
  "tool_json_parse 5 (Some (replicate 4096 (CHR ''x''))) = Inl Fault"
proof -
  have "cstr (replicate n (CHR ''x'')) = replicate n (CHR ''x'')" for n
    by (rule cstr_no_NUL) simp
  then show ?thesis
    using tool_json_parse_unterminated [of "replicate 4096 (CHR ''x'')" 4] by simp
qed

theorem tool_json_parse_overflow:
  assumes "length (cstr s) > 4096"
  shows "tool_json_parse fuel (Some s) = Inl Fault"
  using assms by (simp add: tool_json_parse_def TOOL_JSON_STR_SIZE_def)

theorem tool_json_parse_overflow_witness:
  "tool_json_parse 5 (Some (replicate 5000 (CHR ''x''))) = Inl Fault"
proof -
  have "cstr (replicate n (CHR ''x'')) = replicate n (CHR ''x'')" for n
    by (rule cstr_no_NUL) simp
  then show ?thesis by (intro tool_json_parse_overflow) simp
qed

end
