(* ===== verification/Ptc_Text.thy ===== *)
theory Ptc_Text
  imports Ptc_Qh Tool_Json
begin

text \<open>
  How the encoders and decoders of \<^verbatim>\<open>sab_app/jni/nc/tool_ptc.c\<close> use the two JSON readers: an
  encoder prints one object into the data of a message or a frame and sets the length of its
  head; a decoder asks for one name after the other and stores what it finds. The decoders of
  the code differ in which reader they use, in what they do when a name is missing and in
  what they store, so each is a list of names with the assignments, read by one of the four
  combinators of this theory. The lemmas say what a combinator does on a printed object.
\<close>

section \<open>Text in message and frame data\<close>

definition text_bytes :: "string \<Rightarrow> u8 list" where
  "text_bytes s = map (\<lambda>c. of_nat (of_char c)) s"

definition text_of :: "u8 list \<Rightarrow> string" where
  "text_of bs = map (\<lambda>b. char_of (unat b)) bs"

text \<open>\<^verbatim>\<open>head.len = snprintf (data, sizeof (data), ...)\<close>\<close>

definition msg_print :: "string \<Rightarrow> ptc_msg \<Rightarrow> ptc_msg" where
  "msg_print txt msg =
     (let (stored, len) = c_snprintf (length (data msg)) txt
      in msg\<lparr> head := (head msg)\<lparr> h_len := of_int len \<rparr>,
              data := text_bytes stored @ drop (length stored) (data msg) \<rparr>)"

definition frame_print :: "string \<Rightarrow> ptc_frame \<Rightarrow> ptc_frame" where
  "frame_print txt frame =
     (let (stored, len) = c_snprintf (length (f_data frame)) txt
      in frame\<lparr> f_head := (f_head frame)\<lparr> h_len := of_int len \<rparr>,
                f_data := text_bytes stored @ drop (length stored) (f_data frame) \<rparr>)"

definition msg_text :: "ptc_msg \<Rightarrow> string" where
  "msg_text msg = text_of (data msg)"

definition frame_text :: "ptc_frame \<Rightarrow> string" where
  "frame_text frame = text_of (f_data frame)"

text \<open>\<open>%d\<close> of an \<^verbatim>\<open>int\<close>, an \<^verbatim>\<open>unsigned char\<close> and an \<^verbatim>\<open>unsigned short\<close>, \<open>%lld\<close> of a 64-bit value.\<close>

definition fmt_d :: "u32 \<Rightarrow> string" where "fmt_d w = print_int (sint w)"
definition fmt_b :: "u8 \<Rightarrow> string" where "fmt_b w = print_int (uint w)"
definition fmt_h :: "u16 \<Rightarrow> string" where "fmt_h w = print_int (uint w)"
definition fmt_lld :: "u64 \<Rightarrow> string" where "fmt_lld w = print_int (sint w)"

section \<open>Reading\<close>

text \<open>Every name must be there: the first one missing ends the function with \<open>err\<close>.\<close>

fun read_fields ::
  "int \<Rightarrow> string \<Rightarrow> (string \<times> (int \<Rightarrow> 'a \<Rightarrow> 'a)) list \<Rightarrow> 'a \<Rightarrow> (int \<times> 'a) outcome" where
  "read_fields err s [] c = Inr (0, c)"
| "read_fields err s ((n, f) # fs) c =
     andThen (tool_json2_getNumber s n) (\<lambda>r.
       case r of None \<Rightarrow> Inr (err, c) | Some tmp \<Rightarrow> read_fields err s fs (f tmp c))"

text \<open>A missing name is passed over.\<close>

fun read_any :: "string \<Rightarrow> (string \<times> (int \<Rightarrow> 'a \<Rightarrow> 'a)) list \<Rightarrow> 'a \<Rightarrow> 'a outcome" where
  "read_any s [] c = Inr c"
| "read_any s ((n, f) # fs) c =
     andThen (tool_json2_getNumber s n) (\<lambda>r.
       read_any s fs (case r of None \<Rightarrow> c | Some tmp \<Rightarrow> f tmp c))"

text \<open>The test of \<^verbatim>\<open>"result"\<close> every decoder of a reply starts with.\<close>

definition read_result ::
  "int \<Rightarrow> string \<Rightarrow> 'a \<Rightarrow> (int \<times> 'a) outcome \<Rightarrow> (int \<times> 'a) outcome" where
  "read_result err s c body =
     andThen (tool_json2_getNumber s ''result'') (\<lambda>r.
       case r of
         None \<Rightarrow> Inr (err, c)
       | Some tmp \<Rightarrow> if tmp \<noteq> 0 then Inr (int32 (tmp * (- 1)), c) else body)"

text \<open>The parsed text: \<^verbatim>\<open>index = tool_json_getValue (...); if (index) ...\<close>\<close>

fun json_read :: "tool_json \<Rightarrow> (string \<times> (string \<Rightarrow> 'a \<Rightarrow> 'a)) list \<Rightarrow> 'a \<Rightarrow> 'a outcome" where
  "json_read j [] c = Inr c"
| "json_read j ((n, f) # fs) c =
     andThen (tool_json_getValue j n) (\<lambda>index.
       json_read j fs (if index = Null then c else f (json_string j index) c))"

definition sysf_atoi :: "string \<Rightarrow> u32" where
  "sysf_atoi s = of_int (int32 (c_atoi s))"

text \<open>The recursion bound handed to the parser; 12289 is enough for every text it takes.\<close>

definition JSON_FUEL :: nat where "JSON_FUEL = 3 * TOOL_JSON_STR_SIZE + 1"

section \<open>Printed text\<close>

lemma char_of_nat_zero: "char_of (0 :: nat) = NUL"
  by (simp add: char_of_def)

text \<open>The bytes of a buffer start with a text and its NUL.\<close>

definition says :: "string \<Rightarrow> string \<Rightarrow> bool" where
  "says buf txt \<longleftrightarrow> (\<exists>u. buf = txt @ NUL # u)"

lemma text_of_bytes [simp]: "text_of (text_bytes s) = s"
proof -
  have "char_of (unat (of_nat (of_char c) :: u8)) = c" for c
  proof -
    have "unat (of_nat (of_char c) :: u8) = of_char c mod 256"
      by (simp only: unsigned_of_nat take_bit_eq_mod) simp
    then show ?thesis using nat_of_char_less_256 [of c] by simp
  qed
  then show ?thesis by (simp add: text_of_def text_bytes_def comp_def)
qed

lemma text_of_append: "text_of (a @ b) = text_of a @ text_of b"
  by (simp add: text_of_def)

lemma length_text_bytes [simp]: "length (text_bytes s) = length s"
  by (simp add: text_bytes_def)

lemma says_msg_print:
  assumes "length txt < length (data msg)"
  shows "says (msg_text (msg_print txt msg)) txt"
proof -
  have "take (length (data msg) - 1) txt = txt" using assms by simp
  then show ?thesis
    using assms by (auto simp: says_def msg_text_def msg_print_def c_snprintf_def text_of_append)
qed

lemma says_frame_print:
  assumes "length txt < length (f_data frame)"
  shows "says (frame_text (frame_print txt frame)) txt"
proof -
  have "take (length (f_data frame) - 1) txt = txt" using assms by simp
  then show ?thesis
    using assms by (auto simp: says_def frame_text_def frame_print_def c_snprintf_def text_of_append)
qed

text \<open>A message whose first bytes were transferred and zero-terminated says what was printed.\<close>

lemma says_take:
  assumes "says (text_of a) txt" "take (length txt) b = take (length txt) a" "length txt < length b"
    and "b ! length txt = 0"
  shows "says (text_of b) txt"
proof -
  from assms(1) obtain u where u: "text_of a = txt @ NUL # u" by (auto simp: says_def)
  have "take (length txt) (text_of b) = take (length txt) (text_of a)"
    using assms(2) by (metis text_of_def take_map)
  then have "take (length txt) (text_of b) = txt" by (simp add: u)
  moreover have "text_of b ! length txt = NUL" using assms(3,4) by (simp add: text_of_def char_of_nat_zero)
  moreover have "length txt < length (text_of b)" using assms(3) by (simp add: text_of_def)
  ultimately have "text_of b = txt @ NUL # drop (Suc (length txt)) (text_of b)"
    by (metis append_take_drop_id Cons_nth_drop_Suc)
  then show ?thesis by (auto simp: says_def)
qed

section \<open>Numbers in a field\<close>

text \<open>Evaluation of the readers on printed objects.\<close>

named_theorems json_calc

definition number_text :: "string \<Rightarrow> bool" where
  "number_text v \<longleftrightarrow> (\<exists>i. v = print_int i \<and> - (2 ^ 31) \<le> i \<and> i < 2 ^ 31)"

lemma number_text_small: "0 \<le> i \<Longrightarrow> i < 65536 \<Longrightarrow> number_text (print_int i)"
  unfolding number_text_def by (rule exI [of _ i]) simp

lemma fmt_numbers [json_calc]:
  "number_text (fmt_d w)" "number_text (fmt_b b)" "number_text (fmt_h h)"
proof -
  have "- (2 ^ 31) \<le> sint w" "sint w < 2 ^ 31"
    using sint_greater_eq [of w] sint_less [of w] by simp_all
  then show "number_text (fmt_d w)" by (auto simp: number_text_def fmt_d_def)
  have "uint b < 256" using uint_bounded [of b] by simp
  then have "uint b < 65536" by (rule less_trans) simp
  then show "number_text (fmt_b b)" by (simp add: fmt_b_def number_text_small)
  show "number_text (fmt_h h)" using uint_bounded [of h] by (simp add: fmt_h_def number_text_small)
qed

lemma number_text_atoi:
  assumes "number_text v" shows "int32 (c_atoi v) = c_atoi v"
proof -
  from assms obtain i where "v = print_int i" "- (2 ^ 31) \<le> i" "i < 2 ^ 31" by (auto simp: number_text_def)
  then show ?thesis using c_atoi_print_int [of "[]" i] by (simp add: int32_id)
qed

lemma atoi_fmt [json_calc]:
  "c_atoi (fmt_d w) = sint w" "c_atoi (fmt_b b) = uint b" "c_atoi (fmt_h h) = uint h"
  "c_atoi (fmt_lld l) = sint l"
  using c_atoi_print_int [of "[]"] by (simp_all add: fmt_d_def fmt_b_def fmt_h_def fmt_lld_def)

lemma plain_fmt [json_calc]: "plain (fmt_d w)" "plain (fmt_b b)" "plain (fmt_h h)" "plain (fmt_lld l)"
  by (simp_all add: fmt_d_def fmt_b_def fmt_h_def fmt_lld_def)

text \<open>A printed number is not a name.\<close>

lemma print_int_not_name: "is_digit c \<or> c = CHR ''-'' \<or> print_int i \<noteq> c # s"
proof (cases "print_int i")
  case (Cons d t)
  then show ?thesis using print_int_chars [of d i] by auto
qed simp

lemma fmt_not_name [json_calc]:
  assumes "\<not> is_digit c" "c \<noteq> CHR ''-''"
  shows "fmt_d w \<noteq> c # s" "fmt_b b \<noteq> c # s" "fmt_h h \<noteq> c # s" "fmt_lld l \<noteq> c # s"
  using print_int_not_name [of c _ s] assms by (auto simp: fmt_d_def fmt_b_def fmt_h_def fmt_lld_def)

lemma fmt_length: "length (fmt_d w) \<le> 11" "length (fmt_b b) \<le> 11" "length (fmt_h h) \<le> 11"
  using fmt_numbers(1) [of w] fmt_numbers(2) [of b] fmt_numbers(3) [of h] int32_print_length by (auto simp: number_text_def)

section \<open>What the readers find\<close>

text \<open>A name a search finds as a name: no value in front of it is the name.\<close>

fun findable :: "(string \<times> string) list \<Rightarrow> string \<Rightarrow> bool" where
  "findable [] n = False"
| "findable ((m, w) # fs) n = (m = n \<or> w \<noteq> n \<and> findable fs n)"

lemma findable_first: "findable fs n \<Longrightarrow> first_field fs n (the (map_of fs n))"
  by (induction fs n rule: findable.induct) (auto simp: first_field_Cons)

lemma getNumber_obj:
  assumes "says s (json_obj fs)" "field_name n" "clean_fields fs" "findable fs n"
    and "number_text (the (map_of fs n))"
  shows "tool_json2_getNumber s n = Inr (Some (c_atoi (the (map_of fs n))))"
proof -
  from assms(5) obtain i where i: "the (map_of fs n) = print_int i" "- (2 ^ 31) \<le> i" "i < 2 ^ 31"
    by (auto simp: number_text_def)
  moreover have "first_field fs n (print_int i)" using findable_first [OF assms(4)] i by simp
  moreover have "c_atoi (print_int i) = i" using c_atoi_print_int [of "[]" i] by simp
  ultimately show ?thesis using assms(1,2,3) getNumber_field by (auto simp: says_def)
qed

lemma strstr_no_field:
  assumes "plain n" "n \<noteq> '':''" "n \<noteq> '',''"
    and "clean_fields fs" "\<forall>(m, w) \<in> set fs. m \<noteq> n \<and> w \<noteq> n"
  shows "c_strstr (json_fields fs @ ''}'') (quoted n) = None"
  using assms(4,5)
proof (induction fs)
  case Nil
  then show ?case by (simp add: quoted_def)
next
  case (Cons f fs)
  obtain m w where f: "f = (m, w)" by (cases f)
  have pl: "plain m" "plain w" "m \<noteq> n" "w \<noteq> n" using Cons.prems by (auto simp: f)
  have sep: "plain '':''" "'':'' \<noteq> n" "plain '',''" "'','' \<noteq> n" using assms(2,3) by auto
  note skip = skip_token [OF assms(1) pl(1,3)] skip_token [OF assms(1) pl(2,4)]
    skip_token [OF assms(1) sep(1,2)] skip_token [OF assms(1) sep(3,4)]
  show ?case
  proof (cases "fs = []")
    case True
    have "json_fields (f # fs) @ ''}'' =
        CHR 0x22 # m @ CHR 0x22 # '':'' @ CHR 0x22 # w @ CHR 0x22 # ''}''"
      unfolding f json_fields_Cons by (simp add: True)
    moreover have "c_strstr (CHR 0x22 # ''}'') (quoted n) = None"
      by (cases n; cases "tl n") (auto simp: quoted_def)
    ultimately show ?thesis using skip by (simp only:)
  next
    case False
    then obtain r where r: "json_fields fs = CHR 0x22 # r" using json_fields_quote by blast
    then have "json_fields (f # fs) @ ''}'' =
        CHR 0x22 # m @ CHR 0x22 # '':'' @ CHR 0x22 # w @ CHR 0x22 # '','' @ CHR 0x22 # (r @ ''}'')"
      unfolding f json_fields_Cons using False by simp
    moreover have "c_strstr (CHR 0x22 # r @ ''}'') (quoted n) = None"
      using Cons by (simp add: r)
    ultimately show ?thesis using skip by (simp only:)
  qed
qed

lemma getValue_none:
  assumes "says s (json_obj fs)" "field_name n" "clean_fields fs" "\<forall>(m, w) \<in> set fs. m \<noteq> n \<and> w \<noteq> n"
  shows "tool_json2_getValue s n buf sz = Inr (- 1, buf)"
proof -
  from assms(1) obtain u where s: "s = json_obj fs @ NUL # u" by (auto simp: says_def)
  have n: "plain n" "n \<noteq> '':''" "n \<noteq> '',''" "json2_key n = quoted n"
    using assms(2) key_quoted by (auto simp: field_name_def)
  have "c_strstr (json_obj fs) (quoted n) = c_strstr (json_fields fs @ ''}'') (quoted n)"
    unfolding json_obj_def quoted_def by simp
  then have "c_strstr (json_obj fs) (quoted n) = None"
    using strstr_no_field [OF n(1,2,3) assms(3,4)] by simp
  then show ?thesis
    by (simp add: tool_json2_getValue_def s cstr_obj [OF assms(3)] n(4))
qed

lemma getNumber_none:
  assumes "says s (json_obj fs)" "field_name n" "clean_fields fs" "\<forall>(m, w) \<in> set fs. m \<noteq> n \<and> w \<noteq> n"
  shows "tool_json2_getNumber s n = Inr None"
  using getValue_none [OF assms] by (simp add: tool_json2_getNumber_def)

section \<open>The combinators on printed objects\<close>

text \<open>What a list of names and assignments does when every name has a number.\<close>

definition numbered :: "(string \<times> string) list \<Rightarrow> string \<Rightarrow> bool" where
  "numbered fs n \<longleftrightarrow> field_name n \<and> findable fs n \<and> number_text (the (map_of fs n))"

definition fields_do ::
  "(string \<times> string) list \<Rightarrow> (string \<times> (int \<Rightarrow> 'a \<Rightarrow> 'a)) list \<Rightarrow> 'a \<Rightarrow> 'a" where
  "fields_do fs rs c = fold (\<lambda>(n, f). f (c_atoi (the (map_of fs n)))) rs c"

lemma read_fields_obj:
  assumes "says s (json_obj fs)" "clean_fields fs" "\<forall>(n, f) \<in> set rs. numbered fs n"
  shows "read_fields err s rs c = Inr (0, fields_do fs rs c)"
  using assms(3)
proof (induction rs arbitrary: c)
  case (Cons r rs)
  obtain n f where "r = (n, f)" by (cases r)
  with Cons assms(1,2) show ?case
    by (simp add: fields_do_def numbered_def getNumber_obj [of s fs])
qed (simp add: fields_do_def)

lemma read_any_obj:
  assumes "says s (json_obj fs)" "clean_fields fs" "\<forall>(n, f) \<in> set rs. numbered fs n"
  shows "read_any s rs c = Inr (fields_do fs rs c)"
  using assms(3)
proof (induction rs arbitrary: c)
  case (Cons r rs)
  obtain n f where "r = (n, f)" by (cases r)
  with Cons assms(1,2) show ?case
    by (simp add: fields_do_def numbered_def getNumber_obj [of s fs])
qed (simp add: fields_do_def)

lemma read_result_obj:
  assumes "says s (json_obj ((''result'', fmt_d w) # fs))" "clean_fields fs"
  shows "read_result err s c body = (if w = 0 then body else Inr (int32 (sint w * (- 1)), c))"
proof -
  have "clean_fields ((''result'', fmt_d w) # fs)" using assms(2) plain_fmt(1) [of w] by (simp add: plain_def)
  from getNumber_obj [OF assms(1) _ this, of "''result''"]
  have "tool_json2_getNumber s ''result'' = Inr (Some (sint w))"
    by (simp add: field_name_def plain_def fmt_numbers atoi_fmt)
  moreover have "sint w = 0 \<longleftrightarrow> w = 0" by (metis signed_0 signed_word_eqI)
  ultimately show ?thesis by (simp add: read_result_def)
qed

text \<open>The parser.\<close>

definition strings_do ::
  "(string \<times> string) list \<Rightarrow> (string \<times> (string \<Rightarrow> 'a \<Rightarrow> 'a)) list \<Rightarrow> 'a \<Rightarrow> 'a" where
  "strings_do fs rs c =
     fold (\<lambda>(n, f) c. case map_of fs n of None \<Rightarrow> c | Some v \<Rightarrow> f v c) rs c"

lemma json_read_obj:
  assumes "says s (json_obj fs)" "clean_fields fs" "fs \<noteq> []" "length (json_obj fs) \<le> 4096"
  shows "\<exists>j. tool_json_parse JSON_FUEL (Some s) = Inr (Some j)
      \<and> (\<forall>rs c. json_read j rs c = Inr (strings_do fs rs c))
      \<and> (\<forall>n. \<exists>r. tool_json_getValue j n = Inr r \<and>
           (case map_of fs n of None \<Rightarrow> r = Null | Some v \<Rightarrow> r \<noteq> Null \<and> json_string j r = v))"
proof -
  from assms(1) obtain u where s: "s = json_obj fs @ NUL # u" by (auto simp: says_def)
  have "length fs + 2 \<le> JSON_FUEL"
    using fields_count [of fs] assms(4) by (simp add: JSON_FUEL_def TOOL_JSON_STR_SIZE_def json_obj_def)
  from parse_obj [OF assms(2,3,4) this, of u] obtain j where
    j: "tool_json_parse JSON_FUEL (Some s) = Inr (Some j)"
      "\<forall>n. \<exists>r. tool_json_getValue j n = Inr r \<and>
         (case map_of fs n of None \<Rightarrow> r = Null | Some v \<Rightarrow> r \<noteq> Null \<and> json_string j r = v)"
    unfolding s by blast
  have "json_read j rs c = Inr (strings_do fs rs c)" for rs c
  proof (induction rs arbitrary: c)
    case (Cons r rs)
    obtain n f where r: "r = (n, f)" by (cases r)
    from j(2) obtain p where p: "tool_json_getValue j n = Inr p"
      "case map_of fs n of None \<Rightarrow> p = Null | Some v \<Rightarrow> p \<noteq> Null \<and> json_string j p = v" by blast
    then show ?case
      by (cases "map_of fs n") (simp_all add: r Cons strings_do_def)
  qed (simp add: strings_do_def)
  with j show ?thesis by blast
qed

end
