(* ===== verification/Ptc_Cfg.thy ===== *)
theory Ptc_Cfg
  imports Ptc_Text
begin

text \<open>
  The configuration messages of the QH protocol, \<^verbatim>\<open>sab_app/jni/nc/tool_ptc.c\<close> lines 241 to 480
  and 800 to 1740: addresses, rectangles and nonces as text, and for each command the encoder
  and decoder of the request (\<open>c2d\<close>, client to device) and of the reply (\<open>d2c\<close>). An encoder
  returns its result, always 0, and the message; a decoder its result and what it stored.
  The conversions \<open>%f\<close> of \<^verbatim>\<open>printf\<close> and \<^verbatim>\<open>scanf\<close> are arguments of the functions that use them.
\<close>

section \<open>Commands\<close>

definition PTC_CMD_CFG2_GET_ALARM :: u32 where "PTC_CMD_CFG2_GET_ALARM = 0x00080001"
definition PTC_CMD_CFG2_SET_ALARM :: u32 where "PTC_CMD_CFG2_SET_ALARM = 0x00080002"
definition PTC_CMD_CFG2_GET_WORKMODE :: u32 where "PTC_CMD_CFG2_GET_WORKMODE = 0x00080003"
definition PTC_CMD_CFG2_SET_WORKMODE :: u32 where "PTC_CMD_CFG2_SET_WORKMODE = 0x00080004"
definition PTC_CMD_CFG2_GET_MOBILE :: u32 where "PTC_CMD_CFG2_GET_MOBILE = 0x00080005"
definition PTC_CMD_CFG2_SET_MOBILE :: u32 where "PTC_CMD_CFG2_SET_MOBILE = 0x00080006"
definition PTC_CMD_CFG2_GET_WIFI :: u32 where "PTC_CMD_CFG2_GET_WIFI = 0x00080007"
definition PTC_CMD_CFG2_SET_WIFI :: u32 where "PTC_CMD_CFG2_SET_WIFI = 0x00080008"
definition PTC_CMD_CFG2_GET_DEVRECORD :: u32 where "PTC_CMD_CFG2_GET_DEVRECORD = 0x00080009"
definition PTC_CMD_CFG2_SET_DEVRECORD :: u32 where "PTC_CMD_CFG2_SET_DEVRECORD = 0x0008000a"
definition PTC_CMD_CFG2_CTRL_PTZ :: u32 where "PTC_CMD_CFG2_CTRL_PTZ = 0x0008000b"
definition PTC_CMD_CFG2_SYNC_TIME :: u32 where "PTC_CMD_CFG2_SYNC_TIME = 0x0008000c"
definition PTC_CMD_CFG2_GET_STATUS :: u32 where "PTC_CMD_CFG2_GET_STATUS = 0x0008000d"
definition PTC_CMD_CFG2_SET_STATUS :: u32 where "PTC_CMD_CFG2_SET_STATUS = 0x0008000e"
definition PTC_CMD_CFG2_GET_AV :: u32 where "PTC_CMD_CFG2_GET_AV = 0x0008000f"
definition PTC_CMD_CFG2_SET_AV :: u32 where "PTC_CMD_CFG2_SET_AV = 0x00080010"
definition PTC_CMD_SEARCH2_ABILITY :: u32 where "PTC_CMD_SEARCH2_ABILITY = 0x00090001"

definition PTC_OK :: u32 where "PTC_OK = 0"
definition PTC_ERROR_JSON :: u32 where "PTC_ERROR_JSON = 1"
definition PTC_ERROR_NO_ALARM_TYPE :: u32 where "PTC_ERROR_NO_ALARM_TYPE = 3"

text \<open>\<open>{"cmd":"%d", ...}\<close>, \<open>{"result":"%d", ...}\<close>\<close>

definition request :: "u32 \<Rightarrow> (string \<times> string) list \<Rightarrow> string" where
  "request cmd fs = json_obj ((''cmd'', fmt_d cmd) # fs)"

definition reply :: "u32 \<Rightarrow> (string \<times> string) list \<Rightarrow> string" where
  "reply result fs = json_obj ((''result'', fmt_d result) # fs)"

text \<open>\<^verbatim>\<open>strncpy (dst, src, sizeof (dst) - 1)\<close> into a zeroed array of \<open>n\<close> characters.\<close>

definition array_strncpy :: "nat \<Rightarrow> string \<Rightarrow> string" where
  "array_strncpy n src = take (n - 1) (cstr src @ replicate (n - 1) NUL) @ [NUL]"

section \<open>Addresses, nonces and rectangles\<close>

definition fmt_ipv4 :: "u8 list \<Rightarrow> string" where
  "fmt_ipv4 ip = dotted (uint (ip ! 0)) (uint (ip ! 1)) (uint (ip ! 2)) (uint (ip ! 3))"

definition tool_ptc_qh_buildIPv4 :: "u8 list \<Rightarrow> nat \<Rightarrow> string" where
  "tool_ptc_qh_buildIPv4 pch_ip len = fst (c_snprintf len (fmt_ipv4 pch_ip))"

text \<open>Components that were not converted stay 0; -1: the text ended before the first.\<close>

definition tool_ptc_qh_parseIPv4 :: "string \<Rightarrow> int \<times> u8 list" where
  "tool_ptc_qh_parseIPv4 buf =
     (let nums = scan_dots 4 (cstr buf)
      in (if nums = [] \<and> dropWhile is_space (cstr buf) = [] then - 1 else int (length nums),
          map of_int (nums @ replicate (4 - length nums) 0)))"

text \<open>\<open>junk\<close>: what the MD5 context's buffer holds before it is initialised.\<close>

definition tool_ptc_qh_encodeNonce :: "u8 list \<Rightarrow> int \<Rightarrow> string outcome" where
  "tool_ptc_qh_encodeNonce junk nonce =
     (let nonce_str = ''hdcctv7com_'' @ print_int nonce
      in andThen (tool_md5_calc junk (text_bytes nonce_str)) (\<lambda>nonce_byte.
           Inr (tool_str_byte2str nonce_byte)))"

record 'f ptc_point =
  px :: 'f
  py :: 'f

record 'f ptc_rect =
  right_down :: "'f ptc_point"
  left_down :: "'f ptc_point"
  left_up :: "'f ptc_point"
  right_up :: "'f ptc_point"

definition fmt_point :: "('f \<Rightarrow> string) \<Rightarrow> 'f ptc_point \<Rightarrow> string" where
  "fmt_point fmt_f p = ''('' @ fmt_f (px p) @ '','' @ fmt_f (py p) @ '');''"

definition tool_ptc_qh_buildRect :: "('f \<Rightarrow> string) \<Rightarrow> 'f ptc_rect \<Rightarrow> nat \<Rightarrow> string" where
  "tool_ptc_qh_buildRect fmt_f r len =
     fst (c_snprintf len (fmt_point fmt_f (right_down r) @ fmt_point fmt_f (left_down r)
       @ fmt_point fmt_f (left_up r) @ fmt_point fmt_f (right_up r)))"

text \<open>The values converted by \<open>(%f,%f);\<close> repeated.\<close>

fun scan_points :: "(string \<Rightarrow> ('f \<times> string) option) \<Rightarrow> nat \<Rightarrow> string \<Rightarrow> 'f list" where
  "scan_points scan_f 0 s = []"
| "scan_points scan_f (Suc n) s =
     (case scan_char (CHR ''('') s of None \<Rightarrow> [] | Some s1 \<Rightarrow>
     (case scan_f s1 of None \<Rightarrow> [] | Some (x, s2) \<Rightarrow> x #
     (case scan_char (CHR '','') s2 of None \<Rightarrow> [] | Some s3 \<Rightarrow>
     (case scan_f s3 of None \<Rightarrow> [] | Some (y, s4) \<Rightarrow> y #
     (case scan_char (CHR '')'') s4 of None \<Rightarrow> [] | Some s5 \<Rightarrow>
     (case scan_char (CHR '';'') s5 of None \<Rightarrow> [] | Some s6 \<Rightarrow> scan_points scan_f n s6))))))"

definition rect_list :: "'f ptc_rect \<Rightarrow> 'f list" where
  "rect_list r = [px (right_down r), py (right_down r), px (left_down r), py (left_down r),
     px (left_up r), py (left_up r), px (right_up r), py (right_up r)]"

definition rect_put :: "'f list \<Rightarrow> 'f ptc_rect \<Rightarrow> 'f ptc_rect" where
  "rect_put xs r =
     (let c = xs @ drop (length xs) (rect_list r)
      in \<lparr> right_down = \<lparr> px = c ! 0, py = c ! 1 \<rparr>, left_down = \<lparr> px = c ! 2, py = c ! 3 \<rparr>,
           left_up = \<lparr> px = c ! 4, py = c ! 5 \<rparr>, right_up = \<lparr> px = c ! 6, py = c ! 7 \<rparr> \<rparr>)"

definition tool_ptc_qh_parseRect ::
  "(string \<Rightarrow> ('f \<times> string) option) \<Rightarrow> 'f ptc_rect \<Rightarrow> string \<Rightarrow> int \<times> 'f ptc_rect" where
  "tool_ptc_qh_parseRect scan_f r buf =
     (let s = cstr buf; xs = scan_points scan_f 4 s
      in (if xs = [] \<and> (s = [] \<or> hd s = CHR ''('' \<and> dropWhile is_space (tl s) = []) then - 1
          else int (length xs),
          rect_put xs r))"

section \<open>PTZ and time\<close>

definition tool_ptc_qh_c2d_encode_ctrlPtz ::
  "ptc_msg \<Rightarrow> u32 \<Rightarrow> u32 \<Rightarrow> u32 \<Rightarrow> int \<times> ptc_msg" where
  "tool_ptc_qh_c2d_encode_ctrlPtz msg channel ptz param =
     (0, msg_print (request PTC_CMD_CFG2_CTRL_PTZ
       [(''channel'', fmt_d channel), (''ptz'', fmt_d ptz), (''param'', fmt_d param)]) msg)"

definition tool_ptc_qh_c2d_decode_ctrlPtz :: "ptc_msg \<Rightarrow> (int \<times> u32 \<times> u32 \<times> u32) outcome" where
  "tool_ptc_qh_c2d_decode_ctrlPtz msg =
     andThen (read_any (msg_text msg)
       [(''channel'', \<lambda>tmp (channel, ptz, param). (of_int tmp, ptz, param)),
        (''ptz'', \<lambda>tmp (channel, ptz, param). (channel, of_int tmp, param)),
        (''param'', \<lambda>tmp (channel, ptz, param). (channel, ptz, of_int tmp))] (0, 0, 0))
     (\<lambda>r. Inr (0, r))"

definition tool_ptc_qh_c2d_encode_syncTime ::
  "ptc_msg \<Rightarrow> u32 \<Rightarrow> u32 \<Rightarrow> u32 \<Rightarrow> int \<times> ptc_msg" where
  "tool_ptc_qh_c2d_encode_syncTime msg utc_sec zone dst_hour =
     (0, msg_print (request PTC_CMD_CFG2_SYNC_TIME
       [(''utc_sec'', fmt_d utc_sec), (''zone'', fmt_d zone), (''dst_hour'', fmt_d dst_hour)]) msg)"

definition tool_ptc_qh_c2d_decode_syncTime :: "ptc_msg \<Rightarrow> (int \<times> u32 \<times> u32 \<times> u32) outcome" where
  "tool_ptc_qh_c2d_decode_syncTime msg =
     andThen (read_any (msg_text msg)
       [(''utc_sec'', \<lambda>tmp (utc_sec, zone, dst_hour). (of_int tmp, zone, dst_hour)),
        (''zone'', \<lambda>tmp (utc_sec, zone, dst_hour). (utc_sec, of_int tmp, dst_hour)),
        (''dst_hour'', \<lambda>tmp (utc_sec, zone, dst_hour). (utc_sec, zone, of_int tmp))] (0, 0, 0))
     (\<lambda>r. Inr (0, r))"

section \<open>Ability\<close>

text \<open>The fields the functions use; the others are only zeroed.\<close>

record ptc_cfg_ability =
  base_device_type :: u32
  base_video_input_num :: u8
  base_audio_input_num :: u8
  base_alarm_input_num :: u8
  base_alarm_output_num :: u8
  base_dev_id :: string
  audio_enable :: u8
  audio_sample_rate :: u8
  audio_bit_width :: u8
  audio_encode_type :: u8
  audio_frame_size :: u32
  video_input_num :: u8
  audio_input_num :: u8
  alarm_input_num :: u8
  alarm_output_num :: u8

definition ability_zero :: ptc_cfg_ability where
  "ability_zero = \<lparr> base_device_type = 0, base_video_input_num = 0, base_audio_input_num = 0,
     base_alarm_input_num = 0, base_alarm_output_num = 0, base_dev_id = replicate 64 NUL,
     audio_enable = 0, audio_sample_rate = 0, audio_bit_width = 0, audio_encode_type = 0,
     audio_frame_size = 0, video_input_num = 0, audio_input_num = 0, alarm_input_num = 0,
     alarm_output_num = 0 \<rparr>"

definition tool_ptc_qh_c2d_encode_getAbility :: "ptc_frame \<Rightarrow> int \<times> ptc_frame" where
  "tool_ptc_qh_c2d_encode_getAbility frame = (0, frame_print (request PTC_CMD_SEARCH2_ABILITY []) frame)"

definition tool_ptc_qh_c2d_decode_getAbility :: "ptc_frame \<Rightarrow> int" where
  "tool_ptc_qh_c2d_decode_getAbility frame = 0"

definition ability_fields :: "ptc_cfg_ability \<Rightarrow> (string \<times> string) list" where
  "ability_fields a =
     [(''base.device_type'', fmt_d (base_device_type a)),
      (''base.video_input_num'', fmt_b (base_video_input_num a)),
      (''base.audio_input_num'', fmt_b (base_audio_input_num a)),
      (''base.alarm_input_num'', fmt_b (base_alarm_input_num a)),
      (''base.alarm_output_num'', fmt_b (base_alarm_output_num a)),
      (''base.dev_id'', cstr (base_dev_id a)),
      (''audio_ability.enable'', fmt_b (audio_enable a)),
      (''audio_ability.sample_rate'', fmt_b (audio_sample_rate a)),
      (''audio_ability.bit_width'', fmt_b (audio_bit_width a)),
      (''audio_ability.encode_type'', fmt_b (audio_encode_type a)),
      (''audio_ability.frame_size'', fmt_d (audio_frame_size a))]"

definition tool_ptc_qh_d2c_encode_getAbility :: "ptc_frame \<Rightarrow> ptc_cfg_ability \<Rightarrow> int \<times> ptc_frame" where
  "tool_ptc_qh_d2c_encode_getAbility frame a = (0, frame_print (reply PTC_OK (ability_fields a)) frame)"

definition ability_reads1 :: "(string \<times> (int \<Rightarrow> ptc_cfg_ability \<Rightarrow> ptc_cfg_ability)) list" where
  "ability_reads1 =
     [(''base.device_type'', \<lambda>tmp. base_device_type_update (\<lambda>_. of_int tmp)),
      (''base.video_input_num'', \<lambda>tmp. base_video_input_num_update (\<lambda>_. of_int tmp)),
      (''base.audio_input_num'', \<lambda>tmp. base_audio_input_num_update (\<lambda>_. of_int tmp)),
      (''base.alarm_input_num'', \<lambda>tmp. base_alarm_input_num_update (\<lambda>_. of_int tmp)),
      (''base.alarm_output_num'', \<lambda>tmp. base_alarm_output_num_update (\<lambda>_. of_int tmp))]"

definition ability_reads2 :: "(string \<times> (int \<Rightarrow> ptc_cfg_ability \<Rightarrow> ptc_cfg_ability)) list" where
  "ability_reads2 =
     [(''audio_ability.enable'', \<lambda>tmp. audio_enable_update (\<lambda>_. of_int tmp)),
      (''audio_ability.sample_rate'', \<lambda>tmp. audio_sample_rate_update (\<lambda>_. of_int tmp)),
      (''audio_ability.bit_width'', \<lambda>tmp. audio_bit_width_update (\<lambda>_. of_int tmp)),
      (''audio_ability.encode_type'', \<lambda>tmp. audio_encode_type_update (\<lambda>_. of_int tmp)),
      (''audio_ability.frame_size'', \<lambda>tmp. audio_frame_size_update (\<lambda>_. of_int tmp))]"

definition tool_ptc_qh_d2c_decode_getAbility ::
  "ptc_frame \<Rightarrow> ptc_cfg_ability \<Rightarrow> (int \<times> ptc_cfg_ability) outcome" where
  "tool_ptc_qh_d2c_decode_getAbility frame a =
     (let s = frame_text frame
      in read_result (- 8) s a
        (andThen (read_fields (- 8) s ability_reads1 ability_zero) (\<lambda>(ret, a).
         if ret < 0 then Inr (ret, a)
         else andThen (tool_json2_getValue s ''base.dev_id'' (base_dev_id a) 64) (\<lambda>(ret, buf).
         let a = a\<lparr> base_dev_id := buf \<rparr>
         in if ret < 0 then Inr (- 8, a)
         else andThen (read_fields (- 8) s ability_reads2 a) (\<lambda>(ret, a).
         if ret < 0 then Inr (ret, a)
         else Inr (0, a\<lparr> video_input_num := base_video_input_num a,
           audio_input_num := base_audio_input_num a, alarm_input_num := base_alarm_input_num a,
           alarm_output_num := base_alarm_output_num a \<rparr>))))))"

section \<open>Status\<close>

text \<open>Only \<open>io_out\<close> is transferred; a decoder zeroes the rest.\<close>

record ptc_cfg_status =
  io_out :: u64

definition tool_ptc_qh_c2d_encode_getStatus :: "ptc_msg \<Rightarrow> int \<times> ptc_msg" where
  "tool_ptc_qh_c2d_encode_getStatus msg = (0, msg_print (request PTC_CMD_CFG2_GET_STATUS []) msg)"

definition tool_ptc_qh_c2d_decode_getStatus :: "ptc_msg \<Rightarrow> int" where
  "tool_ptc_qh_c2d_decode_getStatus msg = 0"

definition tool_ptc_qh_d2c_encode_getStatus :: "ptc_msg \<Rightarrow> ptc_cfg_status \<Rightarrow> int \<times> ptc_msg" where
  "tool_ptc_qh_d2c_encode_getStatus msg c = (0, msg_print (reply PTC_OK [(''io_out'', fmt_lld (io_out c))]) msg)"

definition tool_ptc_qh_d2c_decode_getStatus ::
  "ptc_msg \<Rightarrow> ptc_cfg_status \<Rightarrow> (int \<times> ptc_cfg_status) outcome" where
  "tool_ptc_qh_d2c_decode_getStatus msg c =
     read_result (- 8) (msg_text msg) c
       (read_fields (- 8) (msg_text msg) [(''io_out'', \<lambda>tmp c. \<lparr> io_out = of_int tmp \<rparr>)] c)"

definition tool_ptc_qh_c2d_encode_setStatus :: "ptc_msg \<Rightarrow> ptc_cfg_status \<Rightarrow> int \<times> ptc_msg" where
  "tool_ptc_qh_c2d_encode_setStatus msg c =
     (0, msg_print (request PTC_CMD_CFG2_SET_STATUS [(''io_out'', fmt_lld (io_out c))]) msg)"

definition tool_ptc_qh_c2d_decode_setStatus :: "ptc_msg \<Rightarrow> (int \<times> ptc_cfg_status) outcome" where
  "tool_ptc_qh_c2d_decode_setStatus msg =
     andThen (read_any (msg_text msg) [(''io_out'', \<lambda>tmp c. c\<lparr> io_out := of_int tmp \<rparr>)] \<lparr> io_out = 0 \<rparr>)
       (\<lambda>c. Inr (0, c))"

text \<open>The replies that only carry the result.\<close>

definition encode_done :: "ptc_msg \<Rightarrow> int \<times> ptc_msg" where
  "encode_done msg = (0, msg_print (reply PTC_OK []) msg)"

definition decode_done :: "int \<Rightarrow> ptc_msg \<Rightarrow> int outcome" where
  "decode_done err msg =
     andThen (read_result err (msg_text msg) () (Inr (0, ()))) (\<lambda>(ret, _). Inr ret)"

definition tool_ptc_qh_d2c_encode_setStatus :: "ptc_msg \<Rightarrow> int \<times> ptc_msg" where
  "tool_ptc_qh_d2c_encode_setStatus = encode_done"

definition tool_ptc_qh_d2c_decode_setStatus :: "ptc_msg \<Rightarrow> int outcome" where
  "tool_ptc_qh_d2c_decode_setStatus = decode_done (- 8)"

section \<open>Alarms\<close>

record 'f ptc_cfg_alarm =
  alarm_enable :: u32
  alarm_rect :: "'f ptc_rect"
  alarm_drt :: u32

definition zero_rect :: "'f \<Rightarrow> 'f ptc_rect" where
  "zero_rect z = (let p = \<lparr> px = z, py = z \<rparr>
     in \<lparr> right_down = p, left_down = p, left_up = p, right_up = p \<rparr>)"

definition alarm_zero :: "'f \<Rightarrow> 'f ptc_cfg_alarm" where
  "alarm_zero z = \<lparr> alarm_enable = 0, alarm_rect = zero_rect z, alarm_drt = 0 \<rparr>"

definition tool_ptc_qh_c2d_encode_getAlarm :: "ptc_msg \<Rightarrow> u32 \<Rightarrow> int \<times> ptc_msg" where
  "tool_ptc_qh_c2d_encode_getAlarm msg alarm_type =
     (0, msg_print (request PTC_CMD_CFG2_GET_ALARM [(''alarm_type'', fmt_d alarm_type)]) msg)"

text \<open>Requests that cannot be read are answered in the same message.\<close>

definition tool_ptc_qh_c2d_decode_getAlarm ::
  "ptc_msg \<Rightarrow> u32 \<Rightarrow> (int \<times> ptc_msg \<times> u32) outcome" where
  "tool_ptc_qh_c2d_decode_getAlarm msg alarm_type =
     andThen (tool_json_parse JSON_FUEL (Some (msg_text msg))) (\<lambda>p.
       case p of
         None \<Rightarrow> Inr (uint PTC_ERROR_JSON, msg_print (reply PTC_ERROR_JSON []) msg, alarm_type)
       | Some st_json \<Rightarrow>
           andThen (tool_json_getValue st_json ''alarm_type'') (\<lambda>index.
             if index = Null
             then Inr (uint PTC_ERROR_JSON, msg_print (reply PTC_ERROR_NO_ALARM_TYPE []) msg, alarm_type)
             else Inr (0, msg, sysf_atoi (json_string st_json index))))"

definition tool_ptc_qh_d2c_encode_getAlarm ::
  "('f \<Rightarrow> string) \<Rightarrow> ptc_msg \<Rightarrow> 'f ptc_cfg_alarm \<Rightarrow> int \<times> ptc_msg" where
  "tool_ptc_qh_d2c_encode_getAlarm fmt_f msg a =
     (0, msg_print (reply PTC_OK
       [(''enable'', fmt_d (alarm_enable a)),
        (''rect'', cstr (tool_ptc_qh_buildRect fmt_f (alarm_rect a) 256))]) msg)"

definition alarm_reads ::
  "(string \<Rightarrow> ('f \<times> string) option) \<Rightarrow> (string \<times> (string \<Rightarrow> 'f ptc_cfg_alarm \<Rightarrow> 'f ptc_cfg_alarm)) list" where
  "alarm_reads scan_f =
     [(''enable'', \<lambda>index. alarm_enable_update (\<lambda>_. sysf_atoi index)),
      (''rect'', \<lambda>index. alarm_rect_update (\<lambda>r. snd (tool_ptc_qh_parseRect scan_f r index)))]"

definition tool_ptc_qh_d2c_decode_getAlarm ::
  "(string \<Rightarrow> ('f \<times> string) option) \<Rightarrow> 'f \<Rightarrow> ptc_msg \<Rightarrow> 'f ptc_cfg_alarm \<Rightarrow> (int \<times> 'f ptc_cfg_alarm) outcome" where
  "tool_ptc_qh_d2c_decode_getAlarm scan_f z msg a =
     read_result (- 8) (msg_text msg) a
       (andThen (tool_json_parse JSON_FUEL (Some (msg_text msg))) (\<lambda>p.
          case p of
            None \<Rightarrow> Inr (- 8, a)
          | Some st_json \<Rightarrow>
              andThen (json_read st_json
                (alarm_reads scan_f @ [(''drt'', \<lambda>index. alarm_drt_update (\<lambda>_. sysf_atoi index))])
                (alarm_zero z)) (\<lambda>a. Inr (0, a))))"

definition tool_ptc_qh_c2d_encode_setAlarm ::
  "('f \<Rightarrow> string) \<Rightarrow> ptc_msg \<Rightarrow> u32 \<Rightarrow> 'f ptc_cfg_alarm \<Rightarrow> int \<times> ptc_msg" where
  "tool_ptc_qh_c2d_encode_setAlarm fmt_f msg alarm_type a =
     (0, msg_print (request PTC_CMD_CFG2_SET_ALARM
       [(''alarm_type'', fmt_d alarm_type), (''enable'', fmt_d (alarm_enable a)),
        (''rect'', cstr (tool_ptc_qh_buildRect fmt_f (alarm_rect a) 256)),
        (''drt'', fmt_d (alarm_drt a))]) msg)"

definition tool_ptc_qh_c2d_decode_setAlarm ::
  "(string \<Rightarrow> ('f \<times> string) option) \<Rightarrow> 'f \<Rightarrow> ptc_msg \<Rightarrow> u32 \<Rightarrow> 'f ptc_cfg_alarm
     \<Rightarrow> (int \<times> ptc_msg \<times> u32 \<times> 'f ptc_cfg_alarm) outcome" where
  "tool_ptc_qh_c2d_decode_setAlarm scan_f z msg alarm_type a =
     andThen (tool_json_parse JSON_FUEL (Some (msg_text msg))) (\<lambda>p.
       case p of
         None \<Rightarrow> Inr (uint PTC_ERROR_JSON, msg_print (reply PTC_ERROR_JSON []) msg, alarm_type, a)
       | Some st_json \<Rightarrow>
           andThen (tool_json_getValue st_json ''alarm_type'') (\<lambda>index.
             if index = Null
             then Inr (uint PTC_ERROR_JSON, msg_print (reply PTC_ERROR_NO_ALARM_TYPE []) msg, alarm_type, a)
             else andThen (json_read st_json (alarm_reads scan_f) (alarm_zero z)) (\<lambda>a.
                    Inr (0, msg, sysf_atoi (json_string st_json index), a))))"

definition tool_ptc_qh_d2c_encode_setAlarm :: "ptc_msg \<Rightarrow> int \<times> ptc_msg" where
  "tool_ptc_qh_d2c_encode_setAlarm = encode_done"

definition tool_ptc_qh_d2c_decode_setAlarm :: "ptc_msg \<Rightarrow> int outcome" where
  "tool_ptc_qh_d2c_decode_setAlarm = decode_done (- 8)"

section \<open>Work mode\<close>

record ptc_cfg_workMode =
  work_mode :: u32

definition tool_ptc_qh_c2d_encode_getWorkMode :: "ptc_msg \<Rightarrow> int \<times> ptc_msg" where
  "tool_ptc_qh_c2d_encode_getWorkMode msg = (0, msg_print (request PTC_CMD_CFG2_GET_WORKMODE []) msg)"

definition tool_ptc_qh_c2d_decode_getWorkMode :: "ptc_msg \<Rightarrow> int" where
  "tool_ptc_qh_c2d_decode_getWorkMode msg = 0"

definition tool_ptc_qh_d2c_encode_getWorkMode :: "ptc_msg \<Rightarrow> ptc_cfg_workMode \<Rightarrow> int \<times> ptc_msg" where
  "tool_ptc_qh_d2c_encode_getWorkMode msg c = (0, msg_print (reply PTC_OK [(''mode'', fmt_d (work_mode c))]) msg)"

definition tool_ptc_qh_d2c_decode_getWorkMode ::
  "ptc_msg \<Rightarrow> ptc_cfg_workMode \<Rightarrow> (int \<times> ptc_cfg_workMode) outcome" where
  "tool_ptc_qh_d2c_decode_getWorkMode msg c =
     read_result (- 8) (msg_text msg) c
       (read_fields (- 8) (msg_text msg) [(''mode'', \<lambda>tmp c. c\<lparr> work_mode := of_int tmp \<rparr>)] \<lparr> work_mode = 0 \<rparr>)"

definition tool_ptc_qh_c2d_encode_setWorkMode :: "ptc_msg \<Rightarrow> ptc_cfg_workMode \<Rightarrow> int \<times> ptc_msg" where
  "tool_ptc_qh_c2d_encode_setWorkMode msg c =
     (0, msg_print (request PTC_CMD_CFG2_SET_WORKMODE [(''mode'', fmt_d (work_mode c))]) msg)"

definition tool_ptc_qh_c2d_decode_setWorkMode ::
  "ptc_msg \<Rightarrow> ptc_cfg_workMode \<Rightarrow> (int \<times> ptc_msg \<times> ptc_cfg_workMode) outcome" where
  "tool_ptc_qh_c2d_decode_setWorkMode msg c =
     andThen (tool_json_parse JSON_FUEL (Some (msg_text msg))) (\<lambda>p.
       case p of
         None \<Rightarrow> Inr (uint PTC_ERROR_JSON, msg_print (reply PTC_ERROR_JSON []) msg, c)
       | Some st_json \<Rightarrow>
           andThen (json_read st_json [(''mode'', \<lambda>index c. c\<lparr> work_mode := sysf_atoi index \<rparr>)]
             \<lparr> work_mode = 0 \<rparr>) (\<lambda>c. Inr (0, msg, c)))"

definition tool_ptc_qh_d2c_encode_setWorkMode :: "ptc_msg \<Rightarrow> int \<times> ptc_msg" where
  "tool_ptc_qh_d2c_encode_setWorkMode = encode_done"

definition tool_ptc_qh_d2c_decode_setWorkMode :: "ptc_msg \<Rightarrow> int outcome" where
  "tool_ptc_qh_d2c_decode_setWorkMode = decode_done (- 8)"

section \<open>Mobile network\<close>

record ptc_cfg_mobile =
  enable_3g :: u32
  status_3g :: u32

definition mobile_fields :: "ptc_cfg_mobile \<Rightarrow> (string \<times> string) list" where
  "mobile_fields c = [(''enable_3g'', fmt_d (enable_3g c)), (''status_3g'', fmt_d (status_3g c))]"

definition tool_ptc_qh_c2d_encode_getMobile :: "ptc_msg \<Rightarrow> int \<times> ptc_msg" where
  "tool_ptc_qh_c2d_encode_getMobile msg = (0, msg_print (request PTC_CMD_CFG2_GET_MOBILE []) msg)"

definition tool_ptc_qh_c2d_decode_getMobile :: "ptc_msg \<Rightarrow> int" where
  "tool_ptc_qh_c2d_decode_getMobile msg = 0"

definition tool_ptc_qh_d2c_encode_getMobile :: "ptc_msg \<Rightarrow> ptc_cfg_mobile \<Rightarrow> int \<times> ptc_msg" where
  "tool_ptc_qh_d2c_encode_getMobile msg c = (0, msg_print (reply PTC_OK (mobile_fields c)) msg)"

definition tool_ptc_qh_d2c_decode_getMobile ::
  "ptc_msg \<Rightarrow> ptc_cfg_mobile \<Rightarrow> (int \<times> ptc_cfg_mobile) outcome" where
  "tool_ptc_qh_d2c_decode_getMobile msg c =
     read_result (- 8) (msg_text msg) c
       (read_fields (- 8) (msg_text msg)
         [(''enable_3g'', \<lambda>tmp c. c\<lparr> enable_3g := of_int tmp \<rparr>),
          (''status_3g'', \<lambda>tmp c. c\<lparr> status_3g := of_int tmp \<rparr>)] \<lparr> enable_3g = 0, status_3g = 0 \<rparr>)"

definition tool_ptc_qh_c2d_encode_setMobile :: "ptc_msg \<Rightarrow> ptc_cfg_mobile \<Rightarrow> int \<times> ptc_msg" where
  "tool_ptc_qh_c2d_encode_setMobile msg c =
     (0, msg_print (request PTC_CMD_CFG2_SET_MOBILE (mobile_fields c)) msg)"

text \<open>The decoders that read the parsed text and fail with -8.\<close>

definition parsed ::
  "ptc_msg \<Rightarrow> 'a \<Rightarrow> (tool_json \<Rightarrow> (int \<times> 'a) outcome) \<Rightarrow> (int \<times> 'a) outcome" where
  "parsed msg c k =
     andThen (tool_json_parse JSON_FUEL (Some (msg_text msg))) (\<lambda>p.
       case p of None \<Rightarrow> Inr (- 8, c) | Some st_json \<Rightarrow> k st_json)"

definition tool_ptc_qh_c2d_decode_setMobile ::
  "ptc_msg \<Rightarrow> ptc_cfg_mobile \<Rightarrow> (int \<times> ptc_cfg_mobile) outcome" where
  "tool_ptc_qh_c2d_decode_setMobile msg c =
     parsed msg c (\<lambda>st_json. andThen (json_read st_json
       [(''enable_3g'', \<lambda>index c. c\<lparr> enable_3g := sysf_atoi index \<rparr>),
        (''status_3g'', \<lambda>index c. c\<lparr> status_3g := sysf_atoi index \<rparr>)] \<lparr> enable_3g = 0, status_3g = 0 \<rparr>)
       (\<lambda>c. Inr (0, c)))"

definition tool_ptc_qh_d2c_encode_setMobile :: "ptc_msg \<Rightarrow> int \<times> ptc_msg" where
  "tool_ptc_qh_d2c_encode_setMobile = encode_done"

definition tool_ptc_qh_d2c_decode_setMobile :: "ptc_msg \<Rightarrow> int outcome" where
  "tool_ptc_qh_d2c_decode_setMobile = decode_done (- 8)"

section \<open>WiFi\<close>

record ptc_cfg_wifi =
  wifi_mode :: u32
  client_ssid :: string
  client_pswd :: string
  client_level :: u32
  client_dhcp :: u32
  client_ip :: "u8 list"
  client_mask :: "u8 list"
  client_gate :: "u8 list"
  client_dns1 :: "u8 list"
  client_dns2 :: "u8 list"
  ap_ssid :: string
  ap_pswd :: string

definition wifi_zero :: ptc_cfg_wifi where
  "wifi_zero = \<lparr> wifi_mode = 0, client_ssid = replicate 64 NUL, client_pswd = replicate 64 NUL,
     client_level = 0, client_dhcp = 0, client_ip = [0, 0, 0, 0], client_mask = [0, 0, 0, 0],
     client_gate = [0, 0, 0, 0], client_dns1 = [0, 0, 0, 0], client_dns2 = [0, 0, 0, 0],
     ap_ssid = replicate 64 NUL, ap_pswd = replicate 64 NUL \<rparr>"

definition wifi_fields :: "ptc_cfg_wifi \<Rightarrow> (string \<times> string) list" where
  "wifi_fields c =
     [(''mode'', fmt_d (wifi_mode c)), (''client_ssid'', cstr (client_ssid c)),
      (''client_pswd'', cstr (client_pswd c)), (''client_level'', fmt_d (client_level c)),
      (''client_dhcp'', fmt_d (client_dhcp c)), (''client_ip'', fmt_ipv4 (client_ip c)),
      (''client_mask'', fmt_ipv4 (client_mask c)), (''client_gate'', fmt_ipv4 (client_gate c)),
      (''client_dns1'', fmt_ipv4 (client_dns1 c)), (''client_dns2'', fmt_ipv4 (client_dns2 c)),
      (''ap_ssid'', cstr (ap_ssid c)), (''ap_pswd'', cstr (ap_pswd c))]"

definition wifi_reads :: "(string \<times> (string \<Rightarrow> ptc_cfg_wifi \<Rightarrow> ptc_cfg_wifi)) list" where
  "wifi_reads =
     [(''mode'', \<lambda>index. wifi_mode_update (\<lambda>_. sysf_atoi index)),
      (''client_ssid'', \<lambda>index. client_ssid_update (\<lambda>_. array_strncpy 64 index)),
      (''client_pswd'', \<lambda>index. client_pswd_update (\<lambda>_. array_strncpy 64 index)),
      (''client_level'', \<lambda>index. client_level_update (\<lambda>_. sysf_atoi index)),
      (''client_dhcp'', \<lambda>index. client_dhcp_update (\<lambda>_. sysf_atoi index)),
      (''client_ip'', \<lambda>index. client_ip_update (\<lambda>_. snd (tool_ptc_qh_parseIPv4 index))),
      (''client_mask'', \<lambda>index. client_mask_update (\<lambda>_. snd (tool_ptc_qh_parseIPv4 index))),
      (''client_gate'', \<lambda>index. client_gate_update (\<lambda>_. snd (tool_ptc_qh_parseIPv4 index))),
      (''client_dns1'', \<lambda>index. client_dns1_update (\<lambda>_. snd (tool_ptc_qh_parseIPv4 index))),
      (''client_dns2'', \<lambda>index. client_dns2_update (\<lambda>_. snd (tool_ptc_qh_parseIPv4 index))),
      (''ap_ssid'', \<lambda>index. ap_ssid_update (\<lambda>_. array_strncpy 64 index)),
      (''ap_pswd'', \<lambda>index. ap_pswd_update (\<lambda>_. array_strncpy 64 index))]"

definition tool_ptc_qh_c2d_encode_getWifi :: "ptc_msg \<Rightarrow> int \<times> ptc_msg" where
  "tool_ptc_qh_c2d_encode_getWifi msg = (0, msg_print (request PTC_CMD_CFG2_GET_WIFI []) msg)"

definition tool_ptc_qh_c2d_decode_getWifi :: "ptc_msg \<Rightarrow> int" where
  "tool_ptc_qh_c2d_decode_getWifi msg = 0"

definition tool_ptc_qh_d2c_encode_getWifi :: "ptc_msg \<Rightarrow> ptc_cfg_wifi \<Rightarrow> int \<times> ptc_msg" where
  "tool_ptc_qh_d2c_encode_getWifi msg c = (0, msg_print (reply PTC_OK (wifi_fields c)) msg)"

text \<open>The parsed text's own result is looked at again: it must start with 0.\<close>

definition parsed_result ::
  "tool_json \<Rightarrow> 'a \<Rightarrow> (int \<times> 'a) outcome \<Rightarrow> (int \<times> 'a) outcome" where
  "parsed_result st_json c body =
     andThen (tool_json_getValue st_json ''result'') (\<lambda>result.
       if result = Null then Inr (- 8, c)
       else if c_strncmp (json_string st_json result) ''0'' 1 \<noteq> 0 then Inr (- 8, c)
       else body)"

definition tool_ptc_qh_d2c_decode_getWifi ::
  "ptc_msg \<Rightarrow> ptc_cfg_wifi \<Rightarrow> (int \<times> ptc_cfg_wifi) outcome" where
  "tool_ptc_qh_d2c_decode_getWifi msg c =
     read_result (- 8) (msg_text msg) c
       (parsed msg c (\<lambda>st_json. parsed_result st_json c
         (andThen (json_read st_json wifi_reads wifi_zero) (\<lambda>c. Inr (0, c)))))"

definition tool_ptc_qh_c2d_encode_setWifi :: "ptc_msg \<Rightarrow> ptc_cfg_wifi \<Rightarrow> int \<times> ptc_msg" where
  "tool_ptc_qh_c2d_encode_setWifi msg c = (0, msg_print (request PTC_CMD_CFG2_SET_WIFI (wifi_fields c)) msg)"

definition tool_ptc_qh_c2d_decode_setWifi ::
  "ptc_msg \<Rightarrow> ptc_cfg_wifi \<Rightarrow> (int \<times> ptc_cfg_wifi) outcome" where
  "tool_ptc_qh_c2d_decode_setWifi msg c =
     parsed msg c (\<lambda>st_json. andThen (json_read st_json wifi_reads wifi_zero) (\<lambda>c. Inr (0, c)))"

definition tool_ptc_qh_d2c_encode_setWifi :: "ptc_msg \<Rightarrow> int \<times> ptc_msg" where
  "tool_ptc_qh_d2c_encode_setWifi = encode_done"

definition tool_ptc_qh_d2c_decode_setWifi :: "ptc_msg \<Rightarrow> int outcome" where
  "tool_ptc_qh_d2c_decode_setWifi = decode_done (- 8)"

section \<open>Recording on the device\<close>

record ptc_cfg_devRecord =
  rec_enable :: u32
  cover_type :: u32
  rec_state :: u32
  total_size :: u32
  left_size :: u32

definition devRecord_zero :: ptc_cfg_devRecord where
  "devRecord_zero = \<lparr> rec_enable = 0, cover_type = 0, rec_state = 0, total_size = 0, left_size = 0 \<rparr>"

definition tool_ptc_qh_c2d_encode_getDevRecord :: "ptc_msg \<Rightarrow> int \<times> ptc_msg" where
  "tool_ptc_qh_c2d_encode_getDevRecord msg = (0, msg_print (request PTC_CMD_CFG2_GET_DEVRECORD []) msg)"

definition tool_ptc_qh_c2d_decode_getDevRecord :: "ptc_msg \<Rightarrow> int" where
  "tool_ptc_qh_c2d_decode_getDevRecord msg = 0"

definition tool_ptc_qh_d2c_encode_getDevRecord :: "ptc_msg \<Rightarrow> ptc_cfg_devRecord \<Rightarrow> int \<times> ptc_msg" where
  "tool_ptc_qh_d2c_encode_getDevRecord msg c =
     (0, msg_print (reply PTC_OK
       [(''enable'', fmt_d (rec_enable c)), (''cover_type'', fmt_d (cover_type c)),
        (''state'', fmt_d (rec_state c)), (''total_size'', fmt_d (total_size c)),
        (''left_size'', fmt_d (left_size c))]) msg)"

definition devRecord_reads :: "(string \<times> (string \<Rightarrow> ptc_cfg_devRecord \<Rightarrow> ptc_cfg_devRecord)) list" where
  "devRecord_reads =
     [(''enable'', \<lambda>index. rec_enable_update (\<lambda>_. sysf_atoi index)),
      (''cover_type'', \<lambda>index. cover_type_update (\<lambda>_. sysf_atoi index))]"

definition tool_ptc_qh_d2c_decode_getDevRecord ::
  "ptc_msg \<Rightarrow> ptc_cfg_devRecord \<Rightarrow> (int \<times> ptc_cfg_devRecord) outcome" where
  "tool_ptc_qh_d2c_decode_getDevRecord msg c =
     read_result (- 8) (msg_text msg) c
       (parsed msg c (\<lambda>st_json. parsed_result st_json c
         (andThen (json_read st_json
            (devRecord_reads @
             [(''state'', \<lambda>index. rec_state_update (\<lambda>_. sysf_atoi index)),
              (''total_size'', \<lambda>index. total_size_update (\<lambda>_. sysf_atoi index)),
              (''left_size'', \<lambda>index. left_size_update (\<lambda>_. sysf_atoi index))]) devRecord_zero)
            (\<lambda>c. Inr (0, c)))))"

definition tool_ptc_qh_c2d_encode_setDevRecord :: "ptc_msg \<Rightarrow> ptc_cfg_devRecord \<Rightarrow> int \<times> ptc_msg" where
  "tool_ptc_qh_c2d_encode_setDevRecord msg c =
     (0, msg_print (request PTC_CMD_CFG2_SET_DEVRECORD
       [(''enable'', fmt_d (rec_enable c)), (''cover_type'', fmt_d (cover_type c))]) msg)"

definition tool_ptc_qh_c2d_decode_setDevRecord ::
  "ptc_msg \<Rightarrow> ptc_cfg_devRecord \<Rightarrow> (int \<times> ptc_cfg_devRecord) outcome" where
  "tool_ptc_qh_c2d_decode_setDevRecord msg c =
     parsed msg c (\<lambda>st_json. andThen (json_read st_json devRecord_reads devRecord_zero) (\<lambda>c. Inr (0, c)))"

definition tool_ptc_qh_d2c_encode_setDevRecord :: "ptc_msg \<Rightarrow> int \<times> ptc_msg" where
  "tool_ptc_qh_d2c_encode_setDevRecord = encode_done"

definition tool_ptc_qh_d2c_decode_setDevRecord :: "ptc_msg \<Rightarrow> int outcome" where
  "tool_ptc_qh_d2c_decode_setDevRecord = decode_done (- 8)"

section \<open>Privacy mask\<close>

record ptc_cfg_av =
  av_mask :: u32

definition tool_ptc_qh_c2d_encode_getAv :: "ptc_msg \<Rightarrow> int \<times> ptc_msg" where
  "tool_ptc_qh_c2d_encode_getAv msg = (0, msg_print (request PTC_CMD_CFG2_GET_AV []) msg)"

definition tool_ptc_qh_c2d_decode_getAv :: "ptc_msg \<Rightarrow> int" where
  "tool_ptc_qh_c2d_decode_getAv msg = 0"

definition tool_ptc_qh_d2c_encode_getAv :: "ptc_msg \<Rightarrow> ptc_cfg_av \<Rightarrow> int \<times> ptc_msg" where
  "tool_ptc_qh_d2c_encode_getAv msg c = (0, msg_print (reply PTC_OK [(''mask'', fmt_d (av_mask c))]) msg)"

definition tool_ptc_qh_d2c_decode_getAv :: "ptc_msg \<Rightarrow> ptc_cfg_av \<Rightarrow> (int \<times> ptc_cfg_av) outcome" where
  "tool_ptc_qh_d2c_decode_getAv msg c =
     read_result (- 1) (msg_text msg) c
       (read_fields (- 1) (msg_text msg) [(''mask'', \<lambda>tmp c. c\<lparr> av_mask := of_int tmp \<rparr>)] c)"

definition tool_ptc_qh_c2d_encode_setAv :: "ptc_msg \<Rightarrow> ptc_cfg_av \<Rightarrow> int \<times> ptc_msg" where
  "tool_ptc_qh_c2d_encode_setAv msg c =
     (0, msg_print (request PTC_CMD_CFG2_SET_AV [(''mask'', fmt_d (av_mask c))]) msg)"

definition tool_ptc_qh_c2d_decode_setAv ::
  "ptc_msg \<Rightarrow> ptc_cfg_av \<Rightarrow> (int \<times> ptc_msg \<times> ptc_cfg_av) outcome" where
  "tool_ptc_qh_c2d_decode_setAv msg c =
     andThen (tool_json2_getNumber (msg_text msg) ''mask'') (\<lambda>r.
       Inr (case r of
              None \<Rightarrow> (uint PTC_ERROR_JSON, msg_print (reply PTC_ERROR_JSON []) msg, c)
            | Some tmp \<Rightarrow> (0, msg, c\<lparr> av_mask := of_int tmp \<rparr>)))"

definition tool_ptc_qh_d2c_encode_setAv :: "ptc_msg \<Rightarrow> int \<times> ptc_msg" where
  "tool_ptc_qh_d2c_encode_setAv = encode_done"

definition tool_ptc_qh_d2c_decode_setAv :: "ptc_msg \<Rightarrow> int outcome" where
  "tool_ptc_qh_d2c_decode_setAv = decode_done (- 1)"

section \<open>Printed requests and replies\<close>

declare read_fields.simps [simp del] read_any.simps [simp del] json_read.simps [simp del]

text \<open>No more than 13 fields of moderate size fit into a message with room to spare.\<close>

definition short_fields :: "(string \<times> string) list \<Rightarrow> bool" where
  "short_fields fs \<longleftrightarrow> length fs \<le> 12 \<and> (\<forall>(n, v) \<in> set fs. length n \<le> 30 \<and> length v \<le> 255)"

lemma json_fields_length:
  "\<forall>(n, v) \<in> set fs. length n \<le> 30 \<and> length v \<le> 255 \<Longrightarrow> length (json_fields fs) \<le> 291 * length fs"
proof (induction fs rule: json_fields.induct)
  case (3 f g fs)
  then show ?case by (cases f) (auto simp: json_field_def)
qed (auto simp: json_field_def)

lemma short_length:
  assumes "short_fields fs" "length n \<le> 30" "length v \<le> 255"
  shows "length (json_obj ((n, v) # fs)) < 4096"
proof -
  have "length (json_fields ((n, v) # fs)) \<le> 291 * length ((n, v) # fs)"
    using assms by (intro json_fields_length) (auto simp: short_fields_def)
  moreover have "length fs \<le> 12" using assms(1) by (simp add: short_fields_def)
  ultimately show ?thesis by (simp add: json_obj_def)
qed

definition msg_buffer :: "ptc_msg \<Rightarrow> bool" where
  "msg_buffer msg \<longleftrightarrow> length (data msg) = PTC_MSG_SIZE"

definition frame_buffer :: "ptc_frame \<Rightarrow> bool" where
  "frame_buffer frame \<longleftrightarrow> length (f_data frame) = PTC_VIDEO_FRAME_SIZE"

lemma fmt_short [json_calc]: "length (fmt_d w) \<le> 255" "length (fmt_b b) \<le> 255" "length (fmt_h h) \<le> 255"
  using fmt_length(1) [of w] fmt_length(2) [of b] fmt_length(3) [of h] by simp_all

lemma says_request:
  assumes "msg_buffer msg" "short_fields fs"
  shows "says (msg_text (msg_print (request cmd fs) msg)) (json_obj ((''cmd'', fmt_d cmd) # fs))"
  unfolding request_def using assms short_length [OF assms(2), of "''cmd''" "fmt_d cmd"]
  by (intro says_msg_print) (simp add: msg_buffer_def PTC_MSG_SIZE_def fmt_short)

lemma says_reply:
  assumes "msg_buffer msg" "short_fields fs"
  shows "says (msg_text (msg_print (reply r fs) msg)) (json_obj ((''result'', fmt_d r) # fs))"
  unfolding reply_def using assms short_length [OF assms(2), of "''result''" "fmt_d r"]
  by (intro says_msg_print) (simp add: msg_buffer_def PTC_MSG_SIZE_def fmt_short)

lemma says_frame_reply:
  assumes "frame_buffer frame" "short_fields fs"
  shows "says (frame_text (frame_print (reply r fs) frame)) (json_obj ((''result'', fmt_d r) # fs))"
  unfolding reply_def using assms short_length [OF assms(2), of "''result''" "fmt_d r"]
  by (intro says_frame_print) (simp add: frame_buffer_def PTC_VIDEO_FRAME_SIZE_def fmt_short)

text \<open>Decoding a reply that says OK continues; the parsers succeed on short texts.\<close>

lemma read_result_ok:
  assumes "says s (json_obj ((''result'', fmt_d PTC_OK) # fs))" "clean_fields fs"
  shows "read_result err s c body = body"
  using read_result_obj [OF assms] by (simp add: PTC_OK_def)

lemma plain_name [json_calc]: "plain ''cmd''" "plain ''result''"
  by (simp_all add: plain_def)

lemma parsed_obj:
  assumes "says (msg_text msg) (json_obj ((n, fmt_d w) # fs))" "short_fields fs" "clean_fields fs"
    and "n = ''cmd'' \<or> n = ''result''"
  shows "\<exists>j. tool_json_parse JSON_FUEL (Some (msg_text msg)) = Inr (Some j)
      \<and> (\<forall>rs c. json_read j rs c = Inr (strings_do ((n, fmt_d w) # fs) rs c))
      \<and> (\<forall>m. \<exists>r. tool_json_getValue j m = Inr r \<and>
           (case map_of ((n, fmt_d w) # fs) m of None \<Rightarrow> r = Null | Some v \<Rightarrow> r \<noteq> Null \<and> json_string j r = v))"
proof (rule json_read_obj [OF assms(1)])
  show "clean_fields ((n, fmt_d w) # fs)" using assms(3,4) by (auto simp: json_calc)
  show "length (json_obj ((n, fmt_d w) # fs)) \<le> 4096"
    using short_length [OF assms(2), of n "fmt_d w"] assms(4) by (auto simp: fmt_short)
qed simp

lemma sysf_atoi_fmt [json_calc]: "sysf_atoi (fmt_d w) = w"
  using number_text_atoi [OF fmt_numbers(1)] by (simp add: sysf_atoi_def atoi_fmt)

lemma parsed_strings:
  fixes rs :: "(string \<times> (string \<Rightarrow> 'a \<Rightarrow> 'a)) list"
  assumes "says (msg_text msg) (json_obj ((n, fmt_d w) # fs))" "short_fields fs" "clean_fields fs"
    and "n = ''cmd'' \<or> n = ''result''"
  shows "parsed msg d (\<lambda>j. andThen (json_read j rs z) (\<lambda>c. Inr (0, c))) =
           Inr (0, strings_do ((n, fmt_d w) # fs) rs z)"
  using parsed_obj [OF assms, where 'a = 'a] by (auto simp: parsed_def)

lemma parsed_result_strings:
  fixes rs :: "(string \<times> (string \<Rightarrow> 'a \<Rightarrow> 'a)) list"
  assumes "says (msg_text msg) (json_obj ((''result'', fmt_d PTC_OK) # fs))" "short_fields fs" "clean_fields fs"
  shows "parsed msg d (\<lambda>j. parsed_result j d (andThen (json_read j rs z) (\<lambda>c. Inr (0, c)))) =
           Inr (0, strings_do ((''result'', fmt_d PTC_OK) # fs) rs z)"
proof -
  from parsed_obj [OF assms, where 'a = 'a] obtain j r where
    j: "tool_json_parse JSON_FUEL (Some (msg_text msg)) = Inr (Some j)"
      "\<forall>rs (c :: 'a). json_read j rs c = Inr (strings_do ((''result'', fmt_d PTC_OK) # fs) rs c)"
      "tool_json_getValue j ''result'' = Inr r" "r \<noteq> Null" "json_string j r = fmt_d PTC_OK" by fastforce
  have "fmt_d PTC_OK = ''0''"
    by (simp add: fmt_d_def PTC_OK_def print_int_def print_nat.simps digit_char_def char_of_def bit_0)
  with j show ?thesis by (simp add: parsed_def parsed_result_def)
qed

lemma numbered_Cons [json_calc]:
  "numbered ((m, w) # fs) n \<longleftrightarrow>
     (if m = n then field_name n \<and> number_text w else w \<noteq> n \<and> numbered fs n)"
  by (auto simp: numbered_def)

lemmas [json_calc] = field_name_def short_fields_def fields_do_def strings_do_def is_digit_def

section \<open>Addresses and rectangles read back\<close>

lemma plain_dotted [json_calc]: "plain (fmt_ipv4 ip)"
  by (simp add: fmt_ipv4_def dotted_def)

lemma length_fmt_ipv4 [json_calc]: "length (fmt_ipv4 ip) \<le> 255"
  using fmt_length(2) [of "ip ! 0"] fmt_length(2) [of "ip ! 1"] fmt_length(2) [of "ip ! 2"]
    fmt_length(2) [of "ip ! 3"]
  by (simp add: fmt_ipv4_def dotted_def fmt_b_def)

lemma list_of_four: "length (ip :: 'a list) = 4 \<Longrightarrow> [ip ! 0, ip ! 1, ip ! 2, ip ! 3] = ip"
  by (rule nth_equalityI) (auto simp: less_Suc_eq eval_nat_numeral)

lemma parseIPv4_fmt [json_calc]:
  assumes "length ip = 4"
  shows "tool_ptc_qh_parseIPv4 (fmt_ipv4 ip) = (4, ip)"
proof -
  have "cstr (fmt_ipv4 ip) = fmt_ipv4 ip" using plain_dotted [of ip] by (simp add: cstr_no_NUL plain_def)
  moreover have "scan_dots 4 (fmt_ipv4 ip) = [uint (ip ! 0), uint (ip ! 1), uint (ip ! 2), uint (ip ! 3)]"
    using scan_dotted [of "[]"] by (simp add: fmt_ipv4_def)
  ultimately show ?thesis
    using list_of_four [OF assms] by (simp add: tool_ptc_qh_parseIPv4_def)
qed

text \<open>A coordinate the \<open>%f\<close> conversions carry: at most 20 characters, read back exactly.\<close>

definition coord_ok :: "('f \<Rightarrow> string) \<Rightarrow> (string \<Rightarrow> ('f \<times> string) option) \<Rightarrow> 'f \<Rightarrow> bool" where
  "coord_ok fmt_f scan_f x \<longleftrightarrow> plain (fmt_f x) \<and> length (fmt_f x) \<le> 20 \<and>
     (\<forall>c \<in> {CHR '','', CHR '')''}. \<forall>s. scan_f (fmt_f x @ c # s) = Some (x, c # s))"

definition rect_ok :: "('f \<Rightarrow> string) \<Rightarrow> (string \<Rightarrow> ('f \<times> string) option) \<Rightarrow> 'f ptc_rect \<Rightarrow> bool" where
  "rect_ok fmt_f scan_f r \<longleftrightarrow> (\<forall>x \<in> set (rect_list r). coord_ok fmt_f scan_f x)"

definition rect_text :: "('f \<Rightarrow> string) \<Rightarrow> 'f ptc_rect \<Rightarrow> string" where
  "rect_text fmt_f r = fmt_point fmt_f (right_down r) @ fmt_point fmt_f (left_down r)
     @ fmt_point fmt_f (left_up r) @ fmt_point fmt_f (right_up r)"

lemma scan_point:
  assumes "coord_ok fmt_f scan_f (px p)" "coord_ok fmt_f scan_f (py p)"
  shows "scan_points scan_f (Suc n) (fmt_point fmt_f p @ s) = px p # py p # scan_points scan_f n s"
  using assms by (simp add: fmt_point_def coord_ok_def scan_char_def)

lemma rect_text_facts:
  assumes "rect_ok fmt_f scan_f r"
  shows "plain (rect_text fmt_f r)" "length (rect_text fmt_f r) \<le> 255"
    and "scan_points scan_f 4 (rect_text fmt_f r) = rect_list r"
proof -
  have ok: "\<And>x. x \<in> set (rect_list r) \<Longrightarrow> coord_ok fmt_f scan_f x" using assms by (simp add: rect_ok_def)
  have c: "coord_ok fmt_f scan_f (px (right_down r))" "coord_ok fmt_f scan_f (py (right_down r))"
    "coord_ok fmt_f scan_f (px (left_down r))" "coord_ok fmt_f scan_f (py (left_down r))"
    "coord_ok fmt_f scan_f (px (left_up r))" "coord_ok fmt_f scan_f (py (left_up r))"
    "coord_ok fmt_f scan_f (px (right_up r))" "coord_ok fmt_f scan_f (py (right_up r))"
    by (auto intro!: ok simp: rect_list_def)
  then show "plain (rect_text fmt_f r)" "length (rect_text fmt_f r) \<le> 255"
    by (simp_all add: coord_ok_def rect_text_def fmt_point_def)
  have "(4 :: nat) = Suc (Suc (Suc (Suc 0)))" by simp
  then show "scan_points scan_f 4 (rect_text fmt_f r) = rect_list r"
    unfolding rect_text_def rect_list_def
    using scan_point [OF c(7,8), of 0 "[]"]
    by (simp only: scan_point c append_Nil2 scan_points.simps(1))
qed

lemma build_rect:
  assumes "rect_ok fmt_f scan_f r"
  shows "cstr (tool_ptc_qh_buildRect fmt_f r 256) = rect_text fmt_f r"
proof -
  have "cstr (rect_text fmt_f r @ [NUL]) = rect_text fmt_f r"
    using rect_text_facts(1) [OF assms] by (intro cstr_append_NUL) (simp add: plain_def)
  then show ?thesis
    using rect_text_facts(2) [OF assms]
    by (simp add: tool_ptc_qh_buildRect_def c_snprintf_def flip: rect_text_def)
qed

lemma parse_rect:
  assumes "rect_ok fmt_f scan_f r"
  shows "snd (tool_ptc_qh_parseRect scan_f q (rect_text fmt_f r)) = r"
proof -
  have "cstr (rect_text fmt_f r) = rect_text fmt_f r"
    using rect_text_facts(1) [OF assms] by (simp add: cstr_no_NUL plain_def)
  then show ?thesis
    using rect_text_facts(3) [OF assms] by (simp add: tool_ptc_qh_parseRect_def Let_def rect_put_def rect_list_def)
qed

section \<open>Character arrays\<close>

text \<open>An array of \<open>n\<close> characters as \<open>memset\<close> and \<open>strncpy\<close> leave it, with text the messages can carry.\<close>

definition char_array :: "nat \<Rightarrow> string \<Rightarrow> bool" where
  "char_array n a \<longleftrightarrow> (\<exists>t. plain t \<and> length t < n \<and> a = t @ replicate (n - length t) NUL)"

lemma char_array_facts:
  assumes "char_array n a"
  shows "plain (cstr a)" "length (cstr a) < n" "array_strncpy n (cstr a) = a"
proof -
  from assms obtain t where t: "plain t" "length t < n" "a = t @ replicate (n - length t) NUL"
    by (auto simp: char_array_def)
  then obtain k where k: "n - length t = Suc k" by (cases "n - length t") auto
  have c: "cstr a = t" using t k by (simp add: cstr_append_NUL plain_def)
  then show "plain (cstr a)" "length (cstr a) < n" using t by simp_all
  have "cstr t = t" using t(1) by (simp add: cstr_no_NUL plain_def)
  moreover have "n = Suc (length t + k)" using k t(2) by simp
  moreover have "replicate k NUL @ [NUL] = replicate (Suc k) NUL" by (simp add: replicate_append_same)
  ultimately show "array_strncpy n (cstr a) = a"
    unfolding array_strncpy_def c using t(3) k by simp
qed

end
