(* ===== verification/Ptc_Search.thy ===== *)
theory Ptc_Search
  imports Ptc_Cfg Tool_Base64
begin

text \<open>
  The searches of the QH protocol in \<^verbatim>\<open>sab_app/jni/nc/tool_ptc.c\<close>: logs, recordings and the days
  that have recordings. A request names a period and a channel; the reply is one object with an
  array of rows, appended to the data of a frame row by row with \<^verbatim>\<open>strcat\<close>. A decoder cuts the
  array into rows of a fixed size and reads each of them. The file information of a recording
  travels as Base64 text and is decoded straight into the array of records, where its closing 0
  does not fit: the byte goes to the record behind it.
\<close>

section \<open>Data\<close>

definition PTC_DATES_SIZE :: nat where "PTC_DATES_SIZE = 1024"
definition PTC_RECORDS_SIZE :: nat where "PTC_RECORDS_SIZE = 1024"
definition PTC_LOGS_SIZE :: nat where "PTC_LOGS_SIZE = 1024"

definition PTC_CMD_SEARCH2_LOGS :: u32 where "PTC_CMD_SEARCH2_LOGS = 0x00090002"
definition PTC_CMD_SEARCH2_RECORDS :: u32 where "PTC_CMD_SEARCH2_RECORDS = 0x00090003"
definition PTC_CMD_SEARCH2_DATES :: u32 where "PTC_CMD_SEARCH2_DATES = 0x00090004"

record ptc_log_v2 =
  log_time :: u32
  log_type :: u8
  log_sub_type :: u8
  log_channel :: u8
  log_ch_type :: u8
  log_sub_type2 :: u16
  log_ip :: "u8 list"
  log_data :: string

record ptc_logs_v2 =
  logs_start_time :: u32
  logs_end_time :: u32
  logs_num :: u32
  log_v2 :: "ptc_log_v2 list"

record ptc_cfg_record =
  rec_start_time :: u32
  rec_end_time :: u32
  rec_size :: u32
  rec_channel :: u8
  rec_type :: u8
  rec_sub_type :: u8
  rec_reserve :: "u8 list"
  rec_file_info :: "u8 list"

record ptc_cfg_records =
  recs_start_time :: u32
  recs_end_time :: u32
  recs_channel :: u64
  recs_type :: u8
  recs_sub_type :: u8
  recs_num :: u32
  recs :: "ptc_cfg_record list"

record ptc_cfg_date =
  date_year :: u32
  date_month :: u32
  date_day :: u32

record ptc_cfg_dates =
  dates_channel :: u64
  dates_type :: u8
  dates_sub_type :: u8
  dates_num :: u32
  dates :: "ptc_cfg_date list"

section \<open>Arrays of rows\<close>

text \<open>
  \<^verbatim>\<open>tool_str_strcat\<close> onto the text in the data of a frame: a fault when the data holds no NUL or
  when the longer text does not fit.
\<close>

definition frame_cat :: "string \<Rightarrow> ptc_frame \<Rightarrow> ptc_frame outcome" where
  "frame_cat src frame =
     (let n = length (cstr (frame_text frame)); bytes = text_bytes (src @ [NUL])
      in if n = length (f_data frame) then Inl Fault
         else andThen (buf_put n bytes (f_data frame)) (\<lambda>d. Inr (frame\<lparr> f_data := d \<rparr>)))"

definition frame_longer :: "int \<Rightarrow> ptc_frame \<Rightarrow> ptc_frame" where
  "frame_longer k frame = frame\<lparr> f_head := (f_head frame)\<lparr> h_len := h_len (f_head frame) + of_int k \<rparr> \<rparr>"

text \<open>The rows, each printed into \<^verbatim>\<open>tmp_buf\<close> of \<open>sz\<close> characters first.\<close>

fun print_rows :: "nat \<Rightarrow> bool \<Rightarrow> string list \<Rightarrow> ptc_frame \<Rightarrow> ptc_frame outcome" where
  "print_rows sz first [] frame = Inr frame"
| "print_rows sz first (row # rows) frame =
     andThen (if first then Inr frame
              else andThen (frame_cat '','' frame) (\<lambda>frame. Inr (frame_longer 1 frame))) (\<lambda>frame.
     (let (tmp_buf, tmp_len) = c_snprintf sz row
      in andThen (frame_cat (cstr tmp_buf) frame) (\<lambda>frame.
         let frame = frame_longer tmp_len frame
         in if unat (h_len (f_head frame)) > PTC_VIDEO_FRAME_SIZE - 1024 then Inr frame
            else print_rows sz False rows frame)))"

definition array_head :: "string \<Rightarrow> u32 \<Rightarrow> string" where
  "array_head name num =
     ''{'' @ json_fields [(''result'', fmt_d PTC_OK), (''num'', fmt_d num)] @ '','' @ quoted name @ '':[''"

definition print_array :: "nat \<Rightarrow> string \<Rightarrow> u32 \<Rightarrow> string list \<Rightarrow> ptc_frame \<Rightarrow> ptc_frame outcome" where
  "print_array sz name num rows frame =
     andThen (print_rows sz True rows (frame_print (array_head name num) frame)) (\<lambda>frame.
     andThen (frame_cat '']}'' frame) (\<lambda>frame. Inr (frame_longer 2 frame)))"

text \<open>
  The first channel of a set of channels: the bits are tried from 0 to 63 with \<^verbatim>\<open>1<<i\<close> of type
  \<^verbatim>\<open>int\<close>. Bit 31 of it is the sign, so the comparison with the 64-bit set extends it; larger
  shifts are undefined.
\<close>

fun first_channel_from :: "nat \<Rightarrow> nat \<Rightarrow> u64 \<Rightarrow> u32 outcome" where
  "first_channel_from i 0 channel = Inr 0"
| "first_channel_from i (Suc k) channel =
     (if i > 31 then Inl Fault
      else if channel AND scast (push_bit i 1 :: u32) \<noteq> 0 then Inr (of_nat i)
      else first_channel_from (Suc i) k channel)"

definition first_channel :: "u64 \<Rightarrow> u32 outcome" where
  "first_channel channel = first_channel_from 0 64 channel"

section \<open>Logs\<close>

definition tool_ptc_qh_c2d_encode_getLogs :: "ptc_frame \<Rightarrow> ptc_logs_v2 \<Rightarrow> int \<times> ptc_frame" where
  "tool_ptc_qh_c2d_encode_getLogs frame l =
     (0, frame_print (request PTC_CMD_SEARCH2_LOGS
       [(''start_time'', fmt_d (logs_start_time l)), (''end_time'', fmt_d (logs_end_time l))]) frame)"

definition tool_ptc_qh_c2d_decode_getLogs :: "ptc_frame \<Rightarrow> ptc_logs_v2 \<Rightarrow> (int \<times> ptc_logs_v2) outcome" where
  "tool_ptc_qh_c2d_decode_getLogs frame l =
     read_fields (- 8) (frame_text frame)
       [(''start_time'', \<lambda>tmp. logs_start_time_update (\<lambda>_. of_int tmp)),
        (''end_time'', \<lambda>tmp. logs_end_time_update (\<lambda>_. of_int tmp))] l"

definition log_fields :: "ptc_log_v2 \<Rightarrow> (string \<times> string) list" where
  "log_fields l =
     [(''time'', fmt_d (log_time l)), (''type'', fmt_b (log_type l)), (''sub_type'', fmt_b (log_sub_type l)),
      (''channel'', fmt_b (log_channel l)), (''ch_type'', fmt_b (log_ch_type l)),
      (''sub_type2'', fmt_h (log_sub_type2 l)), (''ip'', fmt_ipv4 (log_ip l)), (''data'', cstr (log_data l))]"

definition tool_ptc_qh_d2c_encode_getLogs :: "ptc_frame \<Rightarrow> ptc_logs_v2 \<Rightarrow> (int \<times> ptc_frame) outcome" where
  "tool_ptc_qh_d2c_encode_getLogs frame l =
     (if unat (logs_num l) > PTC_LOGS_SIZE then Inr (- 1, frame)
      else andThen (print_array 128 ''log'' (logs_num l)
             (map (\<lambda>r. json_obj (log_fields r)) (take (unat (logs_num l)) (log_v2 l))) frame)
           (\<lambda>frame. Inr (0, frame)))"

definition log_zero :: ptc_log_v2 where
  "log_zero = \<lparr> log_time = 0, log_type = 0, log_sub_type = 0, log_channel = 0, log_ch_type = 0,
     log_sub_type2 = 0, log_ip = replicate 4 0, log_data = replicate 64 NUL \<rparr>"

definition log_reads :: "(string \<times> (int \<Rightarrow> ptc_log_v2 \<Rightarrow> ptc_log_v2)) list" where
  "log_reads =
     [(''time'', \<lambda>tmp. log_time_update (\<lambda>_. of_int tmp)),
      (''type'', \<lambda>tmp. log_type_update (\<lambda>_. of_int tmp)),
      (''sub_type'', \<lambda>tmp. log_sub_type_update (\<lambda>_. of_int tmp)),
      (''channel'', \<lambda>tmp. log_channel_update (\<lambda>_. of_int tmp)),
      (''ch_type'', \<lambda>tmp. log_ch_type_update (\<lambda>_. of_int tmp)),
      (''sub_type2'', \<lambda>tmp. log_sub_type2_update (\<lambda>_. of_int tmp))]"

text \<open>One row into a zeroed log.\<close>

definition log_row :: "string \<Rightarrow> (int \<times> ptc_log_v2) outcome" where
  "log_row row =
     andThen (read_fields (- 8) row log_reads log_zero) (\<lambda>(ret, l).
       if ret < 0 then Inr (ret, l)
       else andThen (tool_json2_getIpv4 row ''ip'') (\<lambda>ip.
         case ip of
           None \<Rightarrow> Inr (- 8, l)
         | Some ip \<Rightarrow> andThen (tool_json2_getValue row ''data'' (log_data l) 64) (\<lambda>(ret, buf).
             let l = l\<lparr> log_ip := ip, log_data := buf \<rparr>
             in Inr (if ret < 0 then - 8 else 0, l))))"

text \<open>The rows from the \<open>i\<close>-th on, with the number of logs and the logs; \<open>ret\<close> ends up unused.\<close>

fun log_rows :: "nat \<Rightarrow> string list \<Rightarrow> ptc_logs_v2 \<Rightarrow> ptc_logs_v2 outcome" where
  "log_rows i [] l = Inr l"
| "log_rows i (row # rows) l =
     (if unat (logs_num l) \<ge> PTC_LOGS_SIZE then Inr l
      else if i \<ge> length (log_v2 l) then Inl Fault
      else andThen (log_row row) (\<lambda>(ret, r).
        let l = l\<lparr> log_v2 := (log_v2 l)[i := r] \<rparr>
        in if ret < 0 then Inr l
           else log_rows (Suc i) rows (l\<lparr> logs_num := logs_num l + 1 \<rparr>)))"

definition tool_ptc_qh_d2c_decode_getLogs :: "nat \<Rightarrow> ptc_frame \<Rightarrow> ptc_logs_v2 \<Rightarrow> (int \<times> ptc_logs_v2) outcome" where
  "tool_ptc_qh_d2c_decode_getLogs fuel frame l =
     read_result (- 8) (frame_text frame) l
       (let l = l\<lparr> logs_num := 0 \<rparr>
        in andThen (tool_json2_getArray fuel (frame_text frame) ''log'' PTC_LOGS_SIZE 512) (\<lambda>rows.
             andThen (case rows of None \<Rightarrow> Inr l | Some rows \<Rightarrow> log_rows 0 rows l) (\<lambda>l. Inr (0, l))))"

section \<open>Recordings\<close>

definition tool_ptc_qh_c2d_encode_getRecords :: "ptc_frame \<Rightarrow> ptc_cfg_records \<Rightarrow> (int \<times> ptc_frame) outcome" where
  "tool_ptc_qh_c2d_encode_getRecords frame r =
     andThen (first_channel (recs_channel r)) (\<lambda>channel.
       Inr (0, frame_print (request PTC_CMD_SEARCH2_RECORDS
         [(''start_time'', fmt_d (recs_start_time r)), (''end_time'', fmt_d (recs_end_time r)),
          (''channel'', fmt_d channel), (''type'', fmt_b (recs_type r)), (''sub_type'', fmt_b (recs_sub_type r))])
         frame))"

definition tool_ptc_qh_c2d_decode_getRecords ::
  "ptc_frame \<Rightarrow> ptc_cfg_records \<Rightarrow> (int \<times> ptc_cfg_records) outcome" where
  "tool_ptc_qh_c2d_decode_getRecords frame r =
     read_fields (- 8) (frame_text frame)
       [(''start_time'', \<lambda>tmp. recs_start_time_update (\<lambda>_. of_int tmp)),
        (''end_time'', \<lambda>tmp. recs_end_time_update (\<lambda>_. of_int tmp)),
        (''channel'', \<lambda>tmp. recs_channel_update (\<lambda>_. of_int tmp)),
        (''type'', \<lambda>tmp. recs_type_update (\<lambda>_. of_int tmp)),
        (''sub_type'', \<lambda>tmp. recs_sub_type_update (\<lambda>_. of_int tmp))] r"

definition record_fields :: "ptc_cfg_record \<Rightarrow> (string \<times> string) list" where
  "record_fields r =
     [(''start_time'', fmt_d (rec_start_time r)), (''end_time'', fmt_d (rec_end_time r)),
      (''size'', fmt_d (rec_size r)), (''channel'', fmt_b (rec_channel r)), (''type'', fmt_b (rec_type r)),
      (''sub_type'', fmt_b (rec_sub_type r)),
      (''file_info_base64'', cstr (base64_encode (rec_file_info r)))]"

definition tool_ptc_qh_d2c_encode_getRecords :: "ptc_frame \<Rightarrow> ptc_cfg_records \<Rightarrow> (int \<times> ptc_frame) outcome" where
  "tool_ptc_qh_d2c_encode_getRecords frame r =
     (if unat (recs_num r) > PTC_RECORDS_SIZE then Inr (- 1, frame)
      else andThen (print_array 512 ''record'' (recs_num r)
             (map (\<lambda>x. json_obj (record_fields x)) (take (unat (recs_num r)) (recs r))) frame)
           (\<lambda>frame. Inr (0, frame)))"

text \<open>The 160 bytes of a record in memory.\<close>

definition record_bytes :: "ptc_cfg_record \<Rightarrow> u8 list" where
  "record_bytes r = le4 (rec_start_time r) @ le4 (rec_end_time r) @ le4 (rec_size r) @
     [rec_channel r, rec_type r, rec_sub_type r] @ rec_reserve r @ rec_file_info r"

definition record_of_bytes :: "u8 list \<Rightarrow> ptc_cfg_record" where
  "record_of_bytes b = \<lparr>
     rec_start_time = le32 (b ! 0) (b ! 1) (b ! 2) (b ! 3),
     rec_end_time = le32 (b ! 4) (b ! 5) (b ! 6) (b ! 7),
     rec_size = le32 (b ! 8) (b ! 9) (b ! 10) (b ! 11),
     rec_channel = b ! 12, rec_type = b ! 13, rec_sub_type = b ! 14,
     rec_reserve = take 17 (drop 15 b), rec_file_info = take 128 (drop 32 b) \<rparr>"

text \<open>Bytes written from the start of the first record on, across as many records as they take.\<close>

function spill :: "u8 list \<Rightarrow> ptc_cfg_record list \<Rightarrow> ptc_cfg_record list outcome" where
  "spill [] rs = Inr rs"
| "spill (b # bs) [] = Inl Fault"
| "spill (b # bs) (r # rs) =
     andThen (spill (drop 160 (b # bs)) rs) (\<lambda>rs.
       Inr (record_of_bytes (take 160 (b # bs) @ drop (length (b # bs)) (record_bytes r)) # rs))"
  by pat_completeness auto
termination by (relation "measure (\<lambda>(bs, rs). length rs)") auto

text \<open>\<^verbatim>\<open>base64_decode (file_info_base64, record[i].file_info)\<close>: what does not fit into the 128 bytes.\<close>

definition store_info :: "nat \<Rightarrow> u8 list \<Rightarrow> ptc_cfg_record list \<Rightarrow> ptc_cfg_record list outcome" where
  "store_info i bytes rs =
     (let r = rs ! i; r = r\<lparr> rec_file_info := take 128 bytes @ drop (length bytes) (rec_file_info r) \<rparr>
      in andThen (spill (drop 128 bytes) (drop (Suc i) rs)) (\<lambda>after. Inr (take i rs @ r # after)))"

definition record_zero :: ptc_cfg_record where
  "record_zero = \<lparr> rec_start_time = 0, rec_end_time = 0, rec_size = 0, rec_channel = 0, rec_type = 0,
     rec_sub_type = 0, rec_reserve = replicate 17 0, rec_file_info = replicate 128 0 \<rparr>"

definition record_reads :: "(string \<times> (int \<Rightarrow> ptc_cfg_record \<Rightarrow> ptc_cfg_record)) list" where
  "record_reads =
     [(''start_time'', \<lambda>tmp. rec_start_time_update (\<lambda>_. of_int tmp)),
      (''end_time'', \<lambda>tmp. rec_end_time_update (\<lambda>_. of_int tmp)),
      (''size'', \<lambda>tmp. rec_size_update (\<lambda>_. of_int tmp)),
      (''channel'', \<lambda>tmp. rec_channel_update (\<lambda>_. of_int tmp)),
      (''type'', \<lambda>tmp. rec_type_update (\<lambda>_. of_int tmp)),
      (''sub_type'', \<lambda>tmp. rec_sub_type_update (\<lambda>_. of_int tmp))]"

text \<open>The rows from the \<open>i\<close>-th on; the buffer \<^verbatim>\<open>file_info_base64\<close> keeps what the last row left in it.\<close>

fun record_rows :: "nat \<Rightarrow> string list \<Rightarrow> string \<Rightarrow> ptc_cfg_records \<Rightarrow> ptc_cfg_records outcome" where
  "record_rows i [] buf c = Inr c"
| "record_rows i (row # rows) buf c =
     (if unat (recs_num c) \<ge> PTC_RECORDS_SIZE then Inr c
      else if i \<ge> length (recs c) then Inl Fault
      else andThen (read_fields (- 8) row record_reads record_zero) (\<lambda>(ret, r).
        let c = c\<lparr> recs := (recs c)[i := r] \<rparr>
        in if ret < 0 then Inr c
           else andThen (tool_json2_getValue row ''file_info_base64'' buf 512) (\<lambda>(ret, buf).
             if ret < 0 then Inr c
             else andThen (base64_decode buf) (\<lambda>(bytes, j).
                  andThen (store_info i bytes (recs c)) (\<lambda>rs.
                  record_rows (Suc i) rows buf (c\<lparr> recs := rs, recs_num := recs_num c + 1 \<rparr>))))))"

definition tool_ptc_qh_d2c_decode_getRecords ::
  "nat \<Rightarrow> ptc_frame \<Rightarrow> ptc_cfg_records \<Rightarrow> (int \<times> ptc_cfg_records) outcome" where
  "tool_ptc_qh_d2c_decode_getRecords fuel frame c =
     read_result (- 8) (frame_text frame) c
       (let c = c\<lparr> recs_num := 0 \<rparr>
        in andThen (tool_json2_getArray fuel (frame_text frame) ''record'' PTC_RECORDS_SIZE 512) (\<lambda>rows.
             andThen (case rows of None \<Rightarrow> Inr c | Some rows \<Rightarrow> record_rows 0 rows (replicate 512 NUL) c)
               (\<lambda>c. Inr (0, c))))"

section \<open>Days\<close>

definition tool_ptc_qh_c2d_encode_searchDates :: "ptc_frame \<Rightarrow> ptc_cfg_dates \<Rightarrow> (int \<times> ptc_frame) outcome" where
  "tool_ptc_qh_c2d_encode_searchDates frame d =
     andThen (first_channel (dates_channel d)) (\<lambda>channel.
       Inr (0, frame_print (request PTC_CMD_SEARCH2_DATES
         [(''channel'', fmt_d channel), (''type'', fmt_b (dates_type d)), (''sub_type'', fmt_b (dates_sub_type d))])
         frame))"

definition tool_ptc_qh_c2d_decode_searchDates ::
  "ptc_frame \<Rightarrow> ptc_cfg_dates \<Rightarrow> (int \<times> ptc_cfg_dates) outcome" where
  "tool_ptc_qh_c2d_decode_searchDates frame d =
     read_fields (- 8) (frame_text frame)
       [(''channel'', \<lambda>tmp. dates_channel_update (\<lambda>_. of_int tmp)),
        (''type'', \<lambda>tmp. dates_type_update (\<lambda>_. of_int tmp)),
        (''sub_type'', \<lambda>tmp. dates_sub_type_update (\<lambda>_. of_int tmp))] d"

definition date_fields :: "ptc_cfg_date \<Rightarrow> (string \<times> string) list" where
  "date_fields d =
     [(''year'', fmt_d (date_year d)), (''month'', fmt_d (date_month d)), (''day'', fmt_d (date_day d))]"

definition tool_ptc_qh_d2c_encode_searchDates :: "ptc_frame \<Rightarrow> ptc_cfg_dates \<Rightarrow> (int \<times> ptc_frame) outcome" where
  "tool_ptc_qh_d2c_encode_searchDates frame d =
     (if unat (dates_num d) > PTC_DATES_SIZE then Inr (- 1, frame)
      else andThen (print_array 128 ''date'' (dates_num d)
             (map (\<lambda>x. json_obj (date_fields x)) (take (unat (dates_num d)) (dates d))) frame)
           (\<lambda>frame. Inr (0, frame)))"

definition date_reads :: "(string \<times> (int \<Rightarrow> ptc_cfg_date \<Rightarrow> ptc_cfg_date)) list" where
  "date_reads =
     [(''year'', \<lambda>tmp. date_year_update (\<lambda>_. of_int tmp)),
      (''month'', \<lambda>tmp. date_month_update (\<lambda>_. of_int tmp)),
      (''day'', \<lambda>tmp. date_day_update (\<lambda>_. of_int tmp))]"

text \<open>
  Rows are stored behind the \<open>num\<close> days the caller's structure already counts. The bound in the
  code is that of the recordings.
\<close>

fun date_rows :: "string list \<Rightarrow> ptc_cfg_dates \<Rightarrow> (int \<times> ptc_cfg_dates) outcome" where
  "date_rows [] d = Inr (0, d)"
| "date_rows (row # rows) d =
     (if unat (dates_num d) \<ge> PTC_RECORDS_SIZE then Inr (0, d)
      else if unat (dates_num d) \<ge> length (dates d) then Inl Fault
      else andThen (read_fields (- 8) row date_reads (dates d ! unat (dates_num d))) (\<lambda>(ret, x).
        let d = d\<lparr> dates := (dates d)[unat (dates_num d) := x] \<rparr>
        in if ret < 0 then Inr (- 8, d)
           else date_rows rows (d\<lparr> dates_num := dates_num d + 1 \<rparr>)))"

definition tool_ptc_qh_d2c_decode_searchDates ::
  "nat \<Rightarrow> ptc_frame \<Rightarrow> ptc_cfg_dates \<Rightarrow> (int \<times> ptc_cfg_dates) outcome" where
  "tool_ptc_qh_d2c_decode_searchDates fuel frame d =
     read_result (- 1) (frame_text frame) d
       (andThen (tool_json2_getArray fuel (frame_text frame) ''date'' PTC_DATES_SIZE 256) (\<lambda>rows.
          case rows of None \<Rightarrow> Inr (- 8, d) | Some rows \<Rightarrow> date_rows rows d))"

section \<open>Appending to the text of a frame\<close>

lemma says_frame_request:
  assumes "frame_buffer frame" "short_fields fs"
  shows "says (frame_text (frame_print (request cmd fs) frame)) (json_obj ((''cmd'', fmt_d cmd) # fs))"
  unfolding request_def using assms short_length [OF assms(2), of "''cmd''" "fmt_d cmd"]
  by (intro says_frame_print) (simp add: frame_buffer_def PTC_VIDEO_FRAME_SIZE_def fmt_short)

text \<open>A frame whose data holds a text and whose head counts it.\<close>

definition frame_carries :: "ptc_frame \<Rightarrow> string \<Rightarrow> bool" where
  "frame_carries frame txt \<longleftrightarrow> frame_buffer frame \<and> says (frame_text frame) txt \<and> NUL \<notin> set txt \<and>
     unat (h_len (f_head frame)) = length txt"

lemma says_cstr: "says s txt \<Longrightarrow> NUL \<notin> set txt \<Longrightarrow> cstr s = txt"
  by (auto simp: says_def cstr_append_NUL)

lemma length_frame_text [simp]: "length (frame_text frame) = length (f_data frame)"
  by (simp add: frame_text_def text_of_def)

lemma frame_carries_print:
  assumes "frame_buffer frame" "NUL \<notin> set txt" "length txt < PTC_VIDEO_FRAME_SIZE"
  shows "frame_carries (frame_print txt frame) txt"
proof -
  have "says (frame_text (frame_print txt frame)) txt"
    using assms by (intro says_frame_print) (simp add: frame_buffer_def)
  moreover have "frame_buffer (frame_print txt frame)"
    using assms by (simp add: frame_print_def c_snprintf_def frame_buffer_def)
  moreover have "unat (h_len (f_head (frame_print txt frame))) = length txt"
    using assms(3) by (simp add: frame_print_def c_snprintf_def unat_of_nat_u32 PTC_VIDEO_FRAME_SIZE_def)
  ultimately show ?thesis using assms(2) by (simp add: frame_carries_def)
qed

lemma frame_carries_cat:
  assumes "frame_carries frame txt" "NUL \<notin> set src" "length txt + length src < PTC_VIDEO_FRAME_SIZE"
  shows "\<exists>f. frame_cat src frame = Inr f \<and> frame_carries (frame_longer (int (length src)) f) (txt @ src)"
proof -
  have c: "length (f_data frame) = PTC_VIDEO_FRAME_SIZE" "cstr (frame_text frame) = txt"
    and h: "unat (h_len (f_head frame)) = length txt" and "NUL \<notin> set txt"
    using assms(1) says_cstr by (auto simp: frame_carries_def frame_buffer_def)
  let ?d = "take (length txt) (f_data frame) @ text_bytes (src @ [NUL]) @ drop (length txt + Suc (length src)) (f_data frame)"
  have put: "buf_put (length txt) (text_bytes (src @ [NUL])) (f_data frame) = Inr ?d"
    using assms(3) c(1) by (simp add: buf_put_fits)
  have "take (length txt) (frame_text frame) = txt"
    using assms(1) by (auto simp: frame_carries_def says_def)
  then have t: "text_of (take (length txt) (f_data frame)) = txt" by (simp add: frame_text_def text_of_def take_map)
  have "says (text_of ?d) (txt @ src)" unfolding text_of_append t says_def by simp
  moreover have "unat (h_len (f_head frame) + of_nat (length src)) = length txt + length src"
    using assms(3) h by (subst unat_word_ariths) (simp add: unat_of_nat_u32 PTC_VIDEO_FRAME_SIZE_def)
  ultimately show ?thesis
    using put c assms(2,3) \<open>NUL \<notin> set txt\<close>
    by (auto simp: frame_cat_def Let_def frame_carries_def frame_longer_def frame_buffer_def frame_text_def)
qed

fun rows_size :: "string list \<Rightarrow> nat" where
  "rows_size [] = 0"
| "rows_size (r # rs) = length r + 1 + rows_size rs"

definition more_rows :: "bool \<Rightarrow> string list \<Rightarrow> string" where
  "more_rows first rows = (if first \<or> rows = [] then [] else '','') @ json_rows rows"

lemma more_rows_Cons:
  "more_rows first (r # rs) = (if first then [] else '','') @ r @ more_rows False rs"
  by (cases rs) (simp_all add: more_rows_def)

lemma print_rows_text:
  assumes "frame_carries frame pre" "\<forall>r \<in> set rows. NUL \<notin> set r \<and> length r < sz"
    and "length pre + rows_size rows \<le> PTC_VIDEO_FRAME_SIZE - 1024"
  shows "\<exists>f. print_rows sz first rows frame = Inr f \<and> frame_carries f (pre @ more_rows first rows)"
  using assms
proof (induction rows arbitrary: first frame pre)
  case Nil
  then show ?case by (simp add: more_rows_def)
next
  case (Cons r rs)
  have room: "length pre + length r + 1 + rows_size rs \<le> PTC_VIDEO_FRAME_SIZE - 1024" "1024 \<le> PTC_VIDEO_FRAME_SIZE"
    "Suc (length pre) < PTC_VIDEO_FRAME_SIZE"
    using Cons.prems(3) by (simp_all add: PTC_VIDEO_FRAME_SIZE_def)
  define pre1 where "pre1 = pre @ (if first then [] else '','')"
  have "\<exists>f1. (if first then Inr frame
      else andThen (frame_cat '','' frame) (\<lambda>frame. Inr (frame_longer 1 frame))) = Inr f1 \<and> frame_carries f1 pre1"
    using Cons.prems(1) frame_carries_cat [OF Cons.prems(1), of "'',''"] room by (auto simp: pre1_def)
  then obtain f1 where f1: "(if first then Inr frame
      else andThen (frame_cat '','' frame) (\<lambda>frame. Inr (frame_longer 1 frame))) = Inr f1" "frame_carries f1 pre1" by blast
  have row: "c_snprintf sz r = (r @ [NUL], int (length r))" "cstr (r @ [NUL]) = r" "NUL \<notin> set r"
    using Cons.prems(2) by (auto simp: c_snprintf_def cstr_append_NUL)
  have "length pre1 \<le> length pre + 1" by (simp add: pre1_def)
  then have "length pre1 + length r < PTC_VIDEO_FRAME_SIZE" using room by linarith
  from frame_carries_cat [OF f1(2) row(3) this] obtain f2 where
    f2: "frame_cat r f1 = Inr f2" "frame_carries (frame_longer (int (length r)) f2) (pre1 @ r)" by blast
  define f3 where "f3 = frame_longer (int (length r)) f2"
  have c3: "frame_carries f3 (pre1 @ r)" using f2(2) by (simp add: f3_def)
  then have "\<not> unat (h_len (f_head f3)) > PTC_VIDEO_FRAME_SIZE - 1024"
    using room by (auto simp: frame_carries_def pre1_def)
  then have "print_rows sz first (r # rs) frame = print_rows sz False rs f3"
    by (simp add: f1(1) row f2(1) Let_def flip: f3_def)
  moreover have "\<exists>f. print_rows sz False rs f3 = Inr f \<and> frame_carries f ((pre1 @ r) @ more_rows False rs)"
    using Cons.prems(2) room by (intro Cons.IH [OF c3]) (auto simp: pre1_def)
  ultimately show ?case by (auto simp: more_rows_Cons pre1_def)
qed

section \<open>Reading a reply with an array\<close>

text \<open>A number in the first field of a text, whatever follows it.\<close>

lemma getNumber_first:
  assumes "cstr s = ''{'' @ quoted n @ '':'' @ quoted v @ u" "field_name n" "number_text v"
  shows "tool_json2_getNumber s n = Inr (Some (c_atoi v))"
proof -
  from assms(3) obtain i where i: "v = print_int i" "- (2 ^ 31) \<le> i" "i < 2 ^ 31" by (auto simp: number_text_def)
  have len: "length v < 64" using int32_print_length [OF i(2,3)] i(1) by simp
  have k: "json2_key n = quoted n" using assms(2) by (intro key_quoted) (auto simp: field_name_def)
  have "c_strstr (cstr s) (quoted n) = Some (quoted n @ CHR '':'' # CHR 0x22 # v @ CHR 0x22 # u)"
    unfolding assms(1) using c_strstr_here [of "quoted n"] by (simp add: quoted_def)
  then have v: "tool_json2_getValue s n (replicate 64 NUL) 64 = Inr (0, v @ replicate (64 - length v) NUL)"
    using len i(1)
    by (simp add: tool_json2_getValue_def k Let_def colon_quote stored_quote copy_until_plain buf_put_start
        del: json2_colon.simps json2_stored.simps)
  define z where "z = 63 - length v"
  have z: "replicate (64 - length v) NUL = NUL # replicate z NUL"
    using len by (simp add: z_def flip: replicate_Suc)
  have "json2_number (\<lambda>v. int32 (c_atoi v)) (v @ NUL # replicate z NUL) = c_atoi v"
    using int32_id [OF i(2,3)] c_atoi_print_int [of "[]" i] c_atoi_print_int [of "NUL # replicate z NUL" i]
    by (simp only: i(1) json2_number_def print_int_not_special if_False simp_thms) simp
  then show ?thesis by (simp add: tool_json2_getNumber_def v z)
qed

definition array_text :: "string \<Rightarrow> u32 \<Rightarrow> string list \<Rightarrow> string" where
  "array_text name num rows = array_head name num @ json_rows rows @ '']}''"

lemma read_result_array:
  assumes "says s (array_head name num @ t)" "NUL \<notin> set (array_head name num @ t)"
  shows "read_result err s c body = body"
proof -
  have "cstr s = array_head name num @ t" using assms by (rule says_cstr)
  then have "\<exists>u. cstr s = ''{'' @ quoted ''result'' @ '':'' @ quoted (fmt_d PTC_OK) @ u"
    by (simp add: array_head_def quoted_def json_fields_Cons json_field_def)
  then obtain u where "cstr s = ''{'' @ quoted ''result'' @ '':'' @ quoted (fmt_d PTC_OK) @ u" by blast
  from getNumber_first [OF this] have "tool_json2_getNumber s ''result'' = Inr (Some 0)"
    by (simp add: json_calc PTC_OK_def)
  then show ?thesis by (simp add: read_result_def)
qed

lemma array_head_NUL: "plain name \<Longrightarrow> NUL \<notin> set (array_head name num)"
  using plain_fmt(1) [of num] plain_fmt(1) [of PTC_OK]
  by (auto simp: array_head_def quoted_def json_fields_Cons json_field_def plain_def)

lemma length_array_head: "length (array_head name num) \<le> length name + 60"
  using fmt_length(1) [of num] fmt_length(1) [of PTC_OK]
  by (simp add: array_head_def quoted_def json_field_def)

lemma row_text_NUL: "row_text r \<Longrightarrow> NUL \<notin> set r"
  by (auto simp: row_text_def)

lemma rows_size_le: "\<forall>r \<in> set rows. length r \<le> n \<Longrightarrow> rows_size rows \<le> length rows * (n + 1)"
  by (induction rows) auto

lemma length_json_rows: "length (json_rows rows) \<le> rows_size rows"
  by (induction rows rule: json_rows.induct) auto

lemma json_rows_NUL: "\<forall>r \<in> set rows. NUL \<notin> set r \<Longrightarrow> NUL \<notin> set (json_rows rows)"
  by (induction rows rule: json_rows.induct) auto

text \<open>
  What the three replies share: the rows an encoder prints fit into its buffer and into the
  reader's, and the name of the array is found where it was printed.
\<close>

locale row_array =
  fixes sz :: nat and name :: string and y :: nat and row :: "'r \<Rightarrow> string" and ok :: "'r \<Rightarrow> bool"
  assumes name_found: "c_strstr (array_head name num @ t) name = Some (name @ CHR 0x22 # CHR '':'' # CHR ''['' # t)"
    and name_plain: "plain name" "length name \<le> 100"
    and row_ok: "ok x \<Longrightarrow> row_text (row x)" "ok x \<Longrightarrow> length (row x) < sz" "ok x \<Longrightarrow> length (row x) \<le> 400"
    and sizes: "sz \<le> y" "0 < y"
begin

lemma printed:
  assumes "list_all ok xs" "length xs \<le> 1024" "frame_buffer frame"
  shows "\<exists>f. print_array sz name num (map row xs) frame = Inr f \<and> frame_carries f (array_text name num (map row xs))"
proof -
  have rows: "\<forall>r \<in> set (map row xs). NUL \<notin> set r \<and> length r < sz" "\<forall>r \<in> set (map row xs). length r \<le> 400"
    using assms(1) row_ok row_text_NUL by (auto simp: list_all_iff)
  have h: "frame_carries (frame_print (array_head name num) frame) (array_head name num)"
    using length_array_head [of name num] name_plain assms(3)
    by (intro frame_carries_print array_head_NUL) (simp_all add: PTC_VIDEO_FRAME_SIZE_def)
  have "rows_size (map row xs) \<le> 1024 * 401"
    using rows_size_le [OF rows(2)] assms(2) by (simp add: order_trans [OF _ mult_right_mono])
  then have room: "length (array_head name num) + rows_size (map row xs) \<le> PTC_VIDEO_FRAME_SIZE - 1024"
    using length_array_head [of name num] name_plain(2) by (simp add: PTC_VIDEO_FRAME_SIZE_def)
  from print_rows_text [OF h rows(1) room, of True] obtain f1 where
    f1: "print_rows sz True (map row xs) (frame_print (array_head name num) frame) = Inr f1"
      "frame_carries f1 (array_head name num @ json_rows (map row xs))"
    by (auto simp: more_rows_def)
  have "length (array_head name num @ json_rows (map row xs)) + 2 < PTC_VIDEO_FRAME_SIZE"
    using length_json_rows [of "map row xs"] room by (simp add: PTC_VIDEO_FRAME_SIZE_def)
  with frame_carries_cat [OF f1(2), of "'']}''"] show ?thesis
    by (auto simp: print_array_def f1(1) array_text_def)
qed

lemma read_back:
  assumes "list_all ok xs" "length xs \<le> 1024" "says s (array_text name num (map row xs))"
  shows "tool_json2_getArray (Suc fuel) s name 1024 y = Inr (Some (map (\<lambda>x. row x @ [NUL]) xs))"
    and "read_result err s c body = body"
proof -
  let ?rows = "map row xs"
  have rows: "\<forall>r \<in> set ?rows. NUL \<notin> set r" "list_all (\<lambda>r. row_text r \<and> length r < y) ?rows"
    using assms(1) row_ok row_text_NUL sizes by (auto simp: list_all_iff intro: less_le_trans)
  have nul: "NUL \<notin> set (array_head name num @ json_rows ?rows)"
    using array_head_NUL [OF name_plain(1)] json_rows_NUL [OF rows(1)] by simp
  from assms(3) obtain u where s: "s = array_head name num @ json_rows ?rows @ '']}'' @ NUL # u"
    by (auto simp: says_def array_text_def)
  show "tool_json2_getArray (Suc fuel) s name 1024 y = Inr (Some (map (\<lambda>x. row x @ [NUL]) xs))"
    unfolding s using getArray_rows [OF name_found nul rows(2)] assms(2) sizes by (simp add: comp_def)
  show "read_result err s c body = body"
    using nul by (intro read_result_array [OF assms(3) [unfolded array_text_def]]) simp
qed

end

end
