(* ===== verification/Ptc_Cfg_Rt.thy ===== *)
theory Ptc_Cfg_Rt
  imports Ptc_Cfg
begin

text \<open>
  What the configuration messages of \<open>Ptc_Cfg\<close> transfer: for each command the decoder applied
  to the encoder's message, then what the decoders of replies make of an error and of a
  missing field. The properties collect the commands by what they have in common.
\<close>

section \<open>Commands with numbers\<close>

lemma ctrlPtz_rt:
  assumes "msg_buffer msg"
  shows "tool_ptc_qh_c2d_decode_ctrlPtz (snd (tool_ptc_qh_c2d_encode_ctrlPtz msg channel ptz param))
           = Inr (0, channel, ptz, param)"
proof -
  let ?fs = "[(''channel'', fmt_d channel), (''ptz'', fmt_d ptz), (''param'', fmt_d param)]"
  have says: "says (msg_text (msg_print (request PTC_CMD_CFG2_CTRL_PTZ ?fs) msg))
      (json_obj ((''cmd'', fmt_d PTC_CMD_CFG2_CTRL_PTZ) # ?fs))"
    using assms by (simp add: says_request json_calc)
  show ?thesis
    by (simp add: tool_ptc_qh_c2d_decode_ctrlPtz_def tool_ptc_qh_c2d_encode_ctrlPtz_def
        read_any_obj [OF says] json_calc)
qed

lemma syncTime_rt:
  assumes "msg_buffer msg"
  shows "tool_ptc_qh_c2d_decode_syncTime (snd (tool_ptc_qh_c2d_encode_syncTime msg utc_sec zone dst_hour))
           = Inr (0, utc_sec, zone, dst_hour)"
proof -
  let ?fs = "[(''utc_sec'', fmt_d utc_sec), (''zone'', fmt_d zone), (''dst_hour'', fmt_d dst_hour)]"
  have says: "says (msg_text (msg_print (request PTC_CMD_CFG2_SYNC_TIME ?fs) msg))
      (json_obj ((''cmd'', fmt_d PTC_CMD_CFG2_SYNC_TIME) # ?fs))"
    using assms by (simp add: says_request json_calc)
  show ?thesis
    by (simp add: tool_ptc_qh_c2d_decode_syncTime_def tool_ptc_qh_c2d_encode_syncTime_def
        read_any_obj [OF says] json_calc)
qed

lemma setAv_rt:
  assumes "msg_buffer msg"
  shows "\<exists>m. tool_ptc_qh_c2d_decode_setAv (snd (tool_ptc_qh_c2d_encode_setAv msg c)) d = Inr (0, m, c)"
proof -
  let ?fs = "[(''mask'', fmt_d (av_mask c))]"
  have says: "says (msg_text (msg_print (request PTC_CMD_CFG2_SET_AV ?fs) msg))
      (json_obj ((''cmd'', fmt_d PTC_CMD_CFG2_SET_AV) # ?fs))"
    using assms by (simp add: says_request json_calc)
  show ?thesis
    by (simp add: tool_ptc_qh_c2d_decode_setAv_def tool_ptc_qh_c2d_encode_setAv_def
        getNumber_obj [OF says] json_calc)
qed

lemma getAv_rt:
  assumes "msg_buffer msg"
  shows "tool_ptc_qh_d2c_decode_getAv (snd (tool_ptc_qh_d2c_encode_getAv msg c)) d = Inr (0, c)"
proof -
  let ?fs = "[(''mask'', fmt_d (av_mask c))]"
  have says: "says (msg_text (msg_print (reply PTC_OK ?fs) msg))
      (json_obj ((''result'', fmt_d PTC_OK) # ?fs))"
    using assms by (simp add: says_reply json_calc)
  show ?thesis
    by (simp add: tool_ptc_qh_d2c_decode_getAv_def tool_ptc_qh_d2c_encode_getAv_def
        read_result_ok [OF says] read_fields_obj [OF says] json_calc)
qed

lemma setWorkMode_rt:
  assumes "msg_buffer msg"
  shows "\<exists>m. tool_ptc_qh_c2d_decode_setWorkMode (snd (tool_ptc_qh_c2d_encode_setWorkMode msg c)) d = Inr (0, m, c)"
proof -
  let ?fs = "[(''mode'', fmt_d (work_mode c))]"
  let ?m = "msg_print (request PTC_CMD_CFG2_SET_WORKMODE ?fs) msg"
  have "says (msg_text ?m) (json_obj ((''cmd'', fmt_d PTC_CMD_CFG2_SET_WORKMODE) # ?fs))"
    using assms by (simp add: says_request json_calc)
  from parsed_obj [OF this, where 'a = ptc_cfg_workMode] obtain j where
    "tool_json_parse JSON_FUEL (Some (msg_text ?m)) = Inr (Some j)"
    "\<forall>rs (c :: ptc_cfg_workMode). json_read j rs c =
       Inr (strings_do ((''cmd'', fmt_d PTC_CMD_CFG2_SET_WORKMODE) # ?fs) rs c)"
    by (auto simp: json_calc)
  then show ?thesis
    by (simp add: tool_ptc_qh_c2d_decode_setWorkMode_def tool_ptc_qh_c2d_encode_setWorkMode_def json_calc)
qed

lemma getWorkMode_rt:
  assumes "msg_buffer msg"
  shows "tool_ptc_qh_d2c_decode_getWorkMode (snd (tool_ptc_qh_d2c_encode_getWorkMode msg c)) d = Inr (0, c)"
proof -
  let ?fs = "[(''mode'', fmt_d (work_mode c))]"
  have says: "says (msg_text (msg_print (reply PTC_OK ?fs) msg))
      (json_obj ((''result'', fmt_d PTC_OK) # ?fs))"
    using assms by (simp add: says_reply json_calc)
  show ?thesis
    by (simp add: tool_ptc_qh_d2c_decode_getWorkMode_def tool_ptc_qh_d2c_encode_getWorkMode_def
        read_result_ok [OF says] read_fields_obj [OF says] json_calc)
qed

lemma setMobile_rt:
  assumes "msg_buffer msg"
  shows "tool_ptc_qh_c2d_decode_setMobile (snd (tool_ptc_qh_c2d_encode_setMobile msg c)) d = Inr (0, c)"
proof -
  have says: "says (msg_text (msg_print (request PTC_CMD_CFG2_SET_MOBILE (mobile_fields c)) msg))
      (json_obj ((''cmd'', fmt_d PTC_CMD_CFG2_SET_MOBILE) # mobile_fields c))"
    using assms by (simp add: says_request mobile_fields_def json_calc)
  show ?thesis
    by (simp add: tool_ptc_qh_c2d_decode_setMobile_def tool_ptc_qh_c2d_encode_setMobile_def
        parsed_strings [OF says [unfolded mobile_fields_def]] mobile_fields_def json_calc)
qed

lemma getMobile_rt:
  assumes "msg_buffer msg"
  shows "tool_ptc_qh_d2c_decode_getMobile (snd (tool_ptc_qh_d2c_encode_getMobile msg c)) d = Inr (0, c)"
proof -
  have says: "says (msg_text (msg_print (reply PTC_OK (mobile_fields c)) msg))
      (json_obj ((''result'', fmt_d PTC_OK) # mobile_fields c))"
    using assms by (simp add: says_reply mobile_fields_def json_calc)
  show ?thesis
    by (simp add: tool_ptc_qh_d2c_decode_getMobile_def tool_ptc_qh_d2c_encode_getMobile_def
        read_result_ok [OF says [unfolded mobile_fields_def]] read_fields_obj [OF says [unfolded mobile_fields_def]]
        mobile_fields_def json_calc)
qed

lemma setDevRecord_rt:
  assumes "msg_buffer msg"
  shows "tool_ptc_qh_c2d_decode_setDevRecord (snd (tool_ptc_qh_c2d_encode_setDevRecord msg c)) d =
           Inr (0, c\<lparr> rec_state := 0, total_size := 0, left_size := 0 \<rparr>)"
proof -
  let ?fs = "[(''enable'', fmt_d (rec_enable c)), (''cover_type'', fmt_d (cover_type c))]"
  have says: "says (msg_text (msg_print (request PTC_CMD_CFG2_SET_DEVRECORD ?fs) msg))
      (json_obj ((''cmd'', fmt_d PTC_CMD_CFG2_SET_DEVRECORD) # ?fs))"
    using assms by (simp add: says_request json_calc)
  show ?thesis
    by (simp add: tool_ptc_qh_c2d_decode_setDevRecord_def tool_ptc_qh_c2d_encode_setDevRecord_def
        parsed_strings [OF says] devRecord_reads_def devRecord_zero_def json_calc)
qed

lemma getDevRecord_rt:
  assumes "msg_buffer msg"
  shows "tool_ptc_qh_d2c_decode_getDevRecord (snd (tool_ptc_qh_d2c_encode_getDevRecord msg c)) d = Inr (0, c)"
proof -
  let ?fs = "[(''enable'', fmt_d (rec_enable c)), (''cover_type'', fmt_d (cover_type c)),
        (''state'', fmt_d (rec_state c)), (''total_size'', fmt_d (total_size c)),
        (''left_size'', fmt_d (left_size c))]"
  have says: "says (msg_text (msg_print (reply PTC_OK ?fs) msg))
      (json_obj ((''result'', fmt_d PTC_OK) # ?fs))"
    using assms by (simp add: says_reply json_calc)
  show ?thesis
    by (simp add: tool_ptc_qh_d2c_decode_getDevRecord_def tool_ptc_qh_d2c_encode_getDevRecord_def
        read_result_ok [OF says] parsed_result_strings [OF says] devRecord_reads_def devRecord_zero_def json_calc)
qed

section \<open>WiFi and alarms\<close>

text \<open>The valid WiFi configurations: text that can stand between quotes, four-byte addresses.\<close>

definition wifi_ok :: "ptc_cfg_wifi \<Rightarrow> bool" where
  "wifi_ok c \<longleftrightarrow> char_array 64 (client_ssid c) \<and> char_array 64 (client_pswd c) \<and>
     char_array 64 (ap_ssid c) \<and> char_array 64 (ap_pswd c) \<and> length (client_ip c) = 4 \<and>
     length (client_mask c) = 4 \<and> length (client_gate c) = 4 \<and> length (client_dns1 c) = 4 \<and>
     length (client_dns2 c) = 4"

lemma wifi_fields_ok:
  assumes "wifi_ok c"
  shows "short_fields (wifi_fields c)" "clean_fields (wifi_fields c)"
    and "n = ''cmd'' \<or> n = ''result'' \<Longrightarrow>
      strings_do ((n, v) # wifi_fields c) wifi_reads wifi_zero = c"
proof -
  have c: "char_array 64 (client_ssid c)" "char_array 64 (client_pswd c)"
    "char_array 64 (ap_ssid c)" "char_array 64 (ap_pswd c)" "length (client_ip c) = 4"
    "length (client_mask c) = 4" "length (client_gate c) = 4" "length (client_dns1 c) = 4"
    "length (client_dns2 c) = 4" using assms by (simp_all add: wifi_ok_def)
  note f = c(1-4) [THEN char_array_facts(1)] c(1-4) [THEN char_array_facts(3)]
  have l: "length (cstr (client_ssid c)) \<le> 255" "length (cstr (client_pswd c)) \<le> 255"
    "length (cstr (ap_ssid c)) \<le> 255" "length (cstr (ap_pswd c)) \<le> 255"
    using c(1-4) [THEN char_array_facts(2)] by simp_all
  show "short_fields (wifi_fields c)" by (simp add: wifi_fields_def l json_calc)
  show "clean_fields (wifi_fields c)" by (simp add: wifi_fields_def f json_calc)
  assume "n = ''cmd'' \<or> n = ''result''"
  then show "strings_do ((n, v) # wifi_fields c) wifi_reads wifi_zero = c"
    by (elim disjE; simp add: strings_do_def wifi_fields_def wifi_reads_def wifi_zero_def f
        sysf_atoi_fmt parseIPv4_fmt c(5-9))
qed

lemma setWifi_says:
  assumes "says (msg_text m) (request PTC_CMD_CFG2_SET_WIFI (wifi_fields c))" "wifi_ok c"
  shows "tool_ptc_qh_c2d_decode_setWifi m d = Inr (0, c)"
proof -
  note f = wifi_fields_ok [OF assms(2)]
  show ?thesis
    by (simp add: tool_ptc_qh_c2d_decode_setWifi_def f(3)
        parsed_strings [OF assms(1) [unfolded request_def] f(1,2)])
qed

lemma setWifi_rt:
  assumes "msg_buffer msg" "wifi_ok c"
  shows "tool_ptc_qh_c2d_decode_setWifi (snd (tool_ptc_qh_c2d_encode_setWifi msg c)) d = Inr (0, c)"
  using says_request [OF assms(1) wifi_fields_ok(1) [OF assms(2)]]
  by (intro setWifi_says [OF _ assms(2)])
    (simp add: tool_ptc_qh_c2d_encode_setWifi_def request_def)

lemma getWifi_rt:
  assumes "msg_buffer msg" "wifi_ok c"
  shows "tool_ptc_qh_d2c_decode_getWifi (snd (tool_ptc_qh_d2c_encode_getWifi msg c)) d = Inr (0, c)"
proof -
  note f = wifi_fields_ok [OF assms(2)]
  note says = says_reply [OF assms(1) f(1), of PTC_OK]
  show ?thesis
    by (simp add: tool_ptc_qh_d2c_decode_getWifi_def tool_ptc_qh_d2c_encode_getWifi_def
        read_result_ok [OF says f(2)] parsed_result_strings [OF says f(1,2)] f(3))
qed

lemma getAlarm_request_rt:
  assumes "msg_buffer msg"
  shows "\<exists>m. tool_ptc_qh_c2d_decode_getAlarm (snd (tool_ptc_qh_c2d_encode_getAlarm msg alarm_type)) t
           = Inr (0, m, alarm_type)"
proof -
  let ?fs = "[(''alarm_type'', fmt_d alarm_type)]"
  let ?m = "msg_print (request PTC_CMD_CFG2_GET_ALARM ?fs) msg"
  have "says (msg_text ?m) (json_obj ((''cmd'', fmt_d PTC_CMD_CFG2_GET_ALARM) # ?fs))"
    using assms by (simp add: says_request json_calc)
  from parsed_obj [OF this, where 'a = unit] obtain j where
    "tool_json_parse JSON_FUEL (Some (msg_text ?m)) = Inr (Some j)"
    "\<forall>m. \<exists>r. tool_json_getValue j m = Inr r \<and>
       (case map_of ((''cmd'', fmt_d PTC_CMD_CFG2_GET_ALARM) # ?fs) m of
          None \<Rightarrow> r = Null | Some v \<Rightarrow> r \<noteq> Null \<and> json_string j r = v)"
    by (auto simp: json_calc)
  moreover from this(2) [rule_format, of "''alarm_type''"] obtain r where
    "tool_json_getValue j ''alarm_type'' = Inr r" "r \<noteq> Null" "json_string j r = fmt_d alarm_type" by auto
  ultimately show ?thesis
    by (simp add: tool_ptc_qh_c2d_decode_getAlarm_def tool_ptc_qh_c2d_encode_getAlarm_def json_calc)
qed

lemma getAlarm_rt:
  assumes "msg_buffer msg" "rect_ok fmt_f scan_f (alarm_rect a)"
  shows "tool_ptc_qh_d2c_decode_getAlarm scan_f z (snd (tool_ptc_qh_d2c_encode_getAlarm fmt_f msg a)) d
           = Inr (0, a\<lparr> alarm_drt := 0 \<rparr>)"
proof -
  note r = rect_text_facts [OF assms(2)] build_rect [OF assms(2)] parse_rect [OF assms(2)]
  let ?fs = "[(''enable'', fmt_d (alarm_enable a)), (''rect'', rect_text fmt_f (alarm_rect a))]"
  let ?m = "msg_print (reply PTC_OK ?fs) msg"
  have says: "says (msg_text ?m) (json_obj ((''result'', fmt_d PTC_OK) # ?fs))"
    using assms r by (simp add: says_reply json_calc)
  have cl: "short_fields ?fs" "clean_fields ?fs" using r by (simp_all add: json_calc)
  show ?thesis
    by (simp add: tool_ptc_qh_d2c_decode_getAlarm_def tool_ptc_qh_d2c_encode_getAlarm_def r(4)
        read_result_ok [OF says cl(2)] parsed_strings [OF says cl, unfolded parsed_def]
        alarm_reads_def alarm_zero_def r(5) strings_do_def sysf_atoi_fmt)
qed

lemma setAlarm_rt:
  assumes "msg_buffer msg" "rect_ok fmt_f scan_f (alarm_rect a)"
  shows "\<exists>m. tool_ptc_qh_c2d_decode_setAlarm scan_f z (snd (tool_ptc_qh_c2d_encode_setAlarm fmt_f msg alarm_type a)) t d
           = Inr (0, m, alarm_type, a\<lparr> alarm_drt := 0 \<rparr>)"
proof -
  note r = rect_text_facts [OF assms(2)] build_rect [OF assms(2)] parse_rect [OF assms(2)]
  let ?fs = "[(''alarm_type'', fmt_d alarm_type), (''enable'', fmt_d (alarm_enable a)),
    (''rect'', rect_text fmt_f (alarm_rect a)), (''drt'', fmt_d (alarm_drt a))]"
  let ?m = "msg_print (request PTC_CMD_CFG2_SET_ALARM ?fs) msg"
  have says: "says (msg_text ?m) (json_obj ((''cmd'', fmt_d PTC_CMD_CFG2_SET_ALARM) # ?fs))"
    using assms r by (simp add: says_request json_calc)
  have cl: "short_fields ?fs" "clean_fields ?fs" using r by (simp_all add: json_calc)
  from parsed_obj [OF says cl, where 'a = "'a ptc_cfg_alarm"] obtain j where
    j: "tool_json_parse JSON_FUEL (Some (msg_text ?m)) = Inr (Some j)"
    "\<forall>rs (c :: 'a ptc_cfg_alarm). json_read j rs c = Inr (strings_do ((''cmd'', fmt_d PTC_CMD_CFG2_SET_ALARM) # ?fs) rs c)"
    "\<forall>m. \<exists>r. tool_json_getValue j m = Inr r \<and>
       (case map_of ((''cmd'', fmt_d PTC_CMD_CFG2_SET_ALARM) # ?fs) m of
          None \<Rightarrow> r = Null | Some v \<Rightarrow> r \<noteq> Null \<and> json_string j r = v)"
    by auto
  from this(3) [rule_format, of "''alarm_type''"] obtain p where
    "tool_json_getValue j ''alarm_type'' = Inr p" "p \<noteq> Null" "json_string j p = fmt_d alarm_type" by auto
  with j(1,2) show ?thesis
    by (simp add: tool_ptc_qh_c2d_decode_setAlarm_def tool_ptc_qh_c2d_encode_setAlarm_def r(4)
        alarm_reads_def alarm_zero_def r(5) strings_do_def sysf_atoi_fmt)
qed

section \<open>Status and ability\<close>

lemma of_int_sint64 [simp]: "(word_of_int (sint (l :: u64)) :: u64) = l"
  by simp

lemma getStatus_rt:
  assumes "msg_buffer msg" "number_text (fmt_lld (io_out c))"
  shows "tool_ptc_qh_d2c_decode_getStatus (snd (tool_ptc_qh_d2c_encode_getStatus msg c)) d = Inr (0, c)"
    and "tool_ptc_qh_c2d_decode_setStatus (snd (tool_ptc_qh_c2d_encode_setStatus msg c)) = Inr (0, c)"
proof -
  let ?fs = "[(''io_out'', fmt_lld (io_out c))]"
  have l: "length (fmt_lld (io_out c)) \<le> 255"
    using assms(2) int32_print_length by (fastforce simp: number_text_def)
  have says: "says (msg_text (msg_print (reply PTC_OK ?fs) msg)) (json_obj ((''result'', fmt_d PTC_OK) # ?fs))"
    "says (msg_text (msg_print (request PTC_CMD_CFG2_SET_STATUS ?fs) msg))
      (json_obj ((''cmd'', fmt_d PTC_CMD_CFG2_SET_STATUS) # ?fs))"
    using assms(1) l by (simp_all add: says_reply says_request json_calc)
  show "tool_ptc_qh_d2c_decode_getStatus (snd (tool_ptc_qh_d2c_encode_getStatus msg c)) d = Inr (0, c)"
    by (simp add: tool_ptc_qh_d2c_decode_getStatus_def tool_ptc_qh_d2c_encode_getStatus_def
        read_result_ok [OF says(1)] read_fields_obj [OF says(1)] assms(2) json_calc)
  show "tool_ptc_qh_c2d_decode_setStatus (snd (tool_ptc_qh_c2d_encode_setStatus msg c)) = Inr (0, c)"
    by (simp add: tool_ptc_qh_c2d_decode_setStatus_def tool_ptc_qh_c2d_encode_setStatus_def
        read_any_obj [OF says(2)] assms(2) json_calc)
qed

text \<open>An ability whose device name a reader cannot take for the name of a later field.\<close>

definition ability_ok :: "ptc_cfg_ability \<Rightarrow> bool" where
  "ability_ok a \<longleftrightarrow> char_array 64 (base_dev_id a) \<and>
     (\<forall>(n, f) \<in> set ability_reads2. cstr (base_dev_id a) \<noteq> n) \<and>
     video_input_num a = base_video_input_num a \<and> audio_input_num a = base_audio_input_num a \<and>
     alarm_input_num a = base_alarm_input_num a \<and> alarm_output_num a = base_alarm_output_num a"

lemma char_array_fill: "char_array n a \<Longrightarrow> cstr a @ replicate (n - length (cstr a)) NUL = a"
proof -
  assume "char_array n a"
  then obtain t where t: "plain t" "length t < n" "a = t @ replicate (n - length t) NUL"
    by (auto simp: char_array_def)
  then obtain k where "n - length t = Suc k" by (cases "n - length t") auto
  then have "cstr a = t" using t by (simp add: cstr_append_NUL plain_def)
  then show ?thesis using t by simp
qed

lemma getAbility_rt:
  assumes "frame_buffer frame" "ability_ok a"
  shows "tool_ptc_qh_d2c_decode_getAbility (snd (tool_ptc_qh_d2c_encode_getAbility frame a)) d = Inr (0, a)"
proof -
  have c: "char_array 64 (base_dev_id a)" using assms(2) by (simp add: ability_ok_def)
  note id = char_array_facts [OF c] char_array_fill [OF c]
  have no: "cstr (base_dev_id a) \<noteq> ''audio_ability.enable''" "cstr (base_dev_id a) \<noteq> ''audio_ability.sample_rate''"
    "cstr (base_dev_id a) \<noteq> ''audio_ability.bit_width''" "cstr (base_dev_id a) \<noteq> ''audio_ability.encode_type''"
    "cstr (base_dev_id a) \<noteq> ''audio_ability.frame_size''"
    using assms(2) by (simp_all add: ability_ok_def ability_reads2_def)
  let ?fs = "(''result'', fmt_d PTC_OK) # ability_fields a"
  let ?f = "frame_print (reply PTC_OK (ability_fields a)) frame"
  have sh: "short_fields (ability_fields a)" "clean_fields (ability_fields a)"
    using id by (simp_all add: ability_fields_def json_calc)
  note says = says_frame_reply [OF assms(1) sh(1), of PTC_OK]
  have cl: "clean_fields ?fs" using sh by (simp add: json_calc)
  have n1: "\<forall>(n, f) \<in> set ability_reads1. numbered ?fs n"
    by (simp add: ability_reads1_def ability_fields_def json_calc)
  have n2: "\<forall>(n, f) \<in> set ability_reads2. numbered ?fs n"
    by (simp add: ability_reads2_def ability_fields_def no json_calc)
  have ff: "first_field ?fs ''base.dev_id'' (cstr (base_dev_id a))"
    by (simp add: ability_fields_def first_field_Cons json_calc)
  from says obtain u where u: "frame_text ?f = json_obj ?fs @ NUL # u" by (auto simp: says_def)
  have v: "tool_json2_getValue (frame_text ?f) ''base.dev_id'' (replicate 64 NUL) 64 = Inr (0, base_dev_id a)"
    unfolding u using getValue_field [OF _ cl ff, of 64 u "replicate 64 NUL"] id
    by (simp add: buf_put_start json_calc)
  define a1 where "a1 = fields_do ?fs ability_reads1 ability_zero"
  define a2 where "a2 = fields_do ?fs ability_reads2 (a1\<lparr> base_dev_id := base_dev_id a \<rparr>)"
  have a1: "base_dev_id a1 = replicate 64 NUL"
    by (simp add: a1_def ability_reads1_def ability_zero_def json_calc)
  have "tool_ptc_qh_d2c_decode_getAbility ?f d =
      Inr (0, a2\<lparr> video_input_num := base_video_input_num a2, audio_input_num := base_audio_input_num a2,
        alarm_input_num := base_alarm_input_num a2, alarm_output_num := base_alarm_output_num a2 \<rparr>)"
    using v a1
    by (simp add: tool_ptc_qh_d2c_decode_getAbility_def Let_def read_result_ok [OF says sh(2)]
        read_fields_obj [OF says cl n1] read_fields_obj [OF says cl n2] flip: a1_def a2_def)
  moreover have "a2\<lparr> video_input_num := base_video_input_num a2, audio_input_num := base_audio_input_num a2,
        alarm_input_num := base_alarm_input_num a2, alarm_output_num := base_alarm_output_num a2 \<rparr> = a"
    using assms(2)
    by (simp add: a2_def a1_def ability_ok_def ability_zero_def ability_reads1_def ability_reads2_def
        ability_fields_def json_calc)
  ultimately show ?thesis by (simp add: tool_ptc_qh_d2c_encode_getAbility_def)
qed

text \<open>What the decoders make of an error reply, and of a reply with a field missing.\<close>

lemma error_replies:
  assumes "msg_buffer msg" "r \<noteq> 0" "m = msg_print (reply r []) msg"
  shows "tool_ptc_qh_d2c_decode_getStatus m c1 = Inr (int32 (- sint r), c1)"
    "tool_ptc_qh_d2c_decode_getWorkMode m c2 = Inr (int32 (- sint r), c2)"
    "tool_ptc_qh_d2c_decode_getMobile m c3 = Inr (int32 (- sint r), c3)"
    "tool_ptc_qh_d2c_decode_getWifi m c4 = Inr (int32 (- sint r), c4)"
    "tool_ptc_qh_d2c_decode_getDevRecord m c5 = Inr (int32 (- sint r), c5)"
    "tool_ptc_qh_d2c_decode_getAv m c6 = Inr (int32 (- sint r), c6)"
    "tool_ptc_qh_d2c_decode_getAlarm scan_f z m c7 = Inr (int32 (- sint r), c7)"
    "decode_done err m = Inr (int32 (- sint r))"
proof -
  have says: "says (msg_text m) (json_obj ((''result'', fmt_d r) # []))"
    unfolding assms(3) using assms(1) by (intro says_reply) (simp_all add: json_calc)
  note e = read_result_obj [OF says clean_append(3)]
  show "tool_ptc_qh_d2c_decode_getStatus m c1 = Inr (int32 (- sint r), c1)"
    "tool_ptc_qh_d2c_decode_getWorkMode m c2 = Inr (int32 (- sint r), c2)"
    "tool_ptc_qh_d2c_decode_getMobile m c3 = Inr (int32 (- sint r), c3)"
    "tool_ptc_qh_d2c_decode_getWifi m c4 = Inr (int32 (- sint r), c4)"
    "tool_ptc_qh_d2c_decode_getDevRecord m c5 = Inr (int32 (- sint r), c5)"
    "tool_ptc_qh_d2c_decode_getAv m c6 = Inr (int32 (- sint r), c6)"
    "tool_ptc_qh_d2c_decode_getAlarm scan_f z m c7 = Inr (int32 (- sint r), c7)"
    "decode_done err m = Inr (int32 (- sint r))"
    using assms(2)
    by (simp_all add: e tool_ptc_qh_d2c_decode_getStatus_def tool_ptc_qh_d2c_decode_getWorkMode_def
        tool_ptc_qh_d2c_decode_getMobile_def tool_ptc_qh_d2c_decode_getWifi_def
        tool_ptc_qh_d2c_decode_getDevRecord_def tool_ptc_qh_d2c_decode_getAv_def
        tool_ptc_qh_d2c_decode_getAlarm_def decode_done_def)
qed

lemma bare_replies:
  assumes "msg_buffer msg" "m = msg_print (reply PTC_OK []) msg"
  shows "tool_ptc_qh_d2c_decode_getStatus m c1 = Inr (- 8, c1)"
    "\<exists>c. tool_ptc_qh_d2c_decode_getWorkMode m c2 = Inr (- 8, c)"
    "\<exists>c. tool_ptc_qh_d2c_decode_getMobile m c3 = Inr (- 8, c)"
    "tool_ptc_qh_d2c_decode_getWifi m c4 = Inr (0, wifi_zero)"
    "tool_ptc_qh_d2c_decode_getDevRecord m c5 = Inr (0, devRecord_zero)"
    "tool_ptc_qh_d2c_decode_getAv m c6 = Inr (- 1, c6)"
    "decode_done err m = Inr 0"
proof -
  have says: "says (msg_text m) (json_obj ((''result'', fmt_d PTC_OK) # []))"
    unfolding assms(2) using assms(1) by (intro says_reply) (simp_all add: json_calc)
  have cl: "clean_fields [(''result'', fmt_d PTC_OK)]" by (simp add: json_calc)
  note e = read_result_ok [OF says clean_append(3)] getNumber_none [OF says _ cl] read_fields.simps
  show "tool_ptc_qh_d2c_decode_getStatus m c1 = Inr (- 8, c1)"
    "\<exists>c. tool_ptc_qh_d2c_decode_getWorkMode m c2 = Inr (- 8, c)"
    "\<exists>c. tool_ptc_qh_d2c_decode_getMobile m c3 = Inr (- 8, c)"
    "tool_ptc_qh_d2c_decode_getAv m c6 = Inr (- 1, c6)"
    "decode_done err m = Inr 0"
    by (simp_all add: e tool_ptc_qh_d2c_decode_getStatus_def tool_ptc_qh_d2c_decode_getWorkMode_def
        tool_ptc_qh_d2c_decode_getMobile_def tool_ptc_qh_d2c_decode_getAv_def decode_done_def json_calc)
  note p = read_result_ok [OF says clean_append(3)] parsed_result_strings [OF says _ clean_append(3)]
  show "tool_ptc_qh_d2c_decode_getWifi m c4 = Inr (0, wifi_zero)"
    by (simp add: p tool_ptc_qh_d2c_decode_getWifi_def wifi_reads_def json_calc)
  show "tool_ptc_qh_d2c_decode_getDevRecord m c5 = Inr (0, devRecord_zero)"
    by (simp add: p tool_ptc_qh_d2c_decode_getDevRecord_def devRecord_reads_def json_calc)
qed

section \<open>The messages as codecs\<close>

text \<open>An encoder into a message of its own, and a decoder as a partial function.\<close>

definition blank_msg :: ptc_msg where
  "blank_msg = \<lparr> head = demo_head 0, data = replicate PTC_MSG_SIZE 0 \<rparr>"

definition decoded :: "(int \<times> 'a) outcome \<Rightarrow> 'a option" where
  "decoded r = (case r of Inr (ret, x) \<Rightarrow> if ret = 0 then Some x else None | Inl e \<Rightarrow> None)"

lemma blank_msg_buffer [simp]: "msg_buffer blank_msg"
  by (simp add: msg_buffer_def blank_msg_def)

interpretation mobile_codec: codec "\<lambda>c. snd (tool_ptc_qh_c2d_encode_setMobile blank_msg c)"
    "\<lambda>m. decoded (tool_ptc_qh_c2d_decode_setMobile m d)" "\<lambda>_. True" for d
  by unfold_locales (simp add: setMobile_rt decoded_def)

interpretation wifi_codec: codec "\<lambda>c. snd (tool_ptc_qh_c2d_encode_setWifi blank_msg c)"
    "\<lambda>m. decoded (tool_ptc_qh_c2d_decode_setWifi m d)" wifi_ok for d
  by unfold_locales (simp add: setWifi_rt decoded_def)

interpretation ptz_codec: codec "\<lambda>(channel, ptz, param). snd (tool_ptc_qh_c2d_encode_ctrlPtz blank_msg channel ptz param)"
    "\<lambda>m. decoded (tool_ptc_qh_c2d_decode_ctrlPtz m)" "\<lambda>_. True"
  by unfold_locales (auto simp: ctrlPtz_rt decoded_def)

section \<open>Over the wire\<close>

text \<open>A printed message sent over one connection and received over another says the same.\<close>

lemma print_data:
  assumes "length txt < length (data msg)"
  shows "take (length txt) (data (msg_print txt msg)) = text_bytes txt"
    and "length (data (msg_print txt msg)) = length (data msg)"
    and "h_len (head (msg_print txt msg)) = of_nat (length txt)"
  using assms by (cases "data msg"; simp add: msg_print_def c_snprintf_def text_bytes_def)+

lemma deliver_text:
  assumes "msg_buffer msg" "head_ok (head msg)" "length txt < PTC_MSG_SIZE" "m = msg_print txt msg"
    and "carries a (32 + length txt)"
  shows "\<exists>sent a' image. tool_ptc_qh_sendMsg a m = Inr (0, sent, a')
      \<and> sock_outgoing a' = sock_outgoing a @ image
      \<and> (\<forall>b rest buf. sock_incoming b = image @ rest \<and> carries b (32 + length txt)
           \<and> head_ok (head buf) \<and> msg_buffer buf \<longrightarrow>
           (\<exists>got b'. tool_ptc_qh_recvMsg b buf = Inr (0, got, b') \<and> says (msg_text got) txt
              \<and> sock_incoming b' = rest))"
proof -
  have big: "length txt < length (data msg)" using assms(1,3) by (simp add: msg_buffer_def)
  note p = print_data [OF big] says_msg_print [OF big]
  let ?n = "length txt"
  have h: "head_ok (head m)" using assms(2) by (simp add: assms(4) msg_print_def c_snprintf_def head_ok_def)
  have n: "unat (h_len (head m)) = ?n"
    using assms(3) by (simp add: assms(4) p(3) unat_of_nat_u32 PTC_MSG_SIZE_def)
  let ?m = "msg_stamp m" and ?bs = "take ?n (data m)"
  let ?image = "head_bytes (head ?m) @ ?bs"
  have len: "length ?bs = ?n" using big p(2) by (simp add: assms(4))
  have hm: "head_ok (head ?m)" "h_flag (head ?m) = PTC_FLAG" "unat (h_len (head ?m)) = length ?bs"
    "length ?bs < PTC_MSG_SIZE"
    using h n len assms(3) by (simp_all add: msg_stamp_def)
  have "?n \<le> length (data m)" "?n < 2147483000"
    using big p(2) assms(3) by (simp_all add: assms(4) PTC_MSG_SIZE_def)
  from sock.sendMsg_image [OF h n this, of a 0] assms(5) obtain a' where
    "tool_ptc_qh_sendMsg a m = Inr (0, ?m, a')" "sock_outgoing a' = sock_outgoing a @ ?image"
    by (auto simp: tool_ptc_qh_sendMsg_def)
  moreover have "\<exists>got b'. tool_ptc_qh_recvMsg b buf = Inr (0, got, b') \<and> says (msg_text got) txt
      \<and> sock_incoming b' = rest"
    if b: "sock_incoming b = ?image @ rest" "carries b (32 + ?n)" "head_ok (head buf)" "msg_buffer buf" for b rest buf
  proof -
    let ?got = "buf\<lparr> head := head ?m, data := ?bs @ 0 # drop (Suc (length ?bs)) (data buf) \<rparr>"
    from sock.recvMsg_image [OF hm, of b rest 0 buf] b assms(3) obtain b' where
      "tool_ptc_qh_recvMsg b buf = Inr (0, ?got, b')" "sock_incoming b' = rest"
      using len by (auto simp: tool_ptc_qh_recvMsg_def msg_buffer_def)
    moreover have "says (msg_text ?got) txt"
      using says_take [of "data m" "txt" "data ?got"] p(4) len b(4) assms(3)
      by (simp add: assms(4) msg_text_def msg_buffer_def nth_append)
    ultimately show ?thesis by blast
  qed
  ultimately show ?thesis by blast
qed

text \<open>The hexadecimal text of a digest: two encoders of the code base, one after the other.\<close>

interpretation digest_text: codec_comp tool_md5_encode
    "\<lambda>bs. case tool_md5_decode bs of Inl _ \<Rightarrow> None | Inr ws \<Rightarrow> Some ws" "\<lambda>_. True"
    tool_str_byte2str hex_bytes "\<lambda>_. True"
  by unfold_locales simp

section \<open>Properties\<close>

definition demo_wifi :: ptc_cfg_wifi where
  "demo_wifi = wifi_zero\<lparr> wifi_mode := 1, client_ssid := ''home'' @ replicate 60 NUL,
     client_ip := [192, 168, 0, 7] \<rparr>"

lemma demo_wifi_ok: "wifi_ok demo_wifi"
proof -
  have "char_array 64 (''home'' @ replicate 60 NUL)"
    unfolding char_array_def by (rule exI [of _ "''home''"]) simp
  moreover have "char_array 64 (replicate 64 NUL)"
    unfolding char_array_def by (rule exI [of _ "[]"]) simp
  ultimately show ?thesis by (simp add: wifi_ok_def demo_wifi_def wifi_zero_def)
qed

text \<open>C10: A WiFi configuration survives the whole path: printed into a message, framed and sent
  over a prompt connection, received on another, parsed and decoded, it is the configuration
  that was set, for every mode, level, address and every text that can stand between quotes.\<close>

theorem wifi_over_the_wire:
  assumes "wifi_ok c" "msg_buffer msg" "head_ok (head msg)"
    and "n = 32 + length (request PTC_CMD_CFG2_SET_WIFI (wifi_fields c))" "carries a n"
  shows "\<exists>sent a' image.
      tool_ptc_qh_sendMsg a (snd (tool_ptc_qh_c2d_encode_setWifi msg c)) = Inr (0, sent, a')
      \<and> sock_outgoing a' = sock_outgoing a @ image
      \<and> (\<forall>b rest buf. sock_incoming b = image @ rest \<and> carries b n \<and> head_ok (head buf) \<and> msg_buffer buf \<longrightarrow>
           (\<exists>got b'. tool_ptc_qh_recvMsg b buf = Inr (0, got, b') \<and> sock_incoming b' = rest
              \<and> (\<forall>d. tool_ptc_qh_c2d_decode_setWifi got d = Inr (0, c))))"
proof -
  let ?txt = "request PTC_CMD_CFG2_SET_WIFI (wifi_fields c)"
  have "length ?txt < PTC_MSG_SIZE"
    unfolding request_def using short_length [OF wifi_fields_ok(1) [OF assms(1)], of "''cmd''"]
    by (simp add: PTC_MSG_SIZE_def fmt_short)
  from deliver_text [OF assms(2,3) this refl assms(5) [unfolded assms(4)]]
  obtain sent a' image where
    "tool_ptc_qh_sendMsg a (msg_print ?txt msg) = Inr (0, sent, a')" "sock_outgoing a' = sock_outgoing a @ image"
    "\<And>b rest buf. sock_incoming b = image @ rest \<Longrightarrow> carries b n \<Longrightarrow> head_ok (head buf) \<Longrightarrow> msg_buffer buf \<Longrightarrow>
       \<exists>got b'. tool_ptc_qh_recvMsg b buf = Inr (0, got, b') \<and> says (msg_text got) ?txt \<and> sock_incoming b' = rest"
    using assms(4) by blast
  then show ?thesis
    using setWifi_says [OF _ assms(1)] by (fastforce simp: tool_ptc_qh_c2d_encode_setWifi_def)
qed

theorem wifi_over_the_wire_witness:
  "\<exists>a sent a' b got b'.
      tool_ptc_qh_sendMsg a (snd (tool_ptc_qh_c2d_encode_setWifi blank_msg demo_wifi)) = Inr (0, sent, a')
      \<and> sock_incoming b = sock_outgoing a' \<and> tool_ptc_qh_recvMsg b blank_msg = Inr (0, got, b')
      \<and> tool_ptc_qh_c2d_decode_setWifi got wifi_zero = Inr (0, demo_wifi)"
proof -
  define n where "n = 32 + length (request PTC_CMD_CFG2_SET_WIFI (wifi_fields demo_wifi))"
  have h: "head_ok (head blank_msg)" by (simp add: blank_msg_def)
  have "carries (demo_item, demo_net n []) n" by (rule demo_carries) simp
  from wifi_over_the_wire [OF demo_wifi_ok blank_msg_buffer h n_def this] obtain sent a' image where
    a: "tool_ptc_qh_sendMsg (demo_item, demo_net n []) (snd (tool_ptc_qh_c2d_encode_setWifi blank_msg demo_wifi))
        = Inr (0, sent, a')" "sock_outgoing a' = sock_outgoing (demo_item, demo_net n []) @ image"
    and b: "\<And>b rest buf. sock_incoming b = image @ rest \<Longrightarrow> carries b n \<Longrightarrow> head_ok (head buf) \<Longrightarrow> msg_buffer buf
       \<Longrightarrow> \<exists>got b'. tool_ptc_qh_recvMsg b buf = Inr (0, got, b') \<and> sock_incoming b' = rest
              \<and> (\<forall>d. tool_ptc_qh_c2d_decode_setWifi got d = Inr (0, demo_wifi))" by blast
  have "carries (demo_item, demo_net n image) n" by (rule demo_carries) simp
  moreover have "sock_incoming (demo_item, demo_net n image) = image @ []"
    "sock_outgoing a' = image" using a(2) by (simp_all add: sock_incoming_def sock_outgoing_def demo_net_def)
  ultimately show ?thesis
    using a(1) b [of "(demo_item, demo_net n image)" "[]" blank_msg] h
    by (metis append_Nil2 blank_msg_buffer)
qed

text \<open>C22: Six requests carry every number they have, all 32 bits of it, whatever the message buffer and the
  receiving variables held: PTZ control, time synchronisation (an unsigned time printed as a signed one
  comes back unsigned), setting the work mode, the mobile network and the privacy mask, and asking for an
  alarm of a kind. Setting an alarm (its direction is lost) and setting the outputs (64 bits wide) are not
  among them.\<close>

theorem cfg_requests_roundtrip:
  assumes "msg_buffer msg"
  shows "tool_ptc_qh_c2d_decode_ctrlPtz (snd (tool_ptc_qh_c2d_encode_ctrlPtz msg channel ptz param))
           = Inr (0, channel, ptz, param)
    \<and> tool_ptc_qh_c2d_decode_syncTime (snd (tool_ptc_qh_c2d_encode_syncTime msg utc_sec zone dst_hour))
           = Inr (0, utc_sec, zone, dst_hour)
    \<and> (\<exists>m. tool_ptc_qh_c2d_decode_setWorkMode (snd (tool_ptc_qh_c2d_encode_setWorkMode msg w)) w' = Inr (0, m, w))
    \<and> tool_ptc_qh_c2d_decode_setMobile (snd (tool_ptc_qh_c2d_encode_setMobile msg n)) n' = Inr (0, n)
    \<and> (\<exists>m. tool_ptc_qh_c2d_decode_setAv (snd (tool_ptc_qh_c2d_encode_setAv msg v)) v' = Inr (0, m, v))
    \<and> (\<exists>m. tool_ptc_qh_c2d_decode_getAlarm (snd (tool_ptc_qh_c2d_encode_getAlarm msg t)) t' = Inr (0, m, t))"
  using ctrlPtz_rt [OF assms] syncTime_rt [OF assms] setWorkMode_rt [OF assms] setMobile_rt [OF assms]
    setAv_rt [OF assms] getAlarm_request_rt [OF assms] by blast

theorem cfg_requests_roundtrip_witness:
  "tool_ptc_qh_c2d_decode_syncTime (snd (tool_ptc_qh_c2d_encode_syncTime blank_msg 0xFFFFFFF0 (- 8) 1))
     = Inr (0, 0xFFFFFFF0, - 8, 1)"
  using cfg_requests_roundtrip [OF blank_msg_buffer] by blast

text \<open>C23: Six replies of the device come back as they were sent: work mode, mobile network, recorder state,
  privacy mask; the ability record, with its copies of the four input counts, when the device's name
  cannot be taken for a field name; and the outputs of the status, as long as they fit into an \<open>int\<close>.
  The reply with an alarm, which loses the direction, is not among them.\<close>

theorem cfg_replies_roundtrip:
  assumes "msg_buffer msg" "frame_buffer frame" "ability_ok ab" "number_text (fmt_lld (io_out st))"
  shows "tool_ptc_qh_d2c_decode_getWorkMode (snd (tool_ptc_qh_d2c_encode_getWorkMode msg w)) w' = Inr (0, w)
    \<and> tool_ptc_qh_d2c_decode_getMobile (snd (tool_ptc_qh_d2c_encode_getMobile msg n)) n' = Inr (0, n)
    \<and> tool_ptc_qh_d2c_decode_getDevRecord (snd (tool_ptc_qh_d2c_encode_getDevRecord msg r)) r' = Inr (0, r)
    \<and> tool_ptc_qh_d2c_decode_getAv (snd (tool_ptc_qh_d2c_encode_getAv msg v)) v' = Inr (0, v)
    \<and> tool_ptc_qh_d2c_decode_getAbility (snd (tool_ptc_qh_d2c_encode_getAbility frame ab)) ab' = Inr (0, ab)
    \<and> tool_ptc_qh_d2c_decode_getStatus (snd (tool_ptc_qh_d2c_encode_getStatus msg st)) st' = Inr (0, st)"
  using getWorkMode_rt [OF assms(1)] getMobile_rt [OF assms(1)] getDevRecord_rt [OF assms(1)]
    getAv_rt [OF assms(1)] getAbility_rt [OF assms(2,3)] getStatus_rt(1) [OF assms(1,4)] by blast

lemma ability_zero_ok: "ability_ok ability_zero"
proof -
  have "char_array 64 (replicate 64 NUL)" unfolding char_array_def by (rule exI [of _ "[]"]) simp
  moreover have "cstr (replicate 64 NUL) = []" by (simp add: cstr_def)
  ultimately show ?thesis by (simp add: ability_ok_def ability_zero_def ability_reads2_def)
qed

theorem cfg_replies_roundtrip_witness:
  "tool_ptc_qh_d2c_decode_getAbility (snd (tool_ptc_qh_d2c_encode_getAbility (demo_frame 0) ability_zero)) ability_zero
     = Inr (0, ability_zero)"
proof -
  have "frame_buffer (demo_frame 0)" by (simp add: frame_buffer_def demo_frame_fields)
  moreover have "number_text (fmt_lld (io_out \<lparr> io_out = 5 \<rparr>))"
    by (simp add: fmt_lld_def number_text_small)
  ultimately show ?thesis
    using cfg_replies_roundtrip [OF blank_msg_buffer _ ability_zero_ok, of "demo_frame 0" "\<lparr> io_out = 5 \<rparr>"] by blast
qed

text \<open>C26: An error reply stops the decoders of the status, the work mode, the mobile network, the WiFi
  settings, the recorder, the privacy mask, an alarm, and of the answer to setting the WiFi: each returns
  the negated code and leaves what it was given alone. For a reply that says OK and has none of the
  fields, the decoders differ: status, work mode and mobile network give -8 and the privacy mask -1, but
  the WiFi settings and the recorder report success, with everything zero.\<close>

theorem cfg_error_replies:
  assumes "msg_buffer msg" "r \<noteq> 0" "m = msg_print (reply r []) msg" "k = msg_print (reply PTC_OK []) msg"
  shows "tool_ptc_qh_d2c_decode_getStatus m c1 = Inr (int32 (- sint r), c1)
    \<and> tool_ptc_qh_d2c_decode_getWorkMode m c2 = Inr (int32 (- sint r), c2)
    \<and> tool_ptc_qh_d2c_decode_getMobile m c3 = Inr (int32 (- sint r), c3)
    \<and> tool_ptc_qh_d2c_decode_getWifi m c4 = Inr (int32 (- sint r), c4)
    \<and> tool_ptc_qh_d2c_decode_getDevRecord m c5 = Inr (int32 (- sint r), c5)
    \<and> tool_ptc_qh_d2c_decode_getAv m c6 = Inr (int32 (- sint r), c6)
    \<and> tool_ptc_qh_d2c_decode_getAlarm scan_f z m c7 = Inr (int32 (- sint r), c7)
    \<and> tool_ptc_qh_d2c_decode_setWifi m = Inr (int32 (- sint r))
    \<and> tool_ptc_qh_d2c_decode_setWifi k = Inr 0
    \<and> tool_ptc_qh_d2c_decode_getStatus k c1 = Inr (- 8, c1)
    \<and> (\<exists>c. tool_ptc_qh_d2c_decode_getWorkMode k c2 = Inr (- 8, c))
    \<and> (\<exists>c. tool_ptc_qh_d2c_decode_getMobile k c3 = Inr (- 8, c))
    \<and> tool_ptc_qh_d2c_decode_getWifi k c4 = Inr (0, wifi_zero)
    \<and> tool_ptc_qh_d2c_decode_getDevRecord k c5 = Inr (0, devRecord_zero)
    \<and> tool_ptc_qh_d2c_decode_getAv k c6 = Inr (- 1, c6)"
  using error_replies [OF assms(1-3)] bare_replies [OF assms(1,4)]
  by (simp add: tool_ptc_qh_d2c_decode_setWifi_def)

theorem cfg_error_replies_witness:
  "tool_ptc_qh_d2c_decode_getWifi (msg_print (reply 2 []) blank_msg) demo_wifi = Inr (- 2, demo_wifi)
    \<and> tool_ptc_qh_d2c_decode_getWifi (msg_print (reply PTC_OK []) blank_msg) demo_wifi = Inr (0, wifi_zero)"
proof -
  have two: "(2 :: u32) \<noteq> 0" by simp
  have "tool_ptc_qh_d2c_decode_getWifi (msg_print (reply 2 []) blank_msg) demo_wifi = Inr (int32 (- sint (2 :: u32)), demo_wifi)
      \<and> tool_ptc_qh_d2c_decode_getWifi (msg_print (reply PTC_OK []) blank_msg) demo_wifi = Inr (0, wifi_zero)"
    using cfg_error_replies [OF blank_msg_buffer two refl refl, of _ _ _ demo_wifi _ _ "\<lambda>_. None :: (int \<times> string) option"] by blast
  then show ?thesis by (simp add: int32_id)
qed

text \<open>The crossing direction of an alarm is lost both ways: the device ignores the direction a
  client sets, and its reply does not carry one, so the client always reads 0. The kind, the switch
  and the rectangle survive when the \<open>%f\<close> conversions carry the coordinates.\<close>

theorem alarm_direction_lost:
  assumes "msg_buffer msg" "rect_ok fmt_f scan_f (alarm_rect a)"
  shows "(\<exists>m. tool_ptc_qh_c2d_decode_setAlarm scan_f z (snd (tool_ptc_qh_c2d_encode_setAlarm fmt_f msg t a)) t' d
           = Inr (0, m, t, a\<lparr> alarm_drt := 0 \<rparr>))
    \<and> tool_ptc_qh_d2c_decode_getAlarm scan_f z (snd (tool_ptc_qh_d2c_encode_getAlarm fmt_f msg a)) d
           = Inr (0, a\<lparr> alarm_drt := 0 \<rparr>)"
  using setAlarm_rt [OF assms] getAlarm_rt [OF assms] by blast

lemma int_coord_ok: "length (print_int i) \<le> 20 \<Longrightarrow> coord_ok print_int scan_int i"
  by (auto simp: coord_ok_def scan_int_print_int is_digit_def)

theorem alarm_direction_lost_witness:
  "tool_ptc_qh_d2c_decode_getAlarm scan_int 0
     (snd (tool_ptc_qh_d2c_encode_getAlarm print_int blank_msg
        \<lparr> alarm_enable = 1, alarm_rect = zero_rect 5, alarm_drt = 2 \<rparr>)) (alarm_zero 0)
   = Inr (0, \<lparr> alarm_enable = 1, alarm_rect = zero_rect (5 :: int), alarm_drt = 0 \<rparr>)"
proof -
  have "length (print_int 5) \<le> 20" using int32_print_length [of 5] by simp
  then have "rect_ok print_int scan_int (zero_rect 5)"
    by (simp add: rect_ok_def rect_list_def zero_rect_def Let_def int_coord_ok)
  then show ?thesis
    using alarm_direction_lost [OF blank_msg_buffer, of print_int scan_int
        "\<lparr> alarm_enable = 1, alarm_rect = zero_rect 5, alarm_drt = 2 \<rparr>" 0] by simp
qed

end
