(* ===== verification/Ptc_Search_Rt.thy ===== *)
theory Ptc_Search_Rt
  imports Ptc_Search Ptc_Cfg_Rt
begin

text \<open>
  What the searches of \<^verbatim>\<open>Ptc_Search\<close> deliver: the replies with recordings and days survive the
  way through a frame, with the one limit that the last place of the array of records cannot be
  used; logs survive when their rows fit the buffer they are printed in.
\<close>

section \<open>The rows\<close>

lemma row_text_obj:
  assumes "clean_fields fs" "\<forall>(m, v) \<in> set fs. CHR ''}'' \<notin> set m \<and> CHR ''}'' \<notin> set v"
  shows "row_text (json_obj fs)"
proof -
  have "CHR ''}'' \<notin> set (json_fields fs)"
    using assms(2) by (induction fs rule: json_fields.induct) (auto simp: json_field_def)
  with clean_NUL [OF assms(1)] show ?thesis by (auto simp: row_text_def json_obj_def)
qed

lemma print_int_no: "\<not> is_digit c \<Longrightarrow> c \<noteq> CHR ''-'' \<Longrightarrow> c \<notin> set (print_int i)"
  using print_int_chars [of c i] by blast

lemma fmt_no_brace [json_calc]:
  "CHR ''}'' \<notin> set (fmt_d w)" "CHR ''}'' \<notin> set (fmt_b b)" "CHR ''}'' \<notin> set (fmt_h h)"
  "CHR ''}'' \<notin> set (fmt_ipv4 ip)"
  by (simp_all add: print_int_no is_digit_def fmt_d_def fmt_b_def fmt_h_def fmt_ipv4_def dotted_def)

lemma strstr_digits: "\<not> is_digit c \<Longrightarrow> c \<noteq> CHR ''-'' \<Longrightarrow> c_strstr (fmt_d w @ t) (c # p) = c_strstr t (c # p)"
  using plain_fmt(1) [of w] by (intro c_strstr_skip) (auto simp: fmt_d_def print_int_no plain_def)

lemma fmt_OK: "fmt_d PTC_OK = ''0''"
  by (simp add: fmt_d_def PTC_OK_def print_int_def print_nat.simps digit_char_def char_of_def bit_0)

lemma array_head_text:
  "array_head name num @ t = ''{'' @ quoted ''result'' @ '':'' @ quoted ''0'' @ '','' @ quoted ''num'' @ '':'' @
     CHR 0x22 # fmt_d num @ CHR 0x22 # CHR '','' # CHR 0x22 # name @ CHR 0x22 # CHR '':'' # CHR ''['' # t"
  by (simp add: array_head_def json_field_def fmt_OK quoted_def)

text \<open>Characters of Base64 text.\<close>

lemma base64_encode_plain:
  "cstr (base64_encode xs) = base64_encode_loop xs" "plain (base64_encode_loop xs)"
  "CHR ''}'' \<notin> set (base64_encode_loop xs)"
proof -
  have t: "NUL \<notin> set base64char" "CHR 0x22 \<notin> set base64char" "CHR ''}'' \<notin> set base64char"
    unfolding base64char_def by code_simp+
  have "c \<notin> set (base64_encode_loop xs)" if "c \<notin> set base64char" "c \<noteq> CHR ''=''" for c
    using base64_encode_loop_chars [of xs] that by blast
  with t have n: "NUL \<notin> set (base64_encode_loop xs)" "CHR 0x22 \<notin> set (base64_encode_loop xs)"
    "CHR ''}'' \<notin> set (base64_encode_loop xs)" by simp_all
  then show "CHR ''}'' \<notin> set (base64_encode_loop xs)" "plain (base64_encode_loop xs)" by (simp_all add: plain_def)
  show "cstr (base64_encode xs) = base64_encode_loop xs"
    using n(1) by (simp add: base64_encode_def cstr_append_NUL)
qed

lemma length_fmt_ipv4_short: "length (fmt_ipv4 ip) \<le> 47"
  using fmt_length(2) [of "ip ! 0"] fmt_length(2) [of "ip ! 1"] fmt_length(2) [of "ip ! 2"] fmt_length(2) [of "ip ! 3"]
  by (simp add: fmt_ipv4_def dotted_def fmt_b_def)

definition record_ok :: "ptc_cfg_record \<Rightarrow> bool" where
  "record_ok r \<longleftrightarrow> length (rec_file_info r) = 128"

definition log_ok :: "ptc_log_v2 \<Rightarrow> bool" where
  "log_ok l \<longleftrightarrow> char_array 64 (log_data l) \<and> CHR ''}'' \<notin> set (cstr (log_data l)) \<and> length (log_ip l) = 4 \<and>
     length (json_obj (log_fields l)) < 128"

interpretation log_array: row_array 128 "''log''" 512 "\<lambda>l. json_obj (log_fields l)" log_ok
proof
  show "c_strstr (array_head ''log'' num @ t) ''log'' = Some (''log'' @ CHR 0x22 # CHR '':'' # CHR ''['' # t)" for num t
    unfolding array_head_text by (simp add: quoted_def strstr_digits is_digit_def)
  show "row_text (json_obj (log_fields x))" if "log_ok x" for x
    using that char_array_facts(1) [of 64 "log_data x"]
    by (intro row_text_obj) (simp_all add: log_ok_def log_fields_def json_calc)
qed (simp_all add: plain_def log_ok_def)

interpretation record_array: row_array 512 "''record''" 512 "\<lambda>r. json_obj (record_fields r)" record_ok
proof
  show "c_strstr (array_head ''record'' num @ t) ''record'' = Some (''record'' @ CHR 0x22 # CHR '':'' # CHR ''['' # t)" for num t
    unfolding array_head_text by (simp add: quoted_def strstr_digits is_digit_def)
  show "row_text (json_obj (record_fields x))" if "record_ok x" for x
    by (intro row_text_obj) (simp_all add: record_fields_def json_calc base64_encode_plain)
  have b: "length (json_obj (record_fields x)) \<le> 400" if "record_ok x" for x
    using that fmt_length(1) [of "rec_start_time x"] fmt_length(1) [of "rec_end_time x"] fmt_length(1) [of "rec_size x"]
      fmt_length(2) [of "rec_channel x"] fmt_length(2) [of "rec_type x"] fmt_length(2) [of "rec_sub_type x"]
    by (simp add: record_ok_def record_fields_def json_obj_def json_field_def base64_encode_plain length_base64_encode_loop)
  show "length (json_obj (record_fields x)) \<le> 400" "length (json_obj (record_fields x)) < 512" if "record_ok x" for x
    using b [OF that] by simp_all
qed (simp_all add: plain_def)

interpretation date_array: row_array 128 "''date''" 256 "\<lambda>d. json_obj (date_fields d)" "\<lambda>_. True"
proof
  show "c_strstr (array_head ''date'' num @ t) ''date'' = Some (''date'' @ CHR 0x22 # CHR '':'' # CHR ''['' # t)" for num t
    unfolding array_head_text by (simp add: quoted_def strstr_digits is_digit_def)
  show "row_text (json_obj (date_fields x))" for x
    by (intro row_text_obj) (simp_all add: date_fields_def json_calc)
  have "length (json_obj (date_fields x)) \<le> 127" for x
    using fmt_length(1) [of "date_year x"] fmt_length(1) [of "date_month x"] fmt_length(1) [of "date_day x"]
    by (simp add: date_fields_def json_obj_def json_field_def)
  then show "length (json_obj (date_fields x)) \<le> 400" "length (json_obj (date_fields x)) < 128" for x
    by (simp_all add: less_Suc_eq_le order_trans [of _ 127] le_less_trans [of _ 127])
qed (simp_all add: plain_def)

section \<open>Reading the rows\<close>

lemma fields_row:
  assumes "clean_fields fs" "\<forall>(n, f) \<in> set rs. numbered fs n"
  shows "read_fields err (json_obj fs @ [NUL]) rs c = Inr (0, fields_do fs rs c)"
  using assms by (intro read_fields_obj) (auto simp: says_def)

lemma date_row: "read_fields (- 8) (json_obj (date_fields x) @ [NUL]) date_reads y = Inr (0, x)"
proof -
  have "read_fields (- 8) (json_obj (date_fields x) @ [NUL]) date_reads y =
      Inr (0, fields_do (date_fields x) date_reads y)"
    by (intro fields_row) (simp_all add: date_fields_def date_reads_def json_calc)
  also have "fields_do (date_fields x) date_reads y = x"
    by (simp add: date_fields_def date_reads_def json_calc)
  finally show ?thesis .
qed

lemma date_rows_all:
  assumes "length (dates d) = 1024" "unat (dates_num d) + length xs \<le> 1024"
  shows "\<exists>d'. date_rows (map (\<lambda>x. json_obj (date_fields x) @ [NUL]) xs) d = Inr (0, d')
     \<and> unat (dates_num d') = unat (dates_num d) + length xs
     \<and> take (unat (dates_num d')) (dates d') = take (unat (dates_num d)) (dates d) @ xs"
  using assms
proof (induction xs arbitrary: d)
  case (Cons x xs)
  define d1 where "d1 = d\<lparr> dates := (dates d)[unat (dates_num d) := x], dates_num := dates_num d + 1 \<rparr>"
  have n: "unat (dates_num d + 1) = unat (dates_num d) + 1"
    using Cons.prems(2) by (subst unat_word_ariths) simp
  have "take (unat (dates_num d1)) (dates d1) = take (unat (dates_num d)) (dates d) @ [x]"
    using Cons.prems by (simp add: d1_def n take_Suc_conv_app_nth)
  moreover have "\<exists>d'. date_rows (map (\<lambda>x. json_obj (date_fields x) @ [NUL]) xs) d1 = Inr (0, d')
     \<and> unat (dates_num d') = unat (dates_num d1) + length xs
     \<and> take (unat (dates_num d')) (dates d') = take (unat (dates_num d1)) (dates d1) @ xs"
    using Cons.prems by (intro Cons.IH) (simp_all add: d1_def n)
  ultimately show ?case
    using Cons.prems by (simp add: date_row Let_def PTC_RECORDS_SIZE_def n d1_def)
qed simp

lemma searchDates_rt:
  assumes "frame_buffer frame" "dates_num d = of_nat (length xs)" "dates d = xs @ rest_dates" "length xs \<le> 1024"
    and "length (dates c) = 1024" "dates_num c = 0"
  shows "\<exists>f c'. tool_ptc_qh_d2c_encode_searchDates frame d = Inr (0, f)
     \<and> tool_ptc_qh_d2c_decode_searchDates (Suc fuel) f c = Inr (0, c')
     \<and> dates_num c' = dates_num d \<and> take (length xs) (dates c') = xs"
proof -
  have n: "unat (dates_num d) = length xs" using assms(2,4) by (simp add: unat_of_nat_u32)
  from date_array.printed [of xs frame "dates_num d"] assms(1,4) obtain f where
    f: "print_array 128 ''date'' (dates_num d) (map (\<lambda>x. json_obj (date_fields x)) xs) frame = Inr f"
      "says (frame_text f) (array_text ''date'' (dates_num d) (map (\<lambda>x. json_obj (date_fields x)) xs))"
    by (auto simp: frame_carries_def list_all_iff)
  have enc: "tool_ptc_qh_d2c_encode_searchDates frame d = Inr (0, f)"
    using f(1) assms(3,4) n by (simp add: tool_ptc_qh_d2c_encode_searchDates_def PTC_DATES_SIZE_def)
  from date_rows_all [of c xs] assms(4-6) obtain c' where
    c': "date_rows (map (\<lambda>x. json_obj (date_fields x) @ [NUL]) xs) c = Inr (0, c')"
      "unat (dates_num c') = length xs" "take (length xs) (dates c') = xs" by auto
  have "tool_ptc_qh_d2c_decode_searchDates (Suc fuel) f c = Inr (0, c')"
    using date_array.read_back [OF _ assms(4) f(2)] c'(1)
    by (simp add: tool_ptc_qh_d2c_decode_searchDates_def PTC_DATES_SIZE_def list_all_iff)
  moreover have "dates_num c' = dates_num d" using c'(2) n by (simp add: word_unat_eq_iff)
  ultimately show ?thesis using enc c'(3) by blast
qed

text \<open>What arrives of a recording: the reserved bytes do not travel.\<close>

definition sent_record :: "ptc_cfg_record \<Rightarrow> ptc_cfg_record" where
  "sent_record x = x\<lparr> rec_reserve := replicate 17 0 \<rparr>"

lemma record_row:
  "read_fields (- 8) (json_obj (record_fields x) @ [NUL]) record_reads record_zero =
     Inr (0, (sent_record x)\<lparr> rec_file_info := replicate 128 0 \<rparr>)"
proof -
  have "read_fields (- 8) (json_obj (record_fields x) @ [NUL]) record_reads record_zero =
      Inr (0, fields_do (record_fields x) record_reads record_zero)"
    by (intro fields_row) (simp_all add: record_fields_def record_reads_def base64_encode_plain json_calc)
  also have "fields_do (record_fields x) record_reads record_zero =
      (sent_record x)\<lparr> rec_file_info := replicate 128 0 \<rparr>"
    by (simp add: record_fields_def record_reads_def sent_record_def record_zero_def json_calc)
  finally show ?thesis .
qed

lemma record_info_text:
  assumes "record_ok x" "length buf = 512"
  shows "\<exists>buf'. tool_json2_getValue (json_obj (record_fields x) @ [NUL]) ''file_info_base64'' buf 512 = Inr (0, buf')
     \<and> length buf' = 512 \<and> base64_decode buf' = Inr (rec_file_info x @ [0], 128)"
proof -
  let ?v = "base64_encode_loop (rec_file_info x)"
  have len: "length ?v = 172" using assms(1) by (simp add: length_base64_encode_loop record_ok_def)
  have "tool_json2_getValue (json_obj (record_fields x) @ [NUL]) ''file_info_base64'' buf 512 =
      andThen (buf_put 0 (?v @ [NUL]) buf) (\<lambda>b. Inr (0, b))"
    using getValue_field [of "''file_info_base64''" "record_fields x" ?v 512 "[]" buf] len
    by (simp add: record_fields_def first_field_Cons base64_encode_plain json_calc)
  then show ?thesis
    using len assms by (simp add: buf_put_def base64_decode_def base64_decode_encode_loop record_ok_def)
qed

lemma spill_one: "spill [b] (r # rs) = Inr (record_of_bytes (b # drop 1 (record_bytes r)) # rs)"
  by simp

declare spill.simps(2,3) [simp del]

lemma store_record:
  assumes "Suc i < length rs" "length info = 128"
  shows "\<exists>rs'. store_info i (info @ [0]) rs = Inr rs' \<and> length rs' = length rs
           \<and> take (Suc i) rs' = take i rs @ [(rs ! i)\<lparr> rec_file_info := info @ drop 129 (rec_file_info (rs ! i)) \<rparr>]"
proof -
  obtain q qs where q: "drop (Suc i) rs = q # qs" using assms(1) by (cases "drop (Suc i) rs") auto
  then have "length rs = Suc i + length (q # qs)" using assms(1) by (metis length_drop le_add_diff_inverse less_imp_le)
  then show ?thesis using assms by (auto simp: store_info_def q spill_one Let_def)
qed

lemma store_last_record:
  assumes "Suc i = length rs" "length info = 128"
  shows "store_info i (info @ [0]) rs = Inl Fault"
  using assms by (simp add: store_info_def spill.simps)

lemma record_rows_step:
  assumes "record_ok x" "i = unat (recs_num c)" "length buf = 512" "length (recs c) = 1024" "Suc i < 1024"
  shows "\<exists>buf' c'. length buf' = 512 \<and> length (recs c') = 1024 \<and> unat (recs_num c') = Suc i
     \<and> take (Suc i) (recs c') = take i (recs c) @ [sent_record x]
     \<and> (\<forall>rows. record_rows i ((json_obj (record_fields x) @ [NUL]) # rows) buf c = record_rows (Suc i) rows buf' c')"
proof -
  from record_info_text [OF assms(1,3)] obtain buf' where
    b: "tool_json2_getValue (json_obj (record_fields x) @ [NUL]) ''file_info_base64'' buf 512 = Inr (0, buf')"
      "length buf' = 512" "base64_decode buf' = Inr (rec_file_info x @ [0], 128)" by blast
  let ?rs = "(recs c)[i := (sent_record x)\<lparr> rec_file_info := replicate 128 0 \<rparr>]"
  from store_record [of i ?rs "rec_file_info x"] assms obtain rs' where
    r: "store_info i (rec_file_info x @ [0]) ?rs = Inr rs'" "length rs' = 1024"
      "take (Suc i) rs' = take i (recs c) @ [sent_record x]"
    by (auto simp: record_ok_def sent_record_def)
  have "unat (recs_num c + 1) = Suc i" using assms by (subst unat_word_ariths) simp
  moreover have "record_rows i ((json_obj (record_fields x) @ [NUL]) # rows) buf c =
      record_rows (Suc i) rows buf' (c\<lparr> recs := rs', recs_num := recs_num c + 1 \<rparr>)" for rows
    using assms b r by (simp add: PTC_RECORDS_SIZE_def record_row Let_def)
  ultimately show ?thesis
    using b(2) r(2,3)
    by (intro exI [of _ buf'] exI [of _ "c\<lparr> recs := rs', recs_num := recs_num c + 1 \<rparr>"]) simp
qed

lemma record_rows_all:
  assumes "list_all record_ok xs" "length (recs c) = 1024" "unat (recs_num c) + length xs < 1024" "length buf = 512"
  shows "\<exists>buf' c'. length buf' = 512 \<and> length (recs c') = 1024 \<and> unat (recs_num c') = unat (recs_num c) + length xs
     \<and> take (unat (recs_num c')) (recs c') = take (unat (recs_num c)) (recs c) @ map sent_record xs
     \<and> (\<forall>rows. record_rows (unat (recs_num c)) (map (\<lambda>x. json_obj (record_fields x) @ [NUL]) xs @ rows) buf c =
          record_rows (unat (recs_num c')) rows buf' c')"
  using assms
proof (induction xs arbitrary: c buf)
  case (Cons x xs)
  from record_rows_step [of x "unat (recs_num c)" c buf] Cons.prems obtain buf1 c1 where
    c1: "length buf1 = 512" "length (recs c1) = 1024" "unat (recs_num c1) = Suc (unat (recs_num c))"
      "take (Suc (unat (recs_num c))) (recs c1) = take (unat (recs_num c)) (recs c) @ [sent_record x]"
      "\<forall>rows. record_rows (unat (recs_num c)) ((json_obj (record_fields x) @ [NUL]) # rows) buf c =
         record_rows (Suc (unat (recs_num c))) rows buf1 c1" by auto
  have "\<exists>buf' c'. length buf' = 512 \<and> length (recs c') = 1024 \<and> unat (recs_num c') = unat (recs_num c1) + length xs
     \<and> take (unat (recs_num c')) (recs c') = take (unat (recs_num c1)) (recs c1) @ map sent_record xs
     \<and> (\<forall>rows. record_rows (unat (recs_num c1)) (map (\<lambda>x. json_obj (record_fields x) @ [NUL]) xs @ rows) buf1 c1 =
          record_rows (unat (recs_num c')) rows buf' c')"
    using Cons.prems c1 by (intro Cons.IH) simp_all
  with c1 show ?case by (simp del: record_rows.simps)
next
  case Nil
  then show ?case by auto
qed

lemma record_rows_last:
  assumes "record_ok x" "length (recs c) = 1024" "unat (recs_num c) = 1023" "length buf = 512"
  shows "record_rows 1023 [json_obj (record_fields x) @ [NUL]] buf c = Inl Fault"
proof -
  from record_info_text [OF assms(1,4)] obtain buf' where
    b: "tool_json2_getValue (json_obj (record_fields x) @ [NUL]) ''file_info_base64'' buf 512 = Inr (0, buf')"
      "base64_decode buf' = Inr (rec_file_info x @ [0], 128)" by blast
  show ?thesis
    using assms(1-3) b store_last_record [of 1023 "(recs c)[1023 := (sent_record x)\<lparr> rec_file_info := replicate 128 0 \<rparr>]"
        "rec_file_info x"]
    by (simp add: PTC_RECORDS_SIZE_def record_row Let_def record_ok_def)
qed

lemma getRecords_sent:
  assumes "frame_buffer frame" "recs_num d = of_nat (length xs)" "recs d = xs @ rest_recs"
    and "list_all record_ok xs" "length xs \<le> 1024"
  shows "\<exists>f. tool_ptc_qh_d2c_encode_getRecords frame d = Inr (0, f)
     \<and> (\<forall>fuel c. tool_ptc_qh_d2c_decode_getRecords (Suc fuel) f c =
          andThen (record_rows 0 (map (\<lambda>x. json_obj (record_fields x) @ [NUL]) xs) (replicate 512 NUL)
            (c\<lparr> recs_num := 0 \<rparr>)) (\<lambda>c. Inr (0, c)))"
proof -
  have n: "unat (recs_num d) = length xs" using assms(2,5) by (simp add: unat_of_nat_u32)
  from record_array.printed [OF assms(4,5,1), of "recs_num d"] obtain f where
    f: "print_array 512 ''record'' (recs_num d) (map (\<lambda>x. json_obj (record_fields x)) xs) frame = Inr f"
      "says (frame_text f) (array_text ''record'' (recs_num d) (map (\<lambda>x. json_obj (record_fields x)) xs))"
    by (auto simp: frame_carries_def)
  have "tool_ptc_qh_d2c_encode_getRecords frame d = Inr (0, f)"
    using f(1) assms(3,5) n by (simp add: tool_ptc_qh_d2c_encode_getRecords_def PTC_RECORDS_SIZE_def)
  then show ?thesis
    by (simp add: tool_ptc_qh_d2c_decode_getRecords_def PTC_RECORDS_SIZE_def Let_def
        record_array.read_back [OF assms(4,5) f(2)])
qed

section \<open>Logs read back\<close>

lemma fmt_ipv4_not_data: "fmt_ipv4 ip \<noteq> ''data''"
proof
  assume "fmt_ipv4 ip = ''data''"
  moreover have "CHR ''d'' \<notin> set (fmt_ipv4 ip)"
    by (simp add: print_int_no is_digit_def fmt_ipv4_def dotted_def)
  ultimately show False by simp
qed

lemma log_row_read:
  assumes "log_ok x"
  shows "log_row (json_obj (log_fields x) @ [NUL]) = Inr (0, x)"
proof -
  note c = assms [unfolded log_ok_def, THEN conjunct1]
  note id = char_array_facts [OF c] char_array_fill [OF c]
  have ip: "length (log_ip x) = 4" using assms by (simp add: log_ok_def)
  have cl: "clean_fields (log_fields x)" using id by (simp add: log_fields_def json_calc)
  have "read_fields (- 8) (json_obj (log_fields x) @ [NUL]) log_reads log_zero =
      Inr (0, fields_do (log_fields x) log_reads log_zero)"
    using cl by (intro fields_row) (simp_all add: log_fields_def log_reads_def json_calc)
  also have "fields_do (log_fields x) log_reads log_zero = x\<lparr> log_ip := replicate 4 0, log_data := replicate 64 NUL \<rparr>"
    by (simp add: log_fields_def log_reads_def log_zero_def json_calc)
  finally have r: "read_fields (- 8) (json_obj (log_fields x) @ [NUL]) log_reads log_zero =
      Inr (0, x\<lparr> log_ip := replicate 4 0, log_data := replicate 64 NUL \<rparr>)" .
  have "tool_json2_getIpv4 (json_obj (log_fields x) @ NUL # []) ''ip'' =
      Inr (Some (map of_int [uint (log_ip x ! 0), uint (log_ip x ! 1), uint (log_ip x ! 2), uint (log_ip x ! 3)]))"
    using cl length_fmt_ipv4_short [of "log_ip x"]
    by (intro getIpv4_field) (simp_all add: log_fields_def first_field_Cons fmt_ipv4_def json_calc)
  then have i: "tool_json2_getIpv4 (json_obj (log_fields x) @ [NUL]) ''ip'' = Inr (Some (log_ip x))"
    using list_of_four [OF ip] by simp
  have v: "tool_json2_getValue (json_obj (log_fields x) @ [NUL]) ''data'' (replicate 64 NUL) 64 = Inr (0, log_data x)"
    using getValue_field [OF _ cl, of "''data''" "cstr (log_data x)" 64 "[]" "replicate 64 NUL"] id
    by (simp add: log_fields_def first_field_Cons fmt_ipv4_not_data buf_put_start json_calc)
  show ?thesis by (simp add: log_row_def r i v)
qed

lemma log_rows_all:
  assumes "list_all log_ok xs" "length (log_v2 l) = 1024" "unat (logs_num l) + length xs \<le> 1024"
  shows "\<exists>l'. log_rows (unat (logs_num l)) (map (\<lambda>x. json_obj (log_fields x) @ [NUL]) xs) l = Inr l'
     \<and> unat (logs_num l') = unat (logs_num l) + length xs
     \<and> take (unat (logs_num l')) (log_v2 l') = take (unat (logs_num l)) (log_v2 l) @ xs"
  using assms
proof (induction xs arbitrary: l)
  case (Cons x xs)
  define l1 where "l1 = l\<lparr> log_v2 := (log_v2 l)[unat (logs_num l) := x], logs_num := logs_num l + 1 \<rparr>"
  have n: "unat (logs_num l + 1) = Suc (unat (logs_num l))"
    using Cons.prems(3) by (subst unat_word_ariths) simp
  have "take (unat (logs_num l1)) (log_v2 l1) = take (unat (logs_num l)) (log_v2 l) @ [x]"
    using Cons.prems by (simp add: l1_def n take_Suc_conv_app_nth)
  moreover have "\<exists>l'. log_rows (unat (logs_num l1)) (map (\<lambda>x. json_obj (log_fields x) @ [NUL]) xs) l1 = Inr l'
     \<and> unat (logs_num l') = unat (logs_num l1) + length xs
     \<and> take (unat (logs_num l')) (log_v2 l') = take (unat (logs_num l1)) (log_v2 l1) @ xs"
    using Cons.prems by (intro Cons.IH) (simp_all add: l1_def n)
  ultimately show ?case
    using Cons.prems by (simp add: log_row_read Let_def PTC_LOGS_SIZE_def n l1_def)
qed simp

lemma getLogs_rt:
  assumes "frame_buffer frame" "logs_num d = of_nat (length xs)" "log_v2 d = xs @ rest_logs"
    and "list_all log_ok xs" "length xs \<le> 1024" "length (log_v2 c) = 1024"
  shows "\<exists>f c'. tool_ptc_qh_d2c_encode_getLogs frame d = Inr (0, f)
     \<and> tool_ptc_qh_d2c_decode_getLogs (Suc fuel) f c = Inr (0, c')
     \<and> logs_num c' = logs_num d \<and> take (length xs) (log_v2 c') = xs"
proof -
  have n: "unat (logs_num d) = length xs" using assms(2,5) by (simp add: unat_of_nat_u32)
  from log_array.printed [OF assms(4,5,1), of "logs_num d"] obtain f where
    f: "print_array 128 ''log'' (logs_num d) (map (\<lambda>x. json_obj (log_fields x)) xs) frame = Inr f"
      "says (frame_text f) (array_text ''log'' (logs_num d) (map (\<lambda>x. json_obj (log_fields x)) xs))"
    by (auto simp: frame_carries_def)
  have enc: "tool_ptc_qh_d2c_encode_getLogs frame d = Inr (0, f)"
    using f(1) assms(3,5) n by (simp add: tool_ptc_qh_d2c_encode_getLogs_def PTC_LOGS_SIZE_def)
  from log_rows_all [OF assms(4), of "c\<lparr> logs_num := 0 \<rparr>"] assms(5,6) obtain c' where
    c': "log_rows 0 (map (\<lambda>x. json_obj (log_fields x) @ [NUL]) xs) (c\<lparr> logs_num := 0 \<rparr>) = Inr c'"
      "unat (logs_num c') = length xs" "take (length xs) (log_v2 c') = xs" by auto
  have "tool_ptc_qh_d2c_decode_getLogs (Suc fuel) f c = Inr (0, c')"
    by (simp add: tool_ptc_qh_d2c_decode_getLogs_def PTC_LOGS_SIZE_def Let_def
        log_array.read_back [OF assms(4,5) f(2)] c'(1))
  moreover have "logs_num c' = logs_num d" using c'(2) n by (simp add: word_unat_eq_iff)
  ultimately show ?thesis using enc c'(3) by blast
qed

text \<open>A row that was cut off has no brace of its own and takes the one that closes the reply.\<close>

lemma row_unclosed:
  "CHR ''}'' \<notin> set b \<Longrightarrow> prev \<noteq> CHR ''}'' \<Longrightarrow> json2_row y prev (b @ ''}'') = None"
proof (induction b arbitrary: prev y)
  case Nil
  have "json2_row k (CHR ''}'') [] = None" for k by (cases k) simp_all
  with Nil show ?case by (cases y) simp_all
next
  case (Cons c b)
  have "json2_row k c (b @ ''}'') = None" for k using Cons.prems by (intro Cons.IH) auto
  with Cons.prems show ?case by (cases y) simp_all
qed

lemma rows_unclosed: "json2_row y (CHR ''['') (CHR ''{'' # s) = None \<Longrightarrow> json2_rows x y (CHR ''{'' # s) = None"
  by (cases x) (simp_all del: json2_row.simps)

lemma print_array_cut:
  assumes "frame_buffer frame" "plain name" "length name \<le> 100" "NUL \<notin> set r" "length r \<le> 1000" "0 < sz"
  shows "\<exists>f. print_array sz name num [r] frame = Inr f
     \<and> says (frame_text f) (array_head name num @ take (sz - 1) r @ '']}'')"
proof -
  have l: "length (array_head name num) \<le> 160" using length_array_head [of name num] assms(3) by simp
  have h: "frame_carries (frame_print (array_head name num) frame) (array_head name num)"
    using l assms(1,2) by (intro frame_carries_print array_head_NUL) (simp_all add: PTC_VIDEO_FRAME_SIZE_def)
  let ?r = "take (sz - 1) r"
  have nul: "NUL \<notin> set ?r" using assms(4) by (auto dest: in_set_takeD)
  then have c: "cstr (fst (c_snprintf sz r)) = ?r" "snd (c_snprintf sz r) = int (length r)"
    using assms(6) by (simp_all add: c_snprintf_def cstr_append_NUL)
  have "length (array_head name num) + length ?r < PTC_VIDEO_FRAME_SIZE"
    using l assms(5) by (simp add: PTC_VIDEO_FRAME_SIZE_def)
  from frame_carries_cat [OF h nul this] obtain f1 where
    f1: "frame_cat ?r (frame_print (array_head name num) frame) = Inr f1"
      "frame_carries (frame_longer (int (length ?r)) f1) (array_head name num @ ?r)" by blast
  have "length (array_head name num @ ?r) + length '']}'' < PTC_VIDEO_FRAME_SIZE"
    using l assms(5) by (simp add: PTC_VIDEO_FRAME_SIZE_def)
  from frame_carries_cat [OF f1(2) _ this] obtain f2 where
    f2: "frame_cat '']}'' (frame_longer (int (length ?r)) f1) = Inr f2"
      "says (frame_text f2) (array_head name num @ ?r @ '']}'')"
    by (auto simp: frame_carries_def frame_longer_def frame_text_def)
  have same: "frame_cat s (frame_longer k f) = andThen (frame_cat s f) (\<lambda>f. Inr (frame_longer k f))" for s k f
    by (auto simp: frame_cat_def frame_longer_def frame_text_def Let_def buf_put_def)
  from f2(1) obtain f3 where f3: "frame_cat '']}'' f1 = Inr f3" "f2 = frame_longer (int (length ?r)) f3"
    by (auto simp: same andThen_Inr_iff)
  have "frame_text (frame_longer k f) = frame_text f" for k f by (simp add: frame_longer_def frame_text_def)
  then have s: "says (frame_text f3) (array_head name num @ ?r @ '']}'')" using f2(2) f3(2) by simp
  have "print_array sz name num [r] frame = Inr (frame_longer 2 (frame_longer (int (length r)) f3))"
    using c f1(1) f3(1) by (simp add: print_array_def case_prod_beta Let_def same)
  moreover have "says (frame_text (frame_longer 2 (frame_longer (int (length r)) f3))) (array_head name num @ ?r @ '']}'')"
    using s by (simp add: frame_longer_def frame_text_def)
  ultimately show ?thesis by blast
qed

lemma getLogs_cut:
  assumes "frame_buffer frame" "logs_num d = 1" "log_v2 d = x # rest_logs"
    and "char_array 64 (log_data x)" "CHR ''}'' \<notin> set (cstr (log_data x))" "128 \<le> length (json_obj (log_fields x))"
  shows "\<exists>f. tool_ptc_qh_d2c_encode_getLogs frame d = Inr (0, f)
     \<and> tool_ptc_qh_d2c_decode_getLogs (Suc fuel) f c = Inr (0, c\<lparr> logs_num := 0 \<rparr>)"
proof -
  let ?r = "json_obj (log_fields x)"
  note id = char_array_facts [OF assms(4)]
  have "row_text ?r"
    using id(1) assms(5) by (intro row_text_obj) (simp_all add: log_fields_def json_calc)
  then obtain b where b: "?r = CHR ''{'' # b @ ''}''" "CHR ''}'' \<notin> set b" "NUL \<notin> set b" by (auto simp: row_text_def)
  have short: "length ?r \<le> 1000"
    using id(2) fmt_length(1) [of "log_time x"] fmt_length(2) [of "log_type x"] fmt_length(2) [of "log_sub_type x"]
      fmt_length(2) [of "log_channel x"] fmt_length(2) [of "log_ch_type x"] fmt_length(3) [of "log_sub_type2 x"]
      length_fmt_ipv4_short [of "log_ip x"]
    by (simp add: log_fields_def json_obj_def json_field_def)
  have nul: "NUL \<notin> set ?r" using b by simp
  have t: "take 127 ?r = CHR ''{'' # take 126 b" using b(1) assms(6) by (simp add: take_Cons')
  define q where "q = take 126 b @ '']''"
  have q: "CHR ''}'' \<notin> set q" "NUL \<notin> set q" using b(2,3) by (auto simp: q_def dest: in_set_takeD)
  from print_array_cut [OF assms(1) _ _ nul short, of "''log''" 128 1] obtain f where
    f: "print_array 128 ''log'' 1 [?r] frame = Inr f" "says (frame_text f) (array_head ''log'' 1 @ CHR ''{'' # q @ ''}'')"
    by (auto simp: t q_def plain_def)
  have enc: "tool_ptc_qh_d2c_encode_getLogs frame d = Inr (0, f)"
    using f(1) by (simp add: tool_ptc_qh_d2c_encode_getLogs_def PTC_LOGS_SIZE_def assms(2,3))
  have nu: "NUL \<notin> set (array_head ''log'' 1 @ CHR ''{'' # q @ ''}'')"
    using array_head_NUL [of "''log''" 1] q(2) by (simp add: plain_def)
  have start: "json2_array_start (Suc fuel) ''log'' (cstr (frame_text f)) = Inr (Some (CHR ''{'' # q @ ''}''))"
    unfolding says_cstr [OF f(2) nu] by (rule array_start_found [OF log_array.name_found])
  have "json2_row 512 (CHR ''['') (CHR ''{'' # q @ ''}'') = None"
    using row_unclosed [of "CHR ''{'' # q" "CHR ''[''" 512] q(1) by simp
  then have "json2_rows 1024 512 (CHR ''{'' # q @ ''}'') = None" by (rule rows_unclosed)
  then have "tool_json2_getArray (Suc fuel) (frame_text f) ''log'' 1024 512 = Inr None"
    using start by (simp add: tool_json2_getArray_def skip_blank_def is_space_def
        del: json2_array_start.simps json2_rows.simps)
  then have "tool_ptc_qh_d2c_decode_getLogs (Suc fuel) f c = Inr (0, c\<lparr> logs_num := 0 \<rparr>)"
    by (simp add: tool_ptc_qh_d2c_decode_getLogs_def PTC_LOGS_SIZE_def Let_def read_result_array [OF f(2) nu])
  with enc show ?thesis by blast
qed

section \<open>Channels\<close>

lemma shift_bits:
  assumes "i \<le> 31"
  shows "bit (channel AND scast (push_bit i 1 :: u32)) k \<longleftrightarrow> bit (channel :: u64) k \<and> (k = i \<or> i = 31 \<and> 31 \<le> k)"
  using assms bit_imp_le_length [of channel k] by (auto simp: bit_simps)

lemma nonzero_bit: "(w :: u64) \<noteq> 0 \<longleftrightarrow> (\<exists>k. bit w k)"
proof -
  have "w = 0" if "\<forall>k. \<not> bit w k" using that by (intro bit_word_eqI) simp
  then show ?thesis by auto
qed

lemma channel_test:
  assumes "i \<le> 31"
  shows "channel AND scast (push_bit i 1 :: u32) \<noteq> 0 \<longleftrightarrow>
           bit (channel :: u64) i \<or> i = 31 \<and> (\<exists>k \<ge> 31. bit channel k)"
  unfolding nonzero_bit shift_bits [OF assms] by auto

lemma first_channel_skip:
  assumes "\<forall>k < i + n. \<not> bit channel k" "i + n \<le> 31"
  shows "first_channel_from i (n + m) channel = first_channel_from (i + n) m channel"
  using assms
proof (induction n arbitrary: i)
  case (Suc n)
  have "channel AND scast (push_bit i 1 :: u32) = 0"
    using channel_test [of i channel] Suc.prems by auto
  with Suc.prems Suc.IH [of "Suc i"] show ?case by simp
qed simp

lemma first_channel_lowest:
  assumes "bit (channel :: u64) k" "\<forall>j < k. \<not> bit channel j"
  shows "first_channel channel = Inr (of_nat (min k 31))"
proof -
  let ?i = "min k 31"
  have "first_channel_from 0 (?i + (64 - ?i)) channel = first_channel_from ?i (64 - ?i) channel"
    using first_channel_skip [of 0 ?i channel "64 - ?i"] assms(2) by simp
  moreover have "64 - ?i = Suc (63 - ?i)" by (cases "k \<le> 31") simp_all
  moreover have "channel AND scast (push_bit ?i 1 :: u32) \<noteq> 0"
    using channel_test [of ?i channel] assms(1) by (auto simp: min_def)
  ultimately show ?thesis by (simp add: first_channel_def)
qed

lemma first_channel_none: "first_channel 0 = Inl Fault"
proof -
  have "first_channel_from 0 64 0 = first_channel_from 31 33 (0 :: u64)"
    using first_channel_skip [of 0 31 0 33] by simp
  then show ?thesis by (simp add: first_channel_def numeral_eq_Suc)
qed

section \<open>Properties\<close>

text \<open>C24: A reply with recordings survives the way through a frame, file information included, for up
  to 1023 recordings (the reserved bytes do not travel); with 1024 of them the closing 0 of the last
  file information is written behind the array.\<close>

theorem getRecords_roundtrip:
  assumes "frame_buffer frame" "recs_num d = of_nat (length xs)" "recs d = xs @ rest_recs"
    and "list_all record_ok xs" "length xs \<le> 1024" "length (recs c) = 1024"
  shows "\<exists>f. tool_ptc_qh_d2c_encode_getRecords frame d = Inr (0, f)
     \<and> (if length xs < 1024
         then \<exists>c'. tool_ptc_qh_d2c_decode_getRecords (Suc fuel) f c = Inr (0, c')
                \<and> recs_num c' = recs_num d \<and> take (length xs) (recs c') = map sent_record xs
         else tool_ptc_qh_d2c_decode_getRecords (Suc fuel) f c = Inl Fault)"
proof -
  from getRecords_sent [OF assms(1-5)] obtain f where
    f: "tool_ptc_qh_d2c_encode_getRecords frame d = Inr (0, f)"
      "tool_ptc_qh_d2c_decode_getRecords (Suc fuel) f c =
         andThen (record_rows 0 (map (\<lambda>x. json_obj (record_fields x) @ [NUL]) xs) (replicate 512 NUL)
           (c\<lparr> recs_num := 0 \<rparr>)) (\<lambda>c. Inr (0, c))" by blast
  let ?ys = "take 1023 xs"
  have "list_all record_ok ?ys" using assms(4) by (auto simp: list_all_iff dest: in_set_takeD)
  from record_rows_all [OF this, of "c\<lparr> recs_num := 0 \<rparr>" "replicate 512 NUL"] assms(6) obtain buf' c' where
    c': "length buf' = 512" "length (recs c') = 1024" "unat (recs_num c') = length ?ys"
      "take (length ?ys) (recs c') = map sent_record ?ys"
      "\<And>rows. record_rows 0 (map (\<lambda>x. json_obj (record_fields x) @ [NUL]) ?ys @ rows) (replicate 512 NUL)
          (c\<lparr> recs_num := 0 \<rparr>) = record_rows (length ?ys) rows buf' c'" by fastforce
  show ?thesis
  proof (cases "length xs < 1024")
    case True
    then have xs: "?ys = xs" by simp
    have "recs_num c' = recs_num d" using c'(3) assms(2,5) by (simp add: xs word_unat_eq_iff unat_of_nat_u32)
    then show ?thesis using True f c'(4) c'(5) [of "[]"] by (auto simp: xs)
  next
    case False
    then have xs: "xs = ?ys @ [xs ! 1023]" "length ?ys = 1023"
      using assms(5) by (simp_all flip: take_Suc_conv_app_nth)
    have "record_ok (xs ! 1023)" using assms(4) False by (simp add: list_all_length)
    then have "record_rows 1023 [json_obj (record_fields (xs ! 1023)) @ [NUL]] buf' c' = Inl Fault"
      using c'(1-3) xs(2) by (intro record_rows_last) simp_all
    moreover have "map (\<lambda>x. json_obj (record_fields x) @ [NUL]) xs =
        map (\<lambda>x. json_obj (record_fields x) @ [NUL]) ?ys @ [json_obj (record_fields (xs ! 1023)) @ [NUL]]"
      by (subst xs(1)) simp
    ultimately have "record_rows 0 (map (\<lambda>x. json_obj (record_fields x) @ [NUL]) xs) (replicate 512 NUL)
        (c\<lparr> recs_num := 0 \<rparr>) = Inl Fault"
      by (simp only: c'(5) xs(2))
    with f False show ?thesis by simp
  qed
qed

definition demo_record :: ptc_cfg_record where
  "demo_record = record_zero\<lparr> rec_start_time := 1500000000, rec_channel := 3, rec_file_info := replicate 128 0x5A \<rparr>"

definition demo_records :: "nat \<Rightarrow> ptc_cfg_records" where
  "demo_records n = \<lparr> recs_start_time = 0, recs_end_time = 0, recs_channel = 0, recs_type = 0, recs_sub_type = 0,
     recs_num = of_nat n, recs = replicate n demo_record @ replicate (1024 - n) record_zero \<rparr>"

lemma demo_frame_buffer: "frame_buffer (demo_frame 0)"
  by (simp add: frame_buffer_def demo_frame_fields)

theorem getRecords_roundtrip_witness:
  "(\<exists>f c'. tool_ptc_qh_d2c_encode_getRecords (demo_frame 0) (demo_records 2) = Inr (0, f)
     \<and> tool_ptc_qh_d2c_decode_getRecords 1 f (demo_records 0) = Inr (0, c')
     \<and> take 2 (recs c') = [demo_record, demo_record])
   \<and> (\<exists>f. tool_ptc_qh_d2c_encode_getRecords (demo_frame 0) (demo_records 1024) = Inr (0, f)
     \<and> tool_ptc_qh_d2c_decode_getRecords 1 f (demo_records 0) = Inl Fault)"
proof -
  have ok: "record_ok demo_record" "sent_record demo_record = demo_record"
    by (simp_all add: record_ok_def demo_record_def sent_record_def record_zero_def)
  have d: "recs_num (demo_records n) = of_nat (length (replicate n demo_record))"
    "recs (demo_records n) = replicate n demo_record @ replicate (1024 - n) record_zero"
    "length (recs (demo_records 0)) = 1024" for n by (simp_all add: demo_records_def)
  note r = getRecords_roundtrip [OF demo_frame_buffer d(1,2) _ _ d(3), of _ 0]
  have "take 2 [demo_record, demo_record] = [demo_record, demo_record]" by simp
  then show ?thesis
    using r [of 2] r [of 1024] ok by (auto simp: list_all_iff numeral_2_eq_2)
qed

text \<open>A reply with days survives the way through a frame, for up to 1024 days and a receiver that
  counts no day yet.\<close>

theorem searchDates_roundtrip:
  assumes "frame_buffer frame" "dates_num d = of_nat (length xs)" "dates d = xs @ rest_dates" "length xs \<le> 1024"
    and "length (dates c) = 1024" "dates_num c = 0"
  shows "\<exists>f c'. tool_ptc_qh_d2c_encode_searchDates frame d = Inr (0, f)
     \<and> tool_ptc_qh_d2c_decode_searchDates (Suc fuel) f c = Inr (0, c')
     \<and> dates_num c' = dates_num d \<and> take (length xs) (dates c') = xs"
  using assms by (rule searchDates_rt)

definition demo_dates :: "ptc_cfg_date list \<Rightarrow> ptc_cfg_dates" where
  "demo_dates xs = \<lparr> dates_channel = 1, dates_type = 0, dates_sub_type = 0, dates_num = of_nat (length xs),
     dates = xs @ replicate (1024 - length xs) \<lparr> date_year = 0, date_month = 0, date_day = 0 \<rparr> \<rparr>"

theorem searchDates_roundtrip_witness:
  "\<exists>f c'. tool_ptc_qh_d2c_encode_searchDates (demo_frame 0)
       (demo_dates [\<lparr> date_year = 2015, date_month = 12, date_day = 31 \<rparr>]) = Inr (0, f)
     \<and> tool_ptc_qh_d2c_decode_searchDates 1 f (demo_dates []) = Inr (0, c')
     \<and> dates_num c' = 1 \<and> dates c' ! 0 = \<lparr> date_year = 2015, date_month = 12, date_day = 31 \<rparr>"
proof -
  let ?x = "\<lparr> date_year = 2015, date_month = 12, date_day = 31 \<rparr>"
  from searchDates_roundtrip [OF demo_frame_buffer, of "demo_dates [?x]" "[?x]" _ "demo_dates []" 0] obtain f c' where
    "tool_ptc_qh_d2c_encode_searchDates (demo_frame 0) (demo_dates [?x]) = Inr (0, f)"
    "tool_ptc_qh_d2c_decode_searchDates 1 f (demo_dates []) = Inr (0, c')" "dates_num c' = 1" "take 1 (dates c') = [?x]"
    by (auto simp: demo_dates_def)
  then show ?thesis by (cases "dates c'") auto
qed

text \<open>Logs survive the way through a frame when every row fits the 128 characters it is printed in.\<close>

theorem getLogs_roundtrip:
  assumes "frame_buffer frame" "logs_num d = of_nat (length xs)" "log_v2 d = xs @ rest_logs"
    and "list_all log_ok xs" "length xs \<le> 1024" "length (log_v2 c) = 1024"
  shows "\<exists>f c'. tool_ptc_qh_d2c_encode_getLogs frame d = Inr (0, f)
     \<and> tool_ptc_qh_d2c_decode_getLogs (Suc fuel) f c = Inr (0, c')
     \<and> logs_num c' = logs_num d \<and> take (length xs) (log_v2 c') = xs"
  using assms by (rule getLogs_rt)

definition demo_log :: "string \<Rightarrow> ptc_log_v2" where
  "demo_log s = log_zero\<lparr> log_time := 1450000000, log_ip := [10, 0, 0, 7], log_data := s @ replicate (64 - length s) NUL \<rparr>"

definition demo_logs :: "ptc_log_v2 list \<Rightarrow> ptc_logs_v2" where
  "demo_logs xs = \<lparr> logs_start_time = 0, logs_end_time = 9, logs_num = of_nat (length xs),
     log_v2 = xs @ replicate (1024 - length xs) log_zero \<rparr>"

lemma demo_log_fields:
  "fmt_d 1450000000 = ''1450000000''" "fmt_b 0 = ''0''" "fmt_h 0 = ''0''" "fmt_ipv4 [10, 0, 0, 7] = ''10.0.0.7''"
  by (simp_all add: fmt_d_def fmt_b_def fmt_h_def fmt_ipv4_def dotted_def print_int_def print_nat.simps digit_char_def
      char_of_def bit_0)

lemma demo_log_text:
  assumes "plain s" "length s < 64"
  shows "char_array 64 (log_data (demo_log s))" "cstr (log_data (demo_log s)) = s"
    and "length (json_obj (log_fields (demo_log s))) = 117 + length s"
proof -
  show "char_array 64 (log_data (demo_log s))" using assms by (auto simp: char_array_def demo_log_def)
  obtain k where "64 - length s = Suc k" using assms(2) by (cases "64 - length s") auto
  then show s: "cstr (log_data (demo_log s)) = s"
    using assms(1) by (simp add: demo_log_def cstr_append_NUL plain_def)
  show "length (json_obj (log_fields (demo_log s))) = 117 + length s"
    by (simp add: log_fields_def s) (simp add: demo_log_def log_zero_def json_obj_def json_field_def demo_log_fields)
qed

theorem getLogs_roundtrip_witness:
  "\<exists>f c'. tool_ptc_qh_d2c_encode_getLogs (demo_frame 0) (demo_logs [demo_log ''reboot'']) = Inr (0, f)
     \<and> tool_ptc_qh_d2c_decode_getLogs 1 f (demo_logs []) = Inr (0, c')
     \<and> logs_num c' = 1 \<and> take 1 (log_v2 c') = [demo_log ''reboot'']"
proof -
  have "log_ok (demo_log ''reboot'')"
    using demo_log_text [of "''reboot''"] by (simp add: log_ok_def demo_log_def [of "''reboot''"])
  then show ?thesis
    using getLogs_roundtrip [OF demo_frame_buffer, of "demo_logs [demo_log ''reboot'']" "[demo_log ''reboot'']" _ "demo_logs []" 0]
    by (auto simp: demo_logs_def)
qed

text \<open>C25: A reply with a single log, whose text has no closing brace and whose row has 128 characters or more,
  which eleven characters of text can be enough for: the row is cut off inside its quotes, the reply holds
  no row a reader could close, and the decoder reports success and no logs.\<close>

theorem getLogs_long_row_lost:
  assumes "frame_buffer frame" "logs_num d = 1" "log_v2 d = x # rest_logs"
    and "char_array 64 (log_data x)" "CHR ''}'' \<notin> set (cstr (log_data x))" "128 \<le> length (json_obj (log_fields x))"
  shows "\<exists>f. tool_ptc_qh_d2c_encode_getLogs frame d = Inr (0, f)
     \<and> tool_ptc_qh_d2c_decode_getLogs (Suc fuel) f c = Inr (0, c\<lparr> logs_num := 0 \<rparr>)"
  using assms by (rule getLogs_cut)

theorem getLogs_long_row_lost_witness:
  "\<exists>f. tool_ptc_qh_d2c_encode_getLogs (demo_frame 0) (demo_logs [demo_log ''motion in hall'']) = Inr (0, f)
     \<and> tool_ptc_qh_d2c_decode_getLogs 1 f (demo_logs [demo_log ''old'']) =
         Inr (0, (demo_logs [demo_log ''old''])\<lparr> logs_num := 0 \<rparr>)"
proof -
  note t = demo_log_text [of "''motion in hall''"]
  have "\<exists>rest_logs. log_v2 (demo_logs [demo_log ''motion in hall'']) = demo_log ''motion in hall'' # rest_logs"
    by (simp add: demo_logs_def)
  then obtain rest_logs where "log_v2 (demo_logs [demo_log ''motion in hall'']) = demo_log ''motion in hall'' # rest_logs" ..
  from getLogs_long_row_lost [OF demo_frame_buffer _ this, of 0 "demo_logs [demo_log ''old'']"] t show ?thesis
    by (simp add: demo_logs_def)
qed

text \<open>A search for recordings names the lowest channel of the set it is asked for; from channel 31 on
  every set is sent as channel 31, and the empty set runs into shifts that are undefined. Period and kind
  arrive as they are.\<close>

theorem getRecords_request:
  assumes "frame_buffer frame"
  shows "if recs_channel d = 0 then tool_ptc_qh_c2d_encode_getRecords frame d = Inl Fault
    else \<exists>k f. bit (recs_channel d) k \<and> (\<forall>j < k. \<not> bit (recs_channel d) j)
      \<and> tool_ptc_qh_c2d_encode_getRecords frame d = Inr (0, f)
      \<and> tool_ptc_qh_c2d_decode_getRecords f c = Inr (0, c\<lparr> recs_start_time := recs_start_time d,
          recs_end_time := recs_end_time d, recs_channel := of_nat (min k 31), recs_type := recs_type d,
          recs_sub_type := recs_sub_type d \<rparr>)"
proof (cases "recs_channel d = 0")
  case True
  then show ?thesis by (simp add: tool_ptc_qh_c2d_encode_getRecords_def first_channel_none)
next
  case False
  then have "\<exists>k. bit (recs_channel d) k" by (simp add: nonzero_bit)
  then obtain k where k: "bit (recs_channel d) k" "\<forall>j < k. \<not> bit (recs_channel d) j"
    by (metis exists_least_iff)
  define ch :: u32 where "ch = of_nat (min k 31)"
  let ?fs = "[(''start_time'', fmt_d (recs_start_time d)), (''end_time'', fmt_d (recs_end_time d)),
     (''channel'', fmt_d ch), (''type'', fmt_b (recs_type d)), (''sub_type'', fmt_b (recs_sub_type d))]"
  have e: "tool_ptc_qh_c2d_encode_getRecords frame d = Inr (0, frame_print (request PTC_CMD_SEARCH2_RECORDS ?fs) frame)"
    using first_channel_lowest [OF k] by (simp add: tool_ptc_qh_c2d_encode_getRecords_def ch_def)
  have sh: "short_fields ?fs" "clean_fields ?fs" by (simp_all add: json_calc)
  note says = says_frame_request [OF assms sh(1), of PTC_CMD_SEARCH2_RECORDS]
  have "sint ch = int (min k 31)"
    unfolding ch_def by (cases "k \<le> 31") (simp_all add: min_def signed_of_nat signed_take_bit_int_eq_self)
  then have "tool_ptc_qh_c2d_decode_getRecords (frame_print (request PTC_CMD_SEARCH2_RECORDS ?fs) frame) c =
      Inr (0, c\<lparr> recs_start_time := recs_start_time d, recs_end_time := recs_end_time d,
        recs_channel := of_nat (min k 31), recs_type := recs_type d, recs_sub_type := recs_sub_type d \<rparr>)"
    using sh(2) by (simp add: tool_ptc_qh_c2d_decode_getRecords_def read_fields_obj [OF says] json_calc)
  with e k False show ?thesis by auto
qed

theorem getRecords_request_witness:
  "tool_ptc_qh_c2d_encode_getRecords (demo_frame 0) (demo_records 0) = Inl Fault
   \<and> (\<exists>f. tool_ptc_qh_c2d_encode_getRecords (demo_frame 0) ((demo_records 0)\<lparr> recs_channel := 0x8000000000 \<rparr>) = Inr (0, f)
     \<and> tool_ptc_qh_c2d_decode_getRecords f (demo_records 0) = Inr (0, (demo_records 0)\<lparr> recs_channel := 31 \<rparr>))"
proof -
  let ?d = "(demo_records 0)\<lparr> recs_channel := 0x8000000000 \<rparr>"
  have c: "recs_channel (demo_records 0) = 0" "recs_channel ?d = push_bit 39 1" "recs_channel ?d \<noteq> 0"
    by (simp_all add: demo_records_def push_bit_eq_mult)
  have one: "bit (push_bit n (1 :: u64)) k \<longleftrightarrow> k = n \<and> n < 64" for n k by (auto simp: bit_simps)
  have "bit (recs_channel ?d) k \<longleftrightarrow> k = 39" for k unfolding c(2) one by simp
  then show ?thesis
    using getRecords_request [OF demo_frame_buffer, of "demo_records 0" "demo_records 0"]
      getRecords_request [OF demo_frame_buffer, of ?d "demo_records 0"] c(1,3)
    by (auto simp: demo_records_def)
qed

end
