(* ===== verification/Tool_Stream2.thy ===== *)
theory Tool_Stream2
  imports Tool_Sysf
begin

text \<open>
  The frame rings of the talk threads: what every ring of this code base promises (a queue of
  bounded length that is emptied by the write that would fill it), stated as a locale and proved
  once for all sequences of writes and reads, and \<^verbatim>\<open>sab_app/jni/nc/tool_stream2.c\<close>, a ring of 100
  slots of 3000 bytes.
\<close>

section \<open>Rings\<close>

text \<open>The slots from the read position up to the write position of a ring of \<open>n\<close>.\<close>

definition ring_list :: "(nat \<Rightarrow> 'a) \<Rightarrow> nat \<Rightarrow> nat \<Rightarrow> nat \<Rightarrow> 'a list" where
  "ring_list f n r w = map (\<lambda>i. f ((r + i) mod n)) [0..<(w + n - r) mod n]"

lemma ring_size:
  fixes n r w :: nat
  shows "r < n \<Longrightarrow> w < n \<Longrightarrow> (w + n - r) mod n = (if r \<le> w then w - r else w + n - r)"
  by (auto simp: mod_if)

lemma ring_pos: "r < n \<Longrightarrow> i < n \<Longrightarrow> (r + i) mod n = (if r + i < n then r + i else r + i - n)"
  for n r i :: nat
  by (auto simp: mod_if)

lemma ring_next: "r < n \<Longrightarrow> (r + 1) mod n = (if r + 1 = n then 0 else r + 1)"
  for n r :: nat
  by (auto simp: mod_if)

lemma ring_empty_iff: "r < n \<Longrightarrow> w < n \<Longrightarrow> ring_list f n r w = [] \<longleftrightarrow> r = w"
  by (auto simp: ring_list_def ring_size)

lemma ring_self [simp]: "ring_list f n w w = []"
  by (simp add: ring_list_def)

lemma ring_length: "length (ring_list f n r w) = (w + n - r) mod n"
  by (simp add: ring_list_def)

lemma ring_pop:
  assumes "r < n" "w < n" "r \<noteq> w"
  shows "ring_list f n r w = f r # ring_list f n ((r + 1) mod n) w"
proof -
  have "(r + 1) mod n < n" using assms by simp
  then have k: "(w + n - r) mod n = Suc ((w + n - (r + 1) mod n) mod n)"
    unfolding ring_size [OF assms(1,2)] ring_size [OF \<open>(r + 1) mod n < n\<close> assms(2)]
    using assms ring_next [OF assms(1)] by (auto split: if_splits)
  have "(r + Suc i) mod n = ((r + 1) mod n + i) mod n" for i
    by (simp add: mod_add_left_eq)
  then show ?thesis
    using assms(1) by (simp add: ring_list_def k upt_conv_Cons map_Suc_upt [symmetric] del: upt_Suc)
qed

lemma ring_cong:
  assumes "\<And>i. i < n \<Longrightarrow> i \<noteq> w \<Longrightarrow> f i = g i" "r < n" "w < n"
  shows "ring_list f n r w = ring_list g n r w"
proof -
  have "(r + i) mod n \<noteq> w" if "i < (w + n - r) mod n" for i
  proof -
    have "(w + n - r) mod n < n" using assms(2) by simp
    then have "i < n" using that by simp
    with that ring_pos [OF assms(2) this] ring_size [OF assms(2,3)] show ?thesis
      by (auto split: if_splits)
  qed
  then show ?thesis
    using assms by (simp add: ring_list_def)
qed

lemma ring_push:
  assumes f: "\<And>i. i < n \<Longrightarrow> i \<noteq> w \<Longrightarrow> g i = f i" and w: "g w = x" and r: "r < n" "w < n"
  shows "ring_list g n r ((w + 1) mod n) =
    (if Suc (length (ring_list f n r w)) = n then [] else ring_list f n r w @ [x])"
proof -
  let ?k = "(w + n - r) mod n"
  have fg: "ring_list f n r w = ring_list g n r w" using f r by (intro ring_cong) auto
  have "?k < n" using r by simp
  from ring_pos [OF r(1) this] have last: "(r + ?k) mod n = w"
    unfolding ring_size [OF r] using r by (auto split: if_splits)
  have "(w + 1) mod n < n" using r by simp
  then have "((w + 1) mod n + n - r) mod n = (if Suc ?k = n then 0 else Suc ?k)"
    unfolding ring_size [OF r] ring_size [OF r(1) \<open>(w + 1) mod n < n\<close>]
    using r ring_next [OF r(2)] by auto
  then show ?thesis
    by (simp add: fg ring_length) (simp add: ring_list_def last w)
qed

section \<open>What a ring promises\<close>

datatype 'x ring_op = Put 'x | Get

text \<open>The abstract queue: the write that would make it \<open>cap\<close> long empties it.\<close>

fun spec_step :: "nat \<Rightarrow> 'x ring_op \<Rightarrow> 'x list \<Rightarrow> 'x option \<times> 'x list" where
  "spec_step cap (Put x) q = (None, if Suc (length q) = cap then [] else q @ [x])"
| "spec_step cap Get [] = (None, [])"
| "spec_step cap Get (x # q) = (Some x, q)"

fun spec_run :: "nat \<Rightarrow> 'x ring_op list \<Rightarrow> 'x list \<Rightarrow> 'x list \<times> 'x list" where
  "spec_run cap [] q = ([], q)"
| "spec_run cap (op # ops) q =
     (let (x, q) = spec_step cap op q; (xs, q) = spec_run cap ops q in ((case x of None \<Rightarrow> xs | Some x \<Rightarrow> x # xs), q))"

fun ring_run ::
  "('x \<Rightarrow> 's \<Rightarrow> 's outcome) \<Rightarrow> ('s \<Rightarrow> ('x option \<times> 's) outcome) \<Rightarrow> 'x ring_op list \<Rightarrow> 's
     \<Rightarrow> ('x list \<times> 's) outcome" where
  "ring_run put get [] s = Inr ([], s)"
| "ring_run put get (Put x # ops) s = andThen (put x s) (\<lambda>s. ring_run put get ops s)"
| "ring_run put get (Get # ops) s =
     andThen (get s) (\<lambda>(x, s). andThen (ring_run put get ops s) (\<lambda>(xs, s).
       Inr ((case x of None \<Rightarrow> xs | Some x \<Rightarrow> x # xs), s)))"

lemma spec_puts:
  "length q + length xs < cap \<Longrightarrow> spec_run cap (map Put xs @ ops) q = spec_run cap ops (q @ xs)"
  by (induction xs arbitrary: q) (auto simp: Let_def)

lemma spec_fill:
  assumes "xs \<noteq> []" "length xs = cap"
  shows "spec_run cap (map Put xs @ ops) [] = spec_run cap ops []"
proof -
  obtain ys y where xs: "xs = ys @ [y]" using assms(1) by (cases xs rule: rev_cases) auto
  have "spec_run cap (map Put ys @ Put y # ops) [] = spec_run cap (Put y # ops) ys"
    using assms(2) spec_puts [of "[]" ys cap "Put y # ops"] by (simp add: xs)
  then show ?thesis
    using assms(2) by (simp add: xs Let_def)
qed

fun queue_run :: "'x ring_op list \<Rightarrow> 'x list \<Rightarrow> 'x list \<times> 'x list" where
  "queue_run [] q = ([], q)"
| "queue_run (Put x # ops) q = queue_run ops (q @ [x])"
| "queue_run (Get # ops) q = (take 1 q @ fst (queue_run ops (tl q)), snd (queue_run ops (tl q)))"

text \<open>Every write of the sequence finds room.\<close>

fun roomy :: "('x list \<Rightarrow> 'x \<Rightarrow> bool) \<Rightarrow> 'x ring_op list \<Rightarrow> 'x list \<Rightarrow> bool" where
  "roomy room [] q \<longleftrightarrow> True"
| "roomy room (Put x # ops) q \<longleftrightarrow> room q x \<and> roomy room ops (q @ [x])"
| "roomy room (Get # ops) q \<longleftrightarrow> roomy room ops (tl q)"

fun puts :: "'x ring_op list \<Rightarrow> 'x list" where
  "puts [] = []"
| "puts (Put x # ops) = x # puts ops"
| "puts (Get # ops) = puts ops"

lemma queue_run_conserves: "fst (queue_run ops q) @ snd (queue_run ops q) = q @ puts ops"
proof (induction ops arbitrary: q)
  case (Cons op ops)
  show ?case
  proof (cases op)
    case (Put x)
    then show ?thesis using Cons.IH [of "q @ [x]"] by simp
  next
    case Get
    then show ?thesis using Cons.IH [of "tl q"] by (cases q) auto
  qed
qed simp

lemma queue_run_puts: "queue_run (map Put xs @ ops) q = queue_run ops (q @ xs)"
  by (induction xs arbitrary: q) auto

lemma queue_run_gets: "queue_run (replicate (length q) Get) q = (q, [])"
  by (induction q) auto

text \<open>The weaker promise of a queue that keeps what it is given as long as there is room.\<close>

locale fifo =
  fixes put :: "'x \<Rightarrow> 's \<Rightarrow> 's outcome"
    and get :: "'s \<Rightarrow> ('x option \<times> 's) outcome"
    and holds :: "'s \<Rightarrow> 'x list \<Rightarrow> bool"
    and room :: "'x list \<Rightarrow> 'x \<Rightarrow> bool"
  assumes put_room: "holds s q \<Longrightarrow> room q x \<Longrightarrow> \<exists>s'. put x s = Inr s' \<and> holds s' (q @ [x])"
    and get_head: "holds s q \<Longrightarrow>
      \<exists>s'. get s = Inr (case q of [] \<Rightarrow> None | x # _ \<Rightarrow> Some x, s') \<and> holds s' (tl q)"
begin

lemma run_lossless:
  assumes "holds s q" "roomy room ops q"
  shows "\<exists>s'. ring_run put get ops s = Inr (fst (queue_run ops q), s') \<and> holds s' (snd (queue_run ops q))"
  using assms
proof (induction ops arbitrary: s q)
  case Nil
  then show ?case by auto
next
  case (Cons op ops)
  show ?case
  proof (cases op)
    case (Put x)
    with Cons.prems obtain s' where s': "put x s = Inr s'" "holds s' (q @ [x])"
      using put_room [of s q x] by auto
    from Cons.IH [OF s'(2)] Cons.prems(2) s'(1) show ?thesis by (auto simp: Put)
  next
    case Get
    from get_head [OF Cons.prems(1)] obtain s' where s':
      "get s = Inr (case q of [] \<Rightarrow> None | x # _ \<Rightarrow> Some x, s')" "holds s' (tl q)" by blast
    from Cons.IH [OF s'(2)] Cons.prems(2) obtain s'' where
      "ring_run put get ops s' = Inr (fst (queue_run ops (tl q)), s'')" "holds s'' (snd (queue_run ops (tl q)))"
      by (auto simp: Get)
    with s'(1) show ?thesis by (cases q) (auto simp: Get)
  qed
qed

text \<open>Nothing is lost, invented or reordered: what came out and what is left is what was in and came in.\<close>

lemma run_conserves:
  assumes "holds s q" "roomy room ops q"
  shows "\<exists>out s' left. ring_run put get ops s = Inr (out, s') \<and> holds s' left \<and> out @ left = q @ puts ops"
  using run_lossless [OF assms] queue_run_conserves [of ops q] by blast

end

locale ring_queue =
  fixes put :: "'x \<Rightarrow> 's \<Rightarrow> 's outcome"
    and get :: "'s \<Rightarrow> ('x option \<times> 's) outcome"
    and good :: "'s \<Rightarrow> bool"
    and content :: "'s \<Rightarrow> 'x list"
    and cap :: nat
    and fits :: "'x \<Rightarrow> bool"
  assumes put_spec: "good s \<Longrightarrow> fits x \<Longrightarrow> \<exists>s'. put x s = Inr s' \<and> good s' \<and>
      content s' = (if Suc (length (content s)) = cap then [] else content s @ [x])"
    and get_spec: "good s \<Longrightarrow> \<exists>s'. get s = Inr (case content s of [] \<Rightarrow> None | x # _ \<Rightarrow> Some x, s')
      \<and> good s' \<and> content s' = tl (content s)"
begin

text \<open>Every sequence of writes and reads does what the abstract queue does.\<close>

lemma run_refines:
  assumes "good s" "\<forall>x. Put x \<in> set ops \<longrightarrow> fits x"
  shows "\<exists>s'. ring_run put get ops s = Inr (fst (spec_run cap ops (content s)), s') \<and> good s'
      \<and> content s' = snd (spec_run cap ops (content s))"
  using assms
proof (induction ops arbitrary: s)
  case Nil
  then show ?case by simp
next
  case (Cons op ops)
  show ?case
  proof (cases op)
    case (Put x)
    with Cons.prems put_spec [of s x] obtain s' where s': "put x s = Inr s'" "good s'"
      "content s' = (if Suc (length (content s)) = cap then [] else content s @ [x])" by auto
    from Cons.IH [OF s'(2)] Cons.prems(2) s' show ?thesis
      by (auto simp: Put Let_def case_prod_beta)
  next
    case Get
    from get_spec [OF Cons.prems(1)] obtain s' where s':
      "get s = Inr (case content s of [] \<Rightarrow> None | x # _ \<Rightarrow> Some x, s')" "good s'"
      "content s' = tl (content s)" by blast
    from Cons.IH [OF s'(2)] Cons.prems(2) obtain s'' where
      "ring_run put get ops s' = Inr (fst (spec_run cap ops (content s')), s'')" "good s''"
      "content s'' = snd (spec_run cap ops (content s'))" by auto
    with s' show ?thesis
      by (cases "content s") (auto simp: Get Let_def case_prod_beta)
  qed
qed

text \<open>What is written is read in order, as long as the ring does not fill up.\<close>

sublocale lossless: fifo put get "\<lambda>s q. good s \<and> content s = q" "\<lambda>q x. fits x \<and> Suc (length q) < cap"
proof (unfold_locales, goal_cases)
  case (1 s q x)
  with put_spec [of s x] show ?case by auto
next
  case (2 s q)
  with get_spec [of s] show ?case by auto
qed

lemma roomy_puts:
  "length q + length xs < cap \<Longrightarrow> \<forall>x \<in> set xs. fits x \<Longrightarrow>
    roomy (\<lambda>q x. fits x \<and> Suc (length q) < cap) (map Put xs @ replicate k Get) q"
proof (induction xs arbitrary: q)
  case Nil
  then show ?case by (induction k arbitrary: q) auto
qed auto

lemma in_order:
  assumes "good s" "content s = []" "length xs < cap" "\<forall>x \<in> set xs. fits x"
  shows "\<exists>s'. ring_run put get (map Put xs @ replicate (length xs) Get) s = Inr (xs, s') \<and> good s' \<and> content s' = []"
  using lossless.run_lossless [of s "[]" "map Put xs @ replicate (length xs) Get"] assms
    roomy_puts [of "[]" xs "length xs"] by (simp add: queue_run_puts queue_run_gets)

text \<open>The write that fills the ring loses all of it.\<close>

lemma overrun:
  assumes "good s" "content s = []" "length xs = cap" "xs \<noteq> []" "\<forall>x \<in> set xs. fits x"
  shows "\<exists>s'. ring_run put get (map Put xs @ replicate k Get) s = Inr ([], s') \<and> good s' \<and> content s' = []"
proof -
  have "\<forall>x. Put x \<in> set (map Put xs @ replicate k Get) \<longrightarrow> fits x" using assms(5) by auto
  moreover have "spec_run cap (replicate k Get) [] = ([], [] :: 'x list)"
    by (induction k) (simp_all add: Let_def)
  ultimately show ?thesis
    using run_refines [OF assms(1), of "map Put xs @ replicate k Get"]
      spec_fill [OF assms(4,3), of "replicate k Get"] assms(2) by simp
qed

end

section \<open>The ring of tool\_stream2\<close>

definition TOOL_STREAM2_POOL_SIZE :: nat where "TOOL_STREAM2_POOL_SIZE = 100"
definition TOOL_STREAM2_DATA_SIZE :: nat where "TOOL_STREAM2_DATA_SIZE = 3000"

lemmas stream2_sizes = TOOL_STREAM2_POOL_SIZE_def TOOL_STREAM2_DATA_SIZE_def

record tool_stream2_data =
  s2_data :: "u8 list"
  s2_len :: u32

record tool_stream2 =
  s2_pool :: "tool_stream2_data list"
  s2_write_pos :: u32

text \<open>
  A pointer argument is an option; \<^verbatim>\<open>log_fatal\<close> is \<open>Exit\<close>. \<open>ret\<close> is what initialising the mutex
  returned; the mutex is counted by the system layer.
\<close>

definition tool_stream2_init :: "int \<Rightarrow> sysf \<Rightarrow> tool_stream2 option \<Rightarrow> (tool_stream2 \<times> sysf) outcome" where
  "tool_stream2_init ret sy stream =
     (case stream of None \<Rightarrow> Inl Exit
      | Some _ \<Rightarrow> Inr (\<lparr> s2_pool = replicate TOOL_STREAM2_POOL_SIZE
                          \<lparr> s2_data = replicate TOOL_STREAM2_DATA_SIZE 0, s2_len = 0 \<rparr>,
                        s2_write_pos = 0 \<rparr>, snd (tool_thread_initMutex ret sy)))"

definition tool_stream2_done :: "int \<Rightarrow> sysf \<Rightarrow> tool_stream2 option \<Rightarrow> sysf outcome" where
  "tool_stream2_done ret sy stream =
     (case stream of None \<Rightarrow> Inl Exit | Some _ \<Rightarrow> Inr (snd (tool_thread_doneMutex ret sy)))"

definition tool_stream2_initReadPos :: "tool_stream2 option \<Rightarrow> u32 option \<Rightarrow> u32 outcome" where
  "tool_stream2_initReadPos stream read_pos =
     (case (stream, read_pos) of (Some s, Some _) \<Rightarrow> Inr (s2_write_pos s) | _ \<Rightarrow> Inl Exit)"

definition tool_stream2_set :: "tool_stream2 option \<Rightarrow> u8 list option \<Rightarrow> u32 \<Rightarrow> tool_stream2 outcome" where
  "tool_stream2_set stream data len =
     (case (stream, data) of
        (Some s, Some d) \<Rightarrow>
          if len > of_nat TOOL_STREAM2_DATA_SIZE then Inr s
          else
            (let w = unat (s2_write_pos s)
             in if w \<ge> length (s2_pool s) \<or> unat len > length d then Inl Fault
                else andThen (buf_put 0 (take (unat len) d) (s2_data (s2_pool s ! w))) (\<lambda>b.
                  Inr (s\<lparr> s2_pool := (s2_pool s)[w := \<lparr> s2_data = b, s2_len = len \<rparr>],
                          s2_write_pos := (s2_write_pos s + 1) mod of_nat TOOL_STREAM2_POOL_SIZE \<rparr>)))
      | _ \<Rightarrow> Inl Exit)"

text \<open>The result is what the function returns and what \<^verbatim>\<open>*read_pos\<close>, \<^verbatim>\<open>data\<close> and \<^verbatim>\<open>*len\<close> are then.\<close>

definition tool_stream2_get ::
  "tool_stream2 option \<Rightarrow> u32 option \<Rightarrow> u8 list option \<Rightarrow> u32 option \<Rightarrow> (int \<times> u32 \<times> u8 list \<times> u32) outcome" where
  "tool_stream2_get stream read_pos data len =
     (case (stream, read_pos, data, len) of
        (Some s, Some r, Some d, Some l) \<Rightarrow>
          if r \<ge> of_nat TOOL_STREAM2_POOL_SIZE then Inl Exit
          else if r = s2_write_pos s then Inr (0, r, d, l)
          else if unat r \<ge> length (s2_pool s) then Inl Fault
          else
            (let slot = s2_pool s ! unat r;
                 next = (r + 1) mod of_nat TOOL_STREAM2_POOL_SIZE
             in if l < s2_len slot then Inr (0, next, d, l)
                else if unat (s2_len slot) > length (s2_data slot) then Inl Fault
                else andThen (buf_put 0 (take (unat (s2_len slot)) (s2_data slot)) d) (\<lambda>d.
                  Inr (1, next, d, s2_len slot)))
      | _ \<Rightarrow> Inl Exit)"

text \<open>A ring and the position of its only reader, who offers a buffer of \<open>n\<close> bytes.\<close>

definition s2_put :: "u8 list \<Rightarrow> tool_stream2 \<times> u32 \<Rightarrow> (tool_stream2 \<times> u32) outcome" where
  "s2_put x s = andThen (tool_stream2_set (Some (fst s)) (Some x) (of_nat (length x))) (\<lambda>st. Inr (st, snd s))"

definition s2_take :: "nat \<Rightarrow> tool_stream2 \<times> u32 \<Rightarrow> (u8 list option \<times> tool_stream2 \<times> u32) outcome" where
  "s2_take n s =
     andThen (tool_stream2_get (Some (fst s)) (Some (snd s)) (Some (replicate n 0)) (Some (of_nat n)))
       (\<lambda>(ret, r, d, l). Inr (if ret = 1 then Some (take (unat l) d) else None, fst s, r))"

definition slot_frame :: "tool_stream2_data \<Rightarrow> u8 list" where
  "slot_frame slot = take (unat (s2_len slot)) (s2_data slot)"

definition s2_good :: "tool_stream2 \<times> u32 \<Rightarrow> bool" where
  "s2_good s \<longleftrightarrow> length (s2_pool (fst s)) = TOOL_STREAM2_POOL_SIZE
     \<and> (\<forall>slot \<in> set (s2_pool (fst s)). length (s2_data slot) = TOOL_STREAM2_DATA_SIZE
           \<and> unat (s2_len slot) \<le> TOOL_STREAM2_DATA_SIZE)
     \<and> unat (s2_write_pos (fst s)) < TOOL_STREAM2_POOL_SIZE \<and> unat (snd s) < TOOL_STREAM2_POOL_SIZE"

definition s2_content :: "tool_stream2 \<times> u32 \<Rightarrow> u8 list list" where
  "s2_content s = ring_list (\<lambda>i. slot_frame (s2_pool (fst s) ! i)) TOOL_STREAM2_POOL_SIZE
     (unat (snd s)) (unat (s2_write_pos (fst s)))"

lemma unat_mod_inc:
  fixes w :: u32
  assumes "unat w < n" "n \<le> 1000"
  shows "unat ((w + 1) mod of_nat n) = (unat w + 1) mod n"
proof -
  have "unat (w + 1) = unat w + 1"
    using assms by (simp add: unat_word_ariths)
  then show ?thesis using assms by (simp add: unat_mod unat_of_nat_u32)
qed

lemma unat_le_of_nat_u32: "n < 2 ^ 32 \<Longrightarrow> (of_nat n :: u32) < w \<longleftrightarrow> n < unat w"
  "n < 2 ^ 32 \<Longrightarrow> w < (of_nat n :: u32) \<longleftrightarrow> unat w < n"
  "n < 2 ^ 32 \<Longrightarrow> (of_nat n :: u32) \<le> w \<longleftrightarrow> n \<le> unat w"
  by (simp_all add: word_less_nat_alt word_le_nat_alt unat_of_nat_u32)

lemma s2_put_spec:
  assumes "s2_good s" "length x \<le> TOOL_STREAM2_DATA_SIZE"
  shows "\<exists>s'. s2_put x s = Inr s' \<and> s2_good s' \<and> s2_content s' =
     (if Suc (length (s2_content s)) = TOOL_STREAM2_POOL_SIZE then [] else s2_content s @ [x])"
proof -
  let ?w = "unat (s2_write_pos (fst s))" and ?n = TOOL_STREAM2_POOL_SIZE
  let ?slot = "\<lparr> s2_data = x @ drop (length x) (s2_data (s2_pool (fst s) ! ?w)), s2_len = of_nat (length x) \<rparr>"
  let ?st = "(fst s)\<lparr> s2_pool := (s2_pool (fst s))[?w := ?slot],
     s2_write_pos := (s2_write_pos (fst s) + 1) mod of_nat ?n \<rparr>"
  from assms(1) have w: "?w < ?n" "unat (snd s) < ?n" "length (s2_pool (fst s)) = ?n"
    and d: "length (s2_data (s2_pool (fst s) ! ?w)) = TOOL_STREAM2_DATA_SIZE"
    by (auto simp: s2_good_def)
  have len: "unat (of_nat (length x) :: u32) = length x"
    using assms(2) by (simp add: unat_of_nat_u32 stream2_sizes)
  have "s2_put x s = Inr (?st, snd s)"
    using w d len assms(2)
    by (simp add: s2_put_def tool_stream2_set_def Let_def buf_put_def word_less_nat_alt unat_of_nat_u32
        stream2_sizes)
  moreover have inc: "unat ((s2_write_pos (fst s) + 1) mod of_nat ?n) = (?w + 1) mod ?n"
    using unat_mod_inc [OF w(1)] by (simp add: stream2_sizes)
  have "s2_good (?st, snd s)"
    using assms w d len inc
    by (auto simp: s2_good_def stream2_sizes dest!: set_update_subset_insert [THEN subsetD])
  moreover have "s2_content (?st, snd s) =
     (if Suc (length (s2_content s)) = ?n then [] else s2_content s @ [x])"
  proof -
    have e: "unat (s2_write_pos ?st) = (?w + 1) mod ?n"
        "s2_pool ?st = (s2_pool (fst s))[?w := ?slot]" using inc by simp_all
    show ?thesis
      unfolding s2_content_def fst_conv snd_conv e
      by (rule ring_push) (use w len in \<open>auto simp: slot_frame_def\<close>)
  qed
  ultimately show ?thesis by blast
qed

lemma s2_take_spec:
  assumes "s2_good s" "TOOL_STREAM2_DATA_SIZE \<le> n" "n < 2 ^ 32"
  shows "\<exists>s'. s2_take n s = Inr (case s2_content s of [] \<Rightarrow> None | x # _ \<Rightarrow> Some x, s')
     \<and> s2_good s' \<and> s2_content s' = tl (s2_content s)"
proof (cases "snd s = s2_write_pos (fst s)")
  case True
  with assms show ?thesis
    by (auto simp: s2_take_def tool_stream2_get_def s2_content_def ring_empty_iff s2_good_def
        word_less_nat_alt word_le_nat_alt unat_of_nat_u32 stream2_sizes)
next
  case False
  let ?r = "unat (snd s)" and ?n = TOOL_STREAM2_POOL_SIZE
  let ?slot = "s2_pool (fst s) ! ?r"
  from assms(1) have w: "unat (s2_write_pos (fst s)) < ?n" "?r < ?n" "length (s2_pool (fst s)) = ?n"
    and d: "length (s2_data ?slot) = TOOL_STREAM2_DATA_SIZE" "unat (s2_len ?slot) \<le> TOOL_STREAM2_DATA_SIZE"
    by (auto simp: s2_good_def)
  have inc: "unat ((snd s + 1) mod of_nat ?n) = (?r + 1) mod ?n"
    using unat_mod_inc [OF w(2)] by (simp add: stream2_sizes)
  have take: "s2_take n s = Inr (Some (slot_frame ?slot), fst s, (snd s + 1) mod of_nat ?n)"
    using False w d assms(2,3)
    by (simp add: s2_take_def tool_stream2_get_def Let_def buf_put_def word_less_nat_alt
        word_le_nat_alt unat_of_nat_u32 stream2_sizes slot_frame_def)
  have "?r \<noteq> unat (s2_write_pos (fst s))" using False by (simp add: word_unat_eq_iff)
  from ring_pop [OF w(2,1) this] have "s2_content s = slot_frame ?slot # s2_content (fst s, (snd s + 1) mod of_nat ?n)"
    by (simp add: s2_content_def inc)
  moreover have "s2_good (fst s, (snd s + 1) mod of_nat ?n)"
    using assms(1) inc w by (simp add: s2_good_def)
  ultimately show ?thesis using take by auto
qed

text \<open>The QH client reads with a buffer of 4096 bytes (\<^verbatim>\<open>PTC_MSG_SIZE\<close>).\<close>

interpretation s2: ring_queue s2_put "s2_take 4096" s2_good s2_content TOOL_STREAM2_POOL_SIZE
  "\<lambda>x. length x \<le> TOOL_STREAM2_DATA_SIZE"
  using s2_put_spec s2_take_spec by unfold_locales (auto simp: stream2_sizes)

lemma s2_init:
  assumes "tool_stream2_init ret sy (Some junk) = Inr (st, sy')"
  shows "s2_good (st, s2_write_pos st)" "s2_content (st, s2_write_pos st) = []"
    "tool_stream2_initReadPos (Some st) (Some r) = Inr (s2_write_pos st)"
  using assms by (auto simp: tool_stream2_init_def tool_stream2_initReadPos_def s2_good_def s2_content_def
      stream2_sizes)

section \<open>Properties\<close>

text \<open>C31: Whatever the writer and the reader of a fresh ring do, the reader sees what a queue would
  give it that is emptied by the write that makes it 100 frames long.\<close>

theorem stream2_refines_queue:
  assumes "tool_stream2_init ret sy (Some junk) = Inr (st, sy')"
    and "\<forall>x. Put x \<in> set ops \<longrightarrow> length x \<le> TOOL_STREAM2_DATA_SIZE"
  shows "\<exists>s'. andThen (tool_stream2_initReadPos (Some st) (Some r0))
      (\<lambda>r. ring_run s2_put (s2_take 4096) ops (st, r)) = Inr (fst (spec_run TOOL_STREAM2_POOL_SIZE ops []), s')"
  using s2.run_refines [OF s2_init(1) [OF assms(1)] assms(2)] s2_init(2,3) [OF assms(1)] by auto

theorem stream2_refines_queue_witness:
  "\<exists>st sy' s'. tool_stream2_init 0 sysf_start (Some \<lparr> s2_pool = [], s2_write_pos = 9 \<rparr>) = Inr (st, sy')
     \<and> andThen (tool_stream2_initReadPos (Some st) (Some 7))
      (\<lambda>r. ring_run s2_put (s2_take 4096) [Put [1, 2], Put [], Get, Put [3], Get, Get, Get] (st, r))
      = Inr ([[1, 2], [], [3]], s')"
proof -
  obtain st sy' where i: "tool_stream2_init 0 sysf_start (Some \<lparr> s2_pool = [], s2_write_pos = 9 \<rparr>) = Inr (st, sy')"
    by (auto simp: tool_stream2_init_def)
  have "\<forall>x. Put x \<in> set [Put [1, 2], Put [], Get, Put [3], Get, Get, Get] \<longrightarrow> length x \<le> TOOL_STREAM2_DATA_SIZE"
    by (auto simp: stream2_sizes)
  from stream2_refines_queue [OF i this, of 7] i show ?thesis
    by (auto simp: Let_def stream2_sizes)
qed

text \<open>Up to 99 frames the reader can be late; with the hundredth all of them are lost.\<close>

theorem stream2_late_reader:
  assumes "tool_stream2_init ret sy (Some junk) = Inr (st, sy')"
    and "\<forall>x \<in> set xs. length x \<le> TOOL_STREAM2_DATA_SIZE" and "length xs \<le> TOOL_STREAM2_POOL_SIZE"
  shows "\<exists>s'. ring_run s2_put (s2_take 4096) (map Put xs @ replicate (length xs) Get) (st, s2_write_pos st) =
      Inr (if length xs = TOOL_STREAM2_POOL_SIZE then [] else xs, s')"
proof (cases "length xs = TOOL_STREAM2_POOL_SIZE")
  case True
  then have "xs \<noteq> []" by (auto simp: stream2_sizes)
  from s2.overrun [OF s2_init(1,2) [OF assms(1)] True this assms(2), of "length xs"] True show ?thesis by auto
next
  case False
  with assms(3) have "length xs < TOOL_STREAM2_POOL_SIZE" by simp
  from s2.in_order [OF s2_init(1,2) [OF assms(1)] this assms(2)] False show ?thesis by auto
qed

theorem stream2_late_reader_witness:
  "\<exists>st sy' s'. tool_stream2_init 0 sysf_start (Some \<lparr> s2_pool = [], s2_write_pos = 9 \<rparr>) = Inr (st, sy')
     \<and> ring_run s2_put (s2_take 4096) (map Put (replicate 100 [7]) @ replicate 100 Get) (st, s2_write_pos st) = Inr ([], s')"
proof -
  obtain st sy' where i: "tool_stream2_init 0 sysf_start (Some \<lparr> s2_pool = [], s2_write_pos = 9 \<rparr>) = Inr (st, sy')"
    by (auto simp: tool_stream2_init_def)
  from stream2_late_reader [OF i, of "replicate 100 [7]"] i show ?thesis
    by (auto simp: stream2_sizes)
qed

end
