(* ===== verification/Tool_Stream1.thy ===== *)
theory Tool_Stream1
  imports Tool_Stream2 "HOL-Library.Signed_Division"
begin

text \<open>
  \<^verbatim>\<open>sab_app/jni/nc/tool_stream1.c\<close>: a ring of up to 100 slots in two uses. With a data size the
  slots own blocks of the counted heap and frames are copied in and out (\<open>set\<close>, \<open>get\<close>); this use
  implements the queue of \<^verbatim>\<open>Tool_Stream2\<close>. With data size 0 the slots hold pointers handed over by
  the writer and handed on to the reader (\<open>push\<close>, \<open>pop\<close>).
\<close>

section \<open>State\<close>

definition TOOL_STREAM1_POOL_SIZE :: nat where "TOOL_STREAM1_POOL_SIZE = 100"

record tool_stream1_data =
  s1_data :: "nat option"
  s1_len :: int

record tool_stream1 =
  s1_pool :: "tool_stream1_data list"
  s1_write_pos :: int
  s1_pool_size :: int
  s1_data_size :: int

text \<open>Copies into and out of an allocated block, by the pointer its owner holds.\<close>

definition block_write :: "nat \<Rightarrow> u8 list \<Rightarrow> sysf \<Rightarrow> sysf outcome" where
  "block_write p bs sy =
     (case (if p < 4 then None else heap sy (p - 4)) of
        None \<Rightarrow> Inl Fault
      | Some b \<Rightarrow> andThen (buf_put 0 bs (payload b)) (\<lambda>pl.
          Inr (sy\<lparr> heap := (heap sy)(p - 4 \<mapsto> b\<lparr> payload := pl \<rparr>) \<rparr>)))"

definition block_read :: "nat \<Rightarrow> nat \<Rightarrow> sysf \<Rightarrow> u8 list outcome" where
  "block_read p n sy =
     (case (if p < 4 then None else heap sy (p - 4)) of
        None \<Rightarrow> Inl Fault
      | Some b \<Rightarrow> if n \<le> length (payload b) then Inr (take n (payload b)) else Inl Fault)"

text \<open>The slot at a position, and the next position (\<^verbatim>\<open>%\<close> by zero traps).\<close>

definition s1_slot :: "tool_stream1 \<Rightarrow> int \<Rightarrow> tool_stream1_data outcome" where
  "s1_slot st i = (if 0 \<le> i \<and> i < int (length (s1_pool st)) then Inr (s1_pool st ! nat i) else Inl Fault)"

definition s1_next :: "tool_stream1 \<Rightarrow> int \<Rightarrow> int outcome" where
  "s1_next st i = (if s1_pool_size st = 0 then Inl Fault else Inr ((i + 1) smod s1_pool_size st))"

section \<open>Operations\<close>

text \<open>The loop over the slots: \<open>answer i\<close> and \<open>junk i\<close> are what the allocation of slot \<open>i\<close> returns.\<close>

fun s1_init_loop ::
  "(nat \<Rightarrow> nat option) \<Rightarrow> (nat \<Rightarrow> u8 list) \<Rightarrow> nat list \<Rightarrow> tool_stream1 \<Rightarrow> sysf \<Rightarrow> (tool_stream1 \<times> sysf) outcome" where
  "s1_init_loop answer junk [] st sy = Inr (st, sy)"
| "s1_init_loop answer junk (i # is) st sy =
     (if s1_data_size st > 0
      then andThen (tool_mem_malloc (answer i) (junk i) (of_int (s1_data_size st)) False sy) (\<lambda>(p, sy).
        s1_init_loop answer junk is (st\<lparr> s1_pool := (s1_pool st)[i := \<lparr> s1_data = Some p, s1_len = 0 \<rparr>] \<rparr>) sy)
      else s1_init_loop answer junk is (st\<lparr> s1_pool := (s1_pool st)[i := \<lparr> s1_data = None, s1_len = 0 \<rparr>] \<rparr>) sy)"

definition tool_stream1_init ::
  "(nat \<Rightarrow> nat option) \<Rightarrow> (nat \<Rightarrow> u8 list) \<Rightarrow> int \<Rightarrow> sysf \<Rightarrow> tool_stream1 option \<Rightarrow> int \<Rightarrow> int
     \<Rightarrow> (tool_stream1 \<times> sysf) outcome" where
  "tool_stream1_init answer junk ret sy stream pool_size data_size =
     (if stream = None then Inl Exit
      else if pool_size > int TOOL_STREAM1_POOL_SIZE then Inl Exit
      else s1_init_loop answer junk [0..<nat pool_size]
        \<lparr> s1_pool = replicate TOOL_STREAM1_POOL_SIZE \<lparr> s1_data = None, s1_len = 0 \<rparr>,
          s1_write_pos = 0, s1_pool_size = pool_size, s1_data_size = data_size \<rparr>
        (snd (tool_thread_initMutex ret sy)))"

definition tool_stream1_initReadPos :: "tool_stream1 option \<Rightarrow> int option \<Rightarrow> int outcome" where
  "tool_stream1_initReadPos stream read_pos =
     (case (stream, read_pos) of (Some st, Some _) \<Rightarrow> Inr (s1_write_pos st) | _ \<Rightarrow> Inl Exit)"

definition tool_stream1_set ::
  "sysf \<Rightarrow> tool_stream1 option \<Rightarrow> u8 list option \<Rightarrow> int \<Rightarrow> (tool_stream1 \<times> sysf) outcome" where
  "tool_stream1_set sy stream data len =
     (case (stream, data) of
        (Some st, Some d) \<Rightarrow>
          if len > s1_data_size st then Inr (st, sy)
          else andThen (s1_slot st (s1_write_pos st)) (\<lambda>slot.
            (case s1_data slot of
               None \<Rightarrow> Inl Exit
             | Some p \<Rightarrow>
                 if len < 0 \<or> nat len > length d then Inl Fault
                 else andThen (block_write p (take (nat len) d) sy) (\<lambda>sy.
                   andThen (s1_next st (s1_write_pos st)) (\<lambda>w.
                     Inr (st\<lparr> s1_pool := (s1_pool st)[nat (s1_write_pos st) := slot\<lparr> s1_len := len \<rparr>],
                              s1_write_pos := w \<rparr>, sy)))))
      | _ \<Rightarrow> Inl Exit)"

text \<open>
  The range check of the read position is \<^verbatim>\<open>*read_pos < 0 && *read_pos >= stream->pool_size\<close>, as in
  the code, and the slot whose pointer is checked is the one at the write position.
\<close>

definition tool_stream1_get ::
  "sysf \<Rightarrow> tool_stream1 option \<Rightarrow> int option \<Rightarrow> u8 list option \<Rightarrow> int option
     \<Rightarrow> (int \<times> int \<times> u8 list \<times> int) outcome" where
  "tool_stream1_get sy stream read_pos data len =
     (case (stream, read_pos, data, len) of
        (Some st, Some r, Some d, Some l) \<Rightarrow>
          if r < 0 \<and> r \<ge> s1_pool_size st then Inl Exit
          else if r = s1_write_pos st then Inr (0, r, d, l)
          else andThen (s1_slot st (s1_write_pos st)) (\<lambda>wslot.
            if s1_data wslot = None then Inl Exit
            else andThen (s1_slot st r) (\<lambda>slot.
              andThen (s1_next st r) (\<lambda>next.
                if l < s1_len slot then Inr (0, next, d, l)
                else (case s1_data slot of
                    None \<Rightarrow> Inl Fault
                  | Some p \<Rightarrow>
                      if s1_len slot < 0 then Inl Fault
                      else andThen (block_read p (nat (s1_len slot)) sy) (\<lambda>bs.
                        andThen (buf_put 0 bs d) (\<lambda>d. Inr (1, next, d, s1_len slot)))))))
      | _ \<Rightarrow> Inl Exit)"

fun s1_done_loop :: "nat list \<Rightarrow> tool_stream1 \<Rightarrow> sysf \<Rightarrow> (tool_stream1 \<times> sysf) outcome" where
  "s1_done_loop [] st sy = Inr (st, sy)"
| "s1_done_loop (i # is) st sy =
     andThen (s1_slot st (int i)) (\<lambda>slot.
       if s1_data slot = None then s1_done_loop is st sy
       else andThen (tool_mem_free (s1_data slot) sy) (\<lambda>sy.
         s1_done_loop is (st\<lparr> s1_pool := (s1_pool st)[i := \<lparr> s1_data = None, s1_len = 0 \<rparr>] \<rparr>) sy))"

definition tool_stream1_done :: "int \<Rightarrow> sysf \<Rightarrow> tool_stream1 option \<Rightarrow> (tool_stream1 \<times> sysf) outcome" where
  "tool_stream1_done ret sy stream =
     (case stream of None \<Rightarrow> Inl Exit
      | Some st \<Rightarrow> s1_done_loop [0..<nat (s1_pool_size st)] st (snd (tool_thread_doneMutex ret sy)))"

text \<open>The pointer \<open>data\<close> is the one the caller got from the allocator.\<close>

definition tool_stream1_push ::
  "sysf \<Rightarrow> tool_stream1 option \<Rightarrow> nat option \<Rightarrow> int \<Rightarrow> (tool_stream1 \<times> sysf) outcome" where
  "tool_stream1_push sy stream data len =
     (case (stream, data) of
        (Some st, Some p) \<Rightarrow>
          andThen (s1_slot st (s1_write_pos st)) (\<lambda>slot.
            andThen (if s1_data slot = None then Inr sy else tool_mem_free (s1_data slot) sy) (\<lambda>sy.
              andThen (s1_next st (s1_write_pos st)) (\<lambda>w.
                Inr (st\<lparr> s1_pool := (s1_pool st)[nat (s1_write_pos st) := \<lparr> s1_data = Some p, s1_len = len \<rparr>],
                         s1_write_pos := w \<rparr>, sy))))
      | _ \<Rightarrow> Inl Exit)"

definition tool_stream1_pop ::
  "tool_stream1 option \<Rightarrow> int option \<Rightarrow> nat option option \<Rightarrow> int option
     \<Rightarrow> (int \<times> tool_stream1 \<times> int \<times> nat option \<times> int) outcome" where
  "tool_stream1_pop stream read_pos data len =
     (case (stream, read_pos, data, len) of
        (Some st, Some r, Some d, Some l) \<Rightarrow>
          if r < 0 \<and> r \<ge> s1_pool_size st then Inl Exit
          else if r = s1_write_pos st then Inr (0, st, r, d, l)
          else andThen (s1_slot st (s1_write_pos st)) (\<lambda>wslot.
            if s1_data wslot = None then Inl Exit
            else andThen (s1_slot st r) (\<lambda>slot.
              andThen (s1_next st r) (\<lambda>next.
                Inr (1, st\<lparr> s1_pool := (s1_pool st)[nat r := \<lparr> s1_data = None, s1_len = 0 \<rparr>] \<rparr>,
                     next, s1_data slot, s1_len slot))))
      | _ \<Rightarrow> Inl Exit)"

section \<open>Copying frames: the queue\<close>

lemma smod_nonneg: "0 \<le> a \<Longrightarrow> 0 < b \<Longrightarrow> a smod b = a mod b" for a b :: int
  by (simp add: smod_int_alt_def sgn_if)

definition s1_frame :: "tool_stream1 \<Rightarrow> sysf \<Rightarrow> nat \<Rightarrow> u8 list" where
  "s1_frame st sy i =
     (let slot = s1_pool st ! i
      in take (nat (s1_len slot)) (payload (the (heap sy (the (s1_data slot) - 4)))))"

definition s1_slot_ok :: "nat \<Rightarrow> sysf \<Rightarrow> tool_stream1_data \<Rightarrow> bool" where
  "s1_slot_ok D sy slot \<longleftrightarrow> (case s1_data slot of None \<Rightarrow> False
     | Some p \<Rightarrow> 4 \<le> p \<and> (case heap sy (p - 4) of None \<Rightarrow> False | Some b \<Rightarrow> length (payload b) = D))
     \<and> 0 \<le> s1_len slot \<and> s1_len slot \<le> int D"

definition s1_good :: "nat \<Rightarrow> nat \<Rightarrow> tool_stream1 \<times> sysf \<times> int \<Rightarrow> bool" where
  "s1_good n D s \<longleftrightarrow> (case s of (st, sy, r) \<Rightarrow>
     length (s1_pool st) = TOOL_STREAM1_POOL_SIZE \<and> n \<le> TOOL_STREAM1_POOL_SIZE \<and>
     s1_pool_size st = int n \<and> s1_data_size st = int D \<and>
     0 \<le> s1_write_pos st \<and> s1_write_pos st < int n \<and> 0 \<le> r \<and> r < int n \<and>
     (\<forall>i<n. s1_slot_ok D sy (s1_pool st ! i)) \<and>
     inj_on (\<lambda>i. s1_data (s1_pool st ! i)) {..<n})"

text \<open>The slots own the blocks at \<open>a i\<close>, and the rest of the heap is \<open>h\<close>.\<close>

definition s1_owns :: "nat \<Rightarrow> (nat \<Rightarrow> nat) \<Rightarrow> (nat \<rightharpoonup> heap_block) \<Rightarrow> tool_stream1 \<times> sysf \<times> int \<Rightarrow> bool" where
  "s1_owns n a h s \<longleftrightarrow> (case s of (st, sy, r) \<Rightarrow>
     (\<forall>i<n. s1_data (s1_pool st ! i) = Some (a i + 4)) \<and> (\<forall>x. x \<notin> a ` {0..<n} \<longrightarrow> heap sy x = h x))"

definition s1_content :: "nat \<Rightarrow> tool_stream1 \<times> sysf \<times> int \<Rightarrow> u8 list list" where
  "s1_content n s = (case s of (st, sy, r) \<Rightarrow>
     ring_list (s1_frame st sy) n (nat r) (nat (s1_write_pos st)))"

definition s1_put :: "u8 list \<Rightarrow> tool_stream1 \<times> sysf \<times> int \<Rightarrow> (tool_stream1 \<times> sysf \<times> int) outcome" where
  "s1_put x s = (case s of (st, sy, r) \<Rightarrow>
     andThen (tool_stream1_set sy (Some st) (Some x) (int (length x))) (\<lambda>(st, sy). Inr (st, sy, r)))"

definition s1_take ::
  "nat \<Rightarrow> tool_stream1 \<times> sysf \<times> int \<Rightarrow> (u8 list option \<times> tool_stream1 \<times> sysf \<times> int) outcome" where
  "s1_take D s = (case s of (st, sy, r) \<Rightarrow>
     andThen (tool_stream1_get sy (Some st) (Some r) (Some (replicate D 0)) (Some (int D)))
       (\<lambda>(ret, r, d, l). Inr (if ret = 1 then Some (take (nat l) d) else None, st, sy, r)))"

lemma s1_slot_okE:
  assumes "s1_slot_ok D sy slot"
  obtains p b where "s1_data slot = Some p" "4 \<le> p" "heap sy (p - 4) = Some b" "length (payload b) = D"
    "0 \<le> s1_len slot" "s1_len slot \<le> int D"
  using assms by (auto simp: s1_slot_ok_def split: option.splits)

lemma s1_slot_okI:
  "s1_data slot = Some p \<Longrightarrow> 4 \<le> p \<Longrightarrow> heap sy (p - 4) = Some b \<Longrightarrow> length (payload b) = D
     \<Longrightarrow> 0 \<le> s1_len slot \<Longrightarrow> s1_len slot \<le> int D \<Longrightarrow> s1_slot_ok D sy slot"
  by (simp add: s1_slot_ok_def)

lemma s1_slot_ok_heap:
  assumes "s1_slot_ok D sy slot" "s1_data slot \<noteq> Some p" "4 \<le> p"
  shows "s1_slot_ok D (sy\<lparr> heap := (heap sy)(p - 4 := b) \<rparr>) slot"
proof -
  from assms(1) obtain q c where q: "s1_data slot = Some q" "4 \<le> q" "heap sy (q - 4) = Some c"
    "length (payload c) = D" "0 \<le> s1_len slot" "s1_len slot \<le> int D" by (rule s1_slot_okE)
  have "q - 4 \<noteq> p - 4" using q(1,2) assms(2,3) by auto
  then show ?thesis using q by (intro s1_slot_okI [of _ q _ c]) auto
qed

lemma nat_next: "0 \<le> w \<Longrightarrow> w < int n \<Longrightarrow> nat ((w + 1) mod int n) = (nat w + 1) mod n"
  by (simp add: nat_mod_distrib nat_add_distrib)

lemma s1_put_spec:
  assumes good: "s1_good n D s" and x: "length x \<le> D"
  shows "\<exists>s'. s1_put x s = Inr s' \<and> s1_good n D s' \<and> s1_content n s' =
     (if Suc (length (s1_content n s)) = n then [] else s1_content n s @ [x])
     \<and> (\<forall>a h. s1_owns n a h s \<longrightarrow> s1_owns n a h s')"
proof -
  obtain st sy r where s: "s = (st, sy, r)" by (cases s)
  let ?w = "nat (s1_write_pos st)"
  from good have g: "length (s1_pool st) = 100" "n \<le> 100" "s1_pool_size st = int n" "s1_data_size st = int D"
    "0 \<le> s1_write_pos st" "s1_write_pos st < int n" "0 \<le> r" "r < int n"
    "\<And>i. i < n \<Longrightarrow> s1_slot_ok D sy (s1_pool st ! i)" "inj_on (\<lambda>i. s1_data (s1_pool st ! i)) {..<n}"
    by (auto simp: s s1_good_def TOOL_STREAM1_POOL_SIZE_def)
  have w: "?w < n" "nat r < n" using g by auto
  from g(9) [OF w(1)] obtain p b where p: "s1_data (s1_pool st ! ?w) = Some p" "4 \<le> p"
    "heap sy (p - 4) = Some b" "length (payload b) = D"
    by (rule s1_slot_okE)
  let ?b = "b\<lparr> payload := x @ drop (length x) (payload b) \<rparr>"
  let ?sy = "sy\<lparr> heap := (heap sy)(p - 4 \<mapsto> ?b) \<rparr>"
  let ?st = "st\<lparr> s1_pool := (s1_pool st)[?w := (s1_pool st ! ?w)\<lparr> s1_len := int (length x) \<rparr>],
     s1_write_pos := (s1_write_pos st + 1) mod int n \<rparr>"
  have put: "s1_put x s = Inr (?st, ?sy, r)"
    using g(1-8) p x w
    by (simp add: s s1_put_def tool_stream1_set_def s1_slot_def s1_next_def block_write_def buf_put_def smod_nonneg)
  have other: "s1_data (s1_pool st ! i) \<noteq> Some p" if "i < n" "i \<noteq> ?w" for i
    using inj_onD [OF g(10), of i ?w] that w(1) p(1) by auto
  have slots: "s1_slot_ok D ?sy (s1_pool ?st ! i)" if "i < n" for i
  proof (cases "i = ?w")
    case True
    then show ?thesis
      using p x g(1,2) w(1) by (intro s1_slot_okI [of _ p _ ?b]) simp_all
  next
    case False
    then show ?thesis using s1_slot_ok_heap [OF g(9) other p(2)] that by simp
  qed
  have ptrs: "s1_data (s1_pool ?st ! i) = s1_data (s1_pool st ! i)" for i
    using g(1,2) w(1) by (cases "i = ?w") simp_all
  have "s1_good n D (?st, ?sy, r)"
    unfolding s1_good_def prod.case ptrs using g slots by (simp add: TOOL_STREAM1_POOL_SIZE_def)
  moreover have "s1_content n (?st, ?sy, r) =
      (if Suc (length (s1_content n s)) = n then [] else s1_content n s @ [x])"
  proof -
    have e: "nat (s1_write_pos ?st) = (?w + 1) mod n"
      using nat_next [OF g(5,6)] by simp
    show ?thesis
      unfolding s s1_content_def prod.case e
    proof (rule ring_push)
      fix i assume i: "i < n" "i \<noteq> ?w"
      from g(9) [OF i(1)] obtain q c where q: "s1_data (s1_pool st ! i) = Some q" "4 \<le> q" "heap sy (q - 4) = Some c"
        by (rule s1_slot_okE)
      have "q - 4 \<noteq> p - 4" using other [OF i] q(1,2) p(2) by auto
      with q i show "s1_frame ?st ?sy i = s1_frame st sy i" by (simp add: s1_frame_def)
    next
      show "s1_frame ?st ?sy ?w = x" using p g(1,2) w by (simp add: s1_frame_def)
    qed (use w in auto)
  qed
  moreover have "s1_owns n a h (?st, ?sy, r)" if "s1_owns n a h s" for a h
  proof -
    from that p(1) w(1) have "p = a ?w + 4" by (simp add: s1_owns_def s)
    with that w(1) show ?thesis unfolding s1_owns_def s prod.case ptrs by auto
  qed
  ultimately show ?thesis using put by blast
qed

lemma s1_take_spec:
  assumes good: "s1_good n D s"
  shows "\<exists>s'. s1_take D s = Inr (case s1_content n s of [] \<Rightarrow> None | x # _ \<Rightarrow> Some x, s')
     \<and> s1_good n D s' \<and> s1_content n s' = tl (s1_content n s)
     \<and> (\<forall>a h. s1_owns n a h s \<longrightarrow> s1_owns n a h s')"
proof -
  obtain st sy r where s: "s = (st, sy, r)" by (cases s)
  from good have g: "length (s1_pool st) = 100" "n \<le> 100" "s1_pool_size st = int n" "s1_data_size st = int D"
    "0 \<le> s1_write_pos st" "s1_write_pos st < int n" "0 \<le> r" "r < int n"
    "\<And>i. i < n \<Longrightarrow> s1_slot_ok D sy (s1_pool st ! i)"
    by (auto simp: s s1_good_def TOOL_STREAM1_POOL_SIZE_def)
  have w: "nat (s1_write_pos st) < n" "nat r < n" using g by auto
  show ?thesis
  proof (cases "r = s1_write_pos st")
    case True
    then have "s1_content n s = []" by (simp add: s s1_content_def)
    moreover have "s1_take D s = Inr (None, s)" using True g by (simp add: s s1_take_def tool_stream1_get_def)
    ultimately show ?thesis using good by simp
  next
    case False
    from g(9) [OF w(2)] obtain p b where p: "s1_data (s1_pool st ! nat r) = Some p" "4 \<le> p"
      "heap sy (p - 4) = Some b" "length (payload b) = D" "0 \<le> s1_len (s1_pool st ! nat r)"
      "s1_len (s1_pool st ! nat r) \<le> int D"
      by (rule s1_slot_okE)
    from g(9) [OF w(1)] have q: "s1_data (s1_pool st ! nat (s1_write_pos st)) \<noteq> None"
      by (auto elim: s1_slot_okE)
    have "s1_take D s = Inr (Some (s1_frame st sy (nat r)), st, sy, (r + 1) mod int n)"
      using False g(1-8) p q w
      by (simp add: s s1_take_def tool_stream1_get_def s1_slot_def s1_next_def block_read_def buf_put_def
          smod_nonneg s1_frame_def)
    moreover have "nat r \<noteq> nat (s1_write_pos st)" using False g by auto
    from ring_pop [OF w(2,1) this] have
      "s1_content n s = s1_frame st sy (nat r) # s1_content n (st, sy, (r + 1) mod int n)"
      by (simp add: s s1_content_def nat_next [OF g(7,8)])
    moreover have "s1_good n D (st, sy, (r + 1) mod int n)"
      using good g(7,8) by (simp add: s s1_good_def)
    ultimately show ?thesis by (auto simp: s s1_owns_def)
  qed
qed

interpretation s1: ring_queue s1_put "s1_take D" "\<lambda>s. s1_good n D s \<and> s1_owns n a h s" "s1_content n" n
  "\<lambda>x. length x \<le> D" for n D :: nat and a h
proof (unfold_locales, goal_cases)
  case (1 s x)
  with s1_put_spec [of n D s x] show ?case by blast
next
  case (2 s)
  with s1_take_spec [of n D s] show ?case by blast
qed

section \<open>Allocation and release\<close>

lemma s1_init_loop_spec:
  assumes "s1_data_size st = int D" "0 < D" "D < 2 ^ 31" "distinct is"
    "\<And>i. i \<in> set is \<Longrightarrow> i < length (s1_pool st) \<and> answer i = Some (a i)"
  shows "\<exists>st' sy'. s1_init_loop answer junk is st sy = Inr (st', sy')
     \<and> st' = st\<lparr> s1_pool := s1_pool st' \<rparr> \<and> length (s1_pool st') = length (s1_pool st)
     \<and> (\<forall>i. s1_pool st' ! i = (if i \<in> set is then \<lparr> s1_data = Some (a i + 4), s1_len = 0 \<rparr> else s1_pool st ! i))
     \<and> (\<forall>x. x \<notin> a ` set is \<longrightarrow> heap sy' x = heap sy x)
     \<and> (inj_on a (set is) \<longrightarrow> (\<forall>i \<in> set is. heap sy' (a i) = Some \<lparr> psize = of_nat D + 4, payload = junk i \<rparr>))"
  using assms
proof (induction "is" arbitrary: st sy)
  case Nil
  then show ?case by simp
next
  case (Cons i "is")
  let ?st = "st\<lparr> s1_pool := (s1_pool st)[i := \<lparr> s1_data = Some (a i + 4), s1_len = 0 \<rparr>] \<rparr>"
  have a: "answer i = Some (a i)" and i: "i < length (s1_pool st)" using Cons.prems(5) [of i] by auto
  have "\<not> unat (of_nat D + 4 :: u32) < 4"
    using Cons.prems(3) by (simp add: unat_word_ariths unat_of_nat_u32)
  then obtain sy1 where sy1: "tool_mem_malloc (answer i) (junk i) (of_int (int D)) False sy = Inr (a i + 4, sy1)"
    "heap sy1 = (heap sy)(a i \<mapsto> \<lparr> psize = of_nat D + 4, payload = junk i \<rparr>)"
    by (auto simp: tool_mem_malloc_def a)
  from Cons.IH [of ?st sy1] Cons.prems obtain st' sy' where *:
    "s1_init_loop answer junk is ?st sy1 = Inr (st', sy')" "st' = ?st\<lparr> s1_pool := s1_pool st' \<rparr>"
    "length (s1_pool st') = length (s1_pool ?st)"
    "\<forall>j. s1_pool st' ! j = (if j \<in> set is then \<lparr> s1_data = Some (a j + 4), s1_len = 0 \<rparr> else s1_pool ?st ! j)"
    "\<forall>x. x \<notin> a ` set is \<longrightarrow> heap sy' x = heap sy1 x"
    "inj_on a (set is) \<longrightarrow> (\<forall>j \<in> set is. heap sy' (a j) = Some \<lparr> psize = of_nat D + 4, payload = junk j \<rparr>)"
    by auto
  have "s1_init_loop answer junk (i # is) st sy = Inr (st', sy')"
    using Cons.prems(1,2) sy1(1) *(1) by simp
  moreover have "st' = st\<lparr> s1_pool := s1_pool st' \<rparr>" using *(2) by simp
  moreover have "s1_pool st' ! j = (if j \<in> set (i # is) then \<lparr> s1_data = Some (a j + 4), s1_len = 0 \<rparr> else s1_pool st ! j)" for j
    using *(4) i by (cases "j = i") auto
  moreover have "inj_on a (set (i # is)) \<longrightarrow>
      (\<forall>j \<in> set (i # is). heap sy' (a j) = Some \<lparr> psize = of_nat D + 4, payload = junk j \<rparr>)"
    using *(5,6) sy1(2) Cons.prems(4) by auto
  ultimately show ?case using *(3,5) sy1(2) by auto
qed

lemma s1_init_good:
  assumes "0 < n" "n \<le> 100" "0 < D" "D < 2 ^ 31"
    "\<And>i. i < n \<Longrightarrow> answer i = Some (a i)" "inj_on a {0..<n}" "\<And>i. i < n \<Longrightarrow> length (junk i) = D"
  shows "\<exists>st sy'. tool_stream1_init answer junk ret sy (Some st0) (int n) (int D) = Inr (st, sy')
     \<and> s1_good n D (st, sy', s1_write_pos st) \<and> s1_write_pos st = 0
     \<and> (\<forall>i<n. s1_data (s1_pool st ! i) = Some (a i + 4))
     \<and> (\<forall>x. x \<notin> a ` {0..<n} \<longrightarrow> heap sy' x = heap sy x)"
proof -
  let ?st = "\<lparr> s1_pool = replicate TOOL_STREAM1_POOL_SIZE \<lparr> s1_data = None, s1_len = 0 \<rparr>,
    s1_write_pos = 0, s1_pool_size = int n, s1_data_size = int D \<rparr>"
  let ?sy = "snd (tool_thread_initMutex ret sy)"
  have hp: "heap ?sy = heap sy" by (simp add: tool_thread_initMutex_def)
  have "s1_data_size ?st = int D" by simp
  from s1_init_loop_spec [OF this assms(3,4) distinct_upt, of 0 n answer a junk ?sy] assms(2,5)
  obtain st sy' where *: "s1_init_loop answer junk [0..<n] ?st ?sy = Inr (st, sy')"
    "st = ?st\<lparr> s1_pool := s1_pool st \<rparr>" "length (s1_pool st) = 100"
    "\<forall>i. s1_pool st ! i = (if i < n then \<lparr> s1_data = Some (a i + 4), s1_len = 0 \<rparr> else s1_pool ?st ! i)"
    "\<forall>x. x \<notin> a ` {0..<n} \<longrightarrow> heap sy' x = heap sy x"
    "\<forall>i<n. heap sy' (a i) = Some \<lparr> psize = of_nat D + 4, payload = junk i \<rparr>"
    using assms(6) by (auto simp: hp TOOL_STREAM1_POOL_SIZE_def)
  have init: "tool_stream1_init answer junk ret sy (Some st0) (int n) (int D) = Inr (st, sy')"
    using *(1) assms(2) by (simp add: tool_stream1_init_def TOOL_STREAM1_POOL_SIZE_def)
  have f: "s1_write_pos st = 0" "s1_pool_size st = int n" "s1_data_size st = int D"
    by (subst *(2), simp)+
  have "s1_slot_ok D sy' (s1_pool st ! i)" if "i < n" for i
    using that *(4,6) assms(7) by (intro s1_slot_okI [of _ "a i + 4" _ "\<lparr> psize = of_nat D + 4, payload = junk i \<rparr>"]) auto
  moreover have "inj_on (\<lambda>i. s1_data (s1_pool st ! i)) {..<n}"
    using *(4) assms(6) by (auto simp: inj_on_def)
  ultimately have "s1_good n D (st, sy', s1_write_pos st)"
    using f *(3) assms(1,2) by (simp add: s1_good_def TOOL_STREAM1_POOL_SIZE_def)
  with init f *(4,5) show ?thesis by auto
qed

lemma free_block:
  assumes "heap sy p = Some b"
  shows "tool_mem_free (Some (p + 4)) sy = Inr (sy\<lparr> heap := (heap sy)(p := None),
     g_tool_mem_count := g_tool_mem_count sy - 1, g_tool_mem_size := g_tool_mem_size sy - psize b \<rparr>)"
  using assms by (simp add: tool_mem_free_def)

lemma s1_done_loop_spec:
  assumes "distinct is" "inj_on a (set is)"
    "\<And>i. i \<in> set is \<Longrightarrow> i < length (s1_pool st) \<and> s1_data (s1_pool st ! i) = Some (a i + 4) \<and> heap sy (a i) \<noteq> None"
  shows "\<exists>st' sy'. s1_done_loop is st sy = Inr (st', sy')
     \<and> heap sy' = (\<lambda>x. if x \<in> a ` set is then None else heap sy x)
     \<and> g_tool_mem_count sy' = g_tool_mem_count sy - int (length is)"
  using assms
proof (induction "is" arbitrary: st sy)
  case Nil
  then show ?case by simp
next
  case (Cons i "is")
  from Cons.prems(3) [of i] obtain b where i: "i < length (s1_pool st)" "s1_data (s1_pool st ! i) = Some (a i + 4)"
    "heap sy (a i) = Some b" by auto
  let ?sy = "sy\<lparr> heap := (heap sy)(a i := None), g_tool_mem_count := g_tool_mem_count sy - 1,
     g_tool_mem_size := g_tool_mem_size sy - psize b \<rparr>"
  let ?st = "st\<lparr> s1_pool := (s1_pool st)[i := \<lparr> s1_data = None, s1_len = 0 \<rparr>] \<rparr>"
  have "\<exists>st' sy'. s1_done_loop is ?st ?sy = Inr (st', sy')
     \<and> heap sy' = (\<lambda>x. if x \<in> a ` set is then None else heap ?sy x)
     \<and> g_tool_mem_count sy' = g_tool_mem_count ?sy - int (length is)"
  proof (rule Cons.IH)
    show "distinct is" "inj_on a (set is)" using Cons.prems by auto
    fix j assume j: "j \<in> set is"
    with Cons.prems(1,2) have "j \<noteq> i" "a j \<noteq> a i" by (auto simp: image_iff)
    with Cons.prems(3) [of j] j show "j < length (s1_pool ?st) \<and> s1_data (s1_pool ?st ! j) = Some (a j + 4)
        \<and> heap ?sy (a j) \<noteq> None" by simp
  qed
  then obtain st' sy' where *: "s1_done_loop is ?st ?sy = Inr (st', sy')"
    "heap sy' = (\<lambda>x. if x \<in> a ` set is then None else heap ?sy x)"
    "g_tool_mem_count sy' = g_tool_mem_count ?sy - int (length is)" by blast
  have "s1_done_loop (i # is) st sy = Inr (st', sy')"
    using i *(1) by (simp add: s1_slot_def free_block)
  moreover have "heap sy' = (\<lambda>x. if x \<in> a ` set (i # is) then None else heap sy x)"
    using *(2) by (auto simp: fun_eq_iff)
  ultimately show ?case using *(3) by simp
qed

lemma s1_done_frees:
  assumes "s1_good n D (st, sy, r)" "s1_owns n a h (st, sy, r)"
  shows "\<exists>st' sy'. tool_stream1_done ret sy (Some st) = Inr (st', sy')
     \<and> heap sy' = (\<lambda>x. if x \<in> a ` {0..<n} then None else h x)"
proof -
  let ?sy = "snd (tool_thread_doneMutex ret sy)"
  have hp: "heap ?sy = heap sy" by (simp add: tool_thread_doneMutex_def)
  have ptr: "s1_data (s1_pool st ! i) = Some (a i + 4)" if "i < n" for i
    using assms(2) that by (simp add: s1_owns_def)
  have "i < length (s1_pool st) \<and> s1_data (s1_pool st ! i) = Some (a i + 4) \<and> heap ?sy (a i) \<noteq> None"
    if "i \<in> set [0..<n]" for i
  proof -
    have i: "i < n" using that by simp
    with assms(1) have "s1_slot_ok D sy (s1_pool st ! i)" by (simp add: s1_good_def)
    then show ?thesis
      by (rule s1_slot_okE) (use assms(1) ptr [OF i] i in \<open>auto simp: s1_good_def hp\<close>)
  qed
  moreover have "inj_on a (set [0..<n])"
    using assms(1) ptr by (auto simp: s1_good_def inj_on_def)
  ultimately obtain st' sy' where "s1_done_loop [0..<n] st ?sy = Inr (st', sy')"
    "heap sy' = (\<lambda>x. if x \<in> a ` set [0..<n] then None else heap ?sy x)"
    using s1_done_loop_spec [OF distinct_upt, of a 0 n st ?sy] by blast
  moreover have "nat (s1_pool_size st) = n" using assms(1) by (simp add: s1_good_def)
  moreover have "(\<lambda>x. if x \<in> a ` set [0..<n] then None else heap sy x) =
      (\<lambda>x. if x \<in> a ` {0..<n} then None else h x)"
    using assms(2) by (auto simp: s1_owns_def fun_eq_iff)
  ultimately show ?thesis by (simp add: tool_stream1_done_def hp [THEN fun_cong] cong: if_cong)
qed

section \<open>Handing pointers over: push and pop\<close>

lemma s1_init_empty:
  assumes "n \<le> 100" "D \<le> 0"
  shows "tool_stream1_init answer junk ret sy (Some st0) (int n) D =
    Inr (\<lparr> s1_pool = replicate 100 \<lparr> s1_data = None, s1_len = 0 \<rparr>, s1_write_pos = 0,
           s1_pool_size = int n, s1_data_size = D \<rparr>, snd (tool_thread_initMutex ret sy))"
proof -
  let ?e = "\<lparr> s1_data = None, s1_len = 0 \<rparr>"
  have upd: "st\<lparr> s1_pool := (s1_pool st)[i := ?e] \<rparr> = st" if "s1_pool st = replicate 100 ?e" for st :: tool_stream1 and i
  proof -
    have "(replicate 100 ?e)[i := ?e] = replicate 100 ?e"
      by (metis list_update_id list_update_beyond linorder_not_less nth_replicate length_replicate)
    with that show ?thesis by simp
  qed
  have "s1_init_loop answer junk is st sy = Inr (st, sy)"
    if "s1_data_size st \<le> 0" "s1_pool st = replicate 100 ?e" for "is" st sy
    using that(1) upd [OF that(2)] by (induction "is") simp_all
  then show ?thesis
    using assms by (simp add: tool_stream1_init_def TOOL_STREAM1_POOL_SIZE_def)
qed

text \<open>The pushes of \<open>ps\<close> in turn.\<close>

fun s1_pushes :: "(nat \<times> int) list \<Rightarrow> tool_stream1 \<times> sysf \<Rightarrow> (tool_stream1 \<times> sysf) outcome" where
  "s1_pushes [] s = Inr s"
| "s1_pushes ((p, len) # ps) s = andThen (tool_stream1_push (snd s) (Some (fst s)) (Some p) len) (s1_pushes ps)"

lemma s1_pushes_fill:
  assumes "length (s1_pool st) = 100" "n \<le> 100" "s1_pool_size st = int n" "s1_write_pos st = int w"
    "w + length ps < n" "\<forall>i. w \<le> i \<and> i < n \<longrightarrow> s1_data (s1_pool st ! i) = None"
  shows "\<exists>st'. s1_pushes ps (st, sy) = Inr (st', sy) \<and> length (s1_pool st') = 100 \<and> s1_pool_size st' = int n
     \<and> s1_write_pos st' = int (w + length ps) \<and> (\<forall>i. w + length ps \<le> i \<and> i < n \<longrightarrow> s1_data (s1_pool st' ! i) = None)"
  using assms
proof (induction ps arbitrary: st w)
  case Nil
  then show ?case by simp
next
  case (Cons x ps)
  obtain p len where x: "x = (p, len)" by (cases x)
  let ?st = "st\<lparr> s1_pool := (s1_pool st)[w := \<lparr> s1_data = Some p, s1_len = len \<rparr>], s1_write_pos := int (Suc w) \<rparr>"
  have push: "tool_stream1_push sy (Some st) (Some p) len = Inr (?st, sy)"
    using Cons.prems by (simp add: tool_stream1_push_def s1_slot_def s1_next_def smod_nonneg)
  have "\<exists>st'. s1_pushes ps (?st, sy) = Inr (st', sy) \<and> length (s1_pool st') = 100 \<and> s1_pool_size st' = int n
     \<and> s1_write_pos st' = int (Suc w + length ps)
     \<and> (\<forall>i. Suc w + length ps \<le> i \<and> i < n \<longrightarrow> s1_data (s1_pool st' ! i) = None)"
    by (rule Cons.IH) (use Cons.prems in auto)
  with push show ?case by (simp add: x)
qed

section \<open>Properties\<close>

text \<open>C30: The life of a ring of \<open>n\<close> slots of \<open>D\<close> bytes on memory that was free: every sequence of writes
  and reads gives the reader what the queue of the specification gives, and closing the ring returns
  all its blocks and touches no other.\<close>

theorem stream1_lifecycle:
  assumes "0 < n" "n \<le> 100" "0 < D" "D < 2 ^ 31"
    and "\<And>i. i < n \<Longrightarrow> answer i = Some (a i) \<and> heap sy (a i) = None \<and> length (junk i) = D" "inj_on a {0..<n}"
    and "\<forall>x. Put x \<in> set ops \<longrightarrow> length x \<le> D"
  shows "\<exists>st sy1 st2 sy2 r st3 sy3. tool_stream1_init answer junk ret sy (Some st0) (int n) (int D) = Inr (st, sy1)
     \<and> ring_run s1_put (s1_take D) ops (st, sy1, s1_write_pos st) = Inr (fst (spec_run n ops []), st2, sy2, r)
     \<and> tool_stream1_done ret' sy2 (Some st2) = Inr (st3, sy3) \<and> heap sy3 = heap sy"
proof -
  obtain st sy1 where st:
    "tool_stream1_init answer junk ret sy (Some st0) (int n) (int D) = Inr (st, sy1)"
    "s1_good n D (st, sy1, s1_write_pos st)" "s1_write_pos st = 0"
    "\<forall>i<n. s1_data (s1_pool st ! i) = Some (a i + 4)" "\<forall>x. x \<notin> a ` {0..<n} \<longrightarrow> heap sy1 x = heap sy x"
    using s1_init_good [OF assms(1-4) _ assms(6), of answer junk ret sy st0] assms(5) by blast
  have "s1_good n D (st, sy1, s1_write_pos st) \<and> s1_owns n a (heap sy) (st, sy1, s1_write_pos st)"
    using st by (simp add: s1_owns_def)
  moreover have "s1_content n (st, sy1, s1_write_pos st) = []" by (simp add: s1_content_def)
  ultimately obtain s' where s': "ring_run s1_put (s1_take D) ops (st, sy1, s1_write_pos st) =
      Inr (fst (spec_run n ops []), s')" "s1_good n D s'" "s1_owns n a (heap sy) s'"
    using s1.run_refines [where n = n and D = D and a = a and h = "heap sy" and ops = ops] assms(7) by fastforce
  obtain st2 sy2 r where e: "s' = (st2, sy2, r)" by (cases s')
  from s1_done_frees [OF s'(2,3) [unfolded e]] obtain st3 sy3 where
    "tool_stream1_done ret' sy2 (Some st2) = Inr (st3, sy3)"
    "heap sy3 = (\<lambda>x. if x \<in> a ` {0..<n} then None else heap sy x)" by blast
  moreover have "(\<lambda>x. if x \<in> a ` {0..<n} then None else heap sy x) = heap sy"
    using assms(5) by (auto simp: fun_eq_iff)
  ultimately show ?thesis using st(1) s'(1) e by auto
qed

theorem stream1_lifecycle_witness:
  "\<exists>st sy1 st2 sy2 r st3 sy3. tool_stream1_init (\<lambda>i. Some (16 * i)) (\<lambda>_. [0, 0]) 0 sysf_start
       (Some \<lparr> s1_pool = [], s1_write_pos = 1, s1_pool_size = 0, s1_data_size = 0 \<rparr>) 3 2 = Inr (st, sy1)
     \<and> ring_run s1_put (s1_take 2) [Put [1], Put [2, 3], Get, Get, Get] (st, sy1, s1_write_pos st) =
         Inr ([[1], [2, 3]], st2, sy2, r)
     \<and> tool_stream1_done 0 sy2 (Some st2) = Inr (st3, sy3) \<and> heap sy3 = heap sysf_start"
proof -
  let ?ops = "[Put [1 :: u8], Put [2, 3], Get, Get, Get]"
  have "inj_on (\<lambda>i::nat. 16 * i) {0..<3}" by (auto simp: inj_on_def)
  moreover have "\<forall>x. Put x \<in> set ?ops \<longrightarrow> length x \<le> 2" by auto
  moreover have "fst (spec_run 3 ?ops []) = [[1], [2, 3]]" by (simp add: Let_def)
  ultimately show ?thesis
    using stream1_lifecycle [of 3 2 "\<lambda>i. Some (16 * i)" "\<lambda>i. 16 * i" sysf_start "\<lambda>_. [0, 0]" ?ops 0
        "\<lparr> s1_pool = [], s1_write_pos = 1, s1_pool_size = 0, s1_data_size = 0 \<rparr>" 0]
    by (simp add: sysf_start_def del: ring_run.simps spec_run.simps)
qed

text \<open>As long as the pushes since the start have not gone round the ring, popping ends the program:
  the slot the code checks is the one to be written next, not the one to be read.\<close>

theorem stream1_pop_exits:
  assumes "tool_stream1_init answer junk ret sy (Some st0) (int n) 0 = Inr (st, sy')" "n \<le> 100"
    and "ps \<noteq> []" "length ps < n"
  shows "\<exists>st'. s1_pushes ps (st, sy') = Inr (st', sy')
     \<and> tool_stream1_pop (Some st') (Some (s1_write_pos st)) (Some d) (Some l) = Inl Exit"
proof -
  from assms(1) s1_init_empty [OF assms(2), of 0 answer junk ret sy st0]
  have "length (s1_pool st) = 100" "s1_pool_size st = int n" and w: "s1_write_pos st = int 0"
    "\<forall>i. 0 \<le> i \<and> i < n \<longrightarrow> s1_data (s1_pool st ! i) = None" using assms(2) by auto
  from s1_pushes_fill [OF this(1) assms(2) this(2) w(1) _ w(2), of ps sy'] assms(4) obtain st' where
    "s1_pushes ps (st, sy') = Inr (st', sy')" "length (s1_pool st') = 100" "s1_write_pos st' = int (length ps)"
    "\<forall>i. length ps \<le> i \<and> i < n \<longrightarrow> s1_data (s1_pool st' ! i) = None" by auto
  with w(1) assms(2-4) show ?thesis
    by (auto simp: tool_stream1_pop_def s1_slot_def)
qed

theorem stream1_pop_exits_witness:
  "\<exists>st sy' st'. s1_pushes [(1000, 5), (2000, 6)] (st, sy') = Inr (st', sy')
     \<and> tool_stream1_pop (Some st') (Some (s1_write_pos st)) (Some None) (Some 0) = Inl Exit"
proof -
  let ?st0 = "\<lparr> s1_pool = [], s1_write_pos = 1, s1_pool_size = 0, s1_data_size = 0 \<rparr>"
  obtain st sy' where "tool_stream1_init (\<lambda>_. None) (\<lambda>_. []) 0 sysf_start (Some ?st0) (int 8) 0 = Inr (st, sy')"
    using s1_init_empty [of 8 0 "\<lambda>_. None" "\<lambda>_. []" 0 sysf_start ?st0] by auto
  from stream1_pop_exits [OF this, of "[(1000, 5), (2000, 6)]" None 0] show ?thesis by auto
qed

end
