(* ===== verification/Tool_Stream3.thy ===== *)
theory Tool_Stream3
  imports Tool_Stream2 Ptc_Qh "HOL-Library.Signed_Division"
begin

text \<open>
  \<^verbatim>\<open>sab_app/jni/nc/tool_stream3.c\<close>: the ring of bytes between the thread that receives video frames
  and the thread that hands them to the player. A record is a head of 16 bytes and a frame; a head
  with the length \<^verbatim>\<open>0xFFFFFFFF\<close> sends the reader back to the start. Positions count how often they
  went round. The clock and the contents of fresh memory are arguments.
\<close>

section \<open>State\<close>

definition TOOL_STREAM3_DATA_SIZE :: nat where "TOOL_STREAM3_DATA_SIZE = 1024 * 1024"

definition TOOL_STREAM3_FLAG :: "u8 list" where
  "TOOL_STREAM3_FLAG = map of_char ''TOOL_STREAM'' @ [0]"

definition PTC_FRAME_I :: u8 where "PTC_FRAME_I = 1"
definition PTC_FRAME_P :: u8 where "PTC_FRAME_P = 2"

record tool_stream3_pos =
  p_offset :: u32
  p_ring :: u32
  p_tick_sec :: int
  p_tick_usec :: int

text \<open>\<open>s3_mem\<close> holds the bytes of the block that \<open>s3_pool\<close> points to.\<close>

record tool_stream3 =
  s3_pool :: "nat option"
  s3_mem :: mem
  s3_size :: u32
  s3_len :: u32
  s3_count :: int
  s3_write_pos :: tool_stream3_pos
  drop_flag :: int

text \<open>\<^verbatim>\<open>tool_stream3_head_t\<close>: 12 bytes of flag and the length.\<close>

definition stream3_head :: "u32 \<Rightarrow> u8 list" where
  "stream3_head len = TOOL_STREAM3_FLAG @ le4 len"

definition stream3_head_len :: "u8 list \<Rightarrow> u32" where
  "stream3_head_len b = le32 (b ! 12) (b ! 13) (b ! 14) (b ! 15)"

definition pool_write :: "nat \<Rightarrow> u8 list \<Rightarrow> tool_stream3 \<Rightarrow> tool_stream3 outcome" where
  "pool_write a bs s =
     (if a + length bs \<le> unat (s3_size s) then Inr (s\<lparr> s3_mem := mem_write a bs (s3_mem s) \<rparr>) else Inl Fault)"

definition pool_read :: "nat \<Rightarrow> nat \<Rightarrow> tool_stream3 \<Rightarrow> u8 list outcome" where
  "pool_read a n s = (if a + n \<le> unat (s3_size s) then Inr (mem_read a n (s3_mem s)) else Inl Fault)"

text \<open>The fields of \<^verbatim>\<open>ptc_frame_head_t\<close> that the ring looks at.\<close>

definition byte_at :: "nat \<Rightarrow> u8 list \<Rightarrow> u8 outcome" where
  "byte_at k d = (if k < length d then Inr (d ! k) else Inl Fault)"

definition frame_type :: "u8 list \<Rightarrow> u8 outcome" where
  "frame_type d = byte_at 20 d"

definition frame_rate :: "u8 list \<Rightarrow> u8 outcome" where
  "frame_rate d = byte_at 22 d"

definition is_picture :: "u8 \<Rightarrow> bool" where
  "is_picture t \<longleftrightarrow> t = PTC_FRAME_I \<or> t = PTC_FRAME_P"

section \<open>Operations\<close>

definition tool_stream3_init ::
  "nat option \<Rightarrow> mem \<Rightarrow> int \<Rightarrow> sysf \<Rightarrow> tool_stream3 option \<Rightarrow> u32 \<Rightarrow> (tool_stream3 \<times> sysf) outcome" where
  "tool_stream3_init answer junk ret sy stream sz =
     (case stream of
        None \<Rightarrow> Inl Exit
      | Some s \<Rightarrow>
          (let sz = (if sz < 4 * 1024 * 1024 then 4 * 1024 * 1024 else sz);
               sz = (if sz > 8 * 1024 * 1024 then 8 * 1024 * 1024 else sz)
           in andThen (tool_mem_malloc answer [] sz False sy) (\<lambda>(p, sy).
             Inr (s\<lparr> s3_size := sz, s3_pool := Some p, s3_mem := junk, s3_len := 0, s3_count := 0,
                     s3_write_pos := (s3_write_pos s)\<lparr> p_offset := 0, p_ring := 0 \<rparr>, drop_flag := 0 \<rparr>,
                  snd (tool_thread_initMutex ret sy)))))"

definition tool_stream3_initReadPos ::
  "int \<times> int \<Rightarrow> tool_stream3 option \<Rightarrow> tool_stream3_pos option \<Rightarrow> (tool_stream3 \<times> tool_stream3_pos) outcome" where
  "tool_stream3_initReadPos tv stream read_pos =
     (case (stream, read_pos) of
        (Some s, Some r) \<Rightarrow>
          Inr (s\<lparr> s3_len := 0, s3_count := 0 \<rparr>,
               r\<lparr> p_offset := p_offset (s3_write_pos s), p_ring := p_ring (s3_write_pos s),
                  p_tick_sec := fst tv, p_tick_usec := snd tv \<rparr>)
      | _ \<Rightarrow> Inl Exit)"

text \<open>The code both writers share once they have decided to store the frame: the marker at the end
  of the ring when the rest is short, the head, the frame, the counters.\<close>

definition stream3_wrap :: "tool_stream3 \<Rightarrow> tool_stream3 outcome" where
  "stream3_wrap s =
     (let off = unat (p_offset (s3_write_pos s))
      in if off + 16 > unat (s3_size s) then Inl Exit
         else if off + 2 * 16 + TOOL_STREAM3_DATA_SIZE > unat (s3_size s)
         then andThen (pool_write off (stream3_head 0xFFFFFFFF) s) (\<lambda>s.
           Inr (s\<lparr> s3_write_pos := (s3_write_pos s)\<lparr> p_offset := 0, p_ring := p_ring (s3_write_pos s) + 1 \<rparr> \<rparr>))
         else Inr s)"

definition stream3_store :: "tool_stream3 \<Rightarrow> u8 list \<Rightarrow> u32 \<Rightarrow> tool_stream3 outcome" where
  "stream3_store s d len =
     andThen (stream3_wrap s) (\<lambda>s.
     andThen (pool_write (unat (p_offset (s3_write_pos s))) (stream3_head len) s) (\<lambda>s.
       let off = p_offset (s3_write_pos s) + 16
       in if unat len > length d then Inl Fault
          else andThen (pool_write (unat off) (take (unat len) d) s) (\<lambda>s.
            andThen (frame_type d) (\<lambda>t.
              Inr (s\<lparr> s3_write_pos := (s3_write_pos s)\<lparr> p_offset := off + len \<rparr>,
                      s3_count := (if is_picture t then s3_count s + 1 else s3_count s),
                      s3_len := s3_len s + (len + 16) \<rparr>)))))"

definition stream3_full :: "tool_stream3 \<Rightarrow> bool" where
  "stream3_full s \<longleftrightarrow> s3_len s > s3_size s - 2 * of_nat TOOL_STREAM3_DATA_SIZE"

text \<open>
  The loop: one element of \<open>rounds\<close> per wait, with the value of \<^verbatim>\<open>flag && *flag\<close> and what the other
  threads have done to the ring in the meantime.
\<close>

fun set_noDrop_loop ::
  "(bool \<times> (tool_stream3 \<Rightarrow> tool_stream3)) list \<Rightarrow> tool_stream3 \<Rightarrow> u8 list \<Rightarrow> u32 \<Rightarrow> (int \<times> tool_stream3) outcome" where
  "set_noDrop_loop rounds s d len =
     (if stream3_full s
      then (case rounds of
          [] \<Rightarrow> Inl Fuel
        | (go_on, others) # rounds \<Rightarrow>
            if go_on then set_noDrop_loop rounds (others s) d len else Inr (- 1, others s))
      else andThen (stream3_store s d len) (\<lambda>s. Inr (0, s)))"

declare set_noDrop_loop.simps [simp del]

definition tool_stream3_set_noDrop ::
  "(bool \<times> (tool_stream3 \<Rightarrow> tool_stream3)) list \<Rightarrow> tool_stream3 option \<Rightarrow> u8 list option \<Rightarrow> u32
     \<Rightarrow> (int \<times> tool_stream3) outcome" where
  "tool_stream3_set_noDrop rounds stream d len =
     (case (stream, d) of
        (Some s, Some d) \<Rightarrow>
          if len > of_nat TOOL_STREAM3_DATA_SIZE then Inr (0, s) else set_noDrop_loop rounds s d len
      | _ \<Rightarrow> Inl Exit)"

definition frame_usec :: "u8 \<Rightarrow> int" where
  "frame_usec rate = (if rate \<le> 0 \<or> rate > 30 then 40 * 1000 else 1000 * 1000 div uint rate)"

definition tool_stream3_set_withDrop ::
  "tool_stream3 option \<Rightarrow> u8 list option \<Rightarrow> u32 \<Rightarrow> int \<Rightarrow> tool_stream3 outcome" where
  "tool_stream3_set_withDrop stream d len nc_buffer_usec =
     (case (stream, d) of
        (Some s, Some d) \<Rightarrow>
          if len > of_nat TOOL_STREAM3_DATA_SIZE then Inr s
          else andThen (frame_rate d) (\<lambda>rate. andThen (frame_type d) (\<lambda>t.
            if drop_flag s \<noteq> 0 \<and> t = PTC_FRAME_P then Inr s
            else
              (let s = (if drop_flag s \<noteq> 0 \<and> t = PTC_FRAME_I then s\<lparr> drop_flag := 0 \<rparr> else s);
                   buffer_usec = int32 (frame_usec rate * s3_count s)
               in if is_picture t \<and> (stream3_full s \<or> buffer_usec > int32 (2 * nc_buffer_usec)) \<and> s3_count s > 5
                  then Inr (s\<lparr> drop_flag := 1 \<rparr>)
                  else stream3_store s d len)))
      | _ \<Rightarrow> Inl Exit)"

text \<open>The static tick of \<^verbatim>\<open>tool_stream3_state\<close> only paces a log line that is commented out.\<close>

definition tool_stream3_state :: "tool_stream3 option \<Rightarrow> int outcome" where
  "tool_stream3_state stream =
     (case stream of
        None \<Rightarrow> Inl Exit
      | Some s \<Rightarrow>
          Inr (if s3_len s < of_nat TOOL_STREAM3_DATA_SIZE then - 1 else if stream3_full s then 1 else 0))"

text \<open>The ring forgets everything and the reader catches up with the writer.\<close>

definition stream3_reset ::
  "tool_stream3 \<Rightarrow> tool_stream3_pos \<Rightarrow> tool_stream3 \<times> tool_stream3_pos" where
  "stream3_reset s r =
     (s\<lparr> s3_count := 0, s3_len := 0 \<rparr>,
      r\<lparr> p_offset := p_offset (s3_write_pos s), p_ring := p_ring (s3_write_pos s) \<rparr>)"

definition read_head ::
  "tool_stream3 \<Rightarrow> tool_stream3_pos \<Rightarrow> (u32 \<times> tool_stream3_pos) outcome" where
  "read_head s r =
     andThen (pool_read (unat (p_offset r)) 16 s) (\<lambda>b.
       Inr (stream3_head_len b, r\<lparr> p_offset := p_offset r + 16 \<rparr>))"

definition tool_stream3_get_simple ::
  "tool_stream3 option \<Rightarrow> tool_stream3_pos option \<Rightarrow> u8 list option \<Rightarrow> u32 option
     \<Rightarrow> (int \<times> tool_stream3 \<times> tool_stream3_pos \<times> u8 list \<times> u32) outcome" where
  "tool_stream3_get_simple stream read_pos d len =
     (case (stream, read_pos, d, len) of
        (Some s, Some r, Some d, Some l) \<Rightarrow>
          if p_offset r \<ge> s3_size s then Inl Exit
          else
            (let w = s3_write_pos s
             in if p_offset r = p_offset w \<and> p_ring r = p_ring w then Inr (0, s, r, d, l)
                else if (p_ring w - p_ring r) * s3_size s + (p_offset w - p_offset r) > s3_size s
                then (let (s, r) = stream3_reset s r in Inr (0, s, r, d, l))
                else andThen (read_head s r) (\<lambda>(n, r).
                  andThen (if n = 0xFFFFFFFF
                           then read_head s (r\<lparr> p_offset := 0, p_ring := p_ring r + 1 \<rparr>) else Inr (n, r)) (\<lambda>(n, r).
                    if l < n then (let (s, r) = stream3_reset s r in Inr (0, s, r, d, l))
                    else andThen (pool_read (unat (p_offset r)) (unat n) s) (\<lambda>bs.
                      andThen (buf_put 0 bs d) (\<lambda>d.
                        andThen (frame_type d) (\<lambda>t.
                          Inr (1, s\<lparr> s3_count := (if is_picture t then s3_count s - 1 else s3_count s),
                                     s3_len := s3_len s - (n + 16) \<rparr>,
                               r\<lparr> p_offset := p_offset r + n \<rparr>, d, n)))))))
      | _ \<Rightarrow> Inl Exit)"

text \<open>
  The wait before a frame is handed on, by how much is buffered, and its use by the live reader. The
  last component of a reader's result is how long it slept; \<open>tv\<close> is the clock before the wait,
  \<open>tv2\<close> the clock after it.
\<close>

definition rts_wait :: "int \<Rightarrow> int \<Rightarrow> int \<Rightarrow> int" where
  "rts_wait buffer_usec nc_buffer_usec inteval_usec =
     (if buffer_usec < nc_buffer_usec sdiv 4 then 4 * inteval_usec
      else if buffer_usec < nc_buffer_usec sdiv 2 then 2 * inteval_usec
      else if buffer_usec < int32 (nc_buffer_usec * 3) sdiv 4 then 4 * inteval_usec sdiv 3
      else if buffer_usec < nc_buffer_usec then inteval_usec
      else if buffer_usec < int32 (nc_buffer_usec * 5) sdiv 4 then 3 * inteval_usec sdiv 4
      else if buffer_usec < int32 (nc_buffer_usec * 6) sdiv 4 then inteval_usec sdiv 2
      else inteval_usec sdiv 4)"

definition tool_stream3_get_withRts ::
  "int \<times> int \<Rightarrow> int \<times> int \<Rightarrow> tool_stream3 option \<Rightarrow> tool_stream3_pos option \<Rightarrow> u8 list option \<Rightarrow> u32 option \<Rightarrow> int
     \<Rightarrow> (int \<times> tool_stream3 \<times> tool_stream3_pos \<times> u8 list \<times> u32 \<times> int) outcome" where
  "tool_stream3_get_withRts tv tv2 stream read_pos d len nc_buffer_usec =
     andThen (tool_stream3_get_simple stream read_pos d len) (\<lambda>(ret, s, r, d, l).
       if ret = 0 then Inr (0, s, r, d, l, 0)
       else andThen (frame_type d) (\<lambda>t.
         if \<not> is_picture t then Inr (1, s, r, d, l, 0)
         else andThen (frame_rate d) (\<lambda>rate.
           (let inteval_usec = frame_usec rate;
                buffer_usec = int32 (inteval_usec * s3_count s);
                wait = rts_wait buffer_usec nc_buffer_usec inteval_usec
            in Inr (1, s, r\<lparr> p_tick_sec := fst tv2, p_tick_usec := snd tv2 \<rparr>, d, l,
                    tool_sysf_waitTickTimeout tv (p_tick_sec r) (p_tick_usec r) wait)))))"

definition tool_stream3_get_withPbs ::
  "int \<times> int \<Rightarrow> int \<times> int \<Rightarrow> tool_stream3 option \<Rightarrow> tool_stream3_pos option \<Rightarrow> u8 list option \<Rightarrow> u32 option
     \<Rightarrow> (int \<times> tool_stream3 \<times> tool_stream3_pos \<times> u8 list \<times> u32 \<times> int) outcome" where
  "tool_stream3_get_withPbs tv tv2 stream read_pos d len =
     andThen (tool_stream3_get_simple stream read_pos d len) (\<lambda>(ret, s, r, d, l).
       if ret = 0 then Inr (0, s, r, d, l, 0)
       else andThen (frame_type d) (\<lambda>t.
         if \<not> is_picture t then Inr (1, s, r, d, l, 0)
         else andThen (frame_rate d) (\<lambda>rate.
           Inr (1, s, r\<lparr> p_tick_sec := fst tv2, p_tick_usec := snd tv2 \<rparr>, d, l,
                tool_sysf_waitTickTimeout tv (p_tick_sec r) (p_tick_usec r) (frame_usec rate)))))"

definition tool_stream3_done :: "int \<Rightarrow> sysf \<Rightarrow> tool_stream3 option \<Rightarrow> (tool_stream3 \<times> sysf) outcome" where
  "tool_stream3_done ret sy stream =
     (case stream of
        None \<Rightarrow> Inl Exit
      | Some s \<Rightarrow> andThen (tool_mem_free (s3_pool s) sy) (\<lambda>sy.
          Inr (s\<lparr> s3_pool := None \<rparr>, snd (tool_thread_doneMutex ret sy))))"

section \<open>Records in memory\<close>

fun rec_total :: "u8 list list \<Rightarrow> nat" where
  "rec_total [] = 0"
| "rec_total (x # xs) = 16 + length x + rec_total xs"

text \<open>The records of \<open>xs\<close> one after the other from address \<open>o\<close> on.\<close>

fun run_at :: "mem \<Rightarrow> nat \<Rightarrow> u8 list list \<Rightarrow> bool" where
  "run_at m a [] \<longleftrightarrow> True"
| "run_at m a (x # xs) \<longleftrightarrow> mem_read a 16 m = stream3_head (of_nat (length x))
     \<and> mem_read (a + 16) (length x) m = x \<and> run_at m (a + 16 + length x) xs"

lemma rec_total_append [simp]: "rec_total (xs @ ys) = rec_total xs + rec_total ys"
  by (induction xs) auto

lemma rec_total_ge_length: "16 * length xs \<le> rec_total xs"
  by (induction xs) auto

lemma run_at_append: "run_at m a (xs @ ys) \<longleftrightarrow> run_at m a xs \<and> run_at m (a + rec_total xs) ys"
  by (induction xs arbitrary: a) (auto simp: add.assoc)

lemma run_at_write:
  "run_at m a xs \<Longrightarrow> b + length bs \<le> a \<or> a + rec_total xs \<le> b \<Longrightarrow> run_at (mem_write b bs m) a xs"
  by (induction xs arbitrary: a) (auto simp: mem_simps)

lemma length_stream3_head [simp]: "length (stream3_head n) = 16"
  by (simp add: stream3_head_def TOOL_STREAM3_FLAG_def le4_def)

lemma head_len_stream3_head [simp]: "stream3_head_len (stream3_head n) = n"
  by (simp add: stream3_head_def stream3_head_len_def TOOL_STREAM3_FLAG_def le4_def le4_le32)

section \<open>What the ring holds\<close>

text \<open>
  A reader in the same round as the writer has the unread records between the two positions. A reader
  one round behind has some records up to a marker and the others from the start of the ring up to
  the writer, who has not reached the reader's position again.
\<close>

definition s3_sized :: "nat \<Rightarrow> tool_stream3 \<Rightarrow> bool" where
  "s3_sized S s \<longleftrightarrow> s3_size s = of_nat S \<and> 4 * 1024 * 1024 \<le> S \<and> S \<le> 8 * 1024 * 1024"

definition same_round :: "nat \<Rightarrow> tool_stream3 \<Rightarrow> tool_stream3_pos \<Rightarrow> u8 list list \<Rightarrow> bool" where
  "same_round S s r xs \<longleftrightarrow> (let w = s3_write_pos s in
     p_ring r = p_ring w \<and> run_at (s3_mem s) (unat (p_offset r)) xs
     \<and> unat (p_offset r) + rec_total xs = unat (p_offset w) \<and> unat (p_offset w) + 16 \<le> S)"

definition round_behind :: "nat \<Rightarrow> tool_stream3 \<Rightarrow> tool_stream3_pos \<Rightarrow> u8 list list \<Rightarrow> u8 list list \<Rightarrow> bool" where
  "round_behind S s r ys zs \<longleftrightarrow> (let w = s3_write_pos s; e = unat (p_offset r) + rec_total ys in
     p_ring w = p_ring r + 1 \<and> zs \<noteq> [] \<and> run_at (s3_mem s) (unat (p_offset r)) ys
     \<and> mem_read e 16 (s3_mem s) = stream3_head 0xFFFFFFFF \<and> e + 16 \<le> S
     \<and> S < e + 2 * 16 + TOOL_STREAM3_DATA_SIZE \<and> run_at (s3_mem s) 0 zs
     \<and> rec_total zs = unat (p_offset w) \<and> unat (p_offset w) \<le> unat (p_offset r))"

definition s3_holds :: "nat \<Rightarrow> nat \<Rightarrow> tool_stream3 \<times> tool_stream3_pos \<Rightarrow> u8 list list \<Rightarrow> bool" where
  "s3_holds n S st xs \<longleftrightarrow> s3_sized S (fst st) \<and> unat (s3_len (fst st)) = rec_total xs
     \<and> (\<forall>x \<in> set xs. 20 < length x \<and> length x \<le> n \<and> length x \<le> TOOL_STREAM3_DATA_SIZE)
     \<and> (same_round S (fst st) (snd st) xs
        \<or> (\<exists>ys zs. xs = ys @ zs \<and> round_behind S (fst st) (snd st) ys zs))"

text \<open>A frame that arrives: room for it, and its type within it.\<close>

definition s3_room :: "nat \<Rightarrow> nat \<Rightarrow> u8 list list \<Rightarrow> u8 list \<Rightarrow> bool" where
  "s3_room n S xs x \<longleftrightarrow> 20 < length x \<and> length x \<le> n \<and> length x + 47 \<le> TOOL_STREAM3_DATA_SIZE
     \<and> rec_total xs + 2 * TOOL_STREAM3_DATA_SIZE \<le> S"

definition s3_put ::
  "u8 list \<Rightarrow> tool_stream3 \<times> tool_stream3_pos \<Rightarrow> (tool_stream3 \<times> tool_stream3_pos) outcome" where
  "s3_put x st = andThen (tool_stream3_set_noDrop [(False, \<lambda>s. s)] (Some (fst st)) (Some x) (of_nat (length x)))
     (\<lambda>(ret, s). Inr (s, snd st))"

definition s3_take ::
  "nat \<Rightarrow> tool_stream3 \<times> tool_stream3_pos \<Rightarrow> (u8 list option \<times> tool_stream3 \<times> tool_stream3_pos) outcome" where
  "s3_take n st = andThen (tool_stream3_get_simple (Some (fst st)) (Some (snd st)) (Some (replicate n 0)) (Some (of_nat n)))
     (\<lambda>(ret, s, r, d, l). Inr (if ret = 1 then Some (take (unat l) d) else None, s, r))"

lemma unat_small: "m < 2 ^ 32 \<Longrightarrow> unat (of_nat m :: u32) = m"
  by (simp add: unat_of_nat_u32)

lemma s3_sized_unat: "s3_sized S s \<Longrightarrow> unat (s3_size s) = S"
  by (simp add: s3_sized_def unat_small)

lemma unat_add_small: "unat a + unat b < 2 ^ 32 \<Longrightarrow> unat (a + b :: u32) = unat a + unat b"
  by (simp add: unat_word_ariths)

lemma full_iff:
  assumes "s3_sized S s"
  shows "stream3_full s \<longleftrightarrow> unat (s3_len s) + 2 * TOOL_STREAM3_DATA_SIZE > S"
proof -
  have S: "unat (s3_size s) = S" "4194304 \<le> S" using s3_sized_unat [OF assms] assms by (auto simp: s3_sized_def)
  have d: "2 * of_nat TOOL_STREAM3_DATA_SIZE = (of_nat (2 * TOOL_STREAM3_DATA_SIZE) :: u32)" by simp
  have u: "unat (of_nat (2 * TOOL_STREAM3_DATA_SIZE) :: u32) = 2097152"
    by (simp add: TOOL_STREAM3_DATA_SIZE_def unat_small del: of_nat_mult)
  have "(of_nat (2 * TOOL_STREAM3_DATA_SIZE) :: u32) \<le> s3_size s"
    unfolding word_le_nat_alt u S(1) using S(2) by simp
  then have "unat (s3_size s - of_nat (2 * TOOL_STREAM3_DATA_SIZE)) = S - 2097152"
    by (simp only: unat_sub u S(1))
  then show ?thesis
    unfolding stream3_full_def d word_less_nat_alt using S(2)
    by (simp add: TOOL_STREAM3_DATA_SIZE_def) linarith
qed

text \<open>Storing a record at the write position, without a wrap.\<close>

lemma store_at:
  assumes "stream3_wrap s = Inr s'" "unat (p_offset (s3_write_pos s')) + 16 + length x \<le> unat (s3_size s')"
    "20 < length x" "unat (s3_size s') < 2 ^ 31"
  shows "\<exists>s2. stream3_store s x (of_nat (length x)) = Inr s2 \<and> s3_size s2 = s3_size s'
    \<and> s3_len s2 = s3_len s' + (of_nat (length x) + 16)
    \<and> p_ring (s3_write_pos s2) = p_ring (s3_write_pos s')
    \<and> unat (p_offset (s3_write_pos s2)) = unat (p_offset (s3_write_pos s')) + 16 + length x
    \<and> s3_mem s2 = mem_write (unat (p_offset (s3_write_pos s')) + 16) x
         (mem_write (unat (p_offset (s3_write_pos s'))) (stream3_head (of_nat (length x))) (s3_mem s'))"
proof -
  let ?w = "p_offset (s3_write_pos s')"
  have len: "unat (of_nat (length x) :: u32) = length x" using assms(2,4) by (intro unat_small) simp
  have off: "unat (?w + 16) = unat ?w + 16" using assms(2,4) by (simp add: unat_word_ariths)
  have off2: "unat (?w + 16 + of_nat (length x)) = unat ?w + 16 + length x"
    using assms(2,4) off len by (subst unat_add_small) simp_all
  show ?thesis
    using assms(1-3)
    by (simp add: stream3_store_def pool_write_def len off off2 frame_type_def byte_at_def)
qed

lemma run_at_store:
  assumes "run_at m a xs"
  shows "run_at (mem_write (a + rec_total xs + 16) x (mem_write (a + rec_total xs) (stream3_head (of_nat (length x))) m)) a (xs @ [x])"
  using assms by (auto simp: run_at_append mem_simps intro!: run_at_write)

lemma put_same_round:
  assumes same: "same_round S s r xs" and S: "s3_sized S s" and x: "20 < length x" "length x \<le> TOOL_STREAM3_DATA_SIZE"
    and near: "unat (p_offset (s3_write_pos s)) + 2 * 16 + TOOL_STREAM3_DATA_SIZE \<le> S"
  shows "\<exists>s2. stream3_store s x (of_nat (length x)) = Inr s2 \<and> s3_sized S s2
    \<and> s3_len s2 = s3_len s + (of_nat (length x) + 16) \<and> same_round S s2 r (xs @ [x])"
proof -
  have u: "unat (s3_size s) = S" using S by (rule s3_sized_unat)
  have wrap: "stream3_wrap s = Inr s" using near by (simp add: stream3_wrap_def u)
  from store_at [OF wrap, of x] x near S obtain s2 where s2: "stream3_store s x (of_nat (length x)) = Inr s2"
    "s3_size s2 = s3_size s" "s3_len s2 = s3_len s + (of_nat (length x) + 16)"
    "p_ring (s3_write_pos s2) = p_ring (s3_write_pos s)"
    "unat (p_offset (s3_write_pos s2)) = unat (p_offset (s3_write_pos s)) + 16 + length x"
    "s3_mem s2 = mem_write (unat (p_offset (s3_write_pos s)) + 16) x
         (mem_write (unat (p_offset (s3_write_pos s))) (stream3_head (of_nat (length x))) (s3_mem s))"
    by (auto simp: u s3_sized_def)
  have w: "unat (p_offset (s3_write_pos s)) = unat (p_offset r) + rec_total xs"
    and m: "run_at (s3_mem s) (unat (p_offset r)) xs" using same by (auto simp: same_round_def Let_def)
  have "same_round S s2 r (xs @ [x])"
    using same near x(2) s2(2-5) run_at_store [OF m, of x] by (simp add: same_round_def Let_def s2(6) w)
  with s2 S show ?thesis by (auto simp: s3_sized_def)
qed

lemma put_new_round:
  assumes same: "same_round S s r xs" and S: "s3_sized S s" and x: "20 < length x" "length x + 47 \<le> TOOL_STREAM3_DATA_SIZE"
    and far: "unat (p_offset (s3_write_pos s)) + 2 * 16 + TOOL_STREAM3_DATA_SIZE > S"
    and room: "rec_total xs + 2 * TOOL_STREAM3_DATA_SIZE \<le> S"
  shows "\<exists>s2. stream3_store s x (of_nat (length x)) = Inr s2 \<and> s3_sized S s2
    \<and> s3_len s2 = s3_len s + (of_nat (length x) + 16) \<and> round_behind S s2 r xs [x]"
proof -
  let ?w = "unat (p_offset (s3_write_pos s))"
  have u: "unat (s3_size s) = S" using S by (rule s3_sized_unat)
  have w: "?w = unat (p_offset r) + rec_total xs" "?w + 16 \<le> S" "p_ring r = p_ring (s3_write_pos s)"
    and m: "run_at (s3_mem s) (unat (p_offset r)) xs" using same by (auto simp: same_round_def Let_def)
  have r: "16 + length x \<le> unat (p_offset r)" using w(1) far room x(2) by linarith
  let ?s = "s\<lparr> s3_mem := mem_write ?w (stream3_head 0xFFFFFFFF) (s3_mem s),
     s3_write_pos := (s3_write_pos s)\<lparr> p_offset := 0, p_ring := p_ring (s3_write_pos s) + 1 \<rparr> \<rparr>"
  have wrap: "stream3_wrap s = Inr ?s" using far w(2) by (simp add: stream3_wrap_def u pool_write_def)
  from store_at [OF wrap, of x] x S r w(1,2) obtain s2 where s2: "stream3_store s x (of_nat (length x)) = Inr s2"
    "s3_size s2 = s3_size s" "s3_len s2 = s3_len s + (of_nat (length x) + 16)"
    "p_ring (s3_write_pos s2) = p_ring (s3_write_pos s) + 1" "unat (p_offset (s3_write_pos s2)) = 16 + length x"
    "s3_mem s2 = mem_write 16 x (mem_write 0 (stream3_head (of_nat (length x))) (s3_mem ?s))"
    by (auto simp: u s3_sized_def)
  have "round_behind S s2 r xs [x]"
    using m far w s2(4,5) r by (auto simp: round_behind_def Let_def s2(6) mem_simps intro!: run_at_write)
  with s2 S show ?thesis by (auto simp: s3_sized_def)
qed

lemma put_behind:
  assumes behind: "round_behind S s r ys zs" and S: "s3_sized S s"
    and x: "20 < length x" "length x + 47 \<le> TOOL_STREAM3_DATA_SIZE"
    and room: "rec_total (ys @ zs) + 2 * TOOL_STREAM3_DATA_SIZE \<le> S"
  shows "\<exists>s2. stream3_store s x (of_nat (length x)) = Inr s2 \<and> s3_sized S s2
    \<and> s3_len s2 = s3_len s + (of_nat (length x) + 16) \<and> round_behind S s2 r ys (zs @ [x])"
proof -
  let ?w = "unat (p_offset (s3_write_pos s))" and ?r = "unat (p_offset r)"
  have u: "unat (s3_size s) = S" using S by (rule s3_sized_unat)
  have b: "?w \<le> ?r" "rec_total zs = ?w" "S < ?r + rec_total ys + 2 * 16 + TOOL_STREAM3_DATA_SIZE"
    "?r + rec_total ys + 16 \<le> S" "run_at (s3_mem s) 0 zs" "run_at (s3_mem s) ?r ys"
    "mem_read (?r + rec_total ys) 16 (s3_mem s) = stream3_head 0xFFFFFFFF"
    "p_ring (s3_write_pos s) = p_ring r + 1"
    using behind by (auto simp: round_behind_def Let_def)
  have w: "?w + 16 + length x \<le> ?r" using b(1-4) room x(2) by simp
  have "?w + 2 * 16 + TOOL_STREAM3_DATA_SIZE \<le> S"
    using b(1-4) room by (simp add: TOOL_STREAM3_DATA_SIZE_def)
  then have wrap: "stream3_wrap s = Inr s" by (simp add: stream3_wrap_def u)
  from store_at [OF wrap, of x] x S w b(4) obtain s2 where s2: "stream3_store s x (of_nat (length x)) = Inr s2"
    "s3_size s2 = s3_size s" "s3_len s2 = s3_len s + (of_nat (length x) + 16)"
    "p_ring (s3_write_pos s2) = p_ring (s3_write_pos s)"
    "unat (p_offset (s3_write_pos s2)) = ?w + 16 + length x"
    "s3_mem s2 = mem_write (?w + 16) x (mem_write ?w (stream3_head (of_nat (length x))) (s3_mem s))"
    by (auto simp: u s3_sized_def)
  have "run_at (s3_mem s2) 0 (zs @ [x])"
    using run_at_store [OF b(5), of x] by (simp add: s2(6) b(2))
  moreover have "run_at (s3_mem s2) ?r ys"
    unfolding s2(6) using b(6) w by (intro run_at_write) auto
  moreover have "mem_read (?r + rec_total ys) 16 (s3_mem s2) = stream3_head 0xFFFFFFFF"
    using b(7) w by (simp add: s2(6) mem_simps)
  ultimately have "round_behind S s2 r ys (zs @ [x])"
    using b w s2(4,5) by (simp add: round_behind_def Let_def)
  with s2 S show ?thesis by (auto simp: s3_sized_def)
qed

lemma s3_put_spec:
  assumes holds: "s3_holds n S st xs" and room: "s3_room n S xs x"
  shows "\<exists>st'. s3_put x st = Inr st' \<and> s3_holds n S st' (xs @ [x])"
proof -
  obtain s r where st: "st = (s, r)" by (cases st)
  from holds have S: "s3_sized S s" and len: "unat (s3_len s) = rec_total xs"
    and sz: "\<forall>x \<in> set xs. 20 < length x \<and> length x \<le> n \<and> length x \<le> TOOL_STREAM3_DATA_SIZE"
    by (auto simp: s3_holds_def st)
  from room have x: "20 < length x" "length x \<le> n" "length x + 47 \<le> TOOL_STREAM3_DATA_SIZE"
    "rec_total xs + 2 * TOOL_STREAM3_DATA_SIZE \<le> S" by (auto simp: s3_room_def)
  have "\<exists>s2. stream3_store s x (of_nat (length x)) = Inr s2 \<and> s3_sized S s2
    \<and> s3_len s2 = s3_len s + (of_nat (length x) + 16)
    \<and> (same_round S s2 r (xs @ [x]) \<or> (\<exists>ys zs. xs @ [x] = ys @ zs \<and> round_behind S s2 r ys zs))"
  proof (cases "same_round S s r xs")
    case True
    then show ?thesis
      using put_same_round [OF True S x(1)] put_new_round [OF True S x(1,3) _ x(4)] x(3)
      by (cases "unat (p_offset (s3_write_pos s)) + 2 * 16 + TOOL_STREAM3_DATA_SIZE \<le> S") fastforce+
  next
    case False
    with holds obtain ys zs where "xs = ys @ zs" "round_behind S s r ys zs" by (auto simp: s3_holds_def st)
    with put_behind [OF _ S x(1,3), of r ys zs] x(4) show ?thesis by fastforce
  qed
  then obtain s2 where s2: "stream3_store s x (of_nat (length x)) = Inr s2" "s3_sized S s2"
    "s3_len s2 = s3_len s + (of_nat (length x) + 16)"
    "same_round S s2 r (xs @ [x]) \<or> (\<exists>ys zs. xs @ [x] = ys @ zs \<and> round_behind S s2 r ys zs)" by blast
  have lx: "unat (of_nat (length x) :: u32) = length x"
    using x(3) by (intro unat_small) (simp add: TOOL_STREAM3_DATA_SIZE_def)
  have "S \<le> 8 * 1024 * 1024" using S by (simp add: s3_sized_def)
  then have "unat (s3_len s2) = rec_total (xs @ [x])"
    using x(3,4) len lx by (simp add: s2(3) unat_word_ariths TOOL_STREAM3_DATA_SIZE_def)
  moreover have "\<not> of_nat (length x) > (of_nat TOOL_STREAM3_DATA_SIZE :: u32)"
    using x(3) lx by (simp add: word_less_nat_alt unat_small TOOL_STREAM3_DATA_SIZE_def)
  moreover have "\<not> stream3_full s" using full_iff [OF S] len x(4) by simp
  ultimately show ?thesis
    using s2 sz x by (simp add: s3_put_def tool_stream3_set_noDrop_def set_noDrop_loop.simps st s3_holds_def)
qed

text \<open>Reading: where the record is, and what reading it leaves.\<close>

lemma unread_span:
  assumes S: "s3_sized S s" and "same_round S s r xs \<or> round_behind S s r ys zs"
  shows "\<not> (p_ring (s3_write_pos s) - p_ring r) * s3_size s + (p_offset (s3_write_pos s) - p_offset r) > s3_size s"
    "p_offset r < s3_size s"
proof -
  have u: "unat (s3_size s) = S" "4194304 \<le> S" "S \<le> 8388608"
    using s3_sized_unat [OF S] S by (auto simp: s3_sized_def)
  let ?w = "p_offset (s3_write_pos s)"
  have "\<not> (p_ring (s3_write_pos s) - p_ring r) * s3_size s + (?w - p_offset r) > s3_size s \<and> p_offset r < s3_size s"
    using assms(2)
  proof
    assume same: "same_round S s r xs"
    then have w: "p_ring r = p_ring (s3_write_pos s)" "unat (p_offset r) \<le> unat ?w" "unat ?w + 16 \<le> S"
      by (auto simp: same_round_def Let_def)
    then have "p_offset r \<le> ?w" by (simp add: word_le_nat_alt)
    then have "unat (?w - p_offset r) = unat ?w - unat (p_offset r)" by (rule unat_sub)
    with w u show ?thesis by (simp add: word_less_nat_alt)
  next
    assume "round_behind S s r ys zs"
    then have w: "p_ring (s3_write_pos s) - p_ring r = 1" "unat ?w \<le> unat (p_offset r)" "unat (p_offset r) + 16 \<le> S"
      by (auto simp: round_behind_def Let_def)
    then have "?w \<le> p_offset r" by (simp add: word_le_nat_alt)
    then have d: "unat (p_offset r - ?w) = unat (p_offset r) - unat ?w" by (rule unat_sub)
    then have "p_offset r - ?w \<le> s3_size s" using w(3) u by (simp add: word_le_nat_alt)
    then have "unat (s3_size s - (p_offset r - ?w)) = S - (unat (p_offset r) - unat ?w)"
      by (simp add: unat_sub d u)
    moreover have "s3_size s + (?w - p_offset r) = s3_size s - (p_offset r - ?w)" by simp
    ultimately have "unat (s3_size s + (?w - p_offset r)) = S - (unat (p_offset r) - unat ?w)" by (simp only:)
    then show ?thesis using w u by (simp add: word_less_nat_alt)
  qed
  then show "\<not> (p_ring (s3_write_pos s) - p_ring r) * s3_size s + (p_offset (s3_write_pos s) - p_offset r) > s3_size s"
    "p_offset r < s3_size s" by blast+
qed

lemma read_record:
  assumes "run_at (s3_mem s) (unat (p_offset r)) (x # xs)" "unat (p_offset r) + 16 + length x \<le> unat (s3_size s)"
    "unat (s3_size s) < 2 ^ 31"
  shows "read_head s r = Inr (of_nat (length x), r\<lparr> p_offset := p_offset r + 16 \<rparr>)"
    "pool_read (unat (p_offset r + 16)) (length x) s = Inr x"
    "unat (p_offset r + 16 + of_nat (length x)) = unat (p_offset r) + 16 + length x"
proof -
  have "unat (p_offset r + 16) = unat (p_offset r) + 16" using assms(2,3) by (simp add: unat_word_ariths)
  moreover have "unat (of_nat (length x) :: u32) = length x" using assms(2,3) by (intro unat_small) simp
  ultimately show "pool_read (unat (p_offset r + 16)) (length x) s = Inr x"
    "unat (p_offset r + 16 + of_nat (length x)) = unat (p_offset r) + 16 + length x"
    using assms by (simp_all add: pool_read_def unat_word_ariths)
qed (use assms in \<open>simp add: read_head_def pool_read_def\<close>)

lemma read_marker:
  assumes "mem_read (unat (p_offset r)) 16 (s3_mem s) = stream3_head 0xFFFFFFFF" "unat (p_offset r) + 16 \<le> unat (s3_size s)"
  shows "read_head s r = Inr (0xFFFFFFFF, r\<lparr> p_offset := p_offset r + 16 \<rparr>)"
  using assms by (simp add: read_head_def pool_read_def)

text \<open>The positions of the first record: the reader's own, or the start of the ring at a marker.\<close>

definition first_rec :: "tool_stream3 \<Rightarrow> tool_stream3_pos \<Rightarrow> tool_stream3_pos" where
  "first_rec s r = (if mem_read (unat (p_offset r)) 16 (s3_mem s) = stream3_head 0xFFFFFFFF
     then r\<lparr> p_offset := 0, p_ring := p_ring r + 1 \<rparr> else r)"

lemma get_record:
  assumes S: "s3_sized S s"
    and "unat (p_offset r) + 16 \<le> S" "p_offset r \<noteq> p_offset (s3_write_pos s) \<or> p_ring r \<noteq> p_ring (s3_write_pos s)"
    and span: "\<not> (p_ring (s3_write_pos s) - p_ring r) * s3_size s + (p_offset (s3_write_pos s) - p_offset r) > s3_size s"
    and rec: "run_at (s3_mem s) (unat (p_offset (first_rec s r))) (x # xs)"
      "unat (p_offset (first_rec s r)) + 16 + length x \<le> S"
    and x: "20 < length x" "length x \<le> n" "length x \<le> TOOL_STREAM3_DATA_SIZE" and n: "n < 2 ^ 32"
  shows "\<exists>s2 r2. s3_take n (s, r) = Inr (Some x, s2, r2) \<and> s3_size s2 = s3_size s \<and> s3_mem s2 = s3_mem s
    \<and> s3_write_pos s2 = s3_write_pos s \<and> s3_len s2 = s3_len s - (of_nat (length x) + 16)
    \<and> unat (p_offset r2) = unat (p_offset (first_rec s r)) + 16 + length x \<and> p_ring r2 = p_ring (first_rec s r)"
proof -
  have u: "unat (s3_size s) = S" "S < 2 ^ 31" "4194304 \<le> S" using s3_sized_unat [OF S] S by (auto simp: s3_sized_def)
  let ?r = "first_rec s r" and ?n = "of_nat (length x) :: u32"
  note rr = read_record [OF rec(1) rec(2) [folded u(1)] u(2) [folded u(1)]]
  have off: "p_offset r < s3_size s" using assms(2) u by (simp add: word_less_nat_alt)
  have ln: "unat ?n = length x" using x(3) by (intro unat_small) (simp add: TOOL_STREAM3_DATA_SIZE_def)
  then have nm: "?n \<noteq> 0xFFFFFFFF" using x(3) by (auto simp: TOOL_STREAM3_DATA_SIZE_def)
  have nl: "\<not> of_nat n < ?n" using x(2) n by (simp add: word_less_nat_alt unat_small ln)
  have two: "andThen (read_head s r) (\<lambda>(m, r). if m = 0xFFFFFFFF
      then read_head s (r\<lparr> p_offset := 0, p_ring := p_ring r + 1 \<rparr>) else Inr (m, r)) =
      Inr (?n, ?r\<lparr> p_offset := p_offset ?r + 16 \<rparr>)"
  proof (cases "mem_read (unat (p_offset r)) 16 (s3_mem s) = stream3_head 0xFFFFFFFF")
    case True
    then have "?r = r\<lparr> p_offset := 0, p_ring := p_ring r + 1 \<rparr>" by (simp add: first_rec_def)
    with rr(1) read_marker [OF True] assms(2) u show ?thesis by simp
  next
    case False
    then have "?r = r" by (simp add: first_rec_def)
    with rr(1) nm show ?thesis by simp
  qed
  then obtain m r1 where h: "read_head s r = Inr (m, r1)" "(if m = 0xFFFFFFFF
      then read_head s (r1\<lparr> p_offset := 0, p_ring := p_ring r1 + 1 \<rparr>) else Inr (m, r1)) =
      Inr (?n, ?r\<lparr> p_offset := p_offset ?r + 16 \<rparr>)" by (auto simp: andThen_Inr_iff)
  have put: "buf_put 0 x (replicate n (0 :: u8)) = Inr (x @ drop (length x) (replicate n 0))"
    using x(2) by (simp add: buf_put_def)
  show ?thesis
    using off assms(3) span h nl rr(2,3) x(1) ln
    by (simp add: s3_take_def tool_stream3_get_simple_def Let_def put frame_type_def byte_at_def)
qed

lemma head_not_marker:
  assumes "mem_read a 16 m = stream3_head (of_nat (length x))" "length x \<le> TOOL_STREAM3_DATA_SIZE"
  shows "mem_read a 16 m \<noteq> stream3_head 0xFFFFFFFF"
proof
  assume "mem_read a 16 m = stream3_head 0xFFFFFFFF"
  with assms(1) have "of_nat (length x) = (0xFFFFFFFF :: u32)" by (metis head_len_stream3_head)
  then have "unat (of_nat (length x) :: u32) = 0xFFFFFFFF" by simp
  with assms(2) show False by (simp add: unat_small TOOL_STREAM3_DATA_SIZE_def)
qed

text \<open>Where the first record lies and what is left when it is gone.\<close>

lemma first_record:
  assumes S: "s3_sized S s" and x: "length x \<le> TOOL_STREAM3_DATA_SIZE"
    and "same_round S s r (x # xs) \<or> (\<exists>ys zs. x # xs = ys @ zs \<and> round_behind S s r ys zs)"
  shows "(\<exists>us. run_at (s3_mem s) (unat (p_offset (first_rec s r))) (x # us))
    \<and> unat (p_offset (first_rec s r)) + 16 + length x \<le> S \<and> unat (p_offset r) + 16 \<le> S
    \<and> (p_offset r \<noteq> p_offset (s3_write_pos s) \<or> p_ring r \<noteq> p_ring (s3_write_pos s))
    \<and> (\<forall>s2 r2. s3_mem s2 = s3_mem s \<and> s3_write_pos s2 = s3_write_pos s
        \<and> unat (p_offset r2) = unat (p_offset (first_rec s r)) + 16 + length x \<and> p_ring r2 = p_ring (first_rec s r)
        \<longrightarrow> same_round S s2 r2 xs \<or> (\<exists>ys zs. xs = ys @ zs \<and> round_behind S s2 r2 ys zs))"
  using assms(3)
proof (elim disjE exE conjE)
  assume same: "same_round S s r (x # xs)"
  then have "first_rec s r = r"
    using head_not_marker [OF _ x] by (auto simp: first_rec_def same_round_def Let_def)
  with same show ?thesis by (auto simp: same_round_def Let_def)
next
  fix ys zs assume b: "x # xs = ys @ zs" "round_behind S s r ys zs"
  show ?thesis
  proof (cases ys)
    case Nil
    with b obtain zs' where zs: "zs = x # zs'" "zs' = xs" by auto
    from b(2) Nil have "first_rec s r = r\<lparr> p_offset := 0, p_ring := p_ring r + 1 \<rparr>"
      by (simp add: first_rec_def round_behind_def Let_def)
    with b(2) zs Nil show ?thesis by (auto simp: round_behind_def same_round_def Let_def)
  next
    case (Cons y ys')
    with b have ys: "ys = x # ys'" "xs = ys' @ zs" by auto
    with b(2) have "first_rec s r = r"
      using head_not_marker [OF _ x] by (auto simp: first_rec_def round_behind_def Let_def)
    moreover have "round_behind S s2 r2 ys' zs" if "s3_mem s2 = s3_mem s" "s3_write_pos s2 = s3_write_pos s"
      "unat (p_offset r2) = unat (p_offset r) + 16 + length x" "p_ring r2 = p_ring r" for s2 r2
      using b(2) that by (simp add: round_behind_def Let_def ys(1) add.assoc)
    ultimately show ?thesis
      using b(2) ys by (auto simp: round_behind_def Let_def)
  qed
qed

lemma s3_take_spec:
  assumes holds: "s3_holds n S st xs" and n: "n < 2 ^ 32"
  shows "\<exists>st'. s3_take n st = Inr (case xs of [] \<Rightarrow> None | x # _ \<Rightarrow> Some x, st') \<and> s3_holds n S st' (tl xs)"
proof -
  obtain s r where st: "st = (s, r)" by (cases st)
  from holds have S: "s3_sized S s" and len: "unat (s3_len s) = rec_total xs"
    and sz: "\<forall>x \<in> set xs. 20 < length x \<and> length x \<le> n \<and> length x \<le> TOOL_STREAM3_DATA_SIZE"
    and sh: "same_round S s r xs \<or> (\<exists>ys zs. xs = ys @ zs \<and> round_behind S s r ys zs)"
    by (auto simp: s3_holds_def st)
  from sh unread_span [OF S] have span: "p_offset r < s3_size s"
    "\<not> (p_ring (s3_write_pos s) - p_ring r) * s3_size s + (p_offset (s3_write_pos s) - p_offset r) > s3_size s"
    by blast+
  show ?thesis
  proof (cases xs)
    case Nil
    with sh have "same_round S s r []" by (auto simp: round_behind_def Let_def)
    then have "p_ring r = p_ring (s3_write_pos s)" "p_offset r = p_offset (s3_write_pos s)"
      by (auto simp: same_round_def Let_def word_unat_eq_iff)
    then show ?thesis
      using holds span(1) Nil by (simp add: s3_take_def tool_stream3_get_simple_def st)
  next
    case (Cons x xs')
    from sz Cons have x: "20 < length x" "length x \<le> n" "length x \<le> TOOL_STREAM3_DATA_SIZE" by auto
    from first_record [OF S x(3) sh [unfolded Cons]] obtain us where
      f: "run_at (s3_mem s) (unat (p_offset (first_rec s r))) (x # us)"
        "unat (p_offset (first_rec s r)) + 16 + length x \<le> S" "unat (p_offset r) + 16 \<le> S"
        "p_offset r \<noteq> p_offset (s3_write_pos s) \<or> p_ring r \<noteq> p_ring (s3_write_pos s)"
      and left: "\<And>s2 r2. s3_mem s2 = s3_mem s \<Longrightarrow> s3_write_pos s2 = s3_write_pos s
        \<Longrightarrow> unat (p_offset r2) = unat (p_offset (first_rec s r)) + 16 + length x \<Longrightarrow> p_ring r2 = p_ring (first_rec s r)
        \<Longrightarrow> same_round S s2 r2 xs' \<or> (\<exists>ys zs. xs' = ys @ zs \<and> round_behind S s2 r2 ys zs)"
      by blast
    from get_record [OF S f(3,4) span(2) f(1,2) x n] obtain s2 r2 where g:
      "s3_take n (s, r) = Inr (Some x, s2, r2)" "s3_size s2 = s3_size s" "s3_mem s2 = s3_mem s"
      "s3_write_pos s2 = s3_write_pos s" "s3_len s2 = s3_len s - (of_nat (length x) + 16)"
      "unat (p_offset r2) = unat (p_offset (first_rec s r)) + 16 + length x" "p_ring r2 = p_ring (first_rec s r)"
      by blast
    have lx: "unat (of_nat (length x) + 16 :: u32) = length x + 16"
      using x(3) by (simp add: unat_word_ariths unat_of_nat_u32 TOOL_STREAM3_DATA_SIZE_def)
    then have "of_nat (length x) + 16 \<le> s3_len s" using len Cons by (simp add: word_le_nat_alt)
    then have "unat (s3_len s2) = rec_total xs'" using len Cons by (simp add: g(5) unat_sub lx)
    then show ?thesis
      using g(1,2) left [OF g(3,4,6,7)] S sz by (auto simp: s3_holds_def st Cons s3_sized_def)
  qed
qed

text \<open>The buffer of the QH client's reader is \<^verbatim>\<open>sizeof (ptc_frame_t)\<close>, 512032 bytes.\<close>

interpretation s3: fifo s3_put "s3_take 512032" "s3_holds 512032 S" "s3_room 512032 S" for S :: nat
  using s3_put_spec s3_take_spec by unfold_locales auto

lemma s3_fresh:
  assumes "tool_stream3_init answer junk ret sy (Some s0) sz = Inr (s, sy')"
    and "tool_stream3_initReadPos tv (Some s) (Some r0) = Inr (s', r)"
  shows "s3_holds n (unat (s3_size s)) (s', r) []"
proof -
  have "4194304 \<le> unat (s3_size s) \<and> unat (s3_size s) \<le> 8388608 \<and> s3_write_pos s = (s3_write_pos s0)\<lparr> p_offset := 0, p_ring := 0 \<rparr>"
    using assms(1) by (auto simp: tool_stream3_init_def Let_def andThen_Inr_iff word_less_nat_alt not_less)
  then show ?thesis
    using assms(2) by (auto simp: tool_stream3_initReadPos_def s3_holds_def s3_sized_def same_round_def Let_def)
qed

section \<open>Dropping pictures\<close>

text \<open>
  Frames offered one after the other, with the buffering limit at that time and what the other
  threads do to the ring before; the results say which were stored, which shows in the write position.
\<close>

fun offer_all ::
  "(u8 list \<times> int \<times> (tool_stream3 \<Rightarrow> tool_stream3)) list \<Rightarrow> tool_stream3 \<Rightarrow> (bool list \<times> tool_stream3) outcome" where
  "offer_all [] s = Inr ([], s)"
| "offer_all ((x, limit, others) # xs) s =
     andThen (tool_stream3_set_withDrop (Some (others s)) (Some x) (of_nat (length x)) limit) (\<lambda>s'.
       andThen (offer_all xs s') (\<lambda>(bs, s2). Inr ((s3_write_pos s' \<noteq> s3_write_pos (others s)) # bs, s2)))"

text \<open>No picture that depends on its predecessor is stored without it.\<close>

fun decodable :: "bool \<Rightarrow> (u8 \<times> bool) list \<Rightarrow> bool" where
  "decodable prev [] \<longleftrightarrow> True"
| "decodable prev ((t, stored) # xs) \<longleftrightarrow>
     (if t = PTC_FRAME_P then (stored \<longrightarrow> prev) \<and> decodable stored xs
      else if t = PTC_FRAME_I then decodable stored xs else decodable prev xs)"

lemma wrap_moves:
  assumes "stream3_wrap s = Inr s'"
  shows "drop_flag s' = drop_flag s \<and>
    (s' = s \<or> p_ring (s3_write_pos s') = p_ring (s3_write_pos s) + 1)"
  using assms by (auto simp: stream3_wrap_def pool_write_def Let_def split: if_splits)

lemma store_moves:
  assumes "stream3_store s x len = Inr s'" "unat len \<le> TOOL_STREAM3_DATA_SIZE"
  shows "drop_flag s' = drop_flag s \<and> s3_write_pos s' \<noteq> s3_write_pos s"
proof -
  from assms(1) obtain s1 where s1: "stream3_wrap s = Inr s1" "drop_flag s' = drop_flag s1"
    "s3_write_pos s' = (s3_write_pos s1)\<lparr> p_offset := p_offset (s3_write_pos s1) + 16 + len \<rparr>"
    by (auto simp: stream3_store_def andThen_Inr_iff pool_write_def Let_def split: if_splits)
  have "unat (16 + len) = 16 + unat len" using assms(2) by (simp add: unat_word_ariths TOOL_STREAM3_DATA_SIZE_def)
  then have "16 + len \<noteq> 0" by (metis add_is_0 unat_0 zero_neq_numeral)
  then have "p_offset (s3_write_pos s1) + 16 + len \<noteq> p_offset (s3_write_pos s1)" by (simp add: add.assoc)
  then show ?thesis using wrap_moves [OF s1(1)] s1(2,3) by (auto dest: arg_cong [where f = p_offset] arg_cong [where f = p_ring])
qed

lemma withDrop_cases:
  assumes "tool_stream3_set_withDrop (Some s) (Some x) (of_nat (length x)) limit = Inr s'"
    and "length x \<le> TOOL_STREAM3_DATA_SIZE"
  obtains (stored) t where "frame_type x = Inr t" "s3_write_pos s' \<noteq> s3_write_pos s"
      "drop_flag s' = (if t = PTC_FRAME_I then 0 else drop_flag s)" "t = PTC_FRAME_P \<Longrightarrow> drop_flag s = 0"
    | (dropped) t where "frame_type x = Inr t" "is_picture t" "s3_write_pos s' = s3_write_pos s" "drop_flag s' \<noteq> 0"
proof -
  have len: "unat (of_nat (length x) :: u32) = length x"
    using assms(2) by (intro unat_small) (simp add: TOOL_STREAM3_DATA_SIZE_def)
  have IP: "PTC_FRAME_I \<noteq> PTC_FRAME_P" by (simp add: PTC_FRAME_I_def PTC_FRAME_P_def)
  have small: "\<not> of_nat (length x) > (of_nat TOOL_STREAM3_DATA_SIZE :: u32)"
    using assms(2) len by (simp add: word_less_nat_alt unat_small TOOL_STREAM3_DATA_SIZE_def)
  from assms(1) small obtain t where t: "frame_type x = Inr t"
    by (auto simp: tool_stream3_set_withDrop_def andThen_Inr_iff)
  define s0 where "s0 = (if drop_flag s \<noteq> 0 \<and> t = PTC_FRAME_I then s\<lparr> drop_flag := 0 \<rparr> else s)"
  have s0: "s3_write_pos s0 = s3_write_pos s" "drop_flag s0 = (if t = PTC_FRAME_I then 0 else drop_flag s)"
    by (simp_all add: s0_def)
  from assms(1) small t obtain rate where "frame_rate x = Inr rate"
    by (auto simp: tool_stream3_set_withDrop_def andThen_Inr_iff)
  then have "\<exists>c. (if drop_flag s \<noteq> 0 \<and> t = PTC_FRAME_P then Inr s
      else if is_picture t \<and> c then Inr (s0\<lparr> drop_flag := 1 \<rparr>) else stream3_store s0 x (of_nat (length x))) = Inr s'"
    using assms(1) small t by (simp only: tool_stream3_set_withDrop_def Let_def option.case prod.case
        andThen_simps if_False s0_def [symmetric]) blast
  then obtain c where c: "(if drop_flag s \<noteq> 0 \<and> t = PTC_FRAME_P then Inr s
      else if is_picture t \<and> c then Inr (s0\<lparr> drop_flag := 1 \<rparr>) else stream3_store s0 x (of_nat (length x))) = Inr s'" ..
  consider "drop_flag s \<noteq> 0" "t = PTC_FRAME_P" "s' = s"
    | "is_picture t" "s' = s0\<lparr> drop_flag := 1 \<rparr>" "drop_flag s = 0 \<or> t \<noteq> PTC_FRAME_P"
    | "stream3_store s0 x (of_nat (length x)) = Inr s'" "drop_flag s = 0 \<or> t \<noteq> PTC_FRAME_P"
  proof (cases "drop_flag s \<noteq> 0 \<and> t = PTC_FRAME_P")
    case True
    with c have "s' = s" by (simp only: if_True simp_thms sum.inject)
    with True show thesis using that(1) by blast
  next
    case False
    with c have e: "(if is_picture t \<and> c then Inr (s0\<lparr> drop_flag := 1 \<rparr>) else stream3_store s0 x (of_nat (length x))) = Inr s'"
      by (simp only: if_False)
    show thesis
    proof (cases "is_picture t \<and> c")
      case True
      with e have "s' = s0\<lparr> drop_flag := 1 \<rparr>" by (simp only: if_True simp_thms sum.inject)
      with True False show thesis using that(2) by blast
    next
      case no: False
      with e have "stream3_store s0 x (of_nat (length x)) = Inr s'" by (simp only: if_False)
      with False show thesis using that(3) by blast
    qed
  qed
  then show ?thesis
  proof cases
    case 1
    then show ?thesis using dropped [OF t] by (simp add: is_picture_def)
  next
    case 2
    then show ?thesis using dropped [OF t] by (simp add: s0)
  next
    case 3
    have "unat (of_nat (length x) :: u32) \<le> TOOL_STREAM3_DATA_SIZE" using assms(2) len by simp
    from store_moves [OF 3(1) this] 3(2) show ?thesis
      using stored [OF t] IP by (auto simp: s0)
  qed
qed

lemma offer_decodable:
  assumes "offer_all xs s = Inr (bs, s')"
    and "\<forall>(x, limit, others) \<in> set xs. length x \<le> TOOL_STREAM3_DATA_SIZE \<and> (\<forall>s. drop_flag (others s) = drop_flag s)"
    and "drop_flag s \<noteq> 0 \<longleftrightarrow> \<not> prev"
  shows "length bs = length xs \<and> decodable prev (zip (map (\<lambda>(x, _). x ! 20) xs) bs)"
  using assms
proof (induction xs arbitrary: s bs prev)
  case Nil
  then show ?case by simp
next
  case (Cons a xs)
  obtain x limit others where a: "a = (x, limit, others)" by (cases a)
  from Cons.prems(2) a have x: "length x \<le> TOOL_STREAM3_DATA_SIZE" and o: "drop_flag (others s) = drop_flag s" by auto
  from Cons.prems(1) a obtain s1 cs where s1:
    "tool_stream3_set_withDrop (Some (others s)) (Some x) (of_nat (length x)) limit = Inr s1"
    "offer_all xs s1 = Inr (cs, s')" "bs = (s3_write_pos s1 \<noteq> s3_write_pos (others s)) # cs"
    by (auto simp: andThen_Inr_iff)
  have rest: "length cs = length xs \<and> decodable (drop_flag s1 = 0) (zip (map (\<lambda>(x, _). x ! 20) xs) cs)"
    using Cons.IH [OF s1(2)] Cons.prems(2) by auto
  have t: "x ! 20 = t" if "frame_type x = Inr t" for t
    using that by (auto simp: frame_type_def byte_at_def split: if_splits)
  have IP: "PTC_FRAME_I \<noteq> PTC_FRAME_P" by (simp add: PTC_FRAME_I_def PTC_FRAME_P_def)
  from s1(1) x show ?case
  proof (cases rule: withDrop_cases)
    case (stored t)
    then show ?thesis using rest Cons.prems(3) IP by (auto simp: a s1(3) t [OF stored(1)] o split: if_splits)
  next
    case (dropped t)
    then show ?thesis using rest by (auto simp: a s1(3) t [OF dropped(1)] is_picture_def)
  qed
qed

section \<open>Properties\<close>

text \<open>C12: As long as the writer waits for room, the ring loses, invents and reorders nothing, whatever
  the sizes of the frames and however often the writer goes round: what came out and what is still
  held is, in order, what was put in.\<close>

theorem stream3_delivers:
  assumes "tool_stream3_init answer junk ret sy (Some s0) sz = Inr (s, sy')"
    and "tool_stream3_initReadPos tv (Some s) (Some r0) = Inr (s', r)"
    and "roomy (s3_room 512032 (unat (s3_size s))) ops []"
  shows "\<exists>out st left. ring_run s3_put (s3_take 512032) ops (s', r) = Inr (out, st)
     \<and> s3_holds 512032 (unat (s3_size s)) st left \<and> out @ left = puts ops"
  using s3.run_conserves [OF s3_fresh [OF assms(1,2)] assms(3)] by simp

definition demo_stream3 :: tool_stream3 where
  "demo_stream3 = \<lparr> s3_pool = None, s3_mem = (\<lambda>_. 0), s3_size = 0, s3_len = 7, s3_count = 0,
     s3_write_pos = \<lparr> p_offset = 9, p_ring = 9, p_tick_sec = 0, p_tick_usec = 0 \<rparr>, drop_flag = 1 \<rparr>"

theorem stream3_delivers_witness:
  "\<exists>s sy' s' r st. tool_stream3_init (Some 64) (\<lambda>_. 0) 0 sysf_start (Some demo_stream3) 100 = Inr (s, sy')
     \<and> tool_stream3_initReadPos (5, 6) (Some s) (Some (s3_write_pos demo_stream3)) = Inr (s', r)
     \<and> ring_run s3_put (s3_take 512032) [Put (replicate 300 1), Put (replicate 28 2), Get, Get] (s', r) =
         Inr ([replicate 300 1, replicate 28 2], st)"
proof -
  obtain s sy' where i: "tool_stream3_init (Some 64) (\<lambda>_. 0) 0 sysf_start (Some demo_stream3) 100 = Inr (s, sy')"
    and sz: "s3_size s = 4194304"
    by (auto simp: tool_stream3_init_def tool_mem_malloc_def demo_stream3_def)
  obtain s' r where r: "tool_stream3_initReadPos (5, 6) (Some s) (Some (s3_write_pos demo_stream3)) = Inr (s', r)"
    by (auto simp: tool_stream3_initReadPos_def)
  let ?ops = "[Put (replicate 300 1), Put (replicate 28 2), Get, Get] :: u8 list ring_op list"
  have room: "roomy (s3_room 512032 (unat (s3_size s))) ?ops []"
    by (simp add: sz s3_room_def TOOL_STREAM3_DATA_SIZE_def)
  from stream3_delivers [OF i r room] obtain out st where
    o: "ring_run s3_put (s3_take 512032) ?ops (s', r) = Inr (out, st)" by blast
  from s3.run_lossless [OF s3_fresh [OF i r] room] obtain st' where
    "ring_run s3_put (s3_take 512032) ?ops (s', r) = Inr (fst (queue_run ?ops []), st')" by blast
  then have "out = fst (queue_run ?ops [])" unfolding o by simp
  then have "out = [replicate 300 1, replicate 28 2]" by simp
  with i r o show ?thesis by blast
qed

text \<open>C13: Whatever the limits and whatever the other threads do to the ring, no P picture is stored when
  the picture before it was dropped, so what is stored can be decoded.\<close>

theorem stream3_pictures_decodable:
  assumes "offer_all xs s = Inr (bs, s')" "drop_flag s = 0"
    and "\<forall>(x, limit, others) \<in> set xs. length x \<le> TOOL_STREAM3_DATA_SIZE \<and> (\<forall>s. drop_flag (others s) = drop_flag s)"
  shows "length bs = length xs \<and> decodable True (zip (map (\<lambda>(x, _). x ! 20) xs) bs)"
  using offer_decodable [OF assms(1,3), of True] assms(2) by simp

theorem stream3_pictures_decodable_witness:
  "\<exists>s'. offer_all [(replicate 20 0 @ [1, 0, 25], 0, id), (replicate 20 0 @ [2, 0, 25], 900000, s3_count_update (\<lambda>_. 0)),
       (replicate 20 0 @ [1, 0, 25], 0, id)]
       (demo_stream3\<lparr> s3_size := 4194304, s3_count := 6, drop_flag := 0 \<rparr>) = Inr ([False, False, True], s')
     \<and> decodable True (zip [1, 2, 1] [False, False, True])"
proof -
  let ?xs = "[(replicate 20 0 @ [1, 0, 25], 0, id), (replicate 20 0 @ [2, 0, 25], 900000, s3_count_update (\<lambda>_. 0)),
       (replicate 20 0 @ [1, 0, 25], 0, id)]
     :: (u8 list \<times> int \<times> (tool_stream3 \<Rightarrow> tool_stream3)) list"
  let ?s = "demo_stream3\<lparr> s3_size := 4194304, s3_count := 6, drop_flag := 0 \<rparr>"
  obtain s' where run: "offer_all ?xs ?s = Inr ([False, False, True], s')"
    by (simp add: tool_stream3_set_withDrop_def demo_stream3_def frame_rate_def frame_type_def byte_at_def
        nth_append stream3_full_def TOOL_STREAM3_DATA_SIZE_def frame_usec_def is_picture_def PTC_FRAME_I_def
        PTC_FRAME_P_def int32_id stream3_store_def stream3_wrap_def pool_write_def Let_def)
  show ?thesis using stream3_pictures_decodable [OF run] run
    by (auto simp: TOOL_STREAM3_DATA_SIZE_def demo_stream3_def nth_append)
qed

lemma sdiv_nonneg: "0 \<le> a \<Longrightarrow> 0 < b \<Longrightarrow> a sdiv b = a div b" for a b :: int
  by (auto simp: signed_divide_int_def sgn_if)

lemma ladder: "b \<le> b' \<Longrightarrow> x' \<le> c \<Longrightarrow> x' \<le> x \<Longrightarrow> (if b' < n then c else x') \<le> (if b < n then c else x)"
  and if_le: "a \<le> c \<Longrightarrow> x' \<le> c \<Longrightarrow> (if p then a else x') \<le> c"
  and le_if: "c \<le> a \<Longrightarrow> c \<le> x' \<Longrightarrow> c \<le> (if p then a else x')"
  for b n c :: int
  by auto

text \<open>The live reader's pacing: the more is buffered the shorter the wait, which is between a quarter
  of the frame interval and four intervals, for limits that do not overflow the code's products.\<close>

theorem rts_wait_paced:
  assumes "0 \<le> nc" "nc \<le> 300000000" "0 < inteval" "inteval \<le> 1000000" "buffered \<le> buffered'"
  shows "rts_wait buffered' nc inteval \<le> rts_wait buffered nc inteval
     \<and> inteval div 4 \<le> rts_wait buffered' nc inteval \<and> rts_wait buffered nc inteval \<le> 4 * inteval"
proof -
  have i: "int32 (nc * 3) = nc * 3" "int32 (nc * 5) = nc * 5" "int32 (nc * 6) = nc * 6"
    using assms(1,2) by (simp_all add: int32_id)
  define q h t1 t2 n1 n2 where d: "q = inteval div 4" "h = inteval div 2" "t1 = 4 * inteval div 3"
    "t2 = 3 * inteval div 4" "n1 = nc div 4" "n2 = nc div 2"
  have w: "rts_wait b nc inteval = (if b < n1 then 4 * inteval else if b < n2 then 2 * inteval
      else if b < nc * 3 div 4 then t1 else if b < nc then inteval
      else if b < nc * 5 div 4 then t2 else if b < nc * 6 div 4 then h else q)" for b
    using assms by (simp add: rts_wait_def i sdiv_nonneg d)
  have "q \<le> h" "h \<le> t2" "t2 \<le> inteval" "inteval \<le> t1" "t1 \<le> 2 * inteval" "0 \<le> q"
    unfolding d using assms(3) by linarith+
  then show ?thesis
    unfolding w d(1) [symmetric] using assms(3,5) by (intro conjI ladder if_le le_if) linarith+
qed

theorem rts_wait_paced_witness:
  "rts_wait 900000 600000 40000 \<le> rts_wait 100000 600000 40000 \<and> 40000 div 4 \<le> rts_wait 900000 600000 40000"
  using rts_wait_paced [of 600000 40000 100000 900000] by simp

end
