(* ===== verification/Tool_Tpool.thy ===== *)
theory Tool_Tpool
  imports Tool_Sysf
begin

text \<open>
  \<^verbatim>\<open>sab_app/jni/nc/tool_tpool.c\<close>: threads that take jobs from a bounded list. What happens under
  the pool's lock is one step; what the code does without the lock is split into its reads and
  writes. A worker that waits on the condition variable is blocked until a signal or a broadcast
  reaches it, or until the wait returns without one, and then tests the loop's condition again.
\<close>

section \<open>State\<close>

definition TPOOL_SIZE :: int where "TPOOL_SIZE = 100"
definition TPOOL_WORK_SIZE :: int where "TPOOL_WORK_SIZE = 10000"

record tpool_work =
  tw_func :: nat
  tw_arg :: nat

record tpool =
  tp_state :: int
  tp_thd_num :: int
  tp_active_num :: int
  tp_work_head :: "tpool_work list"
  tp_work_num :: int
  tp_work_size :: int

text \<open>
  Where a thread is in \<^verbatim>\<open>tpool_run\<close>: about to test the condition of the waiting loop, with the lock;
  blocked in \<^verbatim>\<open>tool_thread_waitCond\<close>; with a job taken; between the read and the write of
  \<^verbatim>\<open>active_num ++\<close>; in the job's function; back from it; between the read and the write of
  \<^verbatim>\<open>active_num --\<close>; about to free the job; returned.
\<close>

datatype worker = Testing | Waiting | Took tpool_work | Up tpool_work int | Running tpool_work
  | Ran tpool_work | Down tpool_work int | Freeing tpool_work | Left

text \<open>
  The pool, its threads, how many jobs are allocated, and the history: the jobs that were accepted
  those that were taken and those thrown away at the end, in order, and those whose function has
  returned.
\<close>

record tsys =
  pool :: tpool
  workers :: "worker list"
  nodes :: int
  accepted :: "tpool_work list"
  taken :: "tpool_work list"
  discarded :: "tpool_work list"
  finished :: "tpool_work list"

section \<open>Operations\<close>

definition tpool_start :: "int list \<Rightarrow> tsys \<Rightarrow> int \<Rightarrow> int \<Rightarrow> tsys outcome" where
  "tpool_start answers s thd_num work_size =
     (if thd_num < 0 \<or> thd_num > TPOOL_SIZE \<or> work_size < 0 \<or> work_size > TPOOL_WORK_SIZE then Inl Exit
      else if tp_state (pool s) \<noteq> 0 then Inr s
      else if \<not> (\<forall>i < nat thd_num. answers ! i = 0) then Inl Exit
      else Inr \<lparr> pool = \<lparr> tp_state = 1, tp_thd_num = thd_num, tp_active_num = 0, tp_work_head = [],
                          tp_work_num = 0, tp_work_size = work_size \<rparr>,
                 workers = replicate (nat thd_num) Testing, nodes = nodes s,
                 accepted = [], taken = [], discarded = [], finished = [] \<rparr>)"

text \<open>The walk to the last element of the list.\<close>

fun link_last :: "tpool_work \<Rightarrow> tpool_work list \<Rightarrow> tpool_work list" where
  "link_last work [] = [work]"
| "link_last work (w # ws) = w # link_last work ws"

definition tpool_addWork :: "tpool \<Rightarrow> nat option \<Rightarrow> nat \<Rightarrow> (int \<times> tpool) outcome" where
  "tpool_addWork p func arg =
     (case func of
        None \<Rightarrow> Inl Exit
      | Some f \<Rightarrow>
          if tp_work_num p \<ge> tp_work_size p then Inr (- 1, p)
          else Inr (0, p\<lparr> tp_work_head := link_last \<lparr> tw_func = f, tw_arg = arg \<rparr> (tp_work_head p),
                          tp_work_num := tp_work_num p + 1 \<rparr>))"

text \<open>
  The condition variable: \<^verbatim>\<open>pthread_cond_signal\<close> lets one of the threads that wait on it go back to the
  test, any of them, and is lost when none waits; \<^verbatim>\<open>pthread_cond_broadcast\<close> lets all of them go.
\<close>

inductive tool_thread_signalCond :: "worker list \<Rightarrow> worker list \<Rightarrow> bool" where
  wakes: "i < length ws \<Longrightarrow> ws ! i = Waiting \<Longrightarrow> tool_thread_signalCond ws (ws[i := Testing])"
| lost: "Waiting \<notin> set ws \<Longrightarrow> tool_thread_signalCond ws ws"

definition tool_thread_broadcastCond :: "worker list \<Rightarrow> worker list" where
  "tool_thread_broadcastCond = map (\<lambda>w. if w = Waiting then Testing else w)"

text \<open>
  One step of one of the threads. With the lock the thread tests the condition of the loop and takes
  the first job, leaves, or waits, which gives the lock back.
\<close>

inductive worker_step :: "tsys \<Rightarrow> tsys \<Rightarrow> bool" where
  take_work: "i < length (workers s) \<Longrightarrow> workers s ! i = Testing \<Longrightarrow> tp_state (pool s) \<noteq> 0
    \<Longrightarrow> tp_work_head (pool s) = w # ws \<Longrightarrow>
    worker_step s (s\<lparr> pool := (pool s)\<lparr> tp_work_head := ws, tp_work_num := tp_work_num (pool s) - 1 \<rparr>,
                      workers := (workers s)[i := Took w], taken := taken s @ [w] \<rparr>)"
| wait_cond: "i < length (workers s) \<Longrightarrow> workers s ! i = Testing \<Longrightarrow> tp_state (pool s) \<noteq> 0
    \<Longrightarrow> tp_work_head (pool s) = [] \<Longrightarrow> worker_step s (s\<lparr> workers := (workers s)[i := Waiting] \<rparr>)"
| leave: "i < length (workers s) \<Longrightarrow> workers s ! i = Testing \<Longrightarrow> tp_state (pool s) = 0 \<Longrightarrow>
    worker_step s (s\<lparr> workers := (workers s)[i := Left] \<rparr>)"
| up_read: "i < length (workers s) \<Longrightarrow> workers s ! i = Took w \<Longrightarrow>
    worker_step s (s\<lparr> workers := (workers s)[i := Up w (tp_active_num (pool s))] \<rparr>)"
| up_write: "i < length (workers s) \<Longrightarrow> workers s ! i = Up w n \<Longrightarrow>
    worker_step s (s\<lparr> pool := (pool s)\<lparr> tp_active_num := n + 1 \<rparr>, workers := (workers s)[i := Running w] \<rparr>)"
| run: "i < length (workers s) \<Longrightarrow> workers s ! i = Running w \<Longrightarrow>
    worker_step s (s\<lparr> workers := (workers s)[i := Ran w], finished := finished s @ [w] \<rparr>)"
| down_read: "i < length (workers s) \<Longrightarrow> workers s ! i = Ran w \<Longrightarrow>
    worker_step s (s\<lparr> workers := (workers s)[i := Down w (tp_active_num (pool s))] \<rparr>)"
| down_write: "i < length (workers s) \<Longrightarrow> workers s ! i = Down w n \<Longrightarrow>
    worker_step s (s\<lparr> pool := (pool s)\<lparr> tp_active_num := n - 1 \<rparr>, workers := (workers s)[i := Freeing w] \<rparr>)"
| free: "i < length (workers s) \<Longrightarrow> workers s ! i = Freeing w \<Longrightarrow>
    worker_step s (s\<lparr> workers := (workers s)[i := Testing], nodes := nodes s - 1 \<rparr>)"

text \<open>
  Steps of the pool's user: a call of \<^verbatim>\<open>tpool_addWork\<close>, which signals the condition when it has added
  the job, and the parts of \<^verbatim>\<open>tpool_stop\<close>: the state, written without the lock; the broadcast, with the
  lock; and, when all threads have been joined, freeing the jobs that are left. The last rule is the
  system's: a wait may return though nobody signalled.
\<close>

inductive client_step :: "tsys \<Rightarrow> tsys \<Rightarrow> bool" where
  add: "tpool_addWork (pool s) (Some f) arg = Inr (0, p) \<Longrightarrow> tool_thread_signalCond (workers s) ws \<Longrightarrow>
    client_step s (s\<lparr> pool := p, workers := ws, nodes := nodes s + 1, accepted := accepted s @ [\<lparr> tw_func = f, tw_arg = arg \<rparr>] \<rparr>)"
| reject: "tpool_addWork (pool s) (Some f) arg = Inr (- 1, p) \<Longrightarrow> client_step s (s\<lparr> pool := p \<rparr>)"
| stop: "tp_state (pool s) \<noteq> 0 \<Longrightarrow> client_step s (s\<lparr> pool := (pool s)\<lparr> tp_state := 0 \<rparr> \<rparr>)"
| broadcast: "tp_state (pool s) = 0 \<Longrightarrow>
    client_step s (s\<lparr> workers := tool_thread_broadcastCond (workers s) \<rparr>)"
| joined: "tp_state (pool s) = 0 \<Longrightarrow> set (workers s) \<subseteq> {Left} \<Longrightarrow>
    client_step s (s\<lparr> pool := (pool s)\<lparr> tp_work_head := [] \<rparr>, nodes := nodes s - int (length (tp_work_head (pool s))),
                      discarded := discarded s @ tp_work_head (pool s) \<rparr>)"
| spurious: "i < length (workers s) \<Longrightarrow> workers s ! i = Waiting \<Longrightarrow>
    client_step s (s\<lparr> workers := (workers s)[i := Testing] \<rparr>)"

abbreviation tpool_step :: "tsys \<Rightarrow> tsys \<Rightarrow> bool" where
  "tpool_step s s' \<equiv> worker_step s s' \<or> client_step s s'"

abbreviation tpool_steps :: "tsys \<Rightarrow> tsys \<Rightarrow> bool" where
  "tpool_steps \<equiv> tpool_step\<^sup>*\<^sup>*"

section \<open>The invariant\<close>

lemma link_last_append [simp]: "link_last w ws = ws @ [w]"
  by (induction ws) auto

text \<open>The job a thread holds, and whether its function has returned.\<close>

fun held :: "worker \<Rightarrow> tpool_work list" where
  "held (Took w) = [w]"
| "held (Up w n) = [w]"
| "held (Running w) = [w]"
| "held (Ran w) = [w]"
| "held (Down w n) = [w]"
| "held (Freeing w) = [w]"
| "held _ = []"

fun pending :: "worker \<Rightarrow> tpool_work list" where
  "pending (Took w) = [w]"
| "pending (Up w n) = [w]"
| "pending (Running w) = [w]"
| "pending _ = []"

definition all_of :: "(worker \<Rightarrow> tpool_work list) \<Rightarrow> worker list \<Rightarrow> tpool_work multiset" where
  "all_of f ws = mset (concat (map f ws))"

lemma all_of_update:
  assumes "i < length ws"
  shows "all_of f (ws[i := x]) + mset (f (ws ! i)) = all_of f ws + mset (f x)"
  using assms unfolding all_of_def
  by (induction ws arbitrary: i) (auto split: nat.split)

text \<open>
  \<open>base\<close> is the number of allocated jobs before the pool was started. Jobs are taken in the order in
  which they were accepted; what was taken has been run or is with a thread; the counter of jobs is
  right while the pool runs and never above the limit; every allocated job is in the list or with a
  thread.
\<close>

definition tpool_inv :: "int \<Rightarrow> tsys \<Rightarrow> bool" where
  "tpool_inv base s \<longleftrightarrow> taken s @ discarded s @ tp_work_head (pool s) = accepted s
     \<and> mset (taken s) = mset (finished s) + all_of pending (workers s)
     \<and> nodes s = base + int (length (tp_work_head (pool s))) + int (size (all_of held (workers s)))
     \<and> tp_work_num (pool s) = int (length (discarded s) + length (tp_work_head (pool s)))
     \<and> tp_work_num (pool s) \<le> tp_work_size (pool s)
     \<and> (tp_state (pool s) \<noteq> 0 \<longrightarrow> Left \<notin> set (workers s) \<and> discarded s = [])
     \<and> (discarded s \<noteq> [] \<longrightarrow> set (workers s) \<subseteq> {Left})"

text \<open>
  No wake-up is lost: while the pool runs and a thread is blocked, at least as many threads are about
  to test the list as there are jobs in it.
\<close>

definition awake :: "tsys \<Rightarrow> bool" where
  "awake s \<longleftrightarrow> (tp_state (pool s) \<noteq> 0 \<longrightarrow> Waiting \<in> set (workers s) \<longrightarrow>
     length (tp_work_head (pool s)) \<le> count (mset (workers s)) Testing)"

text \<open>A thread that moves on with what it holds, and one that takes or gives up a job.\<close>

lemma all_of_move:
  assumes "i < length ws" "ws ! i = a"
  shows "mset (f x) = mset (f a) \<Longrightarrow> all_of f (ws[i := x]) = all_of f ws"
    "f a = [] \<Longrightarrow> f x = [w] \<Longrightarrow> all_of f (ws[i := x]) = add_mset w (all_of f ws)"
    "f a = [w] \<Longrightarrow> f x = [] \<Longrightarrow> add_mset w (all_of f (ws[i := x])) = all_of f ws"
  using all_of_update [OF assms(1), of f x] assms(2) by simp_all

lemma Left_update: "i < length ws \<Longrightarrow> x \<noteq> Left \<Longrightarrow> Left \<notin> set ws \<Longrightarrow> Left \<notin> set (ws[i := x])"
  using set_update_subset_insert [of ws i x] by auto

lemma not_all_left: "i < length ws \<Longrightarrow> ws ! i \<noteq> Left \<Longrightarrow> \<not> set ws \<subseteq> {Left}"
  by (auto dest: nth_mem)

lemma worker_step_inv:
  assumes "worker_step s s'" "tpool_inv base s"
  shows "tpool_inv base s'"
  using assms
proof cases
  case (take_work i w ws)
  then have "discarded s = []" using assms(2) by (simp add: tpool_inv_def)
  with take_work assms(2) all_of_move(2) [OF take_work(2,3), of pending "Took w" w]
    all_of_move(2) [OF take_work(2,3), of held "Took w" w] show ?thesis
    by (auto simp: tpool_inv_def Left_update)
next
  case (wait_cond i)
  then show ?thesis
    using assms(2) all_of_move(1) [OF wait_cond(2,3), of _ Waiting] not_all_left [OF wait_cond(2)]
    by (auto simp: tpool_inv_def Left_update)
next
  case (leave i)
  then show ?thesis
    using assms(2) all_of_move(1) [OF leave(2,3), of _ Left] not_all_left [OF leave(2)]
    by (auto simp: tpool_inv_def)
next
  case (up_read i w)
  then show ?thesis
    using assms(2) all_of_move(1) [OF up_read(2,3)] not_all_left [OF up_read(2)]
    by (auto simp: tpool_inv_def Left_update)
next
  case (up_write i w n)
  then show ?thesis
    using assms(2) all_of_move(1) [OF up_write(2,3)] not_all_left [OF up_write(2)]
    by (auto simp: tpool_inv_def Left_update)
next
  case (run i w)
  then show ?thesis
    using assms(2) all_of_move(1) [OF run(2,3), of held "Ran w"] all_of_move(3) [OF run(2,3), of pending w "Ran w"]
      not_all_left [OF run(2)]
    by (auto simp: tpool_inv_def Left_update)
next
  case (down_read i w)
  then show ?thesis
    using assms(2) all_of_move(1) [OF down_read(2,3)] not_all_left [OF down_read(2)]
    by (auto simp: tpool_inv_def Left_update)
next
  case (down_write i w n)
  then show ?thesis
    using assms(2) all_of_move(1) [OF down_write(2,3)] not_all_left [OF down_write(2)]
    by (auto simp: tpool_inv_def Left_update)
next
  case (free i w)
  then have "size (all_of held (workers s)) = Suc (size (all_of held ((workers s)[i := Testing])))"
    using all_of_move(3) [OF free(2,3), of held w Testing] by (metis held.simps(6,7) size_add_mset)
  then show ?thesis
    using free assms(2) all_of_move(1) [OF free(2,3), of pending Testing] not_all_left [OF free(2)]
    by (auto simp: tpool_inv_def Left_update)
qed

text \<open>What a signal, a broadcast or a spurious return does to the threads: some that waited test again.\<close>

definition woken :: "worker list \<Rightarrow> worker list \<Rightarrow> bool" where
  "woken = list_all2 (\<lambda>a b. b = a \<or> a = Waiting \<and> b = Testing)"

lemma woken_update:
  assumes "i < length ws" "ws ! i = Waiting"
  shows "woken ws (ws[i := Testing])"
proof -
  have "ws[i := Testing] ! k = ws ! k \<or> ws ! k = Waiting \<and> ws[i := Testing] ! k = Testing" if "k < length ws" for k
    using assms that by (cases "k = i") simp_all
  then show ?thesis by (simp add: woken_def list_all2_conv_all_nth)
qed

lemma woken_signal: "tool_thread_signalCond ws ws' \<Longrightarrow> woken ws ws'"
proof (induction rule: tool_thread_signalCond.induct)
  case (lost ws)
  show ?case by (simp add: woken_def list_all2_conv_all_nth)
qed (rule woken_update)

lemma woken_broadcast: "woken ws (tool_thread_broadcastCond ws)"
  by (auto simp: woken_def tool_thread_broadcastCond_def list_all2_conv_all_nth)

lemma woken_keeps:
  assumes "woken ws ws'"
  shows "length ws' = length ws" "all_of held ws' = all_of held ws" "all_of pending ws' = all_of pending ws"
    "Left \<in> set ws' \<longleftrightarrow> Left \<in> set ws" "set ws' \<subseteq> {Left} \<longleftrightarrow> set ws \<subseteq> {Left}"
  using assms unfolding woken_def all_of_def by (induction rule: list_all2_induct) auto

lemma client_step_inv:
  assumes "client_step s s'" "tpool_inv base s"
  shows "tpool_inv base s'"
  using assms
proof cases
  case (add f arg p ws)
  then show ?thesis
    using assms(2) woken_keeps [OF woken_signal [OF add(3)]]
    by (auto simp: tpool_inv_def tpool_addWork_def split: if_splits)
next
  case broadcast
  then show ?thesis using assms(2) woken_keeps [OF woken_broadcast [of "workers s"]] by (auto simp: tpool_inv_def)
next
  case (spurious i)
  then show ?thesis using assms(2) woken_keeps [OF woken_update [OF spurious(2,3)]] by (auto simp: tpool_inv_def)
qed (auto simp: tpool_inv_def tpool_addWork_def split: if_splits)

lemma tpool_steps_inv: "tpool_steps s s' \<Longrightarrow> tpool_inv base s \<Longrightarrow> tpool_inv base s'"
  by (induction rule: rtranclp_induct) (auto intro: worker_step_inv client_step_inv)

text \<open>The number of threads about to test the list, when one thread moves.\<close>

lemma testing_update:
  assumes "i < length ws" "ws ! i = a"
  shows "count (mset (ws[i := x])) Testing + (if a = Testing then 1 else 0)
     = count (mset ws) Testing + (if x = Testing then 1 else 0)"
proof -
  have "a \<in># mset ws" using assms by auto
  then show ?thesis using assms by (auto simp: mset_update dest: multi_member_split)
qed

lemma waiting_update: "Waiting \<in> set (ws[i := x]) \<Longrightarrow> x \<noteq> Waiting \<Longrightarrow> Waiting \<in> set ws"
  using set_update_subset_insert [of ws i x] by auto

lemma worker_step_awake: "worker_step s s' \<Longrightarrow> awake s \<Longrightarrow> awake s'"
proof (induction rule: worker_step.induct)
  case (take_work i s w ws)
  then show ?case
    using testing_update [OF take_work(1,2), of "Took w"] waiting_update [of "workers s" i "Took w"]
    by (auto simp: awake_def)
next
  case (free i s w)
  then show ?case
    using testing_update [OF free(1,2), of Testing] waiting_update [of "workers s" i Testing]
    by (auto simp: awake_def)
next
  case (up_read i s w)
  then show ?case
    using testing_update [OF up_read(1,2), of "Up w (tp_active_num (pool s))"] waiting_update [of "workers s" i]
    by (auto simp: awake_def)
next
  case (up_write i s w n)
  then show ?case
    using testing_update [OF up_write(1,2), of "Running w"] waiting_update [of "workers s" i]
    by (auto simp: awake_def)
next
  case (run i s w)
  then show ?case
    using testing_update [OF run(1,2), of "Ran w"] waiting_update [of "workers s" i] by (auto simp: awake_def)
next
  case (down_read i s w)
  then show ?case
    using testing_update [OF down_read(1,2), of "Down w (tp_active_num (pool s))"] waiting_update [of "workers s" i]
    by (auto simp: awake_def)
next
  case (down_write i s w n)
  then show ?case
    using testing_update [OF down_write(1,2), of "Freeing w"] waiting_update [of "workers s" i]
    by (auto simp: awake_def)
qed (auto simp: awake_def)

lemma client_step_awake: "client_step s s' \<Longrightarrow> awake s \<Longrightarrow> awake s'"
proof (induction rule: client_step.induct)
  case (add s f arg p ws)
  from add(2) show ?case
  proof cases
    case (wakes i)
    then have "Waiting \<in> set (workers s)" by (metis nth_mem)
    with add wakes testing_update [OF wakes(2,3), of Testing] show ?thesis
      by (auto simp: awake_def tpool_addWork_def split: if_splits)
  qed (use add in \<open>auto simp: awake_def tpool_addWork_def split: if_splits\<close>)
next
  case (spurious i s)
  then have "Waiting \<in> set (workers s)" by (metis nth_mem)
  with spurious testing_update [OF spurious(1,2), of Testing] show ?case by (auto simp: awake_def)
qed (auto simp: awake_def tpool_addWork_def split: if_splits)

lemma tpool_steps_awake: "tpool_steps s s' \<Longrightarrow> awake s \<Longrightarrow> awake s'"
  by (induction rule: rtranclp_induct) (auto intro: worker_step_awake client_step_awake)

lemma tpool_start_inv:
  assumes "tpool_start answers s0 thd_num work_size = Inr s" "tp_state (pool s0) = 0"
  shows "tpool_inv (nodes s0) s" "awake s" "length (workers s) = nat thd_num" "tp_state (pool s) = 1"
  using assms by (auto simp: tpool_start_def tpool_inv_def awake_def all_of_def split: if_splits)

section \<open>Progress\<close>

fun rank :: "worker \<Rightarrow> nat" where
  "rank (Took w) = 9"
| "rank (Up w n) = 8"
| "rank (Running w) = 7"
| "rank (Ran w) = 6"
| "rank (Down w n) = 5"
| "rank (Freeing w) = 4"
| "rank Testing = 3"
| "rank Waiting = 2"
| "rank Left = 1"

text \<open>How many steps the threads can still make on their own.\<close>

definition work_left :: "tsys \<Rightarrow> nat" where
  "work_left s = 8 * length (tp_work_head (pool s)) + sum_list (map rank (workers s))"

lemma sum_list_update_less:
  fixes f :: "'a \<Rightarrow> nat"
  assumes "i < length xs"
  shows "sum_list (map f (xs[i := x])) + f (xs ! i) = sum_list (map f xs) + f x"
  using assms by (induction xs arbitrary: i) (auto split: nat.split)

lemma rank_update:
  "i < length ws \<Longrightarrow> ws ! i = a \<Longrightarrow> rank x < rank a + k \<Longrightarrow>
    sum_list (map rank (ws[i := x])) < sum_list (map rank ws) + k"
  using sum_list_update_less [of i ws rank x] by simp

lemma worker_step_decreases: "worker_step s s' \<Longrightarrow> work_left s' < work_left s"
proof (induction rule: worker_step.induct)
  case (take_work i s w ws)
  then show ?case using rank_update [OF take_work(1,2), of "Took w" 8] by (simp add: work_left_def)
qed (simp_all add: work_left_def rank_update [where k = 0, simplified])

lemma worker_steps_bounded: "(worker_step ^^ k) s s' \<Longrightarrow> k + work_left s' \<le> work_left s"
proof (induction k arbitrary: s')
  case (Suc k)
  then obtain s1 where "(worker_step ^^ k) s s1" "worker_step s1 s'" by auto
  with Suc.IH [of s1] worker_step_decreases [of s1 s'] show ?case by simp
qed simp

lemma workers_settle: "\<exists>s'. worker_step\<^sup>*\<^sup>* s s' \<and> (\<forall>s3. \<not> worker_step s' s3)"
proof (induction "work_left s" arbitrary: s rule: less_induct)
  case less
  show ?case
  proof (cases "\<exists>s1. worker_step s s1")
    case True
    then obtain s1 where s1: "worker_step s s1" ..
    from less [OF worker_step_decreases [OF s1]] obtain s' where
      "worker_step\<^sup>*\<^sup>* s1 s'" "\<forall>s3. \<not> worker_step s' s3" by blast
    with s1 show ?thesis by (meson converse_rtranclp_into_rtranclp)
  qed auto
qed

lemma stuck_threads:
  assumes "\<And>s'. \<not> worker_step s s'" "w \<in> set (workers s)"
  shows "w = Left \<or> w = Waiting"
proof -
  from assms(2) obtain i where i: "i < length (workers s)" "workers s ! i = w" by (auto simp: in_set_conv_nth)
  show ?thesis
  proof (cases w)
    case Testing
    then show ?thesis
      using assms(1) worker_step.leave [OF i(1)] worker_step.take_work [OF i(1)] worker_step.wait_cond [OF i(1)] i(2)
      by (cases "tp_work_head (pool s)"; cases "tp_state (pool s) = 0") auto
  qed (use assms(1) i worker_step.intros(4-9) [OF i(1)] in blast)+
qed

text \<open>What the threads leave alone, and what is left when no thread can go on.\<close>

lemma worker_step_keeps:
  "worker_step s s' \<Longrightarrow> accepted s' = accepted s \<and> tp_state (pool s') = tp_state (pool s)
     \<and> length (workers s') = length (workers s)"
  by (induction rule: worker_step.induct) auto

lemma worker_steps_keep:
  "worker_step\<^sup>*\<^sup>* s s' \<Longrightarrow> accepted s' = accepted s \<and> tp_state (pool s') = tp_state (pool s)
     \<and> length (workers s') = length (workers s)"
  by (induction rule: rtranclp_induct) (auto dest: worker_step_keeps)

lemma worker_steps_awake: "worker_step\<^sup>*\<^sup>* s s' \<Longrightarrow> awake s \<Longrightarrow> awake s'"
  by (induction rule: rtranclp_induct) (auto intro: worker_step_awake)

lemma worker_steps_inv: "worker_step\<^sup>*\<^sup>* s s' \<Longrightarrow> tpool_inv base s \<Longrightarrow> tpool_inv base s'"
  by (induction rule: rtranclp_induct) (auto intro: worker_step_inv)

lemma all_of_idle: "set ws \<subseteq> {Waiting, Left} \<Longrightarrow> all_of held ws = {#} \<and> all_of pending ws = {#}"
  unfolding all_of_def by (induction ws) auto

lemma stuck_done:
  assumes inv: "tpool_inv base s" "awake s" and stuck: "\<And>s'. \<not> worker_step s s'"
    and on: "tp_state (pool s) \<noteq> 0" and some: "workers s \<noteq> []"
  shows "mset (finished s) = mset (accepted s) \<and> nodes s = base \<and> set (workers s) = {Waiting}"
proof -
  have ws: "w = Waiting" if "w \<in> set (workers s)" for w
    using stuck_threads [OF stuck that] inv on that by (auto simp: tpool_inv_def)
  obtain w where w: "w \<in> set (workers s)" using some by (cases "workers s") auto
  have idle: "set (workers s) = {Waiting}" using ws w by blast
  then have "Testing \<notin># mset (workers s)" by simp
  then have "count (mset (workers s)) Testing = 0" by (simp only: not_in_iff)
  moreover have "Waiting \<in> set (workers s)" using idle by simp
  ultimately have "length (tp_work_head (pool s)) \<le> 0" using inv(2) on unfolding awake_def by metis
  then have "tp_work_head (pool s) = []" by simp
  moreover have "discarded s = []" using inv on by (simp add: tpool_inv_def)
  moreover have "all_of held (workers s) = {#}" "all_of pending (workers s) = {#}"
    using all_of_idle [of "workers s"] idle by simp_all
  ultimately have "taken s = accepted s" "mset (taken s) = mset (finished s)" "nodes s = base"
    using inv by (clarsimp simp: tpool_inv_def)+
  with idle show ?thesis by simp
qed

lemma steps_keep_threads: "tpool_steps s s' \<Longrightarrow> length (workers s') = length (workers s)"
proof (induction rule: rtranclp_induct)
  case (step s1 s2)
  have "client_step s1 s2 \<Longrightarrow> length (workers s2) = length (workers s1)"
    by (induction rule: client_step.induct)
      (auto dest: woken_signal woken_keeps(1) simp: tool_thread_broadcastCond_def)
  with step show ?case by (auto dest: worker_step_keeps)
qed simp

lemma stopped_awake:
  "worker_step\<^sup>*\<^sup>* s s' \<Longrightarrow> tp_state (pool s) = 0 \<Longrightarrow> Waiting \<notin> set (workers s) \<Longrightarrow>
    tp_state (pool s') = 0 \<and> Waiting \<notin> set (workers s')"
proof (induction rule: rtranclp_induct)
  case (step s1 s2)
  have "worker_step s1 s2 \<Longrightarrow> tp_state (pool s1) = 0 \<Longrightarrow> Waiting \<notin> set (workers s1) \<Longrightarrow>
      tp_state (pool s2) = 0 \<and> Waiting \<notin> set (workers s2)"
    by (induction rule: worker_step.induct) (auto dest: waiting_update)
  with step show ?case by blast
qed simp


section \<open>A run with two threads\<close>

definition demo_pool :: "int \<Rightarrow> int \<Rightarrow> tpool_work list \<Rightarrow> worker list \<Rightarrow> int \<Rightarrow> tpool_work list \<Rightarrow> tpool_work list
    \<Rightarrow> tpool_work list \<Rightarrow> tsys" where
  "demo_pool st act q ws n acc tak fin =
     \<lparr> pool = \<lparr> tp_state = st, tp_thd_num = 2, tp_active_num = act, tp_work_head = q,
               tp_work_num = int (length q), tp_work_size = 5 \<rparr>,
       workers = ws, nodes = n, accepted = acc, taken = tak, discarded = [], finished = fin \<rparr>"

abbreviation job :: "nat \<Rightarrow> tpool_work" where
  "job n \<equiv> \<lparr> tw_func = n, tw_arg = 0 \<rparr>"

definition demo_off :: tsys where "demo_off = demo_pool 0 0 [] [] 0 [] [] []"
definition demo_on :: tsys where "demo_on = demo_pool 1 0 [] [Testing, Testing] 0 [] [] []"

lemma demo_start: "tpool_start [0, 0] demo_off 2 5 = Inr demo_on"
  by (simp add: tpool_start_def demo_off_def demo_on_def demo_pool_def TPOOL_SIZE_def TPOOL_WORK_SIZE_def
      numeral_2_eq_2 less_Suc_eq)

lemma demo_add:
  "length q < 5 \<Longrightarrow> i < length ws \<Longrightarrow> ws ! i = Waiting \<Longrightarrow> client_step (demo_pool 1 act q ws n acc tak fin)
     (demo_pool 1 act (q @ [job f]) (ws[i := Testing]) (n + 1) (acc @ [job f]) tak fin)"
  using client_step.add [OF _ tool_thread_signalCond.wakes, of "demo_pool 1 act q ws n acc tak fin" f 0 _ i]
  by (simp add: tpool_addWork_def demo_pool_def algebra_simps)

text \<open>The steps of the thread at position \<open>i\<close>, on such states.\<close>

lemma demo_steps:
  assumes "i < length ws"
  shows "ws ! i = Testing \<Longrightarrow> worker_step (demo_pool 1 act (w # q) ws n acc tak fin)
      (demo_pool 1 act q (ws[i := Took w]) n acc (tak @ [w]) fin)"
    "ws ! i = Took w \<Longrightarrow> worker_step (demo_pool 1 act q ws n acc tak fin)
      (demo_pool 1 act q (ws[i := Up w act]) n acc tak fin)"
    "ws ! i = Up w m \<Longrightarrow> worker_step (demo_pool 1 act q ws n acc tak fin)
      (demo_pool 1 (m + 1) q (ws[i := Running w]) n acc tak fin)"
    "ws ! i = Running w \<Longrightarrow> worker_step (demo_pool 1 act q ws n acc tak fin)
      (demo_pool 1 act q (ws[i := Ran w]) n acc tak (fin @ [w]))"
    "ws ! i = Ran w \<Longrightarrow> worker_step (demo_pool 1 act q ws n acc tak fin)
      (demo_pool 1 act q (ws[i := Down w act]) n acc tak fin)"
    "ws ! i = Down w m \<Longrightarrow> worker_step (demo_pool 1 act q ws n acc tak fin)
      (demo_pool 1 (m - 1) q (ws[i := Freeing w]) n acc tak fin)"
    "ws ! i = Freeing w \<Longrightarrow> worker_step (demo_pool 1 act q ws n acc tak fin)
      (demo_pool 1 act q (ws[i := Testing]) (n - 1) acc tak fin)"
    "ws ! i = Testing \<Longrightarrow> worker_step (demo_pool 1 act [] ws n acc tak fin)
      (demo_pool 1 act [] (ws[i := Waiting]) n acc tak fin)"
  using worker_step.take_work [of i "demo_pool 1 act (w # q) ws n acc tak fin" w q]
    worker_step.up_read [of i "demo_pool 1 act q ws n acc tak fin" w]
    worker_step.up_write [of i "demo_pool 1 act q ws n acc tak fin" w m]
    worker_step.run [of i "demo_pool 1 act q ws n acc tak fin" w]
    worker_step.down_read [of i "demo_pool 1 act q ws n acc tak fin" w]
    worker_step.down_write [of i "demo_pool 1 act q ws n acc tak fin" w m]
    worker_step.free [of i "demo_pool 1 act q ws n acc tak fin" w]
    worker_step.wait_cond [of i "demo_pool 1 act [] ws n acc tak fin"] assms
  by (simp_all add: demo_pool_def)

lemma then_step: "tpool_steps a b \<Longrightarrow> worker_step b c \<Longrightarrow> tpool_steps a c"
  by (erule rtranclp.rtrancl_into_rtrancl) blast

lemma then_client: "tpool_steps a b \<Longrightarrow> client_step b c \<Longrightarrow> tpool_steps a c"
  by (erule rtranclp.rtrancl_into_rtrancl) blast

text \<open>Both threads find nothing to do and wait; two jobs are added, and each signal wakes one of them.\<close>

lemma demo_asleep: "tpool_steps demo_on (demo_pool 1 0 [] [Waiting, Waiting] 0 [] [] [])"
proof -
  have "tpool_steps demo_on demo_on" by simp
  then have "tpool_steps demo_on (demo_pool 1 0 [] [Waiting, Testing] 0 [] [] [])"
    by (rule then_step) (use demo_steps(8) [of 0 "[Testing, Testing]"] in \<open>simp add: demo_on_def\<close>)
  then show ?thesis
    by (rule then_step) (use demo_steps(8) [of 1 "[Waiting, Testing]"] in simp)
qed

lemma demo_one: "tpool_steps demo_on (demo_pool 1 0 [job 1] [Testing, Waiting] 1 [job 1] [] [])"
  by (rule then_client [OF demo_asleep])
    (use demo_add [of "[]" 0 "[Waiting, Waiting]" 0 0 "[]" "[]" "[]" 1] in simp)

lemma demo_two: "tpool_steps demo_on (demo_pool 1 0 [job 1, job 2] [Testing, Testing] 2 [job 1, job 2] [] [])"
  by (rule then_client [OF demo_one])
    (use demo_add [of "[job 1]" 1 "[Testing, Waiting]" 0 1 "[job 1]" "[]" "[]" 2] in simp)

text \<open>The first thread runs the first job while the second one is still in the list.\<close>

lemma demo_ran:
  "tpool_steps demo_on (demo_pool 1 1 [job 2] [Ran (job 1), Testing] 2 [job 1, job 2] [job 1] [job 1])"
proof -
  have "tpool_steps demo_on (demo_pool 1 0 [job 2] [Took (job 1), Testing] 2 [job 1, job 2] [job 1] [])"
    by (rule then_step [OF demo_two])
      (use demo_steps(1) [of 0 "[Testing, Testing]", where tak = "[]" and fin = "[]"] in simp)
  then have "tpool_steps demo_on (demo_pool 1 0 [job 2] [Up (job 1) 0, Testing] 2 [job 1, job 2] [job 1] [])"
    by (rule then_step)
      (use demo_steps(2) [of 0 "[Took (job 1), Testing]", where tak = "[job 1]" and fin = "[]"] in simp)
  then have "tpool_steps demo_on (demo_pool 1 1 [job 2] [Running (job 1), Testing] 2 [job 1, job 2] [job 1] [])"
    by (rule then_step)
      (use demo_steps(3) [of 0 "[Up (job 1) 0, Testing]", where tak = "[job 1]" and fin = "[]"] in simp)
  then show ?thesis
    by (rule then_step)
      (use demo_steps(4) [of 0 "[Running (job 1), Testing]", where tak = "[job 1]" and fin = "[]"] in simp)
qed

text \<open>Two threads whose \<^verbatim>\<open>active_num ++\<close> overlap.\<close>

lemma demo_race:
  "tpool_steps demo_on (demo_pool 1 (- 1) [] [Waiting, Waiting] 0 [job 1, job 2] [job 1, job 2] [job 1, job 2])"
proof -
  note demo_two
  then have "tpool_steps demo_on (demo_pool 1 0 [job 2] [Took (job 1), Testing] 2 [job 1, job 2] [job 1] [])"
    by (rule then_step) (use demo_steps(1) [of 0 "[Testing, Testing]", where tak = "[]" and fin = "[]"] in simp)
  then have "tpool_steps demo_on (demo_pool 1 0 [] [Took (job 1), Took (job 2)] 2 [job 1, job 2] [job 1, job 2] [])"
    by (rule then_step) (use demo_steps(1) [of 1 "[Took (job 1), Testing]", where tak = "[job 1]" and fin = "[]"] in simp)
  then have "tpool_steps demo_on (demo_pool 1 0 [] [Up (job 1) 0, Took (job 2)] 2 [job 1, job 2] [job 1, job 2] [])"
    by (rule then_step) (use demo_steps(2) [of 0 "[Took (job 1), Took (job 2)]", where tak = "[job 1, job 2]" and fin = "[]"] in simp)
  then have "tpool_steps demo_on (demo_pool 1 0 [] [Up (job 1) 0, Up (job 2) 0] 2 [job 1, job 2] [job 1, job 2] [])"
    by (rule then_step) (use demo_steps(2) [of 1 "[Up (job 1) 0, Took (job 2)]", where tak = "[job 1, job 2]" and fin = "[]"] in simp)
  then have "tpool_steps demo_on (demo_pool 1 1 [] [Running (job 1), Up (job 2) 0] 2 [job 1, job 2] [job 1, job 2] [])"
    by (rule then_step) (use demo_steps(3) [of 0 "[Up (job 1) 0, Up (job 2) 0]", where tak = "[job 1, job 2]" and fin = "[]"] in simp)
  then have "tpool_steps demo_on (demo_pool 1 1 [] [Running (job 1), Running (job 2)] 2 [job 1, job 2] [job 1, job 2] [])"
    by (rule then_step) (use demo_steps(3) [of 1 "[Running (job 1), Up (job 2) 0]", where tak = "[job 1, job 2]" and fin = "[]"] in simp)
  then have "tpool_steps demo_on (demo_pool 1 1 [] [Ran (job 1), Running (job 2)] 2 [job 1, job 2] [job 1, job 2] [job 1])"
    by (rule then_step) (use demo_steps(4) [of 0 "[Running (job 1), Running (job 2)]", where tak = "[job 1, job 2]" and fin = "[]"] in simp)
  then have "tpool_steps demo_on (demo_pool 1 1 [] [Ran (job 1), Ran (job 2)] 2 [job 1, job 2] [job 1, job 2] [job 1, job 2])"
    by (rule then_step) (use demo_steps(4) [of 1 "[Ran (job 1), Running (job 2)]", where tak = "[job 1, job 2]" and fin = "[job 1]"] in simp)
  then have "tpool_steps demo_on (demo_pool 1 1 [] [Down (job 1) 1, Ran (job 2)] 2 [job 1, job 2] [job 1, job 2] [job 1, job 2])"
    by (rule then_step) (use demo_steps(5) [of 0 "[Ran (job 1), Ran (job 2)]", where tak = "[job 1, job 2]" and fin = "[job 1, job 2]"] in simp)
  then have "tpool_steps demo_on (demo_pool 1 0 [] [Freeing (job 1), Ran (job 2)] 2 [job 1, job 2] [job 1, job 2] [job 1, job 2])"
    by (rule then_step) (use demo_steps(6) [of 0 "[Down (job 1) 1, Ran (job 2)]", where tak = "[job 1, job 2]" and fin = "[job 1, job 2]"] in simp)
  then have "tpool_steps demo_on (demo_pool 1 0 [] [Freeing (job 1), Down (job 2) 0] 2 [job 1, job 2] [job 1, job 2] [job 1, job 2])"
    by (rule then_step) (use demo_steps(5) [of 1 "[Freeing (job 1), Ran (job 2)]", where tak = "[job 1, job 2]" and fin = "[job 1, job 2]"] in simp)
  then have "tpool_steps demo_on (demo_pool 1 (- 1) [] [Freeing (job 1), Freeing (job 2)] 2 [job 1, job 2] [job 1, job 2] [job 1, job 2])"
    by (rule then_step) (use demo_steps(6) [of 1 "[Freeing (job 1), Down (job 2) 0]", where tak = "[job 1, job 2]" and fin = "[job 1, job 2]"] in simp)
  then have "tpool_steps demo_on (demo_pool 1 (- 1) [] [Testing, Freeing (job 2)] 1 [job 1, job 2] [job 1, job 2] [job 1, job 2])"
    by (rule then_step) (use demo_steps(7) [of 0 "[Freeing (job 1), Freeing (job 2)]", where n = 2 and tak = "[job 1, job 2]" and fin = "[job 1, job 2]"] in simp)
  then have "tpool_steps demo_on (demo_pool 1 (- 1) [] [Testing, Testing] 0 [job 1, job 2] [job 1, job 2] [job 1, job 2])"
    by (rule then_step) (use demo_steps(7) [of 1 "[Testing, Freeing (job 2)]", where n = 1 and tak = "[job 1, job 2]" and fin = "[job 1, job 2]"] in simp)
  then have "tpool_steps demo_on (demo_pool 1 (- 1) [] [Waiting, Testing] 0 [job 1, job 2] [job 1, job 2] [job 1, job 2])"
    by (rule then_step) (use demo_steps(8) [of 0 "[Testing, Testing]", where n = 0 and tak = "[job 1, job 2]" and fin = "[job 1, job 2]"] in simp)
  then show ?thesis
    by (rule then_step) (use demo_steps(8) [of 1 "[Waiting, Testing]", where n = 0 and tak = "[job 1, job 2]" and fin = "[job 1, job 2]"] in simp)
qed

lemma demo_off_state: "tp_state (pool demo_off) = 0" "nodes demo_off = 0"
  by (simp_all add: demo_off_def demo_pool_def)

section \<open>Properties\<close>

text \<open>C15: However the threads and the callers interleave, jobs are taken in the order in which they were
  accepted, none is run that was not taken or more often than it was accepted, and the list never
  exceeds its limit.\<close>

theorem tpool_order:
  assumes "tpool_start answers s0 thd_num work_size = Inr s" "tp_state (pool s0) = 0" "tpool_steps s s'"
  shows "taken s' @ discarded s' @ tp_work_head (pool s') = accepted s' \<and> mset (finished s') \<subseteq># mset (taken s')
     \<and> int (length (tp_work_head (pool s'))) \<le> tp_work_num (pool s') \<and> tp_work_num (pool s') \<le> tp_work_size (pool s')"
  using tpool_steps_inv [OF assms(3) tpool_start_inv(1) [OF assms(1,2)]] by (auto simp: tpool_inv_def)

theorem tpool_order_witness:
  "\<exists>s. tpool_steps demo_on s \<and> taken s = [job 1] \<and> tp_work_head (pool s) = [job 2]
     \<and> taken s @ discarded s @ tp_work_head (pool s) = accepted s \<and> mset (finished s) \<subseteq># mset (taken s)
     \<and> finished s = [job 1] \<and> tp_work_num (pool s) = 1"
  using tpool_order [OF demo_start demo_off_state(1) demo_ran] demo_ran
  by (intro exI [of _ "demo_pool 1 1 [job 2] [Ran (job 1), Testing] 2 [job 1, job 2] [job 1] [job 1]"] conjI)
    (simp_all add: demo_pool_def)

text \<open>C14: No wake-up is lost: while the pool runs and a thread is blocked on the condition, there are no more
  jobs in the list than threads awake to test for them. If nobody adds jobs any more, the threads come to
  rest after boundedly many steps, and then every accepted job has been run exactly once and freed.\<close>

theorem tpool_runs_everything:
  assumes "tpool_start answers s0 thd_num work_size = Inr s" "tp_state (pool s0) = 0" "0 < thd_num"
    and "tpool_steps s s1" "tp_state (pool s1) \<noteq> 0"
  shows "(Waiting \<in> set (workers s1) \<longrightarrow> length (tp_work_head (pool s1)) \<le> count (mset (workers s1)) Testing)
     \<and> (\<forall>k s2. (worker_step ^^ k) s1 s2 \<longrightarrow> k \<le> work_left s1)
     \<and> (\<exists>s2. worker_step\<^sup>*\<^sup>* s1 s2 \<and> (\<forall>s3. \<not> worker_step s2 s3))
     \<and> (\<forall>s2. worker_step\<^sup>*\<^sup>* s1 s2 \<and> (\<forall>s3. \<not> worker_step s2 s3) \<longrightarrow>
          mset (finished s2) = mset (accepted s1) \<and> nodes s2 = nodes s0 \<and> set (workers s2) = {Waiting})"
proof (intro conjI allI impI)
  have aw: "awake s1" by (rule tpool_steps_awake [OF assms(4) tpool_start_inv(2) [OF assms(1,2)]])
  then show "Waiting \<in> set (workers s1) \<Longrightarrow> length (tp_work_head (pool s1)) \<le> count (mset (workers s1)) Testing"
    using assms(5) by (simp add: awake_def)
  fix k s2 assume "(worker_step ^^ k) s1 s2"
  from worker_steps_bounded [OF this] show "k \<le> work_left s1" by simp
next
  show "\<exists>s2. worker_step\<^sup>*\<^sup>* s1 s2 \<and> (\<forall>s3. \<not> worker_step s2 s3)" by (rule workers_settle)
next
  fix s2 assume s2: "worker_step\<^sup>*\<^sup>* s1 s2 \<and> (\<forall>s3. \<not> worker_step s2 s3)"
  have "tpool_inv (nodes s0) s1" "awake s1"
    by (rule tpool_steps_inv [OF assms(4) tpool_start_inv(1) [OF assms(1,2)]]
        tpool_steps_awake [OF assms(4) tpool_start_inv(2) [OF assms(1,2)]])+
  with s2 have "tpool_inv (nodes s0) s2" "awake s2" by (auto intro: worker_steps_inv worker_steps_awake)
  moreover have k: "accepted s2 = accepted s1" "tp_state (pool s2) \<noteq> 0" "workers s2 \<noteq> []"
    using worker_steps_keep [of s1 s2] s2 assms(3,5) steps_keep_threads [OF assms(4)] tpool_start_inv(3) [OF assms(1,2)]
    by auto
  ultimately show "mset (finished s2) = mset (accepted s1)" "nodes s2 = nodes s0" "set (workers s2) = {Waiting}"
    using stuck_done [of "nodes s0" s2] s2 by auto
qed

theorem tpool_runs_everything_witness:
  "tpool_steps demo_on (demo_pool 1 0 [job 1] [Testing, Waiting] 1 [job 1] [] [])
   \<and> (\<exists>s2. worker_step\<^sup>*\<^sup>* (demo_pool 1 0 [job 1] [Testing, Waiting] 1 [job 1] [] []) s2 \<and> (\<forall>s3. \<not> worker_step s2 s3)
        \<and> mset (finished s2) = {#job 1#} \<and> nodes s2 = 0)"
proof -
  let ?s = "demo_pool 1 0 [job 1] [Testing, Waiting] 1 [job 1] [] []"
  have "tp_state (pool ?s) \<noteq> 0" by (simp add: demo_pool_def)
  note r = tpool_runs_everything [OF demo_start demo_off_state(1) _ demo_one this]
  from r obtain s2 where s2: "worker_step\<^sup>*\<^sup>* ?s s2 \<and> (\<forall>s3. \<not> worker_step s2 s3)" by auto
  with r have "mset (finished s2) = mset (accepted ?s) \<and> nodes s2 = nodes demo_off" by simp
  moreover have "accepted ?s = [job 1]" by (simp add: demo_pool_def)
  ultimately show ?thesis using demo_one s2 by (auto simp: demo_off_state)
qed



text \<open>C36: Stopping ends: once \<^verbatim>\<open>tpool_stop\<close> has broadcast, whatever the threads were doing, they come to rest
  after boundedly many steps of their own, and then all of them have left \<^verbatim>\<open>tpool_run\<close>, so that every
  join returns.\<close>

theorem tpool_stop_joins:
  assumes "tp_state (pool s) = 0" "s1 = s\<lparr> workers := tool_thread_broadcastCond (workers s) \<rparr>"
  shows "client_step s s1 \<and> (\<forall>k s2. (worker_step ^^ k) s1 s2 \<longrightarrow> k \<le> work_left s1)
     \<and> (\<forall>s2. worker_step\<^sup>*\<^sup>* s1 s2 \<and> (\<forall>s3. \<not> worker_step s2 s3) \<longrightarrow>
          set (workers s2) \<subseteq> {Left} \<and> length (workers s2) = length (workers s))"
proof (intro conjI allI impI)
  show "client_step s s1" using client_step.broadcast [OF assms(1)] assms(2) by simp
  fix k s2 assume "(worker_step ^^ k) s1 s2"
  from worker_steps_bounded [OF this] show "k \<le> work_left s1" by simp
next
  fix s2 assume s2: "worker_step\<^sup>*\<^sup>* s1 s2 \<and> (\<forall>s3. \<not> worker_step s2 s3)"
  have s1: "tp_state (pool s1) = 0" "Waiting \<notin> set (workers s1)" "length (workers s1) = length (workers s)"
    using assms by (auto simp: tool_thread_broadcastCond_def)
  from conjunct1 [OF s2] s1(1,2) have "tp_state (pool s2) = 0 \<and> Waiting \<notin> set (workers s2)" by (rule stopped_awake)
  then show "set (workers s2) \<subseteq> {Left}" using stuck_threads [of s2] s2 by blast
  show "length (workers s2) = length (workers s)" using worker_steps_keep [of s1 s2] s2 s1(3) by simp
qed

theorem tpool_stop_joins_witness:
  "\<exists>s. tpool_steps demo_on s \<and> workers s = [Testing, Waiting]
     \<and> (\<forall>s2. worker_step\<^sup>*\<^sup>* (s\<lparr> workers := [Testing, Testing] \<rparr>) s2 \<and> (\<forall>s3. \<not> worker_step s2 s3) \<longrightarrow>
          set (workers s2) \<subseteq> {Left} \<and> length (workers s2) = 2)"
proof -
  let ?s = "demo_pool 0 0 [job 1] [Testing, Waiting] 1 [job 1] [] []"
  have "tpool_steps demo_on ?s"
    by (rule then_client [OF demo_one])
      (use client_step.stop [of "demo_pool 1 0 [job 1] [Testing, Waiting] 1 [job 1] [] []"] in \<open>simp add: demo_pool_def\<close>)
  moreover have ws: "workers ?s = [Testing, Waiting]" by (simp add: demo_pool_def)
  moreover have "tool_thread_broadcastCond (workers ?s) = [Testing, Testing]"
    by (simp only: ws) (simp add: tool_thread_broadcastCond_def)
  moreover have "tp_state (pool ?s) = 0" by (simp add: demo_pool_def)
  ultimately show ?thesis
    using tpool_stop_joins [of ?s, OF _ refl] by (intro exI [of _ ?s]) simp
qed

text \<open>\<^verbatim>\<open>active_num\<close> is counted outside the lock: two threads that start a job at the same time can leave
  it at \<open>-1\<close> with all threads idle.\<close>

theorem tpool_active_num_races:
  "\<exists>s. tpool_start [0, 0] demo_off 2 5 = Inr demo_on \<and> tpool_steps demo_on s
     \<and> set (workers s) = {Waiting} \<and> tp_work_head (pool s) = [] \<and> tp_active_num (pool s) = - 1"
  using demo_start demo_race
  by (intro exI [of _ "demo_pool 1 (- 1) [] [Waiting, Waiting] 0 [job 1, job 2] [job 1, job 2] [job 1, job 2]"])
    (simp add: demo_pool_def)

end
