(* ===== verification/Nc_Qh.thy ===== *)
theory Nc_Qh
  imports Ptc_Search_Rt Tool_Stream2
begin

text \<open>
  Sessions of the QH client, \<^verbatim>\<open>sab_app/jni/nc/nc_qh.c\<close>: connecting and logging in, logging out, the
  calls that open a connection for one request and close it again, and the configuration functions
  of the interface built on them. The socket and the framing are those of \<^verbatim>\<open>Tool_Sock\<close> and
  \<^verbatim>\<open>Ptc_Qh\<close>. The tick counter a function looks at is the one the network last showed. What a session
  hands to the stream ring or to the application's callback is recorded in a list of calls.
\<close>

section \<open>Constants\<close>

definition NC_ERROR_UNINIT :: int where "NC_ERROR_UNINIT = - 1"
definition NC_ERROR_INPUT :: int where "NC_ERROR_INPUT = - 2"
definition NC_ERROR_FULL :: int where "NC_ERROR_FULL = - 3"
definition NC_ERROR_INTERNAL :: int where "NC_ERROR_INTERNAL = - 4"
definition NC_ERROR_CONNECT :: int where "NC_ERROR_CONNECT = - 5"
definition NC_ERROR_SEND :: int where "NC_ERROR_SEND = - 6"
definition NC_ERROR_RECV :: int where "NC_ERROR_RECV = - 7"
definition NC_ERROR_PROTOCOL :: int where "NC_ERROR_PROTOCOL = - 8"
definition NC_ERROR_AUTH :: int where "NC_ERROR_AUTH = - 9"
definition NC_ERROR_NOSPACE :: int where "NC_ERROR_NOSPACE = - 11"
definition NC_ERROR_MAXCONNECT :: int where "NC_ERROR_MAXCONNECT = - 14"

lemmas NC_ERROR_defs = NC_ERROR_UNINIT_def NC_ERROR_INPUT_def NC_ERROR_FULL_def NC_ERROR_INTERNAL_def
  NC_ERROR_CONNECT_def NC_ERROR_SEND_def NC_ERROR_RECV_def NC_ERROR_PROTOCOL_def NC_ERROR_AUTH_def
  NC_ERROR_NOSPACE_def NC_ERROR_MAXCONNECT_def

definition PTC_CMD_USER_LOGIN :: u32 where "PTC_CMD_USER_LOGIN = 1"
definition PTC_CMD_USRE_HEARTBEAT :: u32 where "PTC_CMD_USRE_HEARTBEAT = 2"
definition PTC_CMD_USER_LOGOUT :: u32 where "PTC_CMD_USER_LOGOUT = 3"
definition PTC_CMD_RTS_BASE :: u32 where "PTC_CMD_RTS_BASE = 0x00010000"
definition PTC_CMD_TALK_BASE :: u32 where "PTC_CMD_TALK_BASE = 0x00020000"
definition PTC_CMD_CFG_BASE :: u32 where "PTC_CMD_CFG_BASE = 0x00030000"
definition PTC_CMD_PBS_BASE :: u32 where "PTC_CMD_PBS_BASE = 0x00040000"
definition PTC_CMD_ALARM_BASE :: u32 where "PTC_CMD_ALARM_BASE = 0x00050000"
definition PTC_CMD_SEARCH_BASE :: u32 where "PTC_CMD_SEARCH_BASE = 0x00070000"
definition PTC_CMD_CFG2_BASE :: u32 where "PTC_CMD_CFG2_BASE = 0x00080000"
definition PTC_CMD_SEARCH2_BASE :: u32 where "PTC_CMD_SEARCH2_BASE = 0x00090000"

definition PTC_ACK_ERROR_AUTH :: u16 where "PTC_ACK_ERROR_AUTH = 1"
definition PTC_ACK_ERROR_BUSY :: u16 where "PTC_ACK_ERROR_BUSY = 4"

definition PTC_FRAME_STREAM_VIDEO_BUSY :: u8 where "PTC_FRAME_STREAM_VIDEO_BUSY = 236"
definition PTC_FRAME_STREAM_TIMEOUT :: u8 where "PTC_FRAME_STREAM_TIMEOUT = 237"
definition PTC_FRAME_STREAM_BROKEN :: u8 where "PTC_FRAME_STREAM_BROKEN = 239"
definition PTC_FRAME_STREAM_WAIT :: u8 where "PTC_FRAME_STREAM_WAIT = 240"
definition PTC_FRAME_STREAM_CONNECT :: u8 where "PTC_FRAME_STREAM_CONNECT = 241"
definition PTC_FRAME_STREAM_CONNECT_FAIL :: u8 where "PTC_FRAME_STREAM_CONNECT_FAIL = 242"
definition PTC_FRAME_STREAM_LOGIN :: u8 where "PTC_FRAME_STREAM_LOGIN = 243"
definition PTC_FRAME_STREAM_LOGIN_FAIL :: u8 where "PTC_FRAME_STREAM_LOGIN_FAIL = 244"
definition PTC_FRAME_STREAM_AUTH_FAIL :: u8 where "PTC_FRAME_STREAM_AUTH_FAIL = 245"
definition PTC_FRAME_STREAM_START :: u8 where "PTC_FRAME_STREAM_START = 247"
definition PTC_FRAME_STREAM_START_FAIL :: u8 where "PTC_FRAME_STREAM_START_FAIL = 248"
definition PTC_FRAME_STREAM_RUNNING :: u8 where "PTC_FRAME_STREAM_RUNNING = 249"
definition PTC_FRAME_STREAM_TALK_BUSY :: u8 where "PTC_FRAME_STREAM_TALK_BUSY = 251"

definition PTC_PORT_OFFSET :: int where "PTC_PORT_OFFSET = 5"

section \<open>State\<close>

text \<open>
  The fields of a user the session functions use. The pointers a user's type leaves unset are not
  followed for that type; \<open>qu_cb\<close>: the callback is not NULL.
\<close>

record nc_qh_user =
  qu_type :: u32
  qu_ip_addr :: string
  qu_port :: int
  qu_user_name :: string
  qu_user_pswd :: string
  qu_cb :: bool
  qu_rts_start :: "u8 list"
  qu_rts_key_flag :: bool
  qu_pbs_end_flag :: bool
  qu_pbs_start :: ptc_cfg_record
  qu_pbs_pos :: u32
  qu_pbs_pause :: bool
  qu_pbs_restart :: bool
  qu_pbs_speed :: u32
  qu_sock_item :: tool_sock_item
  qu_frame :: ptc_frame
  qu_audio_send :: tool_stream2
  qu_audio_pos :: u32
  qu_msg :: ptc_msg
  qu_stream_tick :: int
  qu_last_type :: u8

text \<open>
  What a session calls: the two writers of the stream ring (the flag of the first: its last argument is
  the user's running state and not NULL), the callback, sleeping.
\<close>

datatype qh_call = Set_noDrop "u8 list" bool | Set_withDrop "u8 list" int | Callback "u8 list" | Usleep int

record qh_sys =
  sys_manager :: tool_sock_manager
  sys_net :: net
  sys_calls :: "qh_call list"

definition qh_called :: "qh_call \<Rightarrow> qh_sys \<Rightarrow> qh_sys" where
  "qh_called c sys = sys\<lparr> sys_calls := sys_calls sys @ [c] \<rparr>"

definition qh_ticked :: "qh_sys \<Rightarrow> tool_sock_manager" where
  "qh_ticked sys = (sys_manager sys)\<lparr> manager_tick := now (sys_net sys) \<rparr>"

section \<open>Messages of a user\<close>

text \<open>\<^verbatim>\<open>head.len\<close>, \<^verbatim>\<open>head.cmd\<close> and \<^verbatim>\<open>head.ack = 0\<close>, and the bytes copied to the start of the data.\<close>

definition qh_fill :: "u32 \<Rightarrow> u32 \<Rightarrow> u8 list \<Rightarrow> ptc_msg \<Rightarrow> ptc_msg outcome" where
  "qh_fill cmd len bytes msg =
     andThen (buf_put 0 bytes (data msg)) (\<lambda>d.
       Inr (msg\<lparr> head := (head msg)\<lparr> h_len := len, h_cmd := cmd, h_ack := 0 \<rparr>, data := d \<rparr>))"

definition qh_send :: "nc_qh_user \<Rightarrow> qh_sys \<Rightarrow> (int \<times> nc_qh_user \<times> qh_sys) outcome" where
  "qh_send user sys =
     andThen (tool_ptc_qh_sendMsg (qu_sock_item user, sys_net sys) (qu_msg user)) (\<lambda>(ret, msg, item, nt).
       Inr (ret, user\<lparr> qu_msg := msg, qu_sock_item := item \<rparr>, sys\<lparr> sys_net := nt \<rparr>))"

definition qh_recv :: "nc_qh_user \<Rightarrow> qh_sys \<Rightarrow> (int \<times> nc_qh_user \<times> qh_sys) outcome" where
  "qh_recv user sys =
     andThen (tool_ptc_qh_recvMsg (qu_sock_item user, sys_net sys) (qu_msg user)) (\<lambda>(ret, msg, item, nt).
       Inr (ret, user\<lparr> qu_msg := msg, qu_sock_item := item \<rparr>, sys\<lparr> sys_net := nt \<rparr>))"

definition qh_recvFrame_user :: "nat \<Rightarrow> nc_qh_user \<Rightarrow> qh_sys \<Rightarrow> (int \<times> nc_qh_user \<times> qh_sys) outcome" where
  "qh_recvFrame_user fuel user sys =
     andThen (tool_ptc_qh_recvFrame fuel (qu_sock_item user, sys_net sys) (qu_frame user)) (\<lambda>(ret, frame, item, nt).
       Inr (ret, user\<lparr> qu_frame := frame, qu_sock_item := item \<rparr>, sys\<lparr> sys_net := nt \<rparr>))"

text \<open>\<open>cret\<close>: what \<^verbatim>\<open>close\<close> returns.\<close>

definition qh_close :: "int \<Rightarrow> nc_qh_user \<Rightarrow> qh_sys \<Rightarrow> nc_qh_user \<times> qh_sys" where
  "qh_close cret user sys =
     (let (item, m) = tool_sock_item_close cret (qh_ticked sys) (qu_sock_item user)
      in (user\<lparr> qu_sock_item := item \<rparr>, sys\<lparr> sys_manager := m \<rparr>))"

section \<open>Reporting the state of a connection\<close>

text \<open>A frame head that carries only its type.\<close>

definition state_frame :: "u8 \<Rightarrow> u8 list" where
  "state_frame t = (replicate 32 0)[20 := t]"

definition nc_qh_user_doState :: "u8 \<Rightarrow> nc_qh_user \<Rightarrow> qh_sys \<Rightarrow> nc_qh_user \<times> qh_sys" where
  "nc_qh_user_doState type user sys =
     (if type = qu_last_type user then (user, sys)
      else
        (let sys =
           (if qu_type user = PTC_CMD_RTS_BASE \<or> qu_type user = PTC_CMD_PBS_BASE
            then qh_called (Set_noDrop (state_frame type) False) sys
            else if qu_type user = PTC_CMD_TALK_BASE
            then (if qu_cb user then qh_called (Callback (state_frame type)) sys else sys)
            else sys)
         in (user\<lparr> qu_last_type := type \<rparr>, qh_called (Usleep (100 * 1000)) sys)))"

text \<open>Reporting and returning.\<close>

definition qh_report :: "int \<Rightarrow> u8 \<Rightarrow> nc_qh_user \<times> qh_sys \<Rightarrow> (int \<times> nc_qh_user \<times> qh_sys) outcome" where
  "qh_report ret type s = Inr (ret, nc_qh_user_doState type (fst s) (snd s))"

section \<open>Logging in and out\<close>

definition nc_qh_user_logout :: "int \<Rightarrow> nc_qh_user \<Rightarrow> qh_sys \<Rightarrow> (int \<times> nc_qh_user \<times> qh_sys) outcome" where
  "nc_qh_user_logout cret user sys =
     (if tool_sock_item_isLive (qu_sock_item user) = 0 then Inr (- 1, user, sys)
      else andThen (qh_fill PTC_CMD_USER_LOGOUT 0 [] (qu_msg user)) (\<lambda>msg.
           andThen (qh_send (user\<lparr> qu_msg := msg \<rparr>) sys) (\<lambda>(ret, user, sys).
             Inr (0, qh_close cret user sys))))"

text \<open>\<^verbatim>\<open>ptc_user_login_t\<close>, 80 bytes.\<close>

definition login_bytes :: "nc_qh_user \<Rightarrow> u8 list" where
  "login_bytes user = text_bytes (array_strncpy 32 (qu_user_name user)) @
     text_bytes (array_strncpy 32 (qu_user_pswd user)) @ le4 (qu_type user) @ replicate 12 0"

text \<open>The \<^verbatim>\<open>do ... while (0)\<close> block.\<close>

definition login_exchange :: "nc_qh_user \<Rightarrow> qh_sys \<Rightarrow> (int \<times> nc_qh_user \<times> qh_sys) outcome" where
  "login_exchange user sys =
     (let (user, sys) = nc_qh_user_doState PTC_FRAME_STREAM_LOGIN user sys
      in andThen (qh_send user sys) (\<lambda>(r, user, sys).
         if r < 0 then qh_report NC_ERROR_SEND PTC_FRAME_STREAM_LOGIN_FAIL (user, sys)
         else andThen (qh_recv user sys) (\<lambda>(r, user, sys).
         if r < 0 then qh_report NC_ERROR_RECV PTC_FRAME_STREAM_LOGIN_FAIL (user, sys)
         else let h = head (qu_msg user)
         in if h_cmd h \<noteq> PTC_CMD_USER_LOGIN
            then qh_report NC_ERROR_PROTOCOL PTC_FRAME_STREAM_LOGIN_FAIL (user, sys)
            else if h_ack h = PTC_ACK_ERROR_AUTH
            then qh_report NC_ERROR_AUTH PTC_FRAME_STREAM_AUTH_FAIL (user, sys)
            else if h_ack h = PTC_ACK_ERROR_BUSY \<and> qu_type user = PTC_CMD_TALK_BASE
            then qh_report NC_ERROR_MAXCONNECT PTC_FRAME_STREAM_TALK_BUSY (user, sys)
            else if h_ack h = PTC_ACK_ERROR_BUSY \<and> (qu_type user = PTC_CMD_RTS_BASE \<or> qu_type user = PTC_CMD_PBS_BASE)
            then qh_report NC_ERROR_MAXCONNECT PTC_FRAME_STREAM_VIDEO_BUSY (user, sys)
            else Inr (0, user, sys))))"

definition nc_qh_user_login ::
  "sock_dial \<Rightarrow> int \<Rightarrow> nc_qh_user \<Rightarrow> qh_sys \<Rightarrow> (int \<times> nc_qh_user \<times> qh_sys) outcome" where
  "nc_qh_user_login d cret user sys =
     (let (user, sys) = nc_qh_user_doState PTC_FRAME_STREAM_CONNECT user sys
      in andThen (tool_sock_item_open_v2 d (Some (qh_ticked sys)) (qu_sock_item user, sys_net sys) TOOL_SOCK_TYPE1_TCP
             TOOL_SOCK_TYPE2_CLIENT (Some (cstr (qu_ip_addr user))) (qu_port user + PTC_PORT_OFFSET) None 0) (\<lambda>(r, item, m, nt).
         let user = user\<lparr> qu_sock_item := item \<rparr>; sys = sys\<lparr> sys_manager := m, sys_net := nt \<rparr>
         in if r < 0 then qh_report NC_ERROR_CONNECT PTC_FRAME_STREAM_CONNECT_FAIL (user, sys)
            else andThen (qh_fill PTC_CMD_USER_LOGIN 80 (login_bytes user) (qu_msg user)) (\<lambda>msg.
                 andThen (login_exchange (user\<lparr> qu_msg := msg \<rparr>) sys) (\<lambda>(ret, user, sys).
                   let (user, sys) = (if ret < 0 then qh_close cret user sys else (user, sys))
                   in Inr (ret, user\<lparr> qu_rts_key_flag := True \<rparr>, sys)))))"

section \<open>One request per connection\<close>

record nc_dev =
  dev_ptc :: u32
  dev_dev_id :: string
  dev_ip :: string
  dev_msg_port :: int
  dev_stream_port :: int
  dev_user :: string
  dev_pswd :: string

definition head_zero :: ptc_head where
  "head_zero = \<lparr> h_flag = 0, h_cmd = 0, h_len = 0, h_ver = 0, h_ack = 0, h_pack_count = 0, h_pack_no = 0,
     h_pack_len = 0, h_channel_type = 0, h_channel_no = 0, h_reserved = replicate 6 0 \<rparr>"

definition item_zero :: tool_sock_item where
  "item_zero = \<lparr> type1 = TOOL_SOCK_TYPE1_NONE, type2 = TOOL_SOCK_TYPE2_NONE, timeout = 0, is_error = False,
     has_flag = False, item_tick = 0, fd = 0 \<rparr>"

text \<open>
  The user on the stack of a call: zeroed, then filled in. The frame pointer is NULL or, in
  \<open>doSearch\<close>, the frame given.
\<close>

definition qh_user_for :: "string \<Rightarrow> int \<Rightarrow> string \<Rightarrow> string \<Rightarrow> u32 \<Rightarrow> nc_qh_user" where
  "qh_user_for ip_addr port user_name user_pswd type =
     \<lparr> qu_type = type, qu_ip_addr = array_strncpy 40 ip_addr, qu_port = port,
       qu_user_name = array_strncpy 32 user_name, qu_user_pswd = array_strncpy 32 user_pswd, qu_cb = False,
       qu_rts_start = replicate 16 0, qu_rts_key_flag = False, qu_pbs_end_flag = False,
       qu_pbs_start = record_zero, qu_pbs_pos = 0, qu_pbs_pause = False, qu_pbs_restart = False, qu_pbs_speed = 0,
       qu_sock_item = item_zero, qu_frame = \<lparr> f_head = head_zero, f_data = [] \<rparr>,
       qu_audio_send = \<lparr> s2_pool = [], s2_write_pos = 0 \<rparr>, qu_audio_pos = 0,
       qu_msg = \<lparr> head = head_zero, data = replicate PTC_MSG_SIZE 0 \<rparr>, qu_stream_tick = 0, qu_last_type = 0 \<rparr>"

text \<open>\<open>work\<close>: the exchange on the logged-in connection; it is followed by the logout on every path.\<close>

definition qh_session ::
  "sock_dial \<Rightarrow> int \<Rightarrow> nc_qh_user \<Rightarrow> qh_sys \<Rightarrow> 'a
     \<Rightarrow> (nc_qh_user \<Rightarrow> qh_sys \<Rightarrow> (int \<times> 'a \<times> nc_qh_user \<times> qh_sys) outcome) \<Rightarrow> (int \<times> 'a \<times> qh_sys) outcome" where
  "qh_session d cret user sys x work =
     andThen (nc_qh_user_login d cret user sys) (\<lambda>(ret, user, sys).
       if ret < 0 then Inr (ret, x, sys)
       else andThen (work user sys) (\<lambda>(ret, x, user, sys).
            andThen (nc_qh_user_logout cret user sys) (\<lambda>(_, user, sys). Inr (ret, x, sys))))"

definition nc_qh_user_doCfg_v2 ::
  "sock_dial \<Rightarrow> int \<Rightarrow> nc_dev \<Rightarrow> ptc_msg \<Rightarrow> qh_sys \<Rightarrow> (int \<times> ptc_msg \<times> qh_sys) outcome" where
  "nc_qh_user_doCfg_v2 d cret dev msg sys =
     (let cmd = h_cmd (head msg);
          user = qh_user_for (dev_ip dev) (dev_msg_port dev) (dev_user dev) (dev_pswd dev) PTC_CMD_CFG2_BASE
      in qh_session d cret user sys msg (\<lambda>user sys.
           andThen (tool_ptc_qh_sendMsg (qu_sock_item user, sys_net sys) msg) (\<lambda>(r, msg, item, nt).
           let user = user\<lparr> qu_sock_item := item \<rparr>; sys = sys\<lparr> sys_net := nt \<rparr>
           in if r < 0 then Inr (NC_ERROR_SEND, msg, user, sys)
              else andThen (tool_ptc_qh_recvMsg (item, nt) msg) (\<lambda>(r, msg, item, nt).
              let user = user\<lparr> qu_sock_item := item \<rparr>; sys = sys\<lparr> sys_net := nt \<rparr>
              in Inr (if r < 0 then NC_ERROR_RECV else if h_cmd (head msg) \<noteq> cmd then NC_ERROR_INTERNAL else 0,
                      msg, user, sys)))))"

definition nc_qh_user_doSearch2 ::
  "nat \<Rightarrow> sock_dial \<Rightarrow> int \<Rightarrow> nc_dev \<Rightarrow> ptc_frame \<Rightarrow> qh_sys \<Rightarrow> (int \<times> ptc_frame \<times> qh_sys) outcome" where
  "nc_qh_user_doSearch2 fuel d cret dev frame sys =
     (let cmd = h_cmd (f_head frame);
          user = qh_user_for (dev_ip dev) (dev_msg_port dev) (dev_user dev) (dev_pswd dev) PTC_CMD_SEARCH2_BASE
      in qh_session d cret user sys frame (\<lambda>user sys.
           andThen (tool_ptc_qh_sendFrame (qu_sock_item user, sys_net sys) frame) (\<lambda>(r, frame, item, nt).
           let user = user\<lparr> qu_sock_item := item \<rparr>; sys = sys\<lparr> sys_net := nt \<rparr>
           in if r < 0 then Inr (NC_ERROR_SEND, frame, user, sys)
              else andThen (tool_ptc_qh_recvFrame fuel (item, nt) frame) (\<lambda>(r, frame, item, nt).
              let user = user\<lparr> qu_sock_item := item \<rparr>; sys = sys\<lparr> sys_net := nt \<rparr>
              in Inr (if r < 0 then NC_ERROR_RECV else if h_cmd (f_head frame) \<noteq> cmd then NC_ERROR_INTERNAL else 0,
                      frame, user, sys)))))"

text \<open>
  Binary requests: \<open>in_data\<close> goes into the message, \<open>out\<close> is the caller's buffer and the length it
  announces (\<open>None\<close>: a NULL pointer), overwritten by the reply when it fits.
\<close>

definition take_reply :: "u32 \<Rightarrow> u8 list \<Rightarrow> (u8 list \<times> u32) option \<Rightarrow> (int \<times> (u8 list \<times> u32) option) outcome" where
  "take_reply len bytes out =
     (case out of
        None \<Rightarrow> Inr (0, out)
      | Some (out_data, out_len) \<Rightarrow>
          if out_len < len then Inr (NC_ERROR_NOSPACE, out)
          else andThen (slice 0 (unat len) bytes) (\<lambda>bs.
               andThen (buf_put 0 bs out_data) (\<lambda>d. Inr (0, Some (d, len)))))"

definition nc_qh_user_doCfg ::
  "sock_dial \<Rightarrow> int \<Rightarrow> nc_dev \<Rightarrow> u32 \<Rightarrow> u8 list \<Rightarrow> (u8 list \<times> u32) option \<Rightarrow> qh_sys
     \<Rightarrow> (int \<times> (u8 list \<times> u32) option \<times> qh_sys) outcome" where
  "nc_qh_user_doCfg d cret dev cmd in_data out sys =
     (if cmd AND 0xFFFF0000 \<noteq> PTC_CMD_CFG_BASE then Inr (NC_ERROR_INTERNAL, out, sys)
      else let user = qh_user_for (dev_ip dev) (dev_msg_port dev) (dev_user dev) (dev_pswd dev) PTC_CMD_CFG_BASE
      in qh_session d cret user sys out (\<lambda>user sys.
           andThen (qh_fill cmd (of_nat (length in_data)) in_data (qu_msg user)) (\<lambda>msg.
           andThen (qh_send (user\<lparr> qu_msg := msg \<rparr>) sys) (\<lambda>(r, user, sys).
           if r < 0 then Inr (NC_ERROR_SEND, out, user, sys)
           else andThen (qh_recv user sys) (\<lambda>(r, user, sys).
           if r < 0 then Inr (NC_ERROR_RECV, out, user, sys)
           else if h_cmd (head (qu_msg user)) \<noteq> cmd then Inr (NC_ERROR_INTERNAL, out, user, sys)
           else andThen (take_reply (h_len (head (qu_msg user))) (data (qu_msg user)) out) (\<lambda>(ret, out).
                Inr (ret, out, user, sys)))))))"

text \<open>\<open>junk\<close>: the frame object \<^verbatim>\<open>tool_mem_malloc\<close> returned, which is not cleared.\<close>

definition nc_qh_user_doSearch ::
  "nat \<Rightarrow> ptc_frame \<Rightarrow> sock_dial \<Rightarrow> int \<Rightarrow> nc_dev \<Rightarrow> u32 \<Rightarrow> u8 list \<Rightarrow> (u8 list \<times> u32) option \<Rightarrow> qh_sys
     \<Rightarrow> (int \<times> (u8 list \<times> u32) option \<times> qh_sys) outcome" where
  "nc_qh_user_doSearch fuel junk d cret dev cmd in_data out sys =
     (if cmd AND 0xFFFF0000 \<noteq> PTC_CMD_SEARCH_BASE then Inr (NC_ERROR_INTERNAL, out, sys)
      else let user = qh_user_for (dev_ip dev) (dev_msg_port dev) (dev_user dev) (dev_pswd dev) PTC_CMD_SEARCH_BASE
      in qh_session d cret user sys out (\<lambda>user sys.
           andThen (buf_put 0 in_data (f_data junk)) (\<lambda>d.
           let frame = junk\<lparr> f_head := (f_head junk)\<lparr> h_cmd := cmd, h_len := of_nat (length in_data), h_ack := 0 \<rparr>,
             f_data := d \<rparr>
           in andThen (tool_ptc_qh_sendFrame (qu_sock_item user, sys_net sys) frame) (\<lambda>(r, frame, item, nt).
           let user = user\<lparr> qu_sock_item := item \<rparr>; sys = sys\<lparr> sys_net := nt \<rparr>
           in if r < 0 then Inr (NC_ERROR_SEND, out, user, sys)
              else andThen (tool_ptc_qh_recvFrame fuel (item, nt) frame) (\<lambda>(r, frame, item, nt).
              let user = user\<lparr> qu_sock_item := item \<rparr>; sys = sys\<lparr> sys_net := nt \<rparr>
              in if r < 0 then Inr (NC_ERROR_RECV, out, user, sys)
                 else if h_cmd (f_head frame) \<noteq> cmd then Inr (NC_ERROR_INTERNAL, out, user, sys)
                 else andThen (take_reply (h_len (f_head frame)) (f_data frame) out) (\<lambda>(ret, out).
                      Inr (ret, out, user, sys)))))))"

section \<open>Configuration functions\<close>

text \<open>
  Each function checks that the client is initialised (\<open>up\<close>: \<^verbatim>\<open>g_nc_qh\<close> is not NULL) and its pointers
  (\<open>None\<close>: NULL), encodes its request into a zeroed message, has it answered and decodes the reply.
\<close>

definition cfg_msg :: "u32 \<Rightarrow> ptc_msg" where
  "cfg_msg cmd = \<lparr> head = head_zero\<lparr> h_cmd := cmd \<rparr>, data = replicate PTC_MSG_SIZE 0 \<rparr>"

definition qh_cfg_call ::
  "(int \<Rightarrow> int) \<Rightarrow> bool \<Rightarrow> sock_dial \<Rightarrow> int \<Rightarrow> nc_dev option \<Rightarrow> 'c option \<Rightarrow> ('c \<Rightarrow> int \<times> ptc_msg)
     \<Rightarrow> (ptc_msg \<Rightarrow> 'c \<Rightarrow> (int \<times> 'c) outcome) \<Rightarrow> qh_sys \<Rightarrow> (int \<times> 'c option \<times> qh_sys) outcome" where
  "qh_cfg_call fin up d cret dev cfg build decode sys =
     (if \<not> up then Inr (NC_ERROR_UNINIT, cfg, sys)
      else case (dev, cfg) of
        (Some dev, Some c) \<Rightarrow>
          andThen (nc_qh_user_doCfg_v2 d cret dev (snd (build c)) sys) (\<lambda>(ret, msg, sys).
            if ret < 0 then Inr (ret, cfg, sys)
            else andThen (decode msg c) (\<lambda>(ret, c). Inr (fin ret, Some c, sys)))
      | _ \<Rightarrow> Inr (NC_ERROR_INPUT, cfg, sys))"

text \<open>\<^verbatim>\<open>if (ret < 0) return ret; return 0;\<close>\<close>

definition ret_or_0 :: "int \<Rightarrow> int" where
  "ret_or_0 ret = (if ret < 0 then ret else 0)"

definition set_done :: "(ptc_msg \<Rightarrow> int outcome) \<Rightarrow> ptc_msg \<Rightarrow> 'c \<Rightarrow> (int \<times> 'c) outcome" where
  "set_done decode msg c = andThen (decode msg) (\<lambda>ret. Inr (ret, c))"

type_synonym 'c cfg_call =
  "bool \<Rightarrow> sock_dial \<Rightarrow> int \<Rightarrow> nc_dev option \<Rightarrow> 'c option \<Rightarrow> qh_sys \<Rightarrow> (int \<times> 'c option \<times> qh_sys) outcome"

text \<open>After decoding, the alarm functions return what the decoder returned in any case.\<close>

definition nc_qh_getCfg_alarm ::
  "(string \<Rightarrow> ('f \<times> string) option) \<Rightarrow> 'f \<Rightarrow> u32 \<Rightarrow> 'f ptc_cfg_alarm cfg_call" where
  "nc_qh_getCfg_alarm scan_f z alarm_type up d cret dev cfg = qh_cfg_call (\<lambda>ret. ret) up d cret dev cfg
     (\<lambda>c. tool_ptc_qh_c2d_encode_getAlarm (cfg_msg PTC_CMD_CFG2_GET_ALARM) alarm_type)
     (tool_ptc_qh_d2c_decode_getAlarm scan_f z)"

definition nc_qh_setCfg_alarm :: "('f \<Rightarrow> string) \<Rightarrow> u32 \<Rightarrow> 'f ptc_cfg_alarm cfg_call" where
  "nc_qh_setCfg_alarm fmt_f alarm_type up d cret dev cfg = qh_cfg_call (\<lambda>ret. ret) up d cret dev cfg
     (\<lambda>c. tool_ptc_qh_c2d_encode_setAlarm fmt_f (cfg_msg PTC_CMD_CFG2_SET_ALARM) alarm_type c)
     (set_done tool_ptc_qh_d2c_decode_setAlarm)"

definition nc_qh_getCfg_workMode :: "ptc_cfg_workMode cfg_call" where
  "nc_qh_getCfg_workMode up d cret dev cfg = qh_cfg_call ret_or_0 up d cret dev cfg
     (\<lambda>c. tool_ptc_qh_c2d_encode_getWorkMode (cfg_msg PTC_CMD_CFG2_GET_WORKMODE))
     tool_ptc_qh_d2c_decode_getWorkMode"

definition nc_qh_setCfg_workMode :: "ptc_cfg_workMode cfg_call" where
  "nc_qh_setCfg_workMode up d cret dev cfg = qh_cfg_call ret_or_0 up d cret dev cfg
     (\<lambda>c. tool_ptc_qh_c2d_encode_setWorkMode (cfg_msg PTC_CMD_CFG2_SET_WORKMODE) c)
     (set_done tool_ptc_qh_d2c_decode_setWorkMode)"

definition nc_qh_getCfg_mobile :: "ptc_cfg_mobile cfg_call" where
  "nc_qh_getCfg_mobile up d cret dev cfg = qh_cfg_call ret_or_0 up d cret dev cfg
     (\<lambda>c. tool_ptc_qh_c2d_encode_getMobile (cfg_msg PTC_CMD_CFG2_GET_MOBILE))
     tool_ptc_qh_d2c_decode_getMobile"

definition nc_qh_setCfg_mobile :: "ptc_cfg_mobile cfg_call" where
  "nc_qh_setCfg_mobile up d cret dev cfg = qh_cfg_call ret_or_0 up d cret dev cfg
     (\<lambda>c. tool_ptc_qh_c2d_encode_setMobile (cfg_msg PTC_CMD_CFG2_SET_MOBILE) c)
     (set_done tool_ptc_qh_d2c_decode_setMobile)"

definition nc_qh_getCfg_wifi :: "ptc_cfg_wifi cfg_call" where
  "nc_qh_getCfg_wifi up d cret dev cfg = qh_cfg_call ret_or_0 up d cret dev cfg
     (\<lambda>c. tool_ptc_qh_c2d_encode_getWifi (cfg_msg PTC_CMD_CFG2_GET_WIFI))
     tool_ptc_qh_d2c_decode_getWifi"

definition nc_qh_setCfg_wifi :: "ptc_cfg_wifi cfg_call" where
  "nc_qh_setCfg_wifi up d cret dev cfg = qh_cfg_call ret_or_0 up d cret dev cfg
     (\<lambda>c. tool_ptc_qh_c2d_encode_setWifi (cfg_msg PTC_CMD_CFG2_SET_WIFI) c)
     (set_done tool_ptc_qh_d2c_decode_setWifi)"

definition nc_qh_getCfg_devRecord :: "ptc_cfg_devRecord cfg_call" where
  "nc_qh_getCfg_devRecord up d cret dev cfg = qh_cfg_call ret_or_0 up d cret dev cfg
     (\<lambda>c. tool_ptc_qh_c2d_encode_getDevRecord (cfg_msg PTC_CMD_CFG2_GET_DEVRECORD))
     tool_ptc_qh_d2c_decode_getDevRecord"

definition nc_qh_setCfg_devRecord :: "ptc_cfg_devRecord cfg_call" where
  "nc_qh_setCfg_devRecord up d cret dev cfg = qh_cfg_call ret_or_0 up d cret dev cfg
     (\<lambda>c. tool_ptc_qh_c2d_encode_setDevRecord (cfg_msg PTC_CMD_CFG2_SET_DEVRECORD) c)
     (set_done tool_ptc_qh_d2c_decode_setDevRecord)"

text \<open>
  The object \<^verbatim>\<open>cfg_all\<close> points to, with the number that names its kind. A number that does not fit the
  object is a cast to a wrong type, which is a fault when the object is used.
\<close>

datatype qh_cfg = Cfg_av ptc_cfg_av | Cfg_wifi ptc_cfg_wifi | Cfg_devRecord ptc_cfg_devRecord
  | Cfg_workMode ptc_cfg_workMode

definition NC_QH_CFG_AV :: int where "NC_QH_CFG_AV = 0"
definition NC_QH_CFG_WIFI :: int where "NC_QH_CFG_WIFI = 1"
definition NC_QH_CFG_DEVRECORD :: int where "NC_QH_CFG_DEVRECORD = 2"
definition NC_QH_CFG_WORKMODE :: int where "NC_QH_CFG_WORKMODE = 3"
definition NC_QH_CFG_NUM :: int where "NC_QH_CFG_NUM = 4"

definition cfg_all_get_request :: "int \<Rightarrow> ptc_msg" where
  "cfg_all_get_request kind =
     (if kind = NC_QH_CFG_AV then snd (tool_ptc_qh_c2d_encode_getAv (cfg_msg PTC_CMD_CFG2_GET_AV))
      else if kind = NC_QH_CFG_WIFI then snd (tool_ptc_qh_c2d_encode_getWifi (cfg_msg PTC_CMD_CFG2_GET_WIFI))
      else if kind = NC_QH_CFG_DEVRECORD
      then snd (tool_ptc_qh_c2d_encode_getDevRecord (cfg_msg PTC_CMD_CFG2_GET_DEVRECORD))
      else snd (tool_ptc_qh_c2d_encode_getWorkMode (cfg_msg PTC_CMD_CFG2_GET_WORKMODE)))"

definition cfg_all_decode :: "int \<Rightarrow> ptc_msg \<Rightarrow> qh_cfg \<Rightarrow> (int \<times> qh_cfg) outcome" where
  "cfg_all_decode kind msg c =
     (case c of
        Cfg_av c \<Rightarrow> if kind = NC_QH_CFG_AV
          then andThen (tool_ptc_qh_d2c_decode_getAv msg c) (\<lambda>(ret, c). Inr (ret, Cfg_av c)) else Inl Fault
      | Cfg_wifi c \<Rightarrow> if kind = NC_QH_CFG_WIFI
          then andThen (tool_ptc_qh_d2c_decode_getWifi msg c) (\<lambda>(ret, c). Inr (ret, Cfg_wifi c)) else Inl Fault
      | Cfg_devRecord c \<Rightarrow> if kind = NC_QH_CFG_DEVRECORD
          then andThen (tool_ptc_qh_d2c_decode_getDevRecord msg c) (\<lambda>(ret, c). Inr (ret, Cfg_devRecord c)) else Inl Fault
      | Cfg_workMode c \<Rightarrow> if kind = NC_QH_CFG_WORKMODE
          then andThen (tool_ptc_qh_d2c_decode_getWorkMode msg c) (\<lambda>(ret, c). Inr (ret, Cfg_workMode c)) else Inl Fault)"

definition nc_qh_getCfg_all ::
  "bool \<Rightarrow> sock_dial \<Rightarrow> int \<Rightarrow> nc_dev option \<Rightarrow> int \<Rightarrow> qh_cfg option \<Rightarrow> qh_sys \<Rightarrow> (int \<times> qh_cfg option \<times> qh_sys) outcome" where
  "nc_qh_getCfg_all up d cret dev kind cfg sys =
     (if up \<and> (kind < 0 \<or> kind \<ge> NC_QH_CFG_NUM) then Inr (NC_ERROR_INPUT, cfg, sys)
      else qh_cfg_call ret_or_0 up d cret dev cfg (\<lambda>c. (0, cfg_all_get_request kind)) (cfg_all_decode kind) sys)"

definition cfg_all_set_request :: "int \<Rightarrow> qh_cfg \<Rightarrow> ptc_msg outcome" where
  "cfg_all_set_request kind c =
     (case c of
        Cfg_av c \<Rightarrow> if kind = NC_QH_CFG_AV
          then Inr (snd (tool_ptc_qh_c2d_encode_setAv (cfg_msg PTC_CMD_CFG2_SET_AV) c)) else Inl Fault
      | Cfg_wifi c \<Rightarrow> if kind = NC_QH_CFG_WIFI
          then Inr (snd (tool_ptc_qh_c2d_encode_setWifi (cfg_msg PTC_CMD_CFG2_SET_WIFI) c)) else Inl Fault
      | Cfg_devRecord c \<Rightarrow> if kind = NC_QH_CFG_DEVRECORD
          then Inr (snd (tool_ptc_qh_c2d_encode_setDevRecord (cfg_msg PTC_CMD_CFG2_SET_DEVRECORD) c)) else Inl Fault
      | Cfg_workMode c \<Rightarrow> if kind = NC_QH_CFG_WORKMODE
          then Inr (snd (tool_ptc_qh_c2d_encode_setWorkMode (cfg_msg PTC_CMD_CFG2_SET_WORKMODE) c)) else Inl Fault)"

definition cfg_all_set_decode :: "int \<Rightarrow> ptc_msg \<Rightarrow> int outcome" where
  "cfg_all_set_decode kind =
     (if kind = NC_QH_CFG_AV then tool_ptc_qh_d2c_decode_setAv
      else if kind = NC_QH_CFG_WIFI then tool_ptc_qh_d2c_decode_setWifi
      else if kind = NC_QH_CFG_DEVRECORD then tool_ptc_qh_d2c_decode_setDevRecord
      else tool_ptc_qh_d2c_decode_setWorkMode)"

definition nc_qh_setCfg_all ::
  "bool \<Rightarrow> sock_dial \<Rightarrow> int \<Rightarrow> nc_dev option \<Rightarrow> int \<Rightarrow> qh_cfg option \<Rightarrow> qh_sys \<Rightarrow> (int \<times> qh_cfg option \<times> qh_sys) outcome" where
  "nc_qh_setCfg_all up d cret dev kind cfg sys =
     (if \<not> up then Inr (NC_ERROR_UNINIT, cfg, sys)
      else if kind < 0 \<or> kind \<ge> NC_QH_CFG_NUM then Inr (NC_ERROR_INPUT, cfg, sys)
      else case (dev, cfg) of
        (Some dev', Some c) \<Rightarrow> andThen (cfg_all_set_request kind c) (\<lambda>msg.
           qh_cfg_call ret_or_0 up d cret dev cfg (\<lambda>c. (0, msg)) (set_done (cfg_all_set_decode kind)) sys)
      | _ \<Rightarrow> Inr (NC_ERROR_INPUT, cfg, sys))"

end
