(* ===== verification/Nc_User.thy ===== *)
theory Nc_User
  imports Nc_Qh
begin

text \<open>
  The users of the QH client that run in a thread, \<^verbatim>\<open>sab_app/jni/nc/nc_qh.c\<close>: live streams, talk, alarms
  and playback. A turn is one pass of \<open>nc_qh_user_run\<close>; a \<open>qh_turn\<close> holds what the turn sees of its
  surroundings. Other threads change a user between turns (\<open>qh_command\<close>), under the mutex the
  thread holds while it looks at those fields.
\<close>

section \<open>Constants\<close>

definition PTC_CMD_RTS_START :: u32 where "PTC_CMD_RTS_START = 0x00010001"
definition PTC_CMD_RTS_FORCE_KEY_FRAME :: u32 where "PTC_CMD_RTS_FORCE_KEY_FRAME = 0x00010002"
definition PTC_CMD_RTS_FRAME :: u32 where "PTC_CMD_RTS_FRAME = 0x00010003"
definition PTC_CMD_TALK_START :: u32 where "PTC_CMD_TALK_START = 0x00020001"
definition PTC_CMD_TALK_C2S :: u32 where "PTC_CMD_TALK_C2S = 0x00020002"
definition PTC_CMD_TALK_S2C :: u32 where "PTC_CMD_TALK_S2C = 0x00020003"
definition PTC_CMD_PBS_START :: u32 where "PTC_CMD_PBS_START = 0x00040001"
definition PTC_CMD_PBS_FRAME :: u32 where "PTC_CMD_PBS_FRAME = 0x00040002"
definition PTC_CMD_PBS_POS :: u32 where "PTC_CMD_PBS_POS = 0x00040004"
definition PTC_CMD_PBS_PAUSE :: u32 where "PTC_CMD_PBS_PAUSE = 0x00040005"
definition PTC_CMD_PBS_RESTART :: u32 where "PTC_CMD_PBS_RESTART = 0x00040006"
definition PTC_CMD_PBS_SPEED :: u32 where "PTC_CMD_PBS_SPEED = 0x00040007"
definition PTC_FRAME_PBS_END :: u8 where "PTC_FRAME_PBS_END = 255"

definition NC_QH_HEARTBEAT_CYCLE :: int where "NC_QH_HEARTBEAT_CYCLE = 5"
definition NC_QH_RECONNECT_CYCLE :: int where "NC_QH_RECONNECT_CYCLE = 3"
definition NC_QH_STREAM_TIMEOUT :: int where "NC_QH_STREAM_TIMEOUT = 10"
definition NC_QH_USLEEP_CYCLE :: int where "NC_QH_USLEEP_CYCLE = 100 * 1000"

section \<open>Turns\<close>

text \<open>
  The tick counter when the turn begins and after the poll, what connecting, closing and polling
  return, the client's buffering time, and a bound on packets and messages received in a row.
\<close>

record qh_turn =
  turn_clock :: int
  turn_dial :: sock_dial
  turn_close :: int
  turn_poll :: int
  turn_poll_clock :: int
  turn_buffer :: int
  turn_fuel :: nat

type_synonym qh_result = "(int \<times> nc_qh_user \<times> qh_sys) outcome"

definition qh_slept :: "int \<Rightarrow> qh_sys \<Rightarrow> qh_sys" where
  "qh_slept usec sys = qh_called (Usleep usec) sys"

definition qh_at :: "int \<Rightarrow> qh_sys \<Rightarrow> qh_sys" where
  "qh_at t sys = sys\<lparr> sys_net := (sys_net sys)\<lparr> now := t \<rparr> \<rparr>"

text \<open>A message filled in and sent, and one whose reply has to repeat its command.\<close>

definition qh_post :: "u32 \<Rightarrow> u8 list \<Rightarrow> nc_qh_user \<Rightarrow> qh_sys \<Rightarrow> qh_result" where
  "qh_post cmd bytes user sys =
     andThen (qh_fill cmd (of_nat (length bytes)) bytes (qu_msg user)) (\<lambda>msg. qh_send (user\<lparr> qu_msg := msg \<rparr>) sys)"

definition qh_ask :: "u32 \<Rightarrow> u8 list \<Rightarrow> nc_qh_user \<Rightarrow> qh_sys \<Rightarrow> qh_result" where
  "qh_ask cmd bytes user sys =
     andThen (qh_post cmd bytes user sys) (\<lambda>(ret, user, sys).
       if ret < 0 then Inr (- 1, user, sys)
       else andThen (qh_recv user sys) (\<lambda>(ret, user, sys).
            Inr (if ret < 0 \<or> h_cmd (head (qu_msg user)) \<noteq> cmd then - 1 else 0, user, sys)))"

text \<open>Closing after a failure, with and without a report.\<close>

definition qh_drop :: "qh_turn \<Rightarrow> nc_qh_user \<Rightarrow> qh_sys \<Rightarrow> qh_result" where
  "qh_drop t user sys = Inr (- 1, qh_close (turn_close t) user sys)"

definition qh_break :: "qh_turn \<Rightarrow> u8 \<Rightarrow> nc_qh_user \<Rightarrow> qh_sys \<Rightarrow> qh_result" where
  "qh_break t type user sys = qh_report (- 1) type (qh_close (turn_close t) user sys)"

definition qh_poll :: "qh_turn \<Rightarrow> nc_qh_user \<Rightarrow> qh_sys \<Rightarrow> int \<times> nc_qh_user \<times> qh_sys" where
  "qh_poll t user sys =
     (let (ret, item) = tool_sock_item_pollRead (turn_poll t) (qu_sock_item user)
      in (ret, user\<lparr> qu_sock_item := item \<rparr>, qh_at (turn_poll_clock t) sys))"

text \<open>The callback, with the first bytes of the message's data.\<close>

definition qh_callback :: "nc_qh_user \<Rightarrow> qh_sys \<Rightarrow> qh_sys outcome" where
  "qh_callback user sys =
     (if qu_cb user
      then andThen (slice 0 (unat (h_len (head (qu_msg user)))) (data (qu_msg user))) (\<lambda>bytes.
             Inr (qh_called (Callback bytes) sys))
      else Inr sys)"

definition qh_overdue :: "int \<Rightarrow> nc_qh_user \<Rightarrow> qh_sys \<Rightarrow> bool" where
  "qh_overdue cycle user sys \<longleftrightarrow> tool_sock_item_isTimeout (qh_ticked sys) (qu_sock_item user) cycle \<noteq> 0"

definition qh_stamp :: "nc_qh_user \<Rightarrow> qh_sys \<Rightarrow> nc_qh_user" where
  "qh_stamp user sys = user\<lparr> qu_stream_tick := manager_tick (qh_ticked sys) \<rparr>"

definition qh_watch :: "nc_qh_user \<Rightarrow> qh_sys \<Rightarrow> (nc_qh_user \<times> qh_sys) outcome" where
  "qh_watch user sys =
     andThen (tool_sock_isTickTimeout (Some (qh_ticked sys)) (qu_stream_tick user) NC_QH_STREAM_TIMEOUT) (\<lambda>late.
       Inr (if late \<noteq> 0 then nc_qh_user_doState PTC_FRAME_STREAM_TIMEOUT (qh_stamp user sys) sys else (user, sys)))"

section \<open>Live streams\<close>

text \<open>The part that connects, shared by live streams and playback.\<close>

definition stream_open :: "qh_turn \<Rightarrow> u32 \<Rightarrow> u8 list \<Rightarrow> nc_qh_user \<Rightarrow> qh_sys \<Rightarrow> qh_result" where
  "stream_open t cmd bytes user sys =
     (if \<not> qh_overdue NC_QH_RECONNECT_CYCLE user sys
      then let (user, sys) = nc_qh_user_doState PTC_FRAME_STREAM_WAIT user sys
           in Inr (- 1, user, qh_slept NC_QH_USLEEP_CYCLE sys)
      else andThen (nc_qh_user_login (turn_dial t) (turn_close t) user sys) (\<lambda>(ret, user, sys).
        if ret < 0 then Inr (- 1, user, sys)
        else let (user, sys) = nc_qh_user_doState PTC_FRAME_STREAM_START user sys
             in andThen (qh_ask cmd bytes user sys) (\<lambda>(ret, user, sys).
                  if ret < 0 then qh_break t PTC_FRAME_STREAM_START_FAIL user sys
                  else qh_report 0 PTC_FRAME_STREAM_RUNNING (user, sys))))"

text \<open>A heartbeat when it is due; \<open>type\<close> is reported when it cannot be sent.\<close>

definition stream_beat :: "qh_turn \<Rightarrow> u8 \<Rightarrow> nc_qh_user \<Rightarrow> qh_sys \<Rightarrow> qh_result" where
  "stream_beat t type user sys =
     (if qh_overdue NC_QH_HEARTBEAT_CYCLE user sys
      then andThen (qh_post PTC_CMD_USRE_HEARTBEAT [] user sys) (\<lambda>(ret, user, sys).
             if ret < 0 then qh_break t type user sys else Inr (0, user, sys))
      else Inr (0, user, sys))"

text \<open>A request of another thread that is passed on and then cleared.\<close>

definition stream_pass ::
  "qh_turn \<Rightarrow> u8 \<Rightarrow> bool \<Rightarrow> u32 \<Rightarrow> u8 list \<Rightarrow> (nc_qh_user \<Rightarrow> nc_qh_user) \<Rightarrow> nc_qh_user \<Rightarrow> qh_sys \<Rightarrow> qh_result" where
  "stream_pass t type wanted cmd bytes clear user sys =
     (if wanted
      then andThen (qh_post cmd bytes user sys) (\<lambda>(ret, user, sys).
             if ret < 0 then qh_break t type user sys else Inr (0, clear user, sys))
      else Inr (0, user, sys))"

text \<open>A frame that arrives within five seconds.\<close>

definition stream_frame :: "qh_turn \<Rightarrow> u8 \<Rightarrow> nc_qh_user \<Rightarrow> qh_sys \<Rightarrow> qh_result" where
  "stream_frame t type user sys =
     (let (ret, user, sys) = qh_poll t user sys
      in if ret \<le> 0 then qh_break t type user sys
         else andThen (qh_recvFrame_user (turn_fuel t) user sys) (\<lambda>(ret, user, sys).
           if ret < 0 then qh_break t type user sys else Inr (0, user, sys)))"

text \<open>The next step of a turn when the last one did not fail.\<close>

definition if_ok :: "qh_result \<Rightarrow> (nc_qh_user \<Rightarrow> qh_sys \<Rightarrow> qh_result) \<Rightarrow> qh_result" where
  "if_ok m f = andThen m (\<lambda>(ret, user, sys). if ret < 0 then Inr (- 1, user, sys) else f user sys)"

definition rts_store :: "qh_turn \<Rightarrow> nc_qh_user \<Rightarrow> qh_sys \<Rightarrow> qh_result" where
  "rts_store t user sys =
     (let frame = qu_frame user
      in if h_cmd (f_head frame) = PTC_CMD_RTS_FRAME
         then andThen (slice 0 (unat (h_len (f_head frame))) (f_data frame)) (\<lambda>bytes.
                Inr (0, qh_stamp user sys, qh_called (Set_withDrop bytes (turn_buffer t)) sys))
         else Inr (0, qh_stamp user sys, sys))"

definition nc_qh_user_doRts :: "qh_turn \<Rightarrow> nc_qh_user \<Rightarrow> qh_sys \<Rightarrow> qh_result" where
  "nc_qh_user_doRts t user sys =
     andThen (qh_watch user sys) (\<lambda>(user, sys).
     if_ok (if tool_sock_item_isLive (qu_sock_item user) = 0
            then stream_open t PTC_CMD_RTS_START (qu_rts_start user) user sys else Inr (0, user, sys)) (\<lambda>user sys.
     if_ok (stream_pass t PTC_FRAME_STREAM_BROKEN (qu_rts_key_flag user) PTC_CMD_RTS_FORCE_KEY_FRAME []
              (\<lambda>user. user\<lparr> qu_rts_key_flag := False \<rparr>) user sys) (\<lambda>user sys.
     if_ok (stream_beat t PTC_FRAME_STREAM_BROKEN user sys) (\<lambda>user sys.
     if_ok (stream_frame t PTC_FRAME_STREAM_BROKEN user sys) (\<lambda>user sys.
     rts_store t user sys)))))"

section \<open>Playback\<close>

definition pbs_store :: "qh_turn \<Rightarrow> nc_qh_user \<Rightarrow> qh_sys \<Rightarrow> qh_result" where
  "pbs_store t user sys =
     (let frame = qu_frame user
      in if h_cmd (f_head frame) = PTC_CMD_PBS_FRAME
         then andThen (slice 8 13 (f_data frame)) (\<lambda>b.
              andThen (slice 0 (unat (h_len (f_head frame))) (f_data frame)) (\<lambda>bytes.
              let (user, sys) =
                (if b ! 12 = PTC_FRAME_PBS_END then qh_close (turn_close t) (user\<lparr> qu_pbs_end_flag := True \<rparr>) sys
                 else (user\<lparr> qu_pbs_start := (qu_pbs_start user)\<lparr> rec_start_time := le32 (b ! 0) (b ! 1) (b ! 2) (b ! 3) \<rparr> \<rparr>, sys))
              in Inr (1, qh_stamp user sys, qh_called (Set_noDrop bytes True) sys)))
         else Inr (1, qh_stamp user sys, sys))"

definition nc_qh_user_doPbs :: "qh_turn \<Rightarrow> nc_qh_user \<Rightarrow> qh_sys \<Rightarrow> qh_result" where
  "nc_qh_user_doPbs t user sys =
     andThen (qh_watch user sys) (\<lambda>(user, sys).
     if qu_pbs_end_flag user then Inr (0, user, qh_slept NC_QH_USLEEP_CYCLE sys) else
     if_ok (if tool_sock_item_isLive (qu_sock_item user) = 0
            then stream_open t PTC_CMD_PBS_START (record_bytes (qu_pbs_start user)) user sys else Inr (0, user, sys)) (\<lambda>user sys.
     if_ok (stream_beat t PTC_FRAME_STREAM_WAIT user sys) (\<lambda>user sys.
     if_ok (stream_pass t PTC_FRAME_STREAM_WAIT (qu_pbs_pos user \<noteq> 0) PTC_CMD_PBS_POS (le4 (qu_pbs_pos user))
              (\<lambda>user. user\<lparr> qu_pbs_pos := 0 \<rparr>) user sys) (\<lambda>user sys.
     if_ok (stream_pass t PTC_FRAME_STREAM_WAIT (qu_pbs_pause user) PTC_CMD_PBS_PAUSE []
              (\<lambda>user. user\<lparr> qu_pbs_pause := False \<rparr>) user sys) (\<lambda>user sys.
     if_ok (stream_pass t PTC_FRAME_STREAM_WAIT (qu_pbs_restart user) PTC_CMD_PBS_RESTART []
              (\<lambda>user. user\<lparr> qu_pbs_restart := False \<rparr>) user sys) (\<lambda>user sys.
     if_ok (stream_pass t PTC_FRAME_STREAM_WAIT (qu_pbs_speed user \<noteq> 0) PTC_CMD_PBS_SPEED (le4 (qu_pbs_speed user))
              (\<lambda>user. user\<lparr> qu_pbs_speed := 0 \<rparr>) user sys) (\<lambda>user sys.
     if_ok (stream_frame t PTC_FRAME_STREAM_WAIT user sys) (\<lambda>user sys.
     pbs_store t user sys))))))))"

section \<open>Talk and alarms\<close>

definition idle_open :: "qh_turn \<Rightarrow> nc_qh_user \<Rightarrow> qh_sys \<Rightarrow> qh_result" where
  "idle_open t user sys =
     (if \<not> qh_overdue NC_QH_RECONNECT_CYCLE user sys then Inr (- 1, user, qh_slept (20 * 1000) sys)
      else andThen (nc_qh_user_login (turn_dial t) (turn_close t) user sys) (\<lambda>(ret, user, sys).
             Inr (if ret < 0 then - 1 else 0, user, sys)))"

text \<open>The next frame of the sound to send, when there is one: the flag tells that there was none.\<close>

definition talk_send :: "qh_turn \<Rightarrow> nc_qh_user \<Rightarrow> qh_sys \<Rightarrow> (int \<times> bool \<times> nc_qh_user \<times> qh_sys) outcome" where
  "talk_send t user sys =
     (let msg = qu_msg user
      in andThen (tool_stream2_get (Some (qu_audio_send user)) (Some (qu_audio_pos user)) (Some (data msg))
             (Some (of_nat PTC_MSG_SIZE))) (\<lambda>(got, pos, bytes, len).
         let user = user\<lparr> qu_audio_pos := pos, qu_msg := msg\<lparr> head := (head msg)\<lparr> h_len := len \<rparr>, data := bytes \<rparr> \<rparr>
         in if got = 0 then Inr (0, True, user, sys)
            else let msg = qu_msg user;
                     user = user\<lparr> qu_msg := msg\<lparr> head := (head msg)\<lparr> h_cmd := PTC_CMD_TALK_C2S, h_ack := 0 \<rparr> \<rparr> \<rparr>
            in andThen (qh_send user sys) (\<lambda>(ret, user, sys).
                 if ret < 0 then andThen (qh_drop t user sys) (\<lambda>(ret, user, sys). Inr (ret, False, user, sys))
                 else Inr (0, False, user, sys))))"

text \<open>What arrives, when the poll says that something does.\<close>

definition talk_recv :: "qh_turn \<Rightarrow> bool \<Rightarrow> nc_qh_user \<Rightarrow> qh_sys \<Rightarrow> qh_result" where
  "talk_recv t idle user sys =
     (let (ret, user, sys) = qh_poll t user sys
      in if ret < 0 then qh_drop t user sys
         else if ret > 0
         then andThen (qh_recv user sys) (\<lambda>(ret, user, sys).
                if ret < 0 \<or> h_cmd (head (qu_msg user)) \<noteq> PTC_CMD_TALK_S2C then qh_drop t user sys
                else andThen (qh_callback user sys) (\<lambda>sys. Inr (0, user, sys)))
         else Inr (0, user, if idle then qh_slept (20 * 1000) sys else sys))"

definition nc_qh_user_doTalk :: "qh_turn \<Rightarrow> nc_qh_user \<Rightarrow> qh_sys \<Rightarrow> qh_result" where
  "nc_qh_user_doTalk t user sys =
     if_ok (if tool_sock_item_isLive (qu_sock_item user) = 0
            then if_ok (idle_open t user sys) (\<lambda>user sys.
                   andThen (qh_ask PTC_CMD_TALK_START [] user sys) (\<lambda>(ret, user, sys).
                     if ret < 0 then qh_drop t user sys else Inr (0, user, sys)))
            else Inr (0, user, sys)) (\<lambda>user sys.
     andThen (talk_send t user sys) (\<lambda>(ret, idle, user, sys).
       if ret < 0 then Inr (- 1, user, sys) else talk_recv t idle user sys))"

text \<open>
  Heartbeats until one is answered by a heartbeat: other messages go to the callback. The message that
  was received is the one sent next, with the fields \<open>sendMsg\<close> sets. The first argument bounds the rounds.
\<close>

primrec alarm_beats :: "nat \<Rightarrow> qh_turn \<Rightarrow> nc_qh_user \<Rightarrow> qh_sys \<Rightarrow> qh_result" where
  "alarm_beats 0 t user sys = Inl Fuel"
| "alarm_beats (Suc fuel) t user sys =
     andThen (qh_send user sys) (\<lambda>(ret, user, sys).
       if ret < 0 then qh_drop t user sys
       else andThen (qh_recv user sys) (\<lambda>(ret, user, sys).
       if ret < 0 then qh_drop t user sys
       else if h_cmd (head (qu_msg user)) = PTC_CMD_USRE_HEARTBEAT then Inr (0, user, sys)
       else andThen (qh_callback user sys) (\<lambda>sys. alarm_beats fuel t user sys)))"

definition nc_qh_user_doAlarm :: "qh_turn \<Rightarrow> nc_qh_user \<Rightarrow> qh_sys \<Rightarrow> qh_result" where
  "nc_qh_user_doAlarm t user sys =
     if_ok (if tool_sock_item_isLive (qu_sock_item user) = 0 then idle_open t user sys else Inr (0, user, sys)) (\<lambda>user sys.
     if_ok (if qh_overdue NC_QH_HEARTBEAT_CYCLE user sys
            then andThen (qh_fill PTC_CMD_USRE_HEARTBEAT 0 [] (qu_msg user)) (\<lambda>msg.
                   alarm_beats (turn_fuel t) t (user\<lparr> qu_msg := msg \<rparr>) sys)
            else Inr (0, user, sys)) (\<lambda>user sys.
     (let (ret, user, sys) = qh_poll t user sys
      in if ret < 0 then qh_drop t user sys
         else if ret > 0
         then andThen (qh_recv user sys) (\<lambda>(ret, user, sys).
                if ret < 0 then qh_drop t user sys
                else andThen (qh_callback user sys) (\<lambda>sys. Inr (0, user, sys)))
         else Inr (0, user, qh_slept (20 * 1000) sys))))"

section \<open>The thread of a user\<close>

text \<open>What other threads ask of a user between two turns.\<close>

datatype qh_command = Force_key | Set_pos u32 | Pause | Restart | Set_speed u32 | Send_talk "u8 list"

text \<open>The bodies of \<^verbatim>\<open>nc_qh_forceRtsKeyFrame\<close>, \<^verbatim>\<open>nc_qh_setPbsPos\<close> and so on, after their checks.\<close>

fun qh_obey :: "qh_command \<Rightarrow> nc_qh_user \<Rightarrow> nc_qh_user outcome" where
  "qh_obey Force_key user = Inr (user\<lparr> qu_rts_key_flag := True \<rparr>)"
| "qh_obey (Set_pos pos) user = Inr (user\<lparr> qu_pbs_pos := pos \<rparr>)"
| "qh_obey Pause user = Inr (user\<lparr> qu_pbs_pause := True \<rparr>)"
| "qh_obey Restart user = Inr (user\<lparr> qu_pbs_restart := True \<rparr>)"
| "qh_obey (Set_speed speed) user = Inr (user\<lparr> qu_pbs_speed := speed \<rparr>)"
| "qh_obey (Send_talk bytes) user =
     andThen (tool_stream2_set (Some (qu_audio_send user)) (Some bytes) (of_nat (length bytes))) (\<lambda>ring.
       Inr (user\<lparr> qu_audio_send := ring \<rparr>))"

definition qh_turn_of :: "qh_turn \<Rightarrow> nc_qh_user \<Rightarrow> qh_sys \<Rightarrow> qh_result" where
  "qh_turn_of t user sys =
     (if qu_type user = PTC_CMD_RTS_BASE then nc_qh_user_doRts t user sys
      else if qu_type user = PTC_CMD_TALK_BASE then nc_qh_user_doTalk t user sys
      else if qu_type user = PTC_CMD_ALARM_BASE then nc_qh_user_doAlarm t user sys
      else if qu_type user = PTC_CMD_PBS_BASE then nc_qh_user_doPbs t user sys
      else Inr (0, user, qh_slept (100 * 1000) sys))"

text \<open>The passes of the loop, each with the commands given before it.\<close>

primrec qh_turns :: "(qh_command list \<times> qh_turn) list \<Rightarrow> nc_qh_user \<Rightarrow> qh_sys \<Rightarrow> (nc_qh_user \<times> qh_sys) outcome" where
  "qh_turns [] user sys = Inr (user, sys)"
| "qh_turns (x # xs) user sys =
     andThen (foldl (\<lambda>m c. andThen m (qh_obey c)) (Inr user) (fst x)) (\<lambda>user.
     andThen (qh_turn_of (snd x) user (qh_at (turn_clock (snd x)) sys)) (\<lambda>(_, user, sys). qh_turns xs user sys))"

text \<open>The thread: \<open>xs\<close> are the passes until \<^verbatim>\<open>user->state\<close> is found to be 0.\<close>

definition nc_qh_user_run :: "(qh_command list \<times> qh_turn) list \<Rightarrow> int \<Rightarrow> nc_qh_user \<Rightarrow> qh_sys \<Rightarrow> qh_result" where
  "nc_qh_user_run xs cret user sys =
     andThen (qh_turns xs (qh_stamp user sys) sys) (\<lambda>(user, sys). nc_qh_user_logout cret user sys)"

end
