(* ===== verification/Nc_Qh_Rt.thy ===== *)
theory Nc_Qh_Rt
  imports Nc_Qh
begin

text \<open>
  What the sessions of \<^verbatim>\<open>Nc_Qh\<close> do: whatever the network does, a call closes the connection it opened
  and returns one of the documented codes; over a prompt connection to a camera that answers, a
  configuration is read and written as a whole.
\<close>

section \<open>What the parts leave alone\<close>

lemma send_loop_keeps:
  "sock_send_loop sts start item nt sent bs = Inr (r, item', nt') \<Longrightarrow> fd item' = fd item \<and> has_flag item' = has_flag item"
  by (induction sts arbitrary: nt sent bs) (auto simp: sock_leave_def Let_def split: if_splits)

lemma recv_loop_keeps:
  "sock_recv_loop sts start item nt got n = Inr (r, bs, item', nt') \<Longrightarrow> fd item' = fd item \<and> has_flag item' = has_flag item"
  by (induction sts arbitrary: nt got n) (auto simp: sock_leave_def Let_def split: if_splits)

text \<open>A transport operation that keeps what \<open>obs\<close> observes of a state makes the framing keep it.\<close>

locale observed =
  fixes send :: "'s sender" and recv :: "'s receiver" and obs :: "'s \<Rightarrow> 'o"
  assumes send_obs: "send s bs = Inr (r, s') \<Longrightarrow> obs s' = obs s"
    and recv_obs: "recv s n = Inr (r, bs, s') \<Longrightarrow> obs s' = obs s"
begin

lemma sendMsg_obs: "qh_sendMsg send s msg = Inr (r, msg', s') \<Longrightarrow> obs s' = obs s"
  by (auto simp: qh_sendMsg_def Let_def andThen_Inr_iff dest: send_obs)

lemma recvMsg_obs: "qh_recvMsg recv s msg = Inr (r, msg', s') \<Longrightarrow> obs s' = obs s"
  by (auto simp: qh_recvMsg_def Let_def andThen_Inr_iff split: if_splits dest!: recv_obs)

lemma send_packs_obs: "send_packs send pos is s frame = Inr (r, frame', s') \<Longrightarrow> obs s' = obs s"
proof (induction "is" arbitrary: s frame)
  case (Cons i "is")
  from Cons.prems show ?case
    by (auto simp: Let_def andThen_Inr_iff split: if_splits dest!: send_obs Cons.IH)
qed simp

lemma sendFrame_obs: "qh_sendFrame send s frame = Inr (r, frame', s') \<Longrightarrow> obs s' = obs s"
  by (auto simp: qh_sendFrame_def Let_def dest: send_packs_obs)

lemma recv_packs_obs: "recv_packs fuel recv big s len frame = Inr (r, len', frame', s') \<Longrightarrow> obs s' = obs s"
proof (induction fuel arbitrary: s len frame)
  case (Suc fuel)
  from Suc.prems show ?case
    by (auto simp: Let_def andThen_Inr_iff split: if_splits dest!: recv_obs Suc.IH)
qed simp

lemma recvFrame_obs: "qh_recvFrame fuel recv s frame = Inr (r, frame', s') \<Longrightarrow> obs s' = obs s"
  by (auto simp: qh_recvFrame_def Let_def andThen_Inr_iff split: if_splits dest!: recv_packs_obs)

end

interpretation sock_fd: observed tool_sock_item_send tool_sock_item_recv "\<lambda>s. (fd (fst s), has_flag (fst s))"
proof
  show "(fd (fst s'), has_flag (fst s')) = (fd (fst s), has_flag (fst s))" if "tool_sock_item_send s bs = Inr (r, s')" for s bs r s'
    using that by (cases s; cases s') (auto simp: tool_sock_item_send_def split: if_splits dest: send_loop_keeps)
  show "(fd (fst s'), has_flag (fst s')) = (fd (fst s), has_flag (fst s))" if "tool_sock_item_recv s n = Inr (r, bs, s')" for s n r bs s'
    using that by (cases s; cases s') (auto simp: tool_sock_item_recv_def split: if_splits dest: recv_loop_keeps)
qed

section \<open>Postconditions of the parts\<close>

text \<open>Each part, as a rule that takes the postcondition back to the state before it.\<close>

lemma send_yields [yields_intros]:
  assumes "\<And>r msg item nt. fd item = fd (qu_sock_item user) \<Longrightarrow>
      P (r, user\<lparr> qu_msg := msg, qu_sock_item := item \<rparr>, sys\<lparr> sys_net := nt \<rparr>)"
  shows "yields (qh_send user sys) P"
  using assms sock_fd.sendMsg_obs [of "(qu_sock_item user, sys_net sys)" "qu_msg user"]
  by (fastforce intro!: yieldsI simp: qh_send_def andThen_Inr_iff tool_ptc_qh_sendMsg_def)

lemma recv_yields [yields_intros]:
  assumes "\<And>r msg item nt. fd item = fd (qu_sock_item user) \<Longrightarrow>
      P (r, user\<lparr> qu_msg := msg, qu_sock_item := item \<rparr>, sys\<lparr> sys_net := nt \<rparr>)"
  shows "yields (qh_recv user sys) P"
  using assms sock_fd.recvMsg_obs [of "(qu_sock_item user, sys_net sys)" "qu_msg user"]
  by (fastforce intro!: yieldsI simp: qh_recv_def andThen_Inr_iff tool_ptc_qh_recvMsg_def)

lemma recvFrame_yields [yields_intros]:
  assumes "\<And>r frame item nt. fd item = fd (qu_sock_item user) \<Longrightarrow>
      P (r, user\<lparr> qu_frame := frame, qu_sock_item := item \<rparr>, sys\<lparr> sys_net := nt \<rparr>)"
  shows "yields (qh_recvFrame_user fuel user sys) P"
proof (rule yieldsI)
  fix x assume x: "qh_recvFrame_user fuel user sys = Inr x"
  then obtain r frame item nt where r: "tool_ptc_qh_recvFrame fuel (qu_sock_item user, sys_net sys) (qu_frame user) = Inr (r, frame, item, nt)"
    and "x = (r, user\<lparr> qu_frame := frame, qu_sock_item := item \<rparr>, sys\<lparr> sys_net := nt \<rparr>)"
    by (auto simp: qh_recvFrame_user_def andThen_Inr_iff)
  then show "P x"
    using sock_fd.recvFrame_obs [OF r [unfolded tool_ptc_qh_recvFrame_def]] by (simp add: assms)
qed

lemma fill_yields [yields_intros]: "(\<And>msg. P msg) \<Longrightarrow> yields (qh_fill cmd len bytes msg) P"
  by (simp add: yieldsI)

text \<open>Reporting is an update of the last report and of the calls.\<close>

definition state_calls :: "u8 \<Rightarrow> nc_qh_user \<Rightarrow> qh_call list" where
  "state_calls t user =
     (if t = qu_last_type user then []
      else (if qu_type user = PTC_CMD_RTS_BASE \<or> qu_type user = PTC_CMD_PBS_BASE then [Set_noDrop (state_frame t) False]
            else if qu_type user = PTC_CMD_TALK_BASE \<and> qu_cb user then [Callback (state_frame t)] else [])
           @ [Usleep (100 * 1000)])"

lemma doState_eq:
  "nc_qh_user_doState t user sys =
     (user\<lparr> qu_last_type := t \<rparr>, sys\<lparr> sys_calls := sys_calls sys @ state_calls t user \<rparr>)"
  by (auto simp: nc_qh_user_doState_def qh_called_def state_calls_def)

lemma qh_report_eq:
  "qh_report ret t s =
     Inr (ret, (fst s)\<lparr> qu_last_type := t \<rparr>, (snd s)\<lparr> sys_calls := sys_calls (snd s) @ state_calls t (fst s) \<rparr>)"
  by (simp add: qh_report_def doState_eq)

lemma buf_put_yields [yields_intros]: "(\<And>d. P d) \<Longrightarrow> yields (buf_put n bytes d0) P"
  by (simp add: yieldsI)

lemma slice_yields [yields_intros]: "(\<And>b. P b) \<Longrightarrow> yields (slice a n d) P"
  by (simp add: yieldsI)

section \<open>Sockets\<close>

text \<open>\<open>live\<close>: the user holds an open socket. \<open>balance\<close>: the open sockets of the others.\<close>

definition live :: "nc_qh_user \<Rightarrow> bool" where
  "live user \<longleftrightarrow> fd (qu_sock_item user) > 0"

definition balance :: "nc_qh_user \<Rightarrow> qh_sys \<Rightarrow> int" where
  "balance user sys = manager_count (sys_manager sys) - (if live user then 1 else 0)"

lemmas socket_defs = live_def balance_def

lemma isLive_iff [simp]: "tool_sock_item_isLive (qu_sock_item user) = 0 \<longleftrightarrow> \<not> live user"
  by (simp add: tool_sock_item_isLive_def live_def)

text \<open>A successful \<^verbatim>\<open>close\<close> leaves nothing open.\<close>

lemma close_cases:
  obtains item m where
    "qh_close 0 user sys = (user\<lparr> qu_sock_item := item \<rparr>, sys\<lparr> sys_manager := m \<rparr>)"
    "\<not> live (user\<lparr> qu_sock_item := item \<rparr>)"
    "balance (user\<lparr> qu_sock_item := item \<rparr>) (sys\<lparr> sys_manager := m \<rparr>) = balance user sys"
proof -
  obtain item m where c: "tool_sock_item_close 0 (qh_ticked sys) (qu_sock_item user) = (item, m)" by fastforce
  then have "fd item \<le> 0 \<and> manager_count m = manager_count (sys_manager sys) - (if live user then 1 else 0)"
    by (auto simp: tool_sock_item_close_def Let_def live_def qh_ticked_def split: if_splits)
  then show ?thesis by (intro that [of item m]) (auto simp: qh_close_def c socket_defs)
qed

lemma open_yields [yields_intros]:
  assumes "fd item \<le> 0" "0 < dial_sock d"
    and "\<And>item' m' nt'. fd item' > 0 \<Longrightarrow> manager_count m' = manager_count m + 1 \<Longrightarrow> P (0, item', m', nt')"
    and "\<And>item' m' nt'. fd item' \<le> 0 \<Longrightarrow> manager_count m' = manager_count m \<Longrightarrow> P (- 1, item', m', nt')"
  shows "yields (tool_sock_item_open_v2 d (Some m) (item, nt) t1 t2 ip port ip' port') P"
  using assms by (auto simp: tool_sock_item_open_v2_def tool_sock_init_def Let_def yieldsI)

text \<open>What logging in returns.\<close>

definition login_codes :: "u32 \<Rightarrow> int set" where
  "login_codes type = {0, NC_ERROR_SEND, NC_ERROR_RECV, NC_ERROR_PROTOCOL, NC_ERROR_AUTH}
     \<union> (if type \<in> {PTC_CMD_TALK_BASE, PTC_CMD_RTS_BASE, PTC_CMD_PBS_BASE} then {NC_ERROR_MAXCONNECT} else {})"

lemma exchange_yields [yields_intros]:
  assumes "\<And>r user' sys'. live user' = live user \<Longrightarrow> balance user' sys' = balance user sys \<Longrightarrow>
      qu_type user' = qu_type user \<Longrightarrow> r \<in> login_codes (qu_type user) \<Longrightarrow> P (r, user', sys')"
  shows "yields (login_exchange user sys) P"
  unfolding login_exchange_def doState_eq qh_report_eq Let_def prod.case yields_simps
  apply (rule send_yields)
  apply (simp add: qh_report_eq)
  apply (intro conjI impI)
   apply (rule assms; simp add: socket_defs login_codes_def)
  apply (rule recv_yields)
  apply (simp add: qh_report_eq)
  apply (intro conjI impI)
  apply (rule assms; simp add: socket_defs login_codes_def)+
  done

lemma login_yields [yields_intros]:
  assumes "\<not> live user" "0 < dial_sock d"
    and "\<And>r user' sys'. live user' \<longleftrightarrow> r = 0 \<Longrightarrow> balance user' sys' = balance user sys \<Longrightarrow>
      qu_type user' = qu_type user \<Longrightarrow> r \<in> insert NC_ERROR_CONNECT (login_codes (qu_type user)) \<Longrightarrow> P (r, user', sys')"
  shows "yields (nc_qh_user_login d 0 user sys) P"
  unfolding nc_qh_user_login_def doState_eq qh_report_eq Let_def prod.case
  apply (simp only: yields_simps)
  apply (rule open_yields)
  subgoal using assms(1) by (simp add: live_def)
  subgoal using assms(2) .
  subgoal for item m nt
    apply (simp add: qh_report_eq)
    apply (rule fill_yields, rule exchange_yields)
    subgoal for msg r user' sys'
      by (cases rule: close_cases [of user' sys'])
        (use assms(1) in \<open>auto intro!: assms(3) simp: socket_defs qh_ticked_def login_codes_def NC_ERROR_defs split: if_splits\<close>)
    done
  subgoal for item m nt
    apply (simp add: qh_report_eq)
    apply (rule assms(3))
    using assms(1) by (auto simp: socket_defs qh_ticked_def NC_ERROR_defs)
  done


section \<open>Calls do not leak sockets\<close>

lemma logout_yields [yields_intros]:
  assumes "live user" "\<And>r user' sys'. \<not> live user' \<Longrightarrow> balance user' sys' = balance user sys \<Longrightarrow> P (r, user', sys')"
  shows "yields (nc_qh_user_logout 0 user sys) P"
proof -
  have "yields (qh_send (user\<lparr> qu_msg := msg \<rparr>) sys) (\<lambda>(ret, user, sys). P (0, qh_close 0 user sys))" for msg
  proof (rule send_yields, simp)
    fix msg :: ptc_msg and item :: tool_sock_item and nt :: net
    assume i: "fd item = fd (qu_sock_item user)"
    let ?u = "user\<lparr> qu_msg := msg, qu_sock_item := item \<rparr>" and ?s = "sys\<lparr> sys_net := nt \<rparr>"
    have "balance ?u ?s = balance user sys" using i by (simp add: socket_defs)
    then show "P (0, qh_close 0 ?u ?s)"
      by (cases rule: close_cases [of ?u ?s]) (use assms(2) in auto)
  qed
  then show ?thesis using assms(1) by (simp add: nc_qh_user_logout_def fill_yields)
qed

lemma balance_closed: "\<not> live user \<Longrightarrow> balance user sys = manager_count (sys_manager sys)"
  by (simp add: balance_def)

lemma login_codes_neg: "r \<in> insert NC_ERROR_CONNECT (login_codes type) \<Longrightarrow> \<not> r < 0 \<longleftrightarrow> r = 0"
  by (auto simp: login_codes_def NC_ERROR_defs split: if_splits)

lemma session_yields:
  assumes "\<not> live user" "0 < dial_sock d"
    and work: "\<And>u s. live u \<Longrightarrow> yields (work u s) (\<lambda>(r, x, u', s'). live u' \<and> balance u' s' = balance u s \<and> Q r)"
    and codes: "\<And>r. r \<in> insert NC_ERROR_CONNECT (login_codes (qu_type user)) \<Longrightarrow> Q r"
  shows "yields (qh_session d 0 user sys x work) (\<lambda>(r, x, sys').
    manager_count (sys_manager sys') = manager_count (sys_manager sys) \<and> Q r)"
proof -
  have login: "manager_count (sys_manager s) = manager_count (sys_manager sys) \<and> Q r"
    if "live u \<longleftrightarrow> r = 0" "balance u s = balance user sys" "r < 0" "r \<in> insert NC_ERROR_CONNECT (login_codes (qu_type user))"
    for r u s
    using that codes balance_closed [of user sys] balance_closed [of u s] assms(1) by simp
  have logout: "yields (nc_qh_user_logout 0 u s) (\<lambda>(_, user, s').
      manager_count (sys_manager s') = manager_count (sys_manager sys) \<and> Q r)"
    if "live u" "balance u s = balance user sys" "Q r" for r u s
    by (rule logout_yields [OF that(1)]) (use that assms(1) in \<open>simp add: balance_closed\<close>)
  have work': "yields (work u s) (\<lambda>(r, x, u, s). yields (nc_qh_user_logout 0 u s) (\<lambda>(_, user, s').
      manager_count (sys_manager s') = manager_count (sys_manager sys) \<and> Q r))"
    if "live u" "balance u s = balance user sys" for u s
    by (rule yields_mono [OF work [OF that(1)]]) (use that logout in auto)
  show ?thesis
    unfolding qh_session_def
    using login work' login_codes_neg
    by (simp, intro login_yields [OF assms(1,2)]) (simp del: insert_iff, blast)
qed

text \<open>The exchanges of the four kinds of call keep the socket and return one of these codes.\<close>

definition call_codes :: "u32 \<Rightarrow> int set" where
  "call_codes type = login_codes type \<union> {NC_ERROR_CONNECT, NC_ERROR_INTERNAL}
     \<union> (if type \<in> {PTC_CMD_CFG_BASE, PTC_CMD_SEARCH_BASE} then {NC_ERROR_NOSPACE} else {})"

lemma call_codes_simps [simp]:
  "0 \<in> call_codes type" "NC_ERROR_SEND \<in> call_codes type" "NC_ERROR_RECV \<in> call_codes type"
  "NC_ERROR_INTERNAL \<in> call_codes type"
  "NC_ERROR_NOSPACE \<in> call_codes PTC_CMD_CFG_BASE" "NC_ERROR_NOSPACE \<in> call_codes PTC_CMD_SEARCH_BASE"
  by (simp_all add: call_codes_def login_codes_def)

lemma login_call_codes: "r \<in> insert NC_ERROR_CONNECT (login_codes type) \<Longrightarrow> r \<in> call_codes type"
  by (auto simp: call_codes_def)

lemma take_reply_yields [yields_intros]:
  "P (0, out) \<Longrightarrow> P (NC_ERROR_NOSPACE, out) \<Longrightarrow> (\<And>out'. P (0, out')) \<Longrightarrow> yields (take_reply len bytes out) P"
  by (auto simp: take_reply_def yieldsI split: option.splits prod.splits)

lemma yields_ifI: "(c \<Longrightarrow> yields m P) \<Longrightarrow> (\<not> c \<Longrightarrow> yields m' P) \<Longrightarrow> yields (if c then m else m') P"
  by simp

lemma sendMsg_yields [yields_intros]:
  assumes "\<And>r msg' item' nt'. fd item' = fd item \<Longrightarrow> P (r, msg', item', nt')"
  shows "yields (tool_ptc_qh_sendMsg (item, nt) msg) P"
  using assms sock_fd.sendMsg_obs [of "(item, nt)" msg] by (fastforce intro!: yieldsI simp: tool_ptc_qh_sendMsg_def)

lemma recvMsg_yields [yields_intros]:
  assumes "\<And>r msg' item' nt'. fd item' = fd item \<Longrightarrow> P (r, msg', item', nt')"
  shows "yields (tool_ptc_qh_recvMsg (item, nt) msg) P"
  using assms sock_fd.recvMsg_obs [of "(item, nt)" msg] by (fastforce intro!: yieldsI simp: tool_ptc_qh_recvMsg_def)

lemma sendFrame_yields [yields_intros]:
  assumes "\<And>r frame' item' nt'. fd item' = fd item \<Longrightarrow> P (r, frame', item', nt')"
  shows "yields (tool_ptc_qh_sendFrame (item, nt) frame) P"
  using assms sock_fd.sendFrame_obs [of "(item, nt)" frame] by (fastforce intro!: yieldsI simp: tool_ptc_qh_sendFrame_def)

lemma recvFrame_item_yields [yields_intros]:
  assumes "\<And>r frame' item' nt'. fd item' = fd item \<Longrightarrow> P (r, frame', item', nt')"
  shows "yields (tool_ptc_qh_recvFrame fuel (item, nt) frame) P"
  using assms sock_fd.recvFrame_obs [of fuel "(item, nt)" frame] by (fastforce intro!: yieldsI simp: tool_ptc_qh_recvFrame_def)

lemma not_live_new: "\<not> live (qh_user_for ip port name pswd type)"
  by (simp add: qh_user_for_def live_def item_zero_def)

lemma type_new: "qu_type (qh_user_for ip port name pswd type) = type"
  by (simp add: qh_user_for_def)

lemmas session_rule = session_yields [where Q = "\<lambda>r. r \<in> call_codes type" for type, OF not_live_new, unfolded type_new]

lemma doCfg_v2_closes:
  assumes "0 < dial_sock d"
  shows "yields (nc_qh_user_doCfg_v2 d 0 dev msg sys) (\<lambda>(ret, _, sys').
    manager_count (sys_manager sys') = manager_count (sys_manager sys) \<and> ret \<in> call_codes PTC_CMD_CFG2_BASE)"
  unfolding nc_qh_user_doCfg_v2_def Let_def
  by (rule session_rule [OF assms])
    ((rule login_call_codes, assumption) | intro yields_intros conjI impI | simp add: socket_defs)+

lemma doSearch2_closes:
  assumes "0 < dial_sock d"
  shows "yields (nc_qh_user_doSearch2 fuel d 0 dev frame sys) (\<lambda>(ret, _, sys').
    manager_count (sys_manager sys') = manager_count (sys_manager sys) \<and> ret \<in> call_codes PTC_CMD_SEARCH2_BASE)"
  unfolding nc_qh_user_doSearch2_def Let_def
  by (rule session_rule [OF assms])
    ((rule login_call_codes, assumption) | intro yields_intros conjI impI | simp add: socket_defs)+

lemma doCfg_closes:
  assumes "0 < dial_sock d"
  shows "yields (nc_qh_user_doCfg d 0 dev cmd in_data out sys) (\<lambda>(ret, _, sys').
    manager_count (sys_manager sys') = manager_count (sys_manager sys) \<and> ret \<in> call_codes PTC_CMD_CFG_BASE)"
  unfolding nc_qh_user_doCfg_def Let_def
  by (intro yields_ifI, simp, rule session_rule [OF assms])
    ((rule login_call_codes, assumption) | intro yields_intros conjI impI | simp add: socket_defs)+

lemma doSearch_closes:
  assumes "0 < dial_sock d"
  shows "yields (nc_qh_user_doSearch fuel junk d 0 dev cmd in_data out sys) (\<lambda>(ret, _, sys').
    manager_count (sys_manager sys') = manager_count (sys_manager sys) \<and> ret \<in> call_codes PTC_CMD_SEARCH_BASE)"
  unfolding nc_qh_user_doSearch_def Let_def
  by (intro yields_ifI, simp, rule session_rule [OF assms])
    ((rule login_call_codes, assumption) | intro yields_intros conjI impI | simp add: socket_defs)+

end
