(* ===== verification/Nc_User_Rt.thy ===== *)
theory Nc_User_Rt
  imports Nc_User Nc_Qh_Rt
begin

text \<open>
  What the threads of \<^verbatim>\<open>Nc_User\<close> do over a whole run, whatever the network does: no socket is left
  open, and the states and frames the application is shown follow the order connecting, logging in,
  starting, running.
\<close>

section \<open>Postconditions of the parts of a turn\<close>

lemma if_ok_yields [simp]:
  "yields (if_ok m f) P \<longleftrightarrow> yields m (\<lambda>(r, u, s). (r < 0 \<longrightarrow> P (- 1, u, s)) \<and> (\<not> r < 0 \<longrightarrow> yields (f u s) P))"
  by (simp add: if_ok_def)

lemma yields_conj: "yields m P \<Longrightarrow> yields m Q \<Longrightarrow> yields m (\<lambda>x. P x \<and> Q x)"
  by (simp add: yields_def)

lemma post_yields [yields_intros]:
  assumes "\<And>r msg item nt. fd item = fd (qu_sock_item user) \<Longrightarrow>
      P (r, user\<lparr> qu_msg := msg, qu_sock_item := item \<rparr>, sys\<lparr> sys_net := nt \<rparr>)"
  shows "yields (qh_post cmd bytes user sys) P"
  using assms by (auto simp: qh_post_def intro!: fill_yields send_yields)

lemma ask_yields [yields_intros]:
  assumes "\<And>r msg item nt. fd item = fd (qu_sock_item user) \<Longrightarrow>
      P (r, user\<lparr> qu_msg := msg, qu_sock_item := item \<rparr>, sys\<lparr> sys_net := nt \<rparr>)"
  shows "yields (qh_ask cmd bytes user sys) P"
  unfolding qh_ask_def
  by (simp, intro post_yields, simp, intro conjI impI assms recv_yields) (simp_all add: assms)

text \<open>Closing after a failure: \<open>user'\<close> differs in its socket and what it reported last.\<close>

lemma drop_yields [yields_intros]:
  assumes "turn_close t = 0"
    and "\<And>item m. \<not> live (user\<lparr> qu_sock_item := item \<rparr>) \<Longrightarrow>
      balance (user\<lparr> qu_sock_item := item \<rparr>) (sys\<lparr> sys_manager := m \<rparr>) = balance user sys \<Longrightarrow>
      P (- 1, user\<lparr> qu_sock_item := item \<rparr>, sys\<lparr> sys_manager := m \<rparr>)"
  shows "yields (qh_drop t user sys) P"
  by (cases rule: close_cases [of user sys]) (simp add: qh_drop_def assms)

lemma break_yields [yields_intros]:
  assumes "turn_close t = 0"
    and "\<And>item m. \<not> live (user\<lparr> qu_sock_item := item \<rparr>) \<Longrightarrow>
      balance (user\<lparr> qu_sock_item := item \<rparr>) (sys\<lparr> sys_manager := m \<rparr>) = balance user sys \<Longrightarrow>
      P (- 1, user\<lparr> qu_sock_item := item, qu_last_type := type \<rparr>,
         sys\<lparr> sys_manager := m, sys_calls := sys_calls sys @ state_calls type (user\<lparr> qu_sock_item := item \<rparr>) \<rparr>)"
  shows "yields (qh_break t type user sys) P"
  by (cases rule: close_cases [of user sys]) (simp add: qh_break_def qh_report_eq assms)

lemma poll_cases:
  obtains ret item where
    "qh_poll t user sys = (ret, user\<lparr> qu_sock_item := item \<rparr>, qh_at (turn_poll_clock t) sys)"
    "fd item = fd (qu_sock_item user)"
  by (cases "tool_sock_item_pollRead (turn_poll t) (qu_sock_item user)")
    (auto simp: qh_poll_def tool_sock_item_pollRead_def split: if_splits)

lemma callback_yields [yields_intros]:
  assumes "\<And>cs. P (sys\<lparr> sys_calls := cs \<rparr>)"
  shows "yields (qh_callback user sys) P"
  using assms [of "sys_calls sys"] assms by (auto simp: qh_callback_def qh_called_def intro: slice_yields)

section \<open>Sockets over a run\<close>

text \<open>What is kept: the type, and the sockets that are not this user's.\<close>

definition kept :: "nc_qh_user \<Rightarrow> qh_sys \<Rightarrow> nc_qh_user \<Rightarrow> qh_sys \<Rightarrow> bool" where
  "kept user sys user' sys' \<longleftrightarrow> qu_type user' = qu_type user \<and> balance user' sys' = balance user sys"

lemma kept_refl: "kept user sys user sys" and kept_trans: "kept u s u1 s1 \<Longrightarrow> kept u1 s1 u2 s2 \<Longrightarrow> kept u s u2 s2"
  by (simp_all add: kept_def)

lemmas keep_simps = kept_def socket_defs doState_eq qh_report_eq qh_slept_def qh_called_def qh_stamp_def qh_at_def

lemma stream_open_kept:
  assumes "\<not> live user" "0 < dial_sock (turn_dial t)" "turn_close t = 0"
  shows "yields (stream_open t cmd bytes user sys) (\<lambda>(r, u, s). kept user sys u s)"
  unfolding stream_open_def assms(3)
  apply (simp add: doState_eq qh_report_eq, intro conjI impI)
  subgoal by (simp add: keep_simps)
  apply (rule login_yields [OF assms(1,2)])
  apply (simp, intro conjI impI)
  subgoal by (simp add: kept_def)
  apply (rule ask_yields)
  apply (simp, intro conjI impI)
  subgoal by (rule break_yields [OF assms(3)]) (simp add: keep_simps)
  subgoal by (simp add: keep_simps)
  done

lemma stream_beat_kept:
  "turn_close t = 0 \<Longrightarrow> yields (stream_beat t type user sys) (\<lambda>(r, u, s). kept user sys u s)"
  unfolding stream_beat_def
  by (simp, intro conjI impI post_yields, simp, intro conjI impI break_yields) (simp_all add: keep_simps)

lemma stream_pass_kept:
  assumes "turn_close t = 0" "\<And>user. qu_sock_item (clear user) = qu_sock_item user \<and> qu_type (clear user) = qu_type user"
  shows "yields (stream_pass t type wanted cmd bytes clear user sys) (\<lambda>(r, u, s). kept user sys u s)"
  using assms unfolding stream_pass_def
  by (simp, intro conjI impI post_yields, simp, intro conjI impI break_yields) (simp_all add: keep_simps)

lemma stream_frame_kept:
  "turn_close t = 0 \<Longrightarrow> yields (stream_frame t type user sys) (\<lambda>(r, u, s). kept user sys u s)"
  unfolding stream_frame_def
  by (cases rule: poll_cases [of t user sys], simp, intro conjI impI break_yields recvFrame_yields, assumption,
      simp add: keep_simps, simp, intro conjI impI break_yields) (simp_all add: keep_simps)

text \<open>\<^verbatim>\<open>socket\<close> gives a descriptor above 0 and \<^verbatim>\<open>close\<close> succeeds.\<close>

definition plain_turn :: "qh_turn \<Rightarrow> bool" where
  "plain_turn t \<longleftrightarrow> 0 < dial_sock (turn_dial t) \<and> turn_close t = 0"

lemma if_ok_kept:
  assumes "yields m (\<lambda>(r, u, s). kept user sys u s)"
    and "\<And>u s. yields (f u s) (\<lambda>(r, u', s'). kept u s u' s')"
  shows "yields (if_ok m f) (\<lambda>(r, u, s). kept user sys u s)"
  unfolding if_ok_yields
  by (rule yields_mono [OF assms(1)]) (auto intro: yields_mono [OF assms(2)] kept_trans)

lemma watch_kept:
  "yields (qh_watch user sys) (\<lambda>(u, s). kept user sys u s)"
  by (simp add: qh_watch_def tool_sock_isTickTimeout_def keep_simps)

lemma yields_kept_after:
  assumes "yields m (\<lambda>(u, s). kept user sys u s)"
    and "\<And>u s. yields (f u s) (\<lambda>(r, u', s'). kept u s u' s')"
  shows "yields (andThen m (\<lambda>(u, s). f u s)) (\<lambda>(r, u, s). kept user sys u s)"
  unfolding yields_simps
  by (rule yields_mono [OF assms(1)]) (auto intro: yields_mono [OF assms(2)] kept_trans)

lemma doRts_kept:
  assumes "plain_turn t"
  shows "yields (nc_qh_user_doRts t user sys) (\<lambda>(r, u, s). kept user sys u s)"
  unfolding nc_qh_user_doRts_def
proof (intro yields_kept_after watch_kept if_ok_kept stream_pass_kept stream_beat_kept stream_frame_kept)
  show "yields (rts_store t u s) (\<lambda>(r, u', s'). kept u s u' s')" for u s
    by (auto simp: rts_store_def Let_def keep_simps intro!: slice_yields)
qed (use assms in \<open>auto simp: plain_turn_def kept_refl intro!: stream_open_kept\<close>)

lemma pbs_store_kept:
  assumes "turn_close t = 0"
  shows "yields (pbs_store t user sys) (\<lambda>(r, u, s). kept user sys u s)"
  unfolding pbs_store_def assms
  apply (simp add: Let_def, intro conjI impI slice_yields)
  subgoal for b bytes
    by (cases rule: close_cases [of "user\<lparr> qu_pbs_end_flag := True \<rparr>" sys]) (simp add: keep_simps)
  by (simp_all add: keep_simps)

lemma doPbs_kept:
  assumes "plain_turn t"
  shows "yields (nc_qh_user_doPbs t user sys) (\<lambda>(r, u, s). kept user sys u s)"
  unfolding nc_qh_user_doPbs_def
proof (intro yields_kept_after watch_kept yields_ifI if_ok_kept stream_pass_kept stream_beat_kept stream_frame_kept pbs_store_kept)
  show "yields (Inr (0, u, qh_slept NC_QH_USLEEP_CYCLE s)) (\<lambda>(r, u', s'). kept u s u' s')" for u s
    by (simp add: keep_simps)
qed (use assms in \<open>auto simp: plain_turn_def kept_refl intro!: stream_open_kept\<close>)

lemma idle_open_kept:
  assumes "plain_turn t" "\<not> live user"
  shows "yields (idle_open t user sys) (\<lambda>(r, u, s). kept user sys u s)"
proof -
  note t = assms(1) [unfolded plain_turn_def]
  show ?thesis
    unfolding idle_open_def t [THEN conjunct2]
    by (simp, intro conjI impI login_yields [OF assms(2) t [THEN conjunct1]]) (simp_all add: keep_simps)
qed

lemma talk_send_kept:
  assumes "turn_close t = 0"
  shows "yields (talk_send t user sys) (\<lambda>(r, idle, u, s). kept user sys u s)"
  unfolding talk_send_def
  by (simp add: Let_def, intro yieldsI, clarsimp, intro conjI impI send_yields, simp add: keep_simps,
      simp, intro conjI impI drop_yields [OF assms]) (simp_all add: keep_simps)

lemma talk_recv_kept:
  assumes "turn_close t = 0"
  shows "yields (talk_recv t idle user sys) (\<lambda>(r, u, s). kept user sys u s)"
  unfolding talk_recv_def
  by (cases rule: poll_cases [of t user sys], simp, intro conjI impI drop_yields [OF assms] recv_yields,
      simp_all add: keep_simps)
    (intro conjI impI drop_yields [OF assms] callback_yields; simp add: keep_simps)+

lemma doTalk_kept:
  assumes "plain_turn t"
  shows "yields (nc_qh_user_doTalk t user sys) (\<lambda>(r, u, s). kept user sys u s)"
  unfolding nc_qh_user_doTalk_def
proof (intro if_ok_kept yields_ifI idle_open_kept)
  note t = assms [unfolded plain_turn_def, THEN conjunct2]
  show "yields (andThen (qh_ask PTC_CMD_TALK_START [] u s) (\<lambda>(ret, u', s').
      if ret < 0 then qh_drop t u' s' else Inr (0, u', s'))) (\<lambda>(r, u', s'). kept u s u' s')" for u s
    by (simp, intro ask_yields, simp, intro conjI impI drop_yields [OF t]) (simp_all add: keep_simps)
  show "yields (andThen (talk_send t u s) (\<lambda>(ret, idle, user, sys).
      if ret < 0 then Inr (- 1, user, sys) else talk_recv t idle user sys)) (\<lambda>(r, u', s'). kept u s u' s')" for u s
    unfolding yields_simps
    by (rule yields_mono [OF talk_send_kept [OF t]]) (auto intro: yields_mono [OF talk_recv_kept [OF t]] kept_trans)
qed (use assms in \<open>simp_all add: kept_refl\<close>)

lemma alarm_beats_kept:
  assumes "turn_close t = 0"
  shows "yields (alarm_beats fuel t user sys) (\<lambda>(r, u, s). kept user sys u s)"
proof (induction fuel arbitrary: user sys)
  case (Suc fuel)
  have later: "yields (alarm_beats fuel t u s) (\<lambda>(r, u', s'). kept user sys u' s')" if "kept user sys u s" for u s
    by (rule yields_mono [OF Suc.IH]) (use that in \<open>auto intro: kept_trans\<close>)
  show ?case
    by (simp, intro send_yields, simp, intro conjI impI drop_yields [OF assms] recv_yields, simp add: keep_simps, simp,
        intro conjI impI drop_yields [OF assms] callback_yields later) (simp_all add: keep_simps)
qed simp

lemma doAlarm_kept:
  assumes "plain_turn t"
  shows "yields (nc_qh_user_doAlarm t user sys) (\<lambda>(r, u, s). kept user sys u s)"
  unfolding nc_qh_user_doAlarm_def
proof (intro if_ok_kept yields_ifI idle_open_kept)
  note t = assms [unfolded plain_turn_def, THEN conjunct2]
  show "yields (andThen (qh_fill PTC_CMD_USRE_HEARTBEAT 0 [] (qu_msg u)) (\<lambda>msg.
      alarm_beats (turn_fuel t) t (u\<lparr> qu_msg := msg \<rparr>) s)) (\<lambda>(r, u', s'). kept u s u' s')" for u s
    by (simp, intro fill_yields yields_mono [OF alarm_beats_kept [OF t]]) (auto simp: keep_simps)
  show "yields (let (ret, user, sys) = qh_poll t u s
      in if ret < 0 then qh_drop t user sys
         else if ret > 0
         then andThen (qh_recv user sys) (\<lambda>(ret, user, sys).
                if ret < 0 then qh_drop t user sys
                else andThen (qh_callback user sys) (\<lambda>sys. Inr (0, user, sys)))
         else Inr (0, user, qh_slept (20 * 1000) sys)) (\<lambda>(r, u', s'). kept u s u' s')" for u s
    by (cases rule: poll_cases [of t u s], simp, intro conjI impI drop_yields [OF t] recv_yields,
        simp_all add: keep_simps)
      (intro conjI impI drop_yields [OF t] callback_yields; simp add: keep_simps)+
qed (use assms in \<open>simp_all add: kept_refl\<close>)

lemma turn_kept:
  assumes "plain_turn t"
  shows "yields (qh_turn_of t user sys) (\<lambda>(r, u, s). kept user sys u s)"
  using assms unfolding qh_turn_of_def
  by (intro yields_ifI doRts_kept doTalk_kept doAlarm_kept doPbs_kept) (simp_all add: keep_simps)

text \<open>Commands do not touch the socket.\<close>

lemma obey_keeps:
  "yields (qh_obey c user) (\<lambda>u. qu_sock_item u = qu_sock_item user \<and> qu_type u = qu_type user
     \<and> qu_last_type u = qu_last_type user \<and> qu_pbs_end_flag u = qu_pbs_end_flag user)"
  by (cases c) (auto intro: yieldsI)

definition same_core :: "nc_qh_user \<Rightarrow> nc_qh_user \<Rightarrow> bool" where
  "same_core user u \<longleftrightarrow> qu_sock_item u = qu_sock_item user \<and> qu_type u = qu_type user
     \<and> qu_last_type u = qu_last_type user \<and> qu_pbs_end_flag u = qu_pbs_end_flag user"

lemma obeys_keep:
  "yields (foldl (\<lambda>m c. andThen m (qh_obey c)) (Inr user) cs) (same_core user)"
proof (induction cs rule: rev_induct)
  case (snoc c cs)
  then show ?case
    by (simp, elim yields_mono) (rule yields_mono [OF obey_keeps], simp add: same_core_def)
qed (simp add: same_core_def)

lemma turns_kept:
  "list_all (plain_turn \<circ> snd) xs \<Longrightarrow> yields (qh_turns xs user sys) (\<lambda>(u, s). kept user sys u s)"
proof (induction xs arbitrary: user sys)
  case (Cons x xs)
  have "yields (qh_turn_of (snd x) u (qh_at (turn_clock (snd x)) sys)) (\<lambda>(_, u', s').
      yields (qh_turns xs u' s') (\<lambda>(u, s). kept user sys u s))" if "same_core user u" for u
  proof (rule yields_mono [OF turn_kept], use Cons.prems in simp, clarify)
    fix r u' s' assume k: "kept u (qh_at (turn_clock (snd x)) sys) u' s'"
    then have "kept user sys u' s'" using that by (simp add: keep_simps same_core_def)
    then show "yields (qh_turns xs u' s') (\<lambda>(u, s). kept user sys u s)"
      by (intro yields_mono [OF Cons.IH]) (use Cons.prems kept_trans in auto)
  qed
  then show ?case by (simp, intro yields_mono [OF obeys_keep])
qed (simp add: kept_refl)

lemma logout_any:
  "yields (nc_qh_user_logout 0 user sys) (\<lambda>(_, u, s). \<not> live u \<and> manager_count (sys_manager s) = balance user sys)"
proof (cases "live user")
  case True
  then show ?thesis by (intro logout_yields) (auto simp: balance_closed)
next
  case False
  then show ?thesis by (simp add: nc_qh_user_logout_def balance_closed)
qed

section \<open>What the application is shown\<close>

text \<open>
  The abstract machine of a stream: where the connection is, and the reports that lead from one
  place to another.
\<close>

datatype phase = Closed | Connecting | LoggingIn | Starting | Playing | Ended

inductive report :: "phase \<Rightarrow> u8 \<Rightarrow> phase \<Rightarrow> bool" where
  timeout: "ph \<in> {Closed, Playing, Ended} \<Longrightarrow> report ph PTC_FRAME_STREAM_TIMEOUT ph"
| wait: "report Closed PTC_FRAME_STREAM_WAIT Closed"
| connect: "report Closed PTC_FRAME_STREAM_CONNECT Connecting"
| connect_fail: "report Connecting PTC_FRAME_STREAM_CONNECT_FAIL Closed"
| login: "report Connecting PTC_FRAME_STREAM_LOGIN LoggingIn"
| login_fail: "t \<in> {PTC_FRAME_STREAM_LOGIN_FAIL, PTC_FRAME_STREAM_AUTH_FAIL, PTC_FRAME_STREAM_VIDEO_BUSY}
    \<Longrightarrow> report LoggingIn t Closed"
| start: "report LoggingIn PTC_FRAME_STREAM_START Starting"
| start_fail: "report Starting PTC_FRAME_STREAM_START_FAIL Closed"
| running: "report Starting PTC_FRAME_STREAM_RUNNING Playing"
| broken: "t \<in> {PTC_FRAME_STREAM_BROKEN, PTC_FRAME_STREAM_WAIT} \<Longrightarrow> report Playing t Closed"

text \<open>
  One call, with the state reported last. A report repeats none; frames come while playing only, and
  the frame that ends a recording ends the view (a frame of at most 20 bytes does not show its type).
\<close>

inductive view_step :: "phase \<times> u8 \<Rightarrow> qh_call \<Rightarrow> phase \<times> u8 \<Rightarrow> bool" where
  reported: "report ph t ph' \<Longrightarrow> t \<noteq> l \<Longrightarrow> view_step (ph, l) (Set_noDrop (state_frame t) False) (ph', t)"
| slept: "view_step v (Usleep n) v"
| live_frame: "view_step (Playing, l) (Set_withDrop b n) (Playing, l)"
| frame: "length b \<le> 20 \<or> b ! 20 \<noteq> PTC_FRAME_PBS_END \<Longrightarrow> view_step (Playing, l) (Set_noDrop b True) (Playing, l)"
| last_frame: "length b \<le> 20 \<or> b ! 20 = PTC_FRAME_PBS_END \<Longrightarrow> view_step (Playing, l) (Set_noDrop b True) (Ended, l)"

inductive view_run :: "phase \<times> u8 \<Rightarrow> qh_call list \<Rightarrow> phase \<times> u8 \<Rightarrow> bool" where
  view_none: "view_run v [] v"
| view_more: "view_run v cs v' \<Longrightarrow> view_step v' c v'' \<Longrightarrow> view_run v (cs @ [c]) v''"

lemma view_run_slept: "view_run v cs v' \<Longrightarrow> view_run v (cs @ [Usleep n]) v'"
  by (rule view_more [OF _ slept])

text \<open>What the last report can be in each phase.\<close>

definition last_fits :: "phase \<Rightarrow> u8 \<Rightarrow> bool" where
  "last_fits ph l \<longleftrightarrow>
     (case ph of
        Closed \<Rightarrow> l \<noteq> PTC_FRAME_STREAM_CONNECT
      | Connecting \<Rightarrow> l = PTC_FRAME_STREAM_CONNECT
      | LoggingIn \<Rightarrow> l = PTC_FRAME_STREAM_LOGIN
      | Starting \<Rightarrow> l = PTC_FRAME_STREAM_START
      | Playing \<Rightarrow> l \<in> {PTC_FRAME_STREAM_RUNNING, PTC_FRAME_STREAM_TIMEOUT}
      | Ended \<Rightarrow> True)"

text \<open>\<open>v0\<close>: the type of the user, and the state it had reported before the run.\<close>

definition viewing :: "u32 \<times> u8 \<Rightarrow> phase \<Rightarrow> nc_qh_user \<Rightarrow> qh_sys \<Rightarrow> bool" where
  "viewing v0 ph user sys \<longleftrightarrow>
     view_run (Closed, snd v0) (sys_calls sys) (ph, qu_last_type user) \<and> last_fits ph (qu_last_type user)
     \<and> qu_type user = fst v0 \<and> fst v0 \<in> {PTC_CMD_RTS_BASE, PTC_CMD_PBS_BASE}"

lemmas report_type_defs = PTC_FRAME_STREAM_TIMEOUT_def PTC_FRAME_STREAM_WAIT_def PTC_FRAME_STREAM_CONNECT_def
  PTC_FRAME_STREAM_CONNECT_FAIL_def PTC_FRAME_STREAM_LOGIN_def PTC_FRAME_STREAM_LOGIN_FAIL_def
  PTC_FRAME_STREAM_AUTH_FAIL_def PTC_FRAME_STREAM_VIDEO_BUSY_def PTC_FRAME_STREAM_START_def
  PTC_FRAME_STREAM_START_FAIL_def PTC_FRAME_STREAM_RUNNING_def PTC_FRAME_STREAM_BROKEN_def

text \<open>A report the machine allows keeps it in step: one that is suppressed changes nothing.\<close>

lemma report_fits:
  assumes "report ph t ph'" "last_fits ph l"
  shows "t = l \<Longrightarrow> ph' = ph" "last_fits ph' t"
  using assms by (cases; auto simp: last_fits_def report_type_defs)+

lemma viewing_report:
  assumes "viewing v0 ph user sys" "report ph t ph'"
    and "qu_last_type user' = t" "qu_type user' = qu_type user" "sys_calls sys' = sys_calls sys @ state_calls t user"
  shows "viewing v0 ph' user' sys'"
proof -
  from assms(1) have v: "view_run (Closed, snd v0) (sys_calls sys) (ph, qu_last_type user)" "last_fits ph (qu_last_type user)"
    "qu_type user = fst v0" "fst v0 \<in> {PTC_CMD_RTS_BASE, PTC_CMD_PBS_BASE}" by (simp_all add: viewing_def)
  note fits = report_fits [OF assms(2) v(2)]
  have "view_run (Closed, snd v0) (sys_calls sys @ state_calls t user) (ph', t)"
  proof (cases "t = qu_last_type user")
    case True
    then show ?thesis using fits(1) v(1) by (simp add: state_calls_def)
  next
    case False
    from view_run_slept [OF view_more [OF v(1) reported [OF assms(2) False]], of "100 * 1000"] False v(3,4)
    show ?thesis by (simp add: state_calls_def)
  qed
  with fits(2) v(3,4) show ?thesis by (simp add: viewing_def assms(3-5))
qed

lemma viewing_same:
  "viewing v0 ph user sys \<Longrightarrow> qu_last_type user' = qu_last_type user \<Longrightarrow> qu_type user' = qu_type user \<Longrightarrow>
     sys_calls sys' = sys_calls sys \<Longrightarrow> viewing v0 ph user' sys'"
  by (simp add: viewing_def)

lemma viewing_slept:
  "viewing v0 ph user sys \<Longrightarrow> viewing v0 ph user (qh_slept n sys)"
  by (auto simp: viewing_def qh_slept_def qh_called_def intro: view_run_slept)

lemma viewing_type: "viewing v0 ph user sys \<Longrightarrow> qu_type user \<noteq> PTC_CMD_TALK_BASE"
  by (auto simp: viewing_def PTC_CMD_RTS_BASE_def PTC_CMD_PBS_BASE_def PTC_CMD_TALK_BASE_def)

section \<open>The invariant of a stream\<close>

text \<open>The phase the application sees, whether the socket is open, and whether the recording has ended.\<close>

definition stream_in :: "u32 \<times> u8 \<Rightarrow> phase \<Rightarrow> bool \<Rightarrow> bool \<Rightarrow> nc_qh_user \<Rightarrow> qh_sys \<Rightarrow> bool" where
  "stream_in v0 ph lv fin user sys \<longleftrightarrow> viewing v0 ph user sys \<and> live user = lv \<and> qu_pbs_end_flag user = fin"

lemma same_in:
  "stream_in v0 ph lv fin user sys \<Longrightarrow> qu_last_type user' = qu_last_type user \<Longrightarrow> qu_type user' = qu_type user \<Longrightarrow>
     fd (qu_sock_item user') = fd (qu_sock_item user) \<Longrightarrow> qu_pbs_end_flag user' = qu_pbs_end_flag user \<Longrightarrow>
     sys_calls sys' = sys_calls sys \<Longrightarrow> stream_in v0 ph lv fin user' sys'"
  by (auto simp: stream_in_def live_def intro: viewing_same)

lemma report_in:
  assumes "stream_in v0 ph lv fin user sys" "report ph t ph'"
  shows "stream_in v0 ph' lv fin (user\<lparr> qu_last_type := t \<rparr>) (sys\<lparr> sys_calls := sys_calls sys @ state_calls t user \<rparr>)"
  using assms viewing_report [OF _ assms(2), of v0 user sys] by (simp add: stream_in_def live_def)

lemma slept_in: "stream_in v0 ph lv fin user sys \<Longrightarrow> stream_in v0 ph lv fin user (qh_slept n sys)"
  by (simp add: stream_in_def viewing_slept)

lemma send_in:
  assumes "stream_in v0 ph lv fin user sys" "\<And>r u s. stream_in v0 ph lv fin u s \<Longrightarrow> P (r, u, s)"
  shows "yields (qh_send user sys) P"
  by (intro send_yields assms(2)) (auto intro: same_in [OF assms(1)])

lemma recv_in:
  assumes "stream_in v0 ph lv fin user sys" "\<And>r u s. stream_in v0 ph lv fin u s \<Longrightarrow> P (r, u, s)"
  shows "yields (qh_recv user sys) P"
  by (intro recv_yields assms(2)) (auto intro: same_in [OF assms(1)])

lemma recvFrame_in:
  assumes "stream_in v0 ph lv fin user sys" "\<And>r u s. stream_in v0 ph lv fin u s \<Longrightarrow> P (r, u, s)"
  shows "yields (qh_recvFrame_user fuel user sys) P"
  by (intro recvFrame_yields assms(2)) (auto intro: same_in [OF assms(1)])

lemma post_in:
  assumes "stream_in v0 ph lv fin user sys" "\<And>r u s. stream_in v0 ph lv fin u s \<Longrightarrow> P (r, u, s)"
  shows "yields (qh_post cmd bytes user sys) P"
  by (intro post_yields assms(2)) (auto intro: same_in [OF assms(1)])

lemma ask_in:
  assumes "stream_in v0 ph lv fin user sys" "\<And>r u s. stream_in v0 ph lv fin u s \<Longrightarrow> P (r, u, s)"
  shows "yields (qh_ask cmd bytes user sys) P"
  by (intro ask_yields assms(2)) (auto intro: same_in [OF assms(1)])

lemma break_in:
  assumes "stream_in v0 ph lv fin user sys" "turn_close t = 0" "report ph type ph'"
    and "\<And>u s. stream_in v0 ph' False fin u s \<Longrightarrow> P (- 1, u, s)"
  shows "yields (qh_break t type user sys) P"
proof (rule break_yields [OF assms(2)], rule assms(4))
  fix item m assume "\<not> live (user\<lparr> qu_sock_item := item \<rparr>)"
  then have "stream_in v0 ph False fin (user\<lparr> qu_sock_item := item \<rparr>) (sys\<lparr> sys_manager := m \<rparr>)"
    using assms(1) by (auto simp: stream_in_def intro: viewing_same)
  from report_in [OF this assms(3)]
  show "stream_in v0 ph' False fin (user\<lparr> qu_sock_item := item, qu_last_type := type \<rparr>)
     (sys\<lparr> sys_manager := m, sys_calls := sys_calls sys @ state_calls type (user\<lparr> qu_sock_item := item \<rparr>) \<rparr>)" by simp
qed

lemma exchange_in:
  assumes "stream_in v0 Connecting lv fin user sys"
    and "\<And>r u s. stream_in v0 (if r < 0 then Closed else LoggingIn) lv fin u s \<Longrightarrow> P (r, u, s)"
  shows "yields (login_exchange user sys) P"
proof -
  have fail: "P (r, u\<lparr> qu_last_type := t \<rparr>, s\<lparr> sys_calls := sys_calls s @ state_calls t u \<rparr>)"
    if "stream_in v0 LoggingIn lv fin u s" "r < 0"
      "t \<in> {PTC_FRAME_STREAM_LOGIN_FAIL, PTC_FRAME_STREAM_AUTH_FAIL, PTC_FRAME_STREAM_VIDEO_BUSY}" for u s r t
    using report_in [OF that(1) login_fail [OF that(3)]] that(2) assms(2) [of r] by simp
  have neg: "NC_ERROR_SEND < 0" "NC_ERROR_RECV < 0" "NC_ERROR_PROTOCOL < 0" "NC_ERROR_AUTH < 0" "NC_ERROR_MAXCONNECT < 0"
    by (simp_all add: NC_ERROR_defs)
  have talk: "qu_type u \<noteq> PTC_CMD_TALK_BASE" if "stream_in v0 LoggingIn lv fin u s" for u s
    using that viewing_type [of v0 LoggingIn] by (auto simp: stream_in_def)
  have ok: "P (0, u, s)" if "stream_in v0 LoggingIn lv fin u s" for u s
    using that assms(2) [of 0] by simp
  show ?thesis
    unfolding login_exchange_def doState_eq qh_report_eq Let_def prod.case
    apply simp
    apply (rule send_in [OF report_in [OF assms(1) login]])
    apply (simp, intro conjI impI)
    subgoal by (rule fail) (simp_all add: neg)
    apply (rule recv_in, assumption)
    apply (simp, intro conjI impI)
    subgoal by (rule fail) (simp_all add: neg)
    subgoal by (rule fail) (simp_all add: neg)
    subgoal by (rule fail) (simp_all add: neg)
    subgoal by (simp add: talk)
    subgoal by (rule fail) (simp_all add: neg)
    subgoal by (rule ok)
    done
qed

lemma login_in:
  assumes "stream_in v0 Closed False fin user sys" "0 < dial_sock d"
    and "\<And>r u s. stream_in v0 (if r < 0 then Closed else LoggingIn) (\<not> r < 0) fin u s \<Longrightarrow> P (r, u, s)"
  shows "yields (nc_qh_user_login d 0 user sys) P"
proof -
  let ?u = "user\<lparr> qu_last_type := PTC_FRAME_STREAM_CONNECT \<rparr>"
  let ?s = "sys\<lparr> sys_calls := sys_calls sys @ state_calls PTC_FRAME_STREAM_CONNECT user \<rparr>"
  have c: "stream_in v0 Connecting (fd item > 0) fin (?u\<lparr> qu_sock_item := item \<rparr>) (?s\<lparr> sys_manager := m, sys_net := nt \<rparr>)" for item m nt
    using report_in [OF assms(1) connect] by (auto simp: stream_in_def live_def intro: viewing_same)
  have f: "fd (qu_sock_item user) \<le> 0" using assms(1) by (simp add: stream_in_def live_def)
  have close: "P (r, (fst (qh_close 0 u s))\<lparr> qu_rts_key_flag := True \<rparr>, snd (qh_close 0 u s))"
    if "stream_in v0 Closed True fin u s" "r < 0" for r u s
    by (cases rule: close_cases [of u s], simp, intro assms(3))
      (use that in \<open>auto simp: stream_in_def live_def intro: viewing_same\<close>)
  have ok: "P (r, u\<lparr> qu_rts_key_flag := True \<rparr>, s)" if "stream_in v0 LoggingIn True fin u s" "\<not> r < 0" for r u s
    by (intro assms(3)) (use that in \<open>auto intro: same_in\<close>)
  have fail: "P (NC_ERROR_CONNECT, u\<lparr> qu_last_type := PTC_FRAME_STREAM_CONNECT_FAIL \<rparr>,
      s\<lparr> sys_calls := sys_calls s @ state_calls PTC_FRAME_STREAM_CONNECT_FAIL u \<rparr>)" if "stream_in v0 Connecting False fin u s" for u s
    using report_in [OF that connect_fail] assms(3) [of NC_ERROR_CONNECT] by (simp add: NC_ERROR_CONNECT_def)
  have after: "yields (login_exchange u s) (\<lambda>(r, u, s). P (r, (fst (if r < 0 then qh_close 0 u s else (u, s)))\<lparr> qu_rts_key_flag := True \<rparr>,
      snd (if r < 0 then qh_close 0 u s else (u, s))))" if "stream_in v0 Connecting True fin u s" for u s
    by (intro exchange_in [OF that]) (auto intro: close ok split: if_splits)
  show ?thesis
    unfolding nc_qh_user_login_def doState_eq qh_report_eq Let_def prod.case
    apply (simp, rule open_yields)
    subgoal using f by simp
    subgoal by (rule assms(2))
    subgoal for item m nt
      apply (simp, intro fill_yields yields_mono [OF after])
      subgoal using c [of item nt m] by (auto intro: same_in)
      subgoal by (auto split: if_splits prod.splits)
      done
    subgoal for item m nt
      using c [of item nt m] fail [of "?u\<lparr> qu_sock_item := item \<rparr>" "?s\<lparr> sys_manager := m, sys_net := nt \<rparr>"] by simp
    done
qed

section \<open>A turn of a stream\<close>

text \<open>
  Between turns the socket is open just when the application sees the stream play; playback may have
  come to its end.
\<close>

definition stopped :: "u32 \<times> u8 \<Rightarrow> nc_qh_user \<Rightarrow> qh_sys \<Rightarrow> bool" where
  "stopped v0 user sys \<longleftrightarrow> stream_in v0 Closed False False user sys"

definition playing :: "u32 \<times> u8 \<Rightarrow> nc_qh_user \<Rightarrow> qh_sys \<Rightarrow> bool" where
  "playing v0 user sys \<longleftrightarrow> stream_in v0 Playing True False user sys"

definition ended :: "u32 \<times> u8 \<Rightarrow> nc_qh_user \<Rightarrow> qh_sys \<Rightarrow> bool" where
  "ended v0 user sys \<longleftrightarrow> fst v0 = PTC_CMD_PBS_BASE \<and> stream_in v0 Ended False True user sys"

definition settled :: "u32 \<times> u8 \<Rightarrow> nc_qh_user \<Rightarrow> qh_sys \<Rightarrow> bool" where
  "settled v0 user sys \<longleftrightarrow> stopped v0 user sys \<or> playing v0 user sys \<or> ended v0 user sys"

lemma settledI: "stopped v0 user sys \<Longrightarrow> settled v0 user sys" "playing v0 user sys \<Longrightarrow> settled v0 user sys"
  "ended v0 user sys \<Longrightarrow> settled v0 user sys"
  by (simp_all add: settled_def)

lemmas place_defs = stopped_def playing_def ended_def

text \<open>A step of a turn leaves the stream playing, or closed when it fails.\<close>

definition step_post :: "u32 \<times> u8 \<Rightarrow> int \<times> nc_qh_user \<times> qh_sys \<Rightarrow> bool" where
  "step_post v0 x \<longleftrightarrow> (case x of (r, u, s) \<Rightarrow> if r < 0 then stopped v0 u s else playing v0 u s)"

lemma open_step:
  assumes "stopped v0 user sys" "plain_turn t"
  shows "yields (stream_open t cmd bytes user sys) (step_post v0)"
proof -
  note t = assms(2) [unfolded plain_turn_def]
  note st = assms(1) [unfolded stopped_def]
  have ask: "yields (qh_ask cmd bytes u s) (\<lambda>x. yields (case x of (ret, user, sys) \<Rightarrow>
      if ret < 0 then qh_break t PTC_FRAME_STREAM_START_FAIL user sys
      else qh_report 0 PTC_FRAME_STREAM_RUNNING (user, sys)) (step_post v0))" if "stream_in v0 Starting True False u s" for u s
    by (intro ask_in [OF that], simp add: qh_report_eq, intro conjI impI)
      (auto intro!: break_in start_fail report_in running simp: t step_post_def stopped_def playing_def)
  show ?thesis
    unfolding stream_open_def doState_eq Let_def prod.case t [THEN conjunct2]
    apply (simp, intro conjI impI)
    subgoal using slept_in [OF report_in [OF st wait]] by (simp add: step_post_def stopped_def)
    apply (rule login_in [OF st t [THEN conjunct1]])
    apply (simp add: case_prod_unfold, intro conjI impI)
    subgoal by (simp add: step_post_def stopped_def)
    subgoal using ask [OF report_in [OF _ start]] by (simp add: case_prod_unfold)
    done
qed

lemma beat_step:
  assumes "playing v0 user sys" "turn_close t = 0" "type \<in> {PTC_FRAME_STREAM_BROKEN, PTC_FRAME_STREAM_WAIT}"
  shows "yields (stream_beat t type user sys) (step_post v0)"
  unfolding stream_beat_def
  by (simp, intro conjI impI post_in [OF assms(1) [unfolded playing_def]], simp, intro conjI impI)
    (use assms in \<open>auto intro!: break_in [OF _ assms(2) broken [OF assms(3)]] simp: step_post_def playing_def stopped_def\<close>)

lemma pass_step:
  assumes "playing v0 user sys" "turn_close t = 0" "type \<in> {PTC_FRAME_STREAM_BROKEN, PTC_FRAME_STREAM_WAIT}"
    and "\<And>user. same_core user (clear user)"
  shows "yields (stream_pass t type wanted cmd bytes clear user sys) (step_post v0)"
proof -
  have "playing v0 u s \<Longrightarrow> playing v0 (clear u) s" for u s
    using assms(4) [of u] by (auto simp: playing_def same_core_def intro: same_in)
  then show ?thesis
    unfolding stream_pass_def
    by (simp, intro conjI impI post_in [OF assms(1) [unfolded playing_def]], simp, intro conjI impI)
      (use assms in \<open>auto intro!: break_in [OF _ assms(2) broken [OF assms(3)]] simp: step_post_def playing_def stopped_def\<close>)
qed

lemma frame_step:
  assumes "playing v0 user sys" "turn_close t = 0" "type \<in> {PTC_FRAME_STREAM_BROKEN, PTC_FRAME_STREAM_WAIT}"
  shows "yields (stream_frame t type user sys) (step_post v0)"
proof -
  obtain ret item where p: "qh_poll t user sys = (ret, user\<lparr> qu_sock_item := item \<rparr>, qh_at (turn_poll_clock t) sys)"
    and "fd item = fd (qu_sock_item user)" by (rule poll_cases)
  then have st: "stream_in v0 Playing True False (user\<lparr> qu_sock_item := item \<rparr>) (qh_at (turn_poll_clock t) sys)"
    using assms(1) by (auto simp: playing_def qh_at_def intro: same_in)
  have break: "yields (qh_break t type u s) (step_post v0)" if "stream_in v0 Playing True False u s" for u s
    by (rule break_in [OF that assms(2) broken [OF assms(3)]]) (simp add: step_post_def stopped_def)
  show ?thesis
    unfolding stream_frame_def p Let_def prod.case
    by (intro yields_ifI break [OF st], simp, intro recvFrame_in [OF st])
      (auto intro: break simp: step_post_def playing_def)
qed

lemma rts_store_step:
  assumes "playing v0 user sys"
  shows "yields (rts_store t user sys) (\<lambda>(r, u, s). settled v0 u s)"
proof -
  have "playing v0 (qh_stamp user sys) (qh_called (Set_withDrop b n) sys)" for b n
    using assms by (auto simp: playing_def stream_in_def viewing_def qh_stamp_def qh_called_def live_def
        intro: view_more live_frame)
  moreover have "playing v0 (qh_stamp user sys) sys"
    using assms by (auto simp: playing_def qh_stamp_def intro: same_in)
  ultimately show ?thesis
    by (auto simp: rts_store_def Let_def intro!: slice_yields settledI(2))
qed

lemma view_frame:
  assumes "viewing v0 Playing user sys" "qu_last_type user' = qu_last_type user" "qu_type user' = qu_type user"
    and "sys_calls sys' = sys_calls sys @ [Set_noDrop b True]"
  shows "length b \<le> 20 \<or> b ! 20 \<noteq> PTC_FRAME_PBS_END \<Longrightarrow> viewing v0 Playing user' sys'"
    and "length b \<le> 20 \<or> b ! 20 = PTC_FRAME_PBS_END \<Longrightarrow> viewing v0 Ended user' sys'"
  using assms by (auto simp: viewing_def last_fits_def intro: view_more frame last_frame)

lemma slice_shown:
  assumes "slice 8 13 d = Inr b" "slice 0 n d = Inr b'"
  shows "length b' \<le> 20 \<or> b' ! 20 = b ! 12"
  using assms by (cases "n \<le> 20") (auto simp: slice_def split: if_splits)

lemma pbs_store_step:
  assumes "playing v0 user sys" "turn_close t = 0" "fst v0 = PTC_CMD_PBS_BASE"
  shows "yields (pbs_store t user sys) (\<lambda>(r, u, s). settled v0 u s)"
proof -
  let ?d = "f_data (qu_frame user)" and ?n = "unat (h_len (f_head (qu_frame user)))"
  have v: "viewing v0 Playing user sys" "live user" "\<not> qu_pbs_end_flag user"
    using assms(1) by (simp_all add: playing_def stream_in_def)
  have stored: "settled v0 (qh_stamp u s) (qh_called (Set_noDrop b' True) s)"
    if "slice 8 13 ?d = Inr b" "slice 0 ?n ?d = Inr b'"
      "(u, s) = (if b ! 12 = PTC_FRAME_PBS_END then qh_close 0 (user\<lparr> qu_pbs_end_flag := True \<rparr>) sys
        else (user\<lparr> qu_pbs_start := start \<rparr>, sys))" for b b' u s start
  proof (cases "b ! 12 = PTC_FRAME_PBS_END")
    case True
    with that(3) obtain item m where u: "u = user\<lparr> qu_pbs_end_flag := True, qu_sock_item := item \<rparr>"
      "s = sys\<lparr> sys_manager := m \<rparr>" "\<not> live u"
      by (cases rule: close_cases [of "user\<lparr> qu_pbs_end_flag := True \<rparr>" sys]) auto
    have "viewing v0 Ended (qh_stamp u s) (qh_called (Set_noDrop b' True) s)"
      using slice_shown [OF that(1,2)] True by (intro view_frame(2) [OF v(1)]) (auto simp: u(1,2) qh_stamp_def qh_called_def)
    with u(3) show ?thesis by (intro settledI(3)) (simp add: ended_def assms(3) stream_in_def qh_stamp_def live_def u(1))
  next
    case False
    with that(3) have u: "u = user\<lparr> qu_pbs_start := start \<rparr>" "s = sys" by simp_all
    have "viewing v0 Playing (qh_stamp u s) (qh_called (Set_noDrop b' True) s)"
      using slice_shown [OF that(1,2)] False by (intro view_frame(1) [OF v(1)]) (auto simp: u qh_stamp_def qh_called_def)
    with v(2,3) show ?thesis by (intro settledI(2)) (simp add: playing_def stream_in_def qh_stamp_def live_def u)
  qed
  have "settled v0 (qh_stamp user sys) sys"
    using assms(1) by (intro settledI(2)) (auto simp: playing_def qh_stamp_def intro: same_in)
  then show ?thesis
    unfolding pbs_store_def Let_def assms(2)
    by (auto intro!: yieldsI simp: andThen_Inr_iff split: prod.splits if_splits intro: stored)
qed

text \<open>The watch at the start of a turn reports a stream from which nothing came for ten seconds.\<close>

lemma watch_in:
  assumes "stream_in v0 ph lv fin user sys" "ph \<in> {Closed, Playing, Ended}"
  shows "yields (qh_watch user sys) (\<lambda>(u, s). stream_in v0 ph lv fin u s)"
proof -
  have "stream_in v0 ph lv fin (qh_stamp user sys) sys"
    using assms(1) by (auto simp: qh_stamp_def intro: same_in)
  from report_in [OF this timeout [OF assms(2)]] assms(1) show ?thesis
    by (simp add: qh_watch_def tool_sock_isTickTimeout_def doState_eq)
qed

lemma if_ok_step:
  assumes "yields m (step_post v0)" "\<And>u s. playing v0 u s \<Longrightarrow> yields (f u s) (\<lambda>(r, u, s). settled v0 u s)"
  shows "yields (if_ok m f) (\<lambda>(r, u, s). settled v0 u s)"
  unfolding if_ok_yields
  by (rule yields_mono [OF assms(1)]) (auto simp: step_post_def intro: assms(2) settledI(1) split: if_splits)

lemma connected_step:
  assumes "stopped v0 user sys \<or> playing v0 user sys" "plain_turn t"
  shows "yields (if tool_sock_item_isLive (qu_sock_item user) = 0 then stream_open t cmd bytes user sys
     else Inr (0, user, sys)) (step_post v0)"
  using assms open_step [of v0, OF _ assms(2)] by (auto simp: place_defs stream_in_def step_post_def)

lemma broken_types: "PTC_FRAME_STREAM_BROKEN \<in> {PTC_FRAME_STREAM_BROKEN, PTC_FRAME_STREAM_WAIT}"
  "PTC_FRAME_STREAM_WAIT \<in> {PTC_FRAME_STREAM_BROKEN, PTC_FRAME_STREAM_WAIT}"
  by simp_all

lemmas turn_steps = if_ok_step connected_step pass_step beat_step frame_step rts_store_step pbs_store_step broken_types

lemma watched:
  assumes "stopped v0 user sys \<or> playing v0 user sys"
    and "\<And>u s. stopped v0 u s \<or> playing v0 u s \<Longrightarrow> yields (f u s) P"
  shows "yields (andThen (qh_watch user sys) (\<lambda>(u, s). f u s)) P"
  using assms(1)
proof
  assume "stopped v0 user sys"
  then show ?thesis
    unfolding yields_simps
    by (intro yields_mono [OF watch_in [of v0 Closed False False]]) (auto simp: stopped_def intro: assms(2))
next
  assume "playing v0 user sys"
  then show ?thesis
    unfolding yields_simps
    by (intro yields_mono [OF watch_in [of v0 Playing True False]]) (auto simp: playing_def intro: assms(2))
qed

lemma doRts_settled:
  assumes "settled v0 user sys" "fst v0 = PTC_CMD_RTS_BASE" "plain_turn t"
  shows "yields (nc_qh_user_doRts t user sys) (\<lambda>(r, u, s). settled v0 u s)"
proof -
  note t = assms(3) [unfolded plain_turn_def, THEN conjunct2]
  have "stopped v0 user sys \<or> playing v0 user sys"
    using assms(1,2) by (auto simp: settled_def ended_def PTC_CMD_RTS_BASE_def PTC_CMD_PBS_BASE_def)
  then show ?thesis
    unfolding nc_qh_user_doRts_def
    by (intro watched turn_steps assms(3) t) (simp_all add: same_core_def)
qed

lemma doPbs_settled:
  assumes "settled v0 user sys" "fst v0 = PTC_CMD_PBS_BASE" "plain_turn t"
  shows "yields (nc_qh_user_doPbs t user sys) (\<lambda>(r, u, s). settled v0 u s)"
proof (cases "ended v0 user sys")
  case True
  then show ?thesis
    unfolding nc_qh_user_doPbs_def yields_simps ended_def
    by (intro yields_mono [OF watch_in [of v0 Ended False True]])
      (auto simp: stream_in_def [of v0 Ended] ended_def intro!: settledI(3) viewing_slept)
next
  case False
  note t = assms(3) [unfolded plain_turn_def, THEN conjunct2]
  have "\<not> qu_pbs_end_flag u" if "stopped v0 u s \<or> playing v0 u s" for u s
    using that by (auto simp: place_defs stream_in_def)
  moreover have "stopped v0 user sys \<or> playing v0 user sys" using False assms(1) by (simp add: settled_def)
  ultimately show ?thesis
    unfolding nc_qh_user_doPbs_def
    by (intro watched yields_ifI turn_steps assms(2,3) t) (simp_all add: same_core_def)
qed

section \<open>Whole runs\<close>

lemma obeyed_settled: "settled v0 user sys \<Longrightarrow> same_core user u \<Longrightarrow> settled v0 u (qh_at n sys)"
  by (auto simp: settled_def place_defs same_core_def qh_at_def intro: same_in)

lemma turns_settled:
  assumes "settled v0 user sys" "list_all (plain_turn \<circ> snd) xs"
  shows "yields (qh_turns xs user sys) (\<lambda>(u, s). settled v0 u s)"
  using assms
proof (induction xs arbitrary: user sys)
  case (Cons x xs)
  have turn: "yields (qh_turn_of (snd x) u s) (\<lambda>(r, u, s). settled v0 u s)" if "settled v0 u s" for u s
  proof -
    from that have "qu_type u = fst v0" "fst v0 \<in> {PTC_CMD_RTS_BASE, PTC_CMD_PBS_BASE}"
      by (auto simp: settled_def place_defs stream_in_def viewing_def)
    then show ?thesis
      using doRts_settled [OF that] doPbs_settled [OF that] Cons.prems(2)
      by (auto simp: qh_turn_of_def PTC_CMD_RTS_BASE_def PTC_CMD_PBS_BASE_def PTC_CMD_TALK_BASE_def PTC_CMD_ALARM_BASE_def)
  qed
  have "yields (qh_turn_of (snd x) u (qh_at (turn_clock (snd x)) sys)) (\<lambda>(_, u', s').
      yields (qh_turns xs u' s') (\<lambda>(u, s). settled v0 u s))" if "same_core user u" for u
    by (rule yields_mono [OF turn [OF obeyed_settled [OF Cons.prems(1) that]]]) (use Cons in auto)
  then show ?case by (simp, intro yields_mono [OF obeys_keep])
qed simp

definition stream_user :: "nc_qh_user \<Rightarrow> bool" where
  "stream_user user \<longleftrightarrow> qu_type user \<in> {PTC_CMD_RTS_BASE, PTC_CMD_PBS_BASE} \<and> \<not> live user \<and>
     \<not> qu_pbs_end_flag user \<and> qu_last_type user \<noteq> PTC_FRAME_STREAM_CONNECT"

lemma start_settled:
  assumes "stream_user user" "sys_calls sys = []"
  shows "settled (qu_type user, qu_last_type user) (qh_stamp user sys) sys"
  using assms
  by (auto simp: stream_user_def settled_def stopped_def stream_in_def viewing_def qh_stamp_def live_def last_fits_def
      intro: view_none)

lemma close_calls: "qh_close c user sys = (u, s) \<Longrightarrow> sys_calls s = sys_calls sys"
  by (auto simp: qh_close_def split: prod.splits)

lemma logout_calls: "yields (nc_qh_user_logout 0 user sys) (\<lambda>(_, u, s). sys_calls s = sys_calls sys)"
  by (auto simp: nc_qh_user_logout_def intro!: fill_yields send_yields dest: close_calls)

text \<open>The calls of a whole run: a path of the view machine from a closed connection to a resting place.\<close>

definition orderly :: "u8 \<Rightarrow> qh_call list \<Rightarrow> bool" where
  "orderly l0 calls \<longleftrightarrow> (\<exists>ph l. ph \<in> {Closed, Playing, Ended} \<and> view_run (Closed, l0) calls (ph, l))"

lemma settled_orderly:
  "settled (type, l0) user sys \<Longrightarrow> orderly l0 (sys_calls sys)"
  by (auto simp: orderly_def settled_def place_defs stream_in_def viewing_def)

text \<open>C1: 
  Whatever the network, the camera and the other threads do, a stream or playback thread shows the
  application only what the view machine allows, from the first turn to the last.
\<close>

theorem stream_run_view:
  assumes "stream_user user" "sys_calls sys = []" "list_all (plain_turn \<circ> snd) xs"
  shows "yields (nc_qh_user_run xs 0 user sys) (\<lambda>(_, _, s). orderly (qu_last_type user) (sys_calls s))"
proof -
  have "yields (nc_qh_user_logout 0 u s) (\<lambda>(_, _, s'). orderly (qu_last_type user) (sys_calls s'))"
    if "settled (qu_type user, qu_last_type user) u s" for u s
    by (rule yields_mono [OF logout_calls]) (use settled_orderly [OF that] in auto)
  then show ?thesis
    unfolding nc_qh_user_run_def yields_simps
    by (intro yields_mono [OF turns_settled [OF start_settled [OF assms(1,2)] assms(3)]]) auto
qed

definition demo_user :: "u32 \<Rightarrow> nc_qh_user" where
  "demo_user type = qh_user_for ''10.0.0.1'' 8000 ''admin'' ''admin'' type"

definition demo_sys :: qh_sys where
  "demo_sys = \<lparr> sys_manager = \<lparr> manager_tick = 0, manager_count = 3, ys_port = 22000 \<rparr>,
     sys_net = \<lparr> steps = [], now = 0, inbox = [], outbox = [] \<rparr>, sys_calls = [] \<rparr>"

text \<open>A turn in which the camera cannot be reached.\<close>

definition no_dial :: sock_dial where
  "no_dial = \<lparr> dial_addr = (\<lambda>_ _. 0), dial_sock = 7, dial_bind = 0, dial_listen = 0, dial_conn = (\<lambda>_ _. - 1), dial_err = 0 \<rparr>"

definition demo_turn :: "int \<Rightarrow> qh_turn" where
  "demo_turn tick = \<lparr> turn_clock = tick, turn_dial = no_dial,
     turn_close = 0, turn_poll = 0, turn_poll_clock = tick, turn_buffer = 0, turn_fuel = 10 \<rparr>"

lemmas demo_defs = demo_user_def demo_sys_def demo_turn_def no_dial_def qh_user_for_def item_zero_def

definition reports :: "u8 \<Rightarrow> qh_call list" where
  "reports t = [Set_noDrop (state_frame t) False, Usleep 100000]"

lemma demo_run:
  "\<exists>u s. nc_qh_user_run [([Force_key], demo_turn 5), ([], demo_turn 6), ([], demo_turn 16)] 0
       (demo_user PTC_CMD_RTS_BASE) demo_sys = Inr (- 1, u, s)
     \<and> sys_calls s = reports PTC_FRAME_STREAM_CONNECT @ reports PTC_FRAME_STREAM_CONNECT_FAIL @
         reports PTC_FRAME_STREAM_WAIT @ [Usleep 100000] @ reports PTC_FRAME_STREAM_TIMEOUT @
         reports PTC_FRAME_STREAM_CONNECT @ reports PTC_FRAME_STREAM_CONNECT_FAIL"
  by (simp add: demo_defs nc_qh_user_run_def qh_turn_of_def nc_qh_user_doRts_def qh_watch_def tool_sock_isTickTimeout_def
      qh_ticked_def qh_stamp_def qh_at_def if_ok_def stream_open_def qh_overdue_def tool_sock_item_isTimeout_def
      doState_eq qh_report_eq state_calls_def nc_qh_user_login_def tool_sock_item_open_v2_def tool_sock_item_connect_def tool_sock_init_def
      nc_qh_user_logout_def live_def report_type_defs NC_QH_RECONNECT_CYCLE_def NC_QH_STREAM_TIMEOUT_def
      NC_QH_USLEEP_CYCLE_def NC_ERROR_defs qh_slept_def qh_called_def reports_def Let_def)

lemma demo_fits: "stream_user (demo_user PTC_CMD_RTS_BASE)" "sys_calls demo_sys = []" "plain_turn (demo_turn n)"
  "tool_sock_item_isLive (qu_sock_item (demo_user type)) = 0" "manager_count (sys_manager demo_sys) = 3"
  by (simp_all add: tool_sock_item_isLive_def demo_defs stream_user_def live_def plain_turn_def PTC_FRAME_STREAM_CONNECT_def)

theorem stream_run_view_witness:
  "\<exists>u s. nc_qh_user_run [([Force_key], demo_turn 5), ([], demo_turn 6), ([], demo_turn 16)] 0
       (demo_user PTC_CMD_RTS_BASE) demo_sys = Inr (- 1, u, s)
     \<and> 13 = length (sys_calls s) \<and> orderly 0 (sys_calls s)"
proof -
  obtain u s where r: "nc_qh_user_run [([Force_key], demo_turn 5), ([], demo_turn 6), ([], demo_turn 16)] 0
      (demo_user PTC_CMD_RTS_BASE) demo_sys = Inr (- 1, u, s)" "length (sys_calls s) = 13"
    using demo_run by (auto simp: reports_def)
  from yieldsD [OF stream_run_view [OF demo_fits(1,2)] r(1)] r show ?thesis
    by (auto simp: demo_fits(3) demo_user_def qh_user_for_def)
qed

text \<open>C3: 
  A user's thread of any type (live stream, talk, alarms, playback) ends with its socket closed, and
  the number of open sockets is what the others hold, whatever happens in its turns.
\<close>

theorem user_run_closes:
  assumes "list_all (plain_turn \<circ> snd) xs"
  shows "yields (nc_qh_user_run xs 0 user sys) (\<lambda>(_, u, s).
    tool_sock_item_isLive (qu_sock_item u) = 0 \<and>
    manager_count (sys_manager s) = manager_count (sys_manager sys) - tool_sock_item_isLive (qu_sock_item user))"
proof -
  have b: "balance (qh_stamp user sys) sys = manager_count (sys_manager sys) - tool_sock_item_isLive (qu_sock_item user)"
    by (simp add: socket_defs qh_stamp_def tool_sock_item_isLive_def)
  show ?thesis
    unfolding nc_qh_user_run_def yields_simps
    by (rule yields_mono [OF turns_kept [OF assms]])
      (auto intro!: yields_mono [OF logout_any] simp: kept_def b)
qed

theorem user_run_closes_witness:
  "\<exists>u s. nc_qh_user_run [([Force_key], demo_turn 5), ([], demo_turn 6), ([], demo_turn 16)] 0
       (demo_user PTC_CMD_RTS_BASE) demo_sys = Inr (- 1, u, s) \<and> manager_count (sys_manager s) = 3"
proof -
  obtain u s where r: "nc_qh_user_run [([Force_key], demo_turn 5), ([], demo_turn 6), ([], demo_turn 16)] 0
      (demo_user PTC_CMD_RTS_BASE) demo_sys = Inr (- 1, u, s)" using demo_run by auto
  from yieldsD [OF user_run_closes r] r show ?thesis
    by (auto simp: demo_fits)
qed

end
