(* ===== verification/Nc_Call_Rt.thy ===== *)
theory Nc_Call_Rt
  imports Nc_Qh_Rt
begin

text \<open>
  The calls of \<^verbatim>\<open>Nc_Qh\<close> return: however slow the camera is, a configuration call ends within 80 ticks
  of the counter, since the wait for the connection and each of its seven transfers give up after ten.
\<close>

section \<open>Ticks\<close>

text \<open>How often the tick counter moves on in the rounds to come.\<close>

fun advances :: "int \<Rightarrow> int list \<Rightarrow> nat" where
  "advances t [] = 0"
| "advances t (c # cs) = (if t < c then 1 else 0) + advances c cs"

definition lasts :: "nat \<Rightarrow> net \<Rightarrow> bool" where
  "lasts n nt \<longleftrightarrow> sorted (now nt # map clock (steps nt)) \<and> n \<le> advances (now nt) (map clock (steps nt))"

lemma lasts_less: "lasts n nt \<Longrightarrow> m \<le> n \<Longrightarrow> lasts m nt"
  by (simp add: lasts_def)

text \<open>A transfer that begins at \<open>start\<close> uses at most the ticks up to its deadline.\<close>

lemma send_loop_ends:
  assumes "sorted (now nt # map clock sts)" "now nt < start + timeout item"
    and "n + nat (start + timeout item - now nt) \<le> advances (now nt) (map clock sts)"
  shows "returns (sock_send_loop sts start item nt sent bs) (\<lambda>(r, item', nt'). lasts n nt' \<and> timeout item' = timeout item)"
  using assms
proof (induction sts arbitrary: nt sent bs)
  case (Cons st sts)
  let ?nt = "nt\<lparr> now := clock st \<rparr>"
  have t: "now nt \<le> clock st" "sorted (clock st # map clock sts)" using Cons.prems(1) by auto
  have left: "lasts n (nt'\<lparr> now := clock st, steps := sts \<rparr>)" for nt'
    using Cons.prems(2,3) t(2) by (auto simp: lasts_def split: if_splits)
  have go: "returns (sock_send_loop sts start item (?nt\<lparr> outbox := ob \<rparr>) sent' bs')
      (\<lambda>(r, item', nt'). lasts n nt' \<and> timeout item' = timeout item)" if "clock st - start < timeout item" for ob sent' bs'
    by (rule Cons.IH) (use that t Cons.prems(3) in \<open>auto split: if_splits\<close>)
  show ?case
    using left [of nt] go Cons.prems
    by (auto simp: Let_def sock_leave_def lasts_def)
qed simp

lemma recv_loop_ends:
  assumes "sorted (now nt # map clock sts)" "now nt < start + timeout item"
    and "n + nat (start + timeout item - now nt) \<le> advances (now nt) (map clock sts)"
  shows "returns (sock_recv_loop sts start item nt got m)
    (\<lambda>(r, bs, item', nt'). lasts n nt' \<and> timeout item' = timeout item \<and> length bs \<le> length got + m)"
  using assms
proof (induction sts arbitrary: nt got m)
  case (Cons st sts)
  let ?nt = "nt\<lparr> now := clock st \<rparr>"
  have t: "now nt \<le> clock st" "sorted (clock st # map clock sts)" using Cons.prems(1) by auto
  have left: "lasts n (nt'\<lparr> now := clock st, steps := sts \<rparr>)" for nt'
    using Cons.prems(2,3) t(2) by (auto simp: lasts_def split: if_splits)
  have go: "returns (sock_recv_loop sts start item (?nt\<lparr> inbox := ib \<rparr>) got' m')
      (\<lambda>(r, bs, item', nt'). lasts n nt' \<and> timeout item' = timeout item \<and> length bs \<le> length got' + m')"
    if "clock st - start < timeout item" for ib got' m'
    by (rule Cons.IH) (use that t Cons.prems(3) in \<open>auto split: if_splits\<close>)
  have more: "returns (sock_recv_loop sts start item (?nt\<lparr> inbox := drop k ib \<rparr>) (got @ take k ib) (m - k))
      (\<lambda>(r, bs, item', nt'). lasts n nt' \<and> timeout item' = timeout item \<and> length bs \<le> length got + m)"
    if "clock st - start < timeout item" "k \<le> m" for k and ib :: "u8 list"
    by (rule returns_mono [OF go [OF that(1)]]) (use that(2) in auto)
  show ?case
    using left [of nt] more Cons.prems
    by (auto simp: Let_def sock_leave_def lasts_def)
qed simp

lemma connect_poll_ends:
  assumes "sorted (now nt # map clock sts)" "now nt < start + timeout item"
    and "n + nat (start + timeout item - now nt) \<le> advances (now nt) (map clock sts)"
  shows "returns (connect_poll sts start item nt p) (\<lambda>(r, nt'). lasts n nt')"
  using assms
proof (induction sts arbitrary: nt p)
  case (Cons st sts)
  let ?nt = "nt\<lparr> now := clock st, steps := sts \<rparr>"
  have t: "now nt \<le> clock st" "sorted (clock st # map clock sts)" using Cons.prems(1) by auto
  have left: "lasts n ?nt"
    using Cons.prems(2,3) t(2) by (auto simp: lasts_def split: if_splits)
  have go: "returns (connect_poll sts start item ?nt p') (\<lambda>(r, nt'). lasts n nt')" if "clock st - start < timeout item" for p'
    by (rule Cons.IH) (use that t Cons.prems(3) in \<open>auto split: if_splits\<close>)
  show ?case using left go by (auto simp: Let_def)
qed simp

lemma connect_ends:
  assumes "lasts (n + 10) nt" "timeout item = 10"
  shows "returns (tool_sock_item_connect conn err (item, nt)) (\<lambda>(r, nt'). lasts n nt')"
proof -
  have "returns (connect_poll (steps nt) (now nt) item nt 0) (\<lambda>(r, nt'). lasts n nt')"
    by (rule connect_poll_ends) (use assms in \<open>simp_all add: lasts_def\<close>)
  then show ?thesis
    using lasts_less [OF assms(1), of n] by (auto simp: tool_sock_item_connect_def elim!: returns_mono)
qed

definition slow :: "nat \<Rightarrow> tool_sock_item \<times> net \<Rightarrow> bool" where
  "slow n s \<longleftrightarrow> timeout (fst s) = 10 \<and> lasts n (snd s)"

lemma slow_less: "slow n s \<Longrightarrow> m \<le> n \<Longrightarrow> slow m s"
  by (auto simp: slow_def intro: lasts_less)

lemma send_ends:
  assumes "slow (n + 10) s"
  shows "returns (tool_sock_item_send s bs) (\<lambda>(r, s'). slow n s')"
proof -
  obtain item nt where s: "s = (item, nt)" by fastforce
  show ?thesis
  proof (cases "is_error item")
    case True
    then show ?thesis using slow_less [OF assms, of n] by (simp add: tool_sock_item_send_def s)
  next
    case False
    have "returns (sock_send_loop (steps nt) (now nt) item nt 0 bs) (\<lambda>(r, item', nt'). lasts n nt' \<and> timeout item' = timeout item)"
      by (rule send_loop_ends) (use assms in \<open>simp_all add: s slow_def lasts_def\<close>)
    then show ?thesis
      using assms False by (auto simp: tool_sock_item_send_def s slow_def elim!: returns_mono)
  qed
qed

lemma recv_ends:
  assumes "slow (n + 10) s"
  shows "returns (tool_sock_item_recv s m) (\<lambda>(r, bs, s'). slow n s' \<and> length bs \<le> m)"
proof -
  obtain item nt where s: "s = (item, nt)" by fastforce
  show ?thesis
  proof (cases "is_error item")
    case True
    then show ?thesis using slow_less [OF assms, of n] by (simp add: tool_sock_item_recv_def s)
  next
    case False
    have "returns (sock_recv_loop (steps nt) (now nt) item nt [] m)
        (\<lambda>(r, bs, item', nt'). lasts n nt' \<and> timeout item' = timeout item \<and> length bs \<le> length ([] :: u8 list) + m)"
      by (rule recv_loop_ends) (use assms in \<open>simp_all add: s slow_def lasts_def\<close>)
    then show ?thesis
      using assms False by (auto simp: tool_sock_item_recv_def s slow_def elim!: returns_mono)
  qed
qed

section \<open>Messages\<close>

definition msg_shape :: "ptc_msg \<Rightarrow> bool" where
  "msg_shape msg \<longleftrightarrow> head_ok (head msg) \<and> length (data msg) = PTC_MSG_SIZE"

lemma sendMsg_ends:
  assumes "slow (n + 10) s" "msg_shape msg" "unat (h_len (head msg)) \<le> PTC_MSG_SIZE"
  shows "returns (tool_ptc_qh_sendMsg s msg) (\<lambda>(r, msg', s'). slow n s' \<and> msg_shape msg')"
proof -
  have m: "msg_shape (msg_stamp msg)" "h_len (head (msg_stamp msg)) = h_len (head msg)"
    using assms(2) by (simp_all add: msg_shape_def msg_stamp_def)
  obtain k where k: "unat (h_len (head msg)) = k" "uint (h_len (head msg)) = int k" by (metis uint_nat)
  then have "int32 (32 + uint (h_len (head msg))) = int (32 + k)"
    using assms(3) by (simp add: int32_id PTC_MSG_SIZE_def)
  then have "\<exists>b. msg_image (msg_stamp msg) (int32 (32 + uint (h_len (head msg)))) = Inr b"
    using m(1) assms(3) k by (auto simp: msg_image_def msg_shape_def nat_add_distrib)
  then show ?thesis
    using m(1) unfolding tool_ptc_qh_sendMsg_def qh_sendMsg_def Let_def m(2)
    by (auto intro!: returns_mono [OF send_ends [OF assms(1)]])
qed

lemma head_store_ok: "head_ok g \<Longrightarrow> length bytes \<le> 32 \<Longrightarrow> head_ok (head_store bytes g)"
  by (simp add: head_ok_def head_store_def head_of_bytes_def length_head_bytes [unfolded head_ok_def])

lemma buf_put_returns: "a + length bs \<le> length buf \<Longrightarrow> P (take a buf @ bs @ drop (a + length bs) buf) \<Longrightarrow> returns (buf_put a bs buf) P"
  by (simp add: buf_put_def)

lemma recvMsg_ends:
  assumes "slow (n + 20) s" "msg_shape msg"
  shows "returns (tool_ptc_qh_recvMsg s msg) (\<lambda>(r, msg', s'). slow n s' \<and> msg_shape msg')"
proof -
  have body: "returns (tool_sock_item_recv s1 (unat (h_len h))) (\<lambda>(ret, bytes, s2).
      returns (buf_put 0 bytes (data msg)) (\<lambda>d.
        (ret \<noteq> uint (h_len h) \<longrightarrow> slow n s2 \<and> msg_shape (msg\<lparr> head := h, data := d \<rparr>)) \<and>
        (ret = uint (h_len h) \<longrightarrow> returns (buf_put (unat (h_len h)) [0] d) (\<lambda>d.
           slow n s2 \<and> msg_shape (msg\<lparr> head := h, data := d \<rparr>)))))"
    if "slow (n + 10) s1" "unat (h_len h) < PTC_MSG_SIZE" "head_ok h" for s1 h
    by (rule returns_mono [OF recv_ends [OF that(1)]])
      (use that(2,3) assms(2) in \<open>auto simp: msg_shape_def intro!: buf_put_returns\<close>)
  have slow: "slow (n + 10 + 10) s" using assms(1) by (simp add: add.assoc)
  show ?thesis
    unfolding tool_ptc_qh_recvMsg_def qh_recvMsg_def Let_def
    by (simp, rule returns_mono [OF recv_ends [OF slow]])
      (use assms(2) slow_less [of "n + 10" _ n] body in \<open>auto simp: msg_shape_def head_store_ok not_le\<close>)
qed

section \<open>Calls\<close>

definition able :: "nat \<Rightarrow> nc_qh_user \<Rightarrow> qh_sys \<Rightarrow> bool" where
  "able n user sys \<longleftrightarrow> msg_shape (qu_msg user) \<and> slow n (qu_sock_item user, sys_net sys)"

lemma able_less: "able n u s \<Longrightarrow> m \<le> n \<Longrightarrow> able m u s"
  by (auto simp: able_def intro: slow_less)

lemma qh_send_ends:
  assumes "able (n + 10) user sys" "unat (h_len (head (qu_msg user))) \<le> PTC_MSG_SIZE"
  shows "returns (qh_send user sys) (\<lambda>(r, u, s). able n u s)"
proof -
  have "slow (n + 10) (qu_sock_item user, sys_net sys)" "msg_shape (qu_msg user)" using assms(1) by (simp_all add: able_def)
  from sendMsg_ends [OF this assms(2)] show ?thesis
    by (auto simp: qh_send_def able_def elim!: returns_mono)
qed

lemma qh_recv_ends:
  assumes "able (n + 20) user sys"
  shows "returns (qh_recv user sys) (\<lambda>(r, u, s). able n u s)"
proof -
  have "slow (n + 20) (qu_sock_item user, sys_net sys)" "msg_shape (qu_msg user)" using assms(1) by (simp_all add: able_def)
  from recvMsg_ends [OF this] show ?thesis
    by (auto simp: qh_recv_def able_def elim!: returns_mono)
qed

lemma qh_fill_ends:
  assumes "msg_shape msg" "length bytes \<le> PTC_MSG_SIZE"
  shows "returns (qh_fill cmd len bytes msg) (\<lambda>m. msg_shape m \<and> h_len (head m) = len)"
  using assms by (auto simp: qh_fill_def msg_shape_def head_ok_def intro!: buf_put_returns)

lemma exchange_ends:
  assumes "able (n + 30) user sys" "unat (h_len (head (qu_msg user))) \<le> PTC_MSG_SIZE"
  shows "returns (login_exchange user sys) (\<lambda>(r, u, s). able n u s)"
proof -
  let ?u = "user\<lparr> qu_last_type := PTC_FRAME_STREAM_LOGIN \<rparr>"
  let ?s = "sys\<lparr> sys_calls := sys_calls sys @ state_calls PTC_FRAME_STREAM_LOGIN user \<rparr>"
  have u: "able (n + 20 + 10) ?u ?s" "unat (h_len (head (qu_msg ?u))) \<le> PTC_MSG_SIZE"
    using assms by (simp_all add: able_def add.assoc)
  have report: "able n (u\<lparr> qu_last_type := t \<rparr>) (s\<lparr> sys_calls := cs \<rparr>)" if "able n u s" for u s t cs
    using that by (simp add: able_def)
  have recv: "returns (qh_recv u s) (\<lambda>x. returns (case x of (r, user, sys) \<Rightarrow> f r user sys) (\<lambda>(r, u, s). able n u s))"
    if "able (n + 20) u s" "\<And>r u s. able n u s \<Longrightarrow> returns (f r u s) (\<lambda>(r, u, s). able n u s)" for u s
      and f :: "int \<Rightarrow> nc_qh_user \<Rightarrow> qh_sys \<Rightarrow> (int \<times> nc_qh_user \<times> qh_sys) outcome"
    by (rule returns_mono [OF qh_recv_ends [OF that(1)]]) (use that(2) in auto)
  show ?thesis
    unfolding login_exchange_def doState_eq qh_report_eq Let_def prod.case returns_simps
    apply (rule returns_mono [OF qh_send_ends [OF u]])
    apply (clarsimp simp del: returns_case)
    apply (intro conjI impI)
    subgoal for r1 u1 s1 by (intro report) (auto intro: able_less)
    apply (rule recv, assumption)
    apply (auto intro: report)
    done
qed

lemma length_login_bytes: "length (login_bytes user) = 80"
  by (simp add: login_bytes_def text_bytes_def array_strncpy_def le4_def)

lemma close_able: "qh_close c user sys = (u, s) \<Longrightarrow> msg_shape (qu_msg user) \<Longrightarrow> msg_shape (qu_msg u)"
  by (auto simp: qh_close_def split: prod.splits)

lemma open_returns:
  assumes "0 < dial_sock d" "lasts (n + 10) nt"
    and "\<And>item' m' nt'. timeout item' = 10 \<Longrightarrow> lasts n nt' \<Longrightarrow> P (0, item', m', nt')"
    and "\<And>item' m' nt'. P (- 1, item', m', nt')"
  shows "returns (tool_sock_item_open_v2 d (Some m) (item, nt) t1 t2 ip port ip' port') P"
proof -
  have c: "returns (tool_sock_item_connect c e (i, nt)) (\<lambda>(r, nt'). lasts n nt')" if "timeout i = 10" for c e i
    by (rule connect_ends [OF assms(2) that])
  show ?thesis
    using assms(1) lasts_less [OF assms(2), of n]
    by (auto simp: tool_sock_item_open_v2_def tool_sock_init_def TOOL_SOCK_TIMEOUT_def Let_def assms(4)
        intro!: returns_mono [OF c] assms(3))
qed

lemma login_ends:
  assumes "msg_shape (qu_msg user)" "lasts (n + 40) (sys_net sys)" "0 < dial_sock d"
  shows "returns (nc_qh_user_login d cret user sys) (\<lambda>(r, u, s). \<not> r < 0 \<longrightarrow> able n u s)"
proof -
  have go: "returns (login_exchange (u\<lparr> qu_msg := msg \<rparr>) s) (\<lambda>(r, user, sys).
      \<not> r < 0 \<longrightarrow> able n ((fst (if r < 0 then qh_close cret user sys else (user, sys)))\<lparr> qu_rts_key_flag := True \<rparr>)
        (snd (if r < 0 then qh_close cret user sys else (user, sys))))"
    if "msg_shape msg" "h_len (head msg) = 80" "timeout (qu_sock_item u) = 10" "lasts (n + 30) (sys_net s)" for msg u s
    by (rule returns_mono [OF exchange_ends [of n]]) (use that in \<open>auto simp: able_def slow_def PTC_MSG_SIZE_def\<close>)
  show ?thesis
    unfolding nc_qh_user_login_def doState_eq qh_report_eq Let_def prod.case
    apply (simp, rule open_returns [OF assms(3), of "n + 30"])
    subgoal using assms(2) by (simp add: add.assoc)
    subgoal for item m nt
      apply (simp, rule returns_mono [OF qh_fill_ends])
      subgoal using assms(1) by simp
      subgoal by (simp add: length_login_bytes PTC_MSG_SIZE_def)
      subgoal for msg
        using go [of msg "user\<lparr> qu_last_type := PTC_FRAME_STREAM_CONNECT, qu_sock_item := item \<rparr>"]
        by (auto elim!: returns_mono split: prod.splits if_splits)
      done
    subgoal by (simp add: NC_ERROR_CONNECT_def)
    done
qed

lemma logout_ends:
  assumes "able 10 user sys"
  shows "returns (nc_qh_user_logout cret user sys) (\<lambda>_. True)"
proof -
  have a: "msg_shape (qu_msg user)" using assms by (simp add: able_def)
  show ?thesis
    unfolding nc_qh_user_logout_def returns_simps
    by (auto intro!: returns_mono [OF qh_fill_ends [OF a]] returns_mono [OF qh_send_ends [of 0]]
        simp: able_def) (use assms in \<open>auto simp: able_def\<close>)
qed

text \<open>C6: A configuration call returns, whatever the camera does, before the tick counter has moved 80 times,
  the wait for the connection included: with one of the documented codes, and with as many sockets open
  as before.
\<close>

theorem doCfg_v2_returns:
  assumes "msg_shape msg" "unat (h_len (head msg)) \<le> PTC_MSG_SIZE" "lasts 80 (sys_net sys)" "0 < dial_sock d"
  shows "\<exists>ret msg' sys'. nc_qh_user_doCfg_v2 d 0 dev msg sys = Inr (ret, msg', sys')
    \<and> ret \<in> call_codes PTC_CMD_CFG2_BASE \<and> manager_count (sys_manager sys') = manager_count (sys_manager sys)"
proof -
  let ?user = "qh_user_for (dev_ip dev) (dev_msg_port dev) (dev_user dev) (dev_pswd dev) PTC_CMD_CFG2_BASE"
  have u: "msg_shape (qu_msg ?user)" by (simp add: qh_user_for_def msg_shape_def head_ok_def head_zero_def)
  have send: "returns (tool_ptc_qh_sendMsg (qu_sock_item u, sys_net s) msg) (\<lambda>(r, msg', item, nt). slow 30 (item, nt) \<and> msg_shape msg')"
    if "able 40 u s" for u s
    by (rule returns_mono [OF sendMsg_ends [of 30 _ msg]]) (use that assms(1,2) in \<open>auto simp: able_def\<close>)
  have recv: "returns (tool_ptc_qh_recvMsg (item, nt) msg') (\<lambda>(r, msg'', item', nt'). slow 10 (item', nt'))"
    if "slow 30 (item, nt)" "msg_shape msg'" for item nt msg'
    by (rule returns_mono [OF recvMsg_ends [of 10]]) (use that in auto)
  have out: "returns (nc_qh_user_logout 0 (u\<lparr> qu_sock_item := item \<rparr>) (s\<lparr> sys_net := nt \<rparr>)) (\<lambda>_. True)"
    if "able 40 u s" "slow 10 (item, nt)" for u s item nt
    by (rule logout_ends) (use that in \<open>simp add: able_def\<close>)
  have "returns (nc_qh_user_doCfg_v2 d 0 dev msg sys) (\<lambda>_. True)"
    unfolding nc_qh_user_doCfg_v2_def Let_def qh_session_def
    apply (simp, rule returns_mono [OF login_ends [of _ 40, OF u _ assms(4)]])
    subgoal using assms(3) by simp
    apply (clarsimp simp del: returns_case)
    apply (rule returns_mono [OF send], assumption)
    apply (clarsimp simp del: returns_case, intro conjI impI)
    subgoal by (rule out, assumption, rule slow_less [of 30], assumption, simp)
    apply (rule returns_mono [OF recv], assumption+)
    apply (auto intro: out)
    done
  from returns_yields [OF this doCfg_v2_closes [OF assms(4)]] show ?thesis
    by (auto simp: returns_def)
qed

text \<open>
  A camera that accepts the connection at the fifth tick and then says nothing: the counter moves on, no
  byte moves.
\<close>

definition silent_sys :: qh_sys where
  "silent_sys = \<lparr> sys_manager = \<lparr> manager_tick = 0, manager_count = 3, ys_port = 22000 \<rparr>,
     sys_net = \<lparr> steps = map (\<lambda>c. \<lparr> flag_on = True, clock = int c, ready = (if c = 5 then 1 else 0) \<rparr>) [1..<81], now = 0, inbox = [], outbox = [] \<rparr>,
     sys_calls = [] \<rparr>"

definition good_dial :: sock_dial where
  "good_dial = \<lparr> dial_addr = (\<lambda>_ _. 0), dial_sock = 7, dial_bind = 0, dial_listen = 0,
     dial_conn = (\<lambda>ip port. if ip = Some ''10.0.0.1'' \<and> port = 8005 then 0 else - 1), dial_err = 0 \<rparr>"

definition demo_dev :: nc_dev where
  "demo_dev = \<lparr> dev_ptc = 0, dev_dev_id = ''qh-1'', dev_ip = ''10.0.0.1'', dev_msg_port = 8000, dev_stream_port = 0,
     dev_user = ''admin'', dev_pswd = ''admin'' \<rparr>"

lemma advances_upt: "advances (int m) (map int [Suc m..<Suc n]) = n - m"
proof (induction "n - m" arbitrary: m)
  case (Suc k)
  then have "[Suc m..<Suc n] = Suc m # [Suc (Suc m)..<Suc n]" by (simp add: upt_rec)
  then show ?case using Suc.hyps(1) [of "Suc m"] Suc.hyps(2) by simp
qed simp

lemma silent_lasts: "lasts 80 (sys_net silent_sys)"
  using advances_upt [of 0 80] by (simp add: silent_sys_def lasts_def comp_def sorted_map)

theorem doCfg_v2_returns_witness:
  "\<exists>ret msg' sys'. nc_qh_user_doCfg_v2 good_dial 0 demo_dev (cfg_msg 1) silent_sys = Inr (ret, msg', sys')
    \<and> ret \<in> call_codes PTC_CMD_CFG2_BASE \<and> manager_count (sys_manager sys') = 3"
  using doCfg_v2_returns [of "cfg_msg 1" silent_sys good_dial demo_dev, OF _ _ silent_lasts]
  by (simp add: msg_shape_def cfg_msg_def head_ok_def head_zero_def good_dial_def silent_sys_def)

end
