(* ===== verification/Nc_Answer.thy ===== *)
theory Nc_Answer
  imports Nc_Call_Rt
begin

text \<open>
  A whole configuration call over a prompt connection to a camera that answers: the bytes on the wire,
  the code returned and the configuration the application gets.
\<close>

section \<open>Messages over a prompt connection\<close>

text \<open>\<open>f\<close>: the descriptor; \<open>k\<close>: the bytes that can still move; what is to be read and what was written.\<close>

definition fed :: "int \<Rightarrow> nat \<Rightarrow> u8 list \<Rightarrow> u8 list \<Rightarrow> tool_sock_item \<times> net \<Rightarrow> bool" where
  "fed f k inb out s \<longleftrightarrow> carries s k \<and> sock_incoming s = inb \<and> sock_outgoing s = out \<and> fd (fst s) = f"

definition framed :: "ptc_head \<Rightarrow> u8 list \<Rightarrow> bool" where
  "framed h bs \<longleftrightarrow> head_ok h \<and> h_flag h = PTC_FLAG \<and> unat (h_len h) = length bs \<and> length bs < PTC_MSG_SIZE"

lemma send_fed:
  assumes "fed f (k + (32 + n)) inb out s" "head_ok (head msg)" "unat (h_len (head msg)) = n" "n \<le> length (data msg)"
    "n < 2147483000"
    and "\<And>s'. fed f k inb (out @ head_bytes (head (msg_stamp msg)) @ take n (data msg)) s' \<Longrightarrow> P (0, msg_stamp msg, s')"
  shows "returns (tool_ptc_qh_sendMsg s msg) P"
proof -
  have c: "carries s (k + (32 + n))" using assms(1) by (simp add: fed_def)
  from sock.sendMsg_image [OF assms(2-5) c] obtain s' where s': "qh_sendMsg tool_sock_item_send s msg = Inr (0, msg_stamp msg, s')"
    "carries s' k" "sock_outgoing s' = sock_outgoing s @ head_bytes (head (msg_stamp msg)) @ take n (data msg)"
    "sock_incoming s' = sock_incoming s" by blast
  with sock_fd.sendMsg_obs [OF s'(1)] assms(1) have "P (0, msg_stamp msg, s')"
    by (intro assms(6)) (simp add: fed_def)
  with s'(1) show ?thesis by (simp add: tool_ptc_qh_sendMsg_def)
qed

lemma recv_fed:
  assumes "fed f (k + (32 + length bs)) (head_bytes h @ bs @ later) out s" "framed h bs" "msg_shape buf"
    and "\<And>s'. fed f k later out s' \<Longrightarrow> P (0, buf\<lparr> head := h, data := bs @ 0 # drop (Suc (length bs)) (data buf) \<rparr>, s')"
  shows "returns (tool_ptc_qh_recvMsg s buf) P"
proof -
  have c: "sock_incoming s = head_bytes h @ bs @ later" "carries s (k + (32 + length bs))" "length bs < length (data buf)"
    "head_ok (head buf)" using assms(1-3) by (simp_all add: fed_def framed_def msg_shape_def)
  from sock.recvMsg_image [OF _ _ _ _ c(1,2,4,3)] assms(2) obtain s' where
    s': "qh_recvMsg tool_sock_item_recv s buf = Inr (0, buf\<lparr> head := h, data := bs @ 0 # drop (Suc (length bs)) (data buf) \<rparr>, s')"
      "carries s' k" "sock_incoming s' = later" "sock_outgoing s' = sock_outgoing s" by (auto simp: framed_def)
  with sock_fd.recvMsg_obs [OF s'(1)] assms(1) have "P (0, buf\<lparr> head := h, data := bs @ 0 # drop (Suc (length bs)) (data buf) \<rparr>, s')"
    by (intro assms(4)) (simp add: fed_def)
  with s'(1) show ?thesis by (simp add: tool_ptc_qh_recvMsg_def)
qed

lemma qh_send_fed:
  assumes "fed f (k + (32 + n)) inb out (qu_sock_item user, sys_net sys)" "msg_shape (qu_msg user)"
    "unat (h_len (head (qu_msg user))) = n" "n \<le> PTC_MSG_SIZE"
    and "\<And>item nt. fed f k inb (out @ head_bytes (head (msg_stamp (qu_msg user))) @ take n (data (qu_msg user))) (item, nt) \<Longrightarrow>
       P (0, user\<lparr> qu_msg := msg_stamp (qu_msg user), qu_sock_item := item \<rparr>, sys\<lparr> sys_net := nt \<rparr>)"
  shows "returns (qh_send user sys) P"
  unfolding qh_send_def returns_simps
  by (rule send_fed [OF assms(1)]) (use assms(2-) in \<open>auto simp: msg_shape_def PTC_MSG_SIZE_def\<close>)

lemma qh_recv_fed:
  assumes "fed f (k + (32 + length bs)) (head_bytes h @ bs @ later) out (qu_sock_item user, sys_net sys)" "framed h bs"
    "msg_shape (qu_msg user)"
    and "\<And>item nt msg. fed f k later out (item, nt) \<Longrightarrow> msg_shape msg \<Longrightarrow> head msg = h \<Longrightarrow>
       P (0, user\<lparr> qu_msg := msg, qu_sock_item := item \<rparr>, sys\<lparr> sys_net := nt \<rparr>)"
  shows "returns (qh_recv user sys) P"
  unfolding qh_recv_def returns_simps
  by (rule recv_fed [OF assms(1-3)])
    (use assms(2-) in \<open>auto simp: msg_shape_def framed_def Suc_diff_le not_le\<close>)

lemma msg_shape_stamp [simp]: "msg_shape (msg_stamp msg) = msg_shape msg"
  by (simp add: msg_shape_def msg_stamp_def head_ok_def)

text \<open>The head and the bytes of the message that logs in.\<close>

definition login_head :: "ptc_head \<Rightarrow> ptc_head" where
  "login_head h = head (msg_stamp \<lparr> head = h\<lparr> h_len := 80, h_cmd := PTC_CMD_USER_LOGIN, h_ack := 0 \<rparr>, data = [] \<rparr>)"

definition logout_head :: "ptc_head \<Rightarrow> ptc_head" where
  "logout_head h = head (msg_stamp \<lparr> head = h\<lparr> h_len := 0, h_cmd := PTC_CMD_USER_LOGOUT, h_ack := 0 \<rparr>, data = [] \<rparr>)"

lemma stamp_data: "data (msg_stamp msg) = data msg"
  by (simp add: msg_stamp_def)

lemma stamp_head: "head (msg_stamp msg) = head (msg_stamp \<lparr> head = head msg, data = [] \<rparr>)"
  by (simp add: msg_stamp_def)

text \<open>System calls that open a connection to an address and a port.\<close>

definition connects :: "sock_dial \<Rightarrow> string \<Rightarrow> int \<Rightarrow> bool" where
  "connects d ip port \<longleftrightarrow> 0 \<le> dial_addr d (Some ip) port \<and> 0 \<le> dial_addr d None 0 \<and> 0 < dial_sock d \<and> 0 \<le> dial_bind d
     \<and> 0 \<le> dial_conn d (Some ip) port \<and> 0 \<le> dial_err d"

text \<open>Where a call connects to: the address of the device, and the port behind its message port.\<close>

definition cfg_ip :: "nc_dev \<Rightarrow> string" where "cfg_ip dev = cstr (array_strncpy 40 (dev_ip dev))"
definition cfg_port :: "nc_dev \<Rightarrow> int" where "cfg_port dev = (dev_msg_port dev + PTC_PORT_OFFSET) mod 65536"

definition opened :: "sock_dial \<Rightarrow> int \<Rightarrow> tool_sock_item \<Rightarrow> tool_sock_item" where
  "opened d tick item = item\<lparr> type1 := TOOL_SOCK_TYPE1_TCP, type2 := TOOL_SOCK_TYPE2_CLIENT, timeout := 10, is_error := False,
     item_tick := tick, fd := dial_sock d \<rparr>"

lemma open_connects:
  assumes "connects d ip (port mod 65536)" "is_error item = False" "carries (opened d (manager_tick m) item, nt) (Suc k)"
  obtains nt' where
    "tool_sock_item_open_v2 d (Some m) (item, nt) TOOL_SOCK_TYPE1_TCP TOOL_SOCK_TYPE2_CLIENT (Some ip) port None 0
     = Inr (0, opened d (manager_tick m) item, m\<lparr> manager_count := manager_count m + 1 \<rparr>, nt')"
    "carries (opened d (manager_tick m) item, nt') k" "inbox nt' = inbox nt" "outbox nt' = outbox nt"
proof -
  let ?o = "opened d (manager_tick m) item"
  have o: "item\<lparr> item_tick := manager_tick m, type1 := TOOL_SOCK_TYPE1_TCP, type2 := TOOL_SOCK_TYPE2_CLIENT,
      timeout := TOOL_SOCK_TIMEOUT, fd := dial_sock d \<rparr> = ?o"
    using assms(2) by (simp add: opened_def TOOL_SOCK_TIMEOUT_def)
  have c: "prompt ?o (now nt) (now nt + timeout ?o) (steps nt)" "Suc k \<le> moves (steps nt)"
    using assms(3) by (simp_all add: carries_def)
  from connect_poll_all [OF c(1) order.refl c(2), of 0] obtain r nt' where
    "connect_poll (steps nt) (now nt) ?o nt 0 = Inr (r, nt')" "0 < r" and n: "outbox nt' = outbox nt"
    "inbox nt' = inbox nt" "now nt \<le> now nt'" "prompt ?o (now nt') (now nt + timeout ?o) (steps nt')" "k \<le> moves (steps nt')"
    by blast
  then have "tool_sock_item_connect (dial_conn d (Some ip) (port mod 65536)) (dial_err d) (?o, nt) = Inr (0, nt')"
    using assms(1) by (simp add: tool_sock_item_connect_def connects_def)
  then have "tool_sock_item_open_v2 d (Some m) (item, nt) TOOL_SOCK_TYPE1_TCP TOOL_SOCK_TYPE2_CLIENT (Some ip) port None 0
     = Inr (0, ?o, m\<lparr> manager_count := manager_count m + 1 \<rparr>, nt')"
    using assms(1) o by (simp add: connects_def tool_sock_item_open_v2_def tool_sock_init_def Let_def opened_def)
  moreover have "carries (?o, nt') k"
    using n(3-5) assms(3) by (auto simp: carries_def prompt_def)
  ultimately show ?thesis using n(1,2) by (intro that)
qed

lemma fill_eq:
  "length bytes \<le> length (data msg) \<Longrightarrow>
     qh_fill cmd len bytes msg = Inr (msg\<lparr> head := (head msg)\<lparr> h_len := len, h_cmd := cmd, h_ack := 0 \<rparr>,
       data := bytes @ drop (length bytes) (data msg) \<rparr>)"
  by (simp add: qh_fill_def buf_put_def)

lemma exchange_answered:
  assumes u: "msg_shape (qu_msg user)" "qu_type user = PTC_CMD_CFG2_BASE" "unat (h_len (head (qu_msg user))) = n" "n \<le> PTC_MSG_SIZE"
    and h: "framed hl bl" "h_cmd hl = PTC_CMD_USER_LOGIN" "h_ack hl \<noteq> PTC_ACK_ERROR_AUTH"
    and fed: "fed f (k + (32 + length bl) + (32 + n)) (head_bytes hl @ bl @ later) out (qu_sock_item user, sys_net sys)"
  shows "returns (login_exchange user sys) (\<lambda>(r, u, s). r = 0
    \<and> fed f k later (out @ head_bytes (head (msg_stamp (qu_msg user))) @ take n (data (qu_msg user))) (qu_sock_item u, sys_net s)
    \<and> msg_shape (qu_msg u) \<and> head (qu_msg u) = hl \<and> sys_manager s = sys_manager sys)"
proof -
  have types: "PTC_CMD_CFG2_BASE \<noteq> PTC_CMD_TALK_BASE" "PTC_CMD_CFG2_BASE \<noteq> PTC_CMD_RTS_BASE" "PTC_CMD_CFG2_BASE \<noteq> PTC_CMD_PBS_BASE"
    by (simp_all add: PTC_CMD_CFG2_BASE_def PTC_CMD_TALK_BASE_def PTC_CMD_RTS_BASE_def PTC_CMD_PBS_BASE_def)
  show ?thesis
    unfolding login_exchange_def doState_eq qh_report_eq Let_def prod.case returns_simps
    apply (rule qh_send_fed [of f "k + (32 + length bl)" n "head_bytes hl @ bl @ later" out])
    subgoal using fed by simp
    subgoal using u(1) by simp
    subgoal using u(3) by simp
    subgoal using u(4) .
    subgoal for item nt
      apply simp
      apply (rule qh_recv_fed [of f k bl hl later "out @ head_bytes (head (msg_stamp (qu_msg user))) @ take n (data (qu_msg user))"])
      using u h by (auto simp: types)
    done
qed

lemma login_answered:
  assumes d: "connects d (cstr (qu_ip_addr user)) ((qu_port user + PTC_PORT_OFFSET) mod 65536)"
    and u: "msg_shape (qu_msg user)" "qu_type user = PTC_CMD_CFG2_BASE" "is_error (qu_sock_item user) = False"
    and h: "framed hl bl" "h_cmd hl = PTC_CMD_USER_LOGIN" "h_ack hl \<noteq> PTC_ACK_ERROR_AUTH"
    and fed: "fed (dial_sock d) (Suc (k + (32 + length bl) + (32 + 80))) (head_bytes hl @ bl @ later) out
      (opened d (now (sys_net sys)) (qu_sock_item user), sys_net sys)"
  shows "returns (nc_qh_user_login d 0 user sys) (\<lambda>(r, u, s). r = 0
    \<and> fed (dial_sock d) k later (out @ head_bytes (login_head (head (qu_msg user))) @ login_bytes user) (qu_sock_item u, sys_net s)
    \<and> msg_shape (qu_msg u) \<and> head (qu_msg u) = hl \<and> manager_count (sys_manager s) = manager_count (sys_manager sys) + 1)"
proof -
  have len: "length (login_bytes (user\<lparr> qu_last_type := t, qu_sock_item := i \<rparr>)) = 80"
    "login_bytes (user\<lparr> qu_last_type := t, qu_sock_item := i \<rparr>) = login_bytes user" for t i
    by (simp_all add: length_login_bytes) (simp add: login_bytes_def)
  have shape: "80 \<le> length (data (qu_msg user))" using u(1) by (simp add: msg_shape_def PTC_MSG_SIZE_def)
  let ?m = "(qu_msg user)\<lparr> head := (head (qu_msg user))\<lparr> h_len := 80, h_cmd := PTC_CMD_USER_LOGIN, h_ack := 0 \<rparr>,
       data := login_bytes user @ drop 80 (data (qu_msg user)) \<rparr>"
  have m: "msg_shape ?m" using u(1) shape by (simp add: msg_shape_def head_ok_def length_login_bytes)
  have hd: "head (msg_stamp ?m) = login_head (head (qu_msg user))" by (simp add: login_head_def msg_stamp_def)
  let ?item = "opened d (now (sys_net sys)) (qu_sock_item user)"
  have c: "carries (?item, sys_net sys) (Suc (k + (32 + length bl) + (32 + 80)))" using fed by (simp add: fed_def)
  have c': "carries (opened d (manager_tick (qh_ticked sys)) (qu_sock_item user), sys_net sys)
      (Suc (k + (32 + length bl) + (32 + 80)))" using c by (simp add: qh_ticked_def)
  from open_connects [OF d u(3) c'] obtain nt' where
    op: "tool_sock_item_open_v2 d (Some (qh_ticked sys)) (qu_sock_item user, sys_net sys) TOOL_SOCK_TYPE1_TCP
        TOOL_SOCK_TYPE2_CLIENT (Some (cstr (qu_ip_addr user))) (qu_port user + PTC_PORT_OFFSET) None 0
      = Inr (0, ?item, (qh_ticked sys)\<lparr> manager_count := manager_count (sys_manager sys) + 1 \<rparr>, nt')"
    and nt': "carries (?item, nt') (k + (32 + length bl) + (32 + 80))" "inbox nt' = inbox (sys_net sys)" "outbox nt' = outbox (sys_net sys)"
    by (auto simp: qh_ticked_def)
  have fed': "fed (dial_sock d) (k + (32 + length bl) + (32 + 80)) (head_bytes hl @ bl @ later) out (?item, nt')"
    using fed nt' by (simp add: fed_def sock_incoming_def sock_outgoing_def)
  show ?thesis
    unfolding nc_qh_user_login_def doState_eq qh_report_eq Let_def prod.case
    apply (simp add: op qh_ticked_def [of "sys\<lparr>sys_calls := cs\<rparr>" for cs] qh_ticked_def [symmetric, of sys])
    apply (subst fill_eq)
    subgoal using shape by (simp add: length_login_bytes)
    apply (simp only: returns_simps len length_login_bytes)
    apply (rule returns_mono [OF exchange_answered [OF _ _ _ _ h, where n = 80 and f = "dial_sock d" and k = k
        and later = later and out = out]])
    subgoal using m by simp
    subgoal using u(2) by simp
    subgoal by simp
    subgoal by (simp add: PTC_MSG_SIZE_def)
    subgoal using fed' by simp
    subgoal using hd by (clarsimp simp: length_login_bytes)
    done
qed

lemma logout_answered:
  assumes "0 < f" "fed f (k + 32) inb out (qu_sock_item user, sys_net sys)" "msg_shape (qu_msg user)"
  shows "returns (nc_qh_user_logout 0 user sys) (\<lambda>(r, u, s). inbox (sys_net s) = inb
    \<and> outbox (sys_net s) = out @ head_bytes (logout_head (head (qu_msg user)))
    \<and> manager_count (sys_manager s) = manager_count (sys_manager sys) - 1)"
proof -
  have l: "0 < fd (qu_sock_item user)" using assms(1,2) by (simp add: fed_def)
  let ?m = "(qu_msg user)\<lparr> head := (head (qu_msg user))\<lparr> h_len := 0, h_cmd := PTC_CMD_USER_LOGOUT, h_ack := 0 \<rparr> \<rparr>"
  have hd: "head (msg_stamp ?m) = logout_head (head (qu_msg user))" by (simp add: logout_head_def msg_stamp_def)
  have m: "msg_shape ?m" using assms(3) by (simp add: msg_shape_def head_ok_def)
  have close: "inbox (sys_net s) = inbox (sys_net s1) \<and> outbox (sys_net s) = outbox (sys_net s1) \<and>
      manager_count (sys_manager s) = manager_count (sys_manager s1) - 1"
    if "qh_close 0 u1 s1 = (u, s)" "0 < fd (qu_sock_item u1)" for u1 s1 u s
    using that by (auto simp: qh_close_def tool_sock_item_close_def Let_def qh_ticked_def split: prod.splits if_splits)
  show ?thesis
    unfolding nc_qh_user_logout_def
    using l
    apply (simp add: tool_sock_item_isLive_def fill_eq live_def)
    apply (rule qh_send_fed [of f k 0 inb out])
    using assms(2) m hd assms(1) by (auto simp: fed_def sock_incoming_def sock_outgoing_def dest!: close)
qed

section \<open>A call that is answered\<close>

text \<open>The conditions of an answered call: what the camera sends, and a connection prompt enough for it.\<close>

definition answered :: "sock_dial \<Rightarrow> nc_dev \<Rightarrow> qh_sys \<Rightarrow> nat \<Rightarrow> ptc_head \<Rightarrow> u8 list \<Rightarrow> ptc_head \<Rightarrow> u8 list \<Rightarrow> u8 list \<Rightarrow> bool" where
  "answered d dev sys n hl bl hr br later \<longleftrightarrow>
     connects d (cfg_ip dev) (cfg_port dev) \<and> framed hl bl \<and> h_cmd hl = PTC_CMD_USER_LOGIN \<and> h_ack hl \<noteq> PTC_ACK_ERROR_AUTH \<and> framed hr br \<and>
     inbox (sys_net sys) = head_bytes hl @ bl @ head_bytes hr @ br @ later \<and>
     carries (opened d (now (sys_net sys)) item_zero, sys_net sys) (241 + n + length bl + length br)"

text \<open>The bytes a call puts on the wire: the login, the request and the logout.\<close>

definition call_wire :: "nc_dev \<Rightarrow> ptc_msg \<Rightarrow> ptc_head \<Rightarrow> u8 list" where
  "call_wire dev msg hl =
     head_bytes (login_head head_zero) @
     login_bytes (qh_user_for (dev_ip dev) (dev_msg_port dev) (dev_user dev) (dev_pswd dev) PTC_CMD_CFG2_BASE) @
     head_bytes (head (msg_stamp msg)) @ take (unat (h_len (head msg))) (data msg) @ head_bytes (logout_head hl)"

lemma doCfg_v2_answered:
  assumes a: "answered d dev sys (unat (h_len (head msg))) hl bl hr br later" "h_cmd hr = h_cmd (head msg)"
    and m: "msg_shape msg" "unat (h_len (head msg)) \<le> PTC_MSG_SIZE"
  shows "returns (nc_qh_user_doCfg_v2 d 0 dev msg sys) (\<lambda>(ret, msg', sys'). ret = 0
    \<and> msg' = (msg_stamp msg)\<lparr> head := hr, data := br @ 0 # drop (Suc (length br)) (data msg) \<rparr>
    \<and> inbox (sys_net sys') = later \<and> outbox (sys_net sys') = outbox (sys_net sys) @ call_wire dev msg hl
    \<and> manager_count (sys_manager sys') = manager_count (sys_manager sys))"
proof -
  let ?n = "unat (h_len (head msg))"
  let ?user = "qh_user_for (dev_ip dev) (dev_msg_port dev) (dev_user dev) (dev_pswd dev) PTC_CMD_CFG2_BASE"
  let ?out = "outbox (sys_net sys) @ head_bytes (login_head head_zero) @ login_bytes ?user"
  let ?f = "dial_sock d"
  note [simp] = a(1) [unfolded answered_def, THEN conjunct1]
  have d: "connects d (cstr (qu_ip_addr ?user)) ((qu_port ?user + PTC_PORT_OFFSET) mod 65536)" "0 < ?f" "framed hl bl" "h_cmd hl = PTC_CMD_USER_LOGIN" "h_ack hl \<noteq> PTC_ACK_ERROR_AUTH" "framed hr br"
    using a(1) by (simp_all add: answered_def connects_def cfg_ip_def cfg_port_def qh_user_for_def)
  have u: "msg_shape (qu_msg ?user)" "qu_type ?user = PTC_CMD_CFG2_BASE" "qu_sock_item ?user = item_zero" "head (qu_msg ?user) = head_zero"
    "is_error (qu_sock_item ?user) = False"
    by (simp_all add: item_zero_def qh_user_for_def msg_shape_def head_ok_def head_zero_def)
  let ?k = "32 + (32 + length br) + (32 + ?n)"
  have k: "241 + ?n + length bl + length br = Suc (?k + (32 + length bl) + (32 + 80))" by simp
  have "carries (opened d (now (sys_net sys)) item_zero, sys_net sys) (241 + ?n + length bl + length br)"
    "inbox (sys_net sys) = head_bytes hl @ bl @ head_bytes hr @ br @ later"
    using a(1) by (simp_all add: answered_def)
  then have fed: "fed ?f (Suc (?k + (32 + length bl) + (32 + 80))) (head_bytes hl @ bl @ head_bytes hr @ br @ later) (outbox (sys_net sys))
      (opened d (now (sys_net sys)) (qu_sock_item ?user), sys_net sys)"
    unfolding fed_def k u(3) by (simp add: sock_incoming_def sock_outgoing_def opened_def)
  have ex: "returns (tool_ptc_qh_sendMsg (qu_sock_item u, sys_net s) msg) (\<lambda>(r, msg', item, nt). r = 0 \<and> msg' = msg_stamp msg \<and>
      fed ?f (32 + (32 + length br)) (head_bytes hr @ br @ later) (?out @ head_bytes (head (msg_stamp msg)) @ take ?n (data msg)) (item, nt))"
    if "fed ?f ?k (head_bytes hr @ br @ later) ?out (qu_sock_item u, sys_net s)" for u s
    by (rule send_fed [OF that]) (use m in \<open>auto simp: msg_shape_def PTC_MSG_SIZE_def\<close>)
  have rx: "returns (tool_ptc_qh_recvMsg (item, nt) (msg_stamp msg)) (\<lambda>(r, msg', item, nt). r = 0 \<and>
      msg' = (msg_stamp msg)\<lparr> head := hr, data := br @ 0 # drop (Suc (length br)) (data msg) \<rparr> \<and> fed ?f 32 later o' (item, nt))"
    if "fed ?f (64 + length br) (head_bytes hr @ br @ later) o' (item, nt)" for item nt o'
    by (rule recv_fed [of ?f 32 br hr later o', OF _ d(6)]) (use m that in \<open>simp_all add: stamp_data\<close>)
  show ?thesis
    unfolding nc_qh_user_doCfg_v2_def Let_def qh_session_def
    apply (simp only: returns_simps)
    apply (rule returns_mono [OF login_answered [OF d(1) u(1,2,5) d(3-5) fed]])
    apply (clarsimp simp: u(4))
    apply (rule returns_mono [OF ex], simp)
    apply clarsimp
    apply (rule returns_mono [OF rx], assumption)
    apply (clarsimp simp: a(2))
    apply (rule returns_mono [OF logout_answered [OF d(2), of 0 later
        "?out @ head_bytes (head (msg_stamp msg)) @ take ?n (data msg)"]])
    subgoal by simp
    subgoal by simp
    apply (auto simp: call_wire_def)
    done
qed

section \<open>Reading and setting the WiFi configuration of a camera\<close>

text \<open>What the camera sends for a message object it has filled in.\<close>

definition sent_head :: "ptc_msg \<Rightarrow> ptc_head" where
  "sent_head msg = head (msg_stamp msg)"

definition sent_bytes :: "ptc_msg \<Rightarrow> u8 list" where
  "sent_bytes msg = take (unat (h_len (head msg))) (data msg)"

lemma printed_message:
  assumes "msg_shape buf" "length txt < PTC_MSG_SIZE"
  shows "framed (sent_head (msg_print txt buf)) (sent_bytes (msg_print txt buf))"
    "msg_shape (msg_print txt buf)" "unat (h_len (head (msg_print txt buf))) = length txt"
    "h_cmd (sent_head (msg_print txt buf)) = h_cmd (head buf)"
    "says (msg_text (m\<lparr> data := sent_bytes (msg_print txt buf) @ 0 # r \<rparr>)) txt"
proof -
  have big: "length txt < length (data buf)" using assms by (simp add: msg_shape_def)
  note p = print_data [OF big]
  show n: "unat (h_len (head (msg_print txt buf))) = length txt"
    using assms(2) by (simp add: p(3) unat_of_nat_u32 PTC_MSG_SIZE_def)
  show s: "msg_shape (msg_print txt buf)"
    using assms(1) p(2) by (simp add: msg_shape_def msg_print_def c_snprintf_def head_ok_def)
  have b: "sent_bytes (msg_print txt buf) = text_bytes txt" unfolding sent_bytes_def n by (rule p(1))
  show "framed (sent_head (msg_print txt buf)) (sent_bytes (msg_print txt buf))"
    using s n assms(2) unfolding b
    by (simp add: framed_def sent_head_def msg_stamp_def msg_shape_def head_ok_def text_bytes_def)
  show "h_cmd (sent_head (msg_print txt buf)) = h_cmd (head buf)"
    by (simp add: sent_head_def msg_stamp_def msg_print_def c_snprintf_def)
  show "says (msg_text (m\<lparr> data := sent_bytes (msg_print txt buf) @ 0 # r \<rparr>)) txt"
    using text_of_append [of "text_bytes txt" "0 # r"] by (auto simp: b says_def msg_text_def) (simp add: text_of_def char_of_def)
qed

lemma getWifi_says:
  assumes "says (msg_text m) (reply PTC_OK (wifi_fields c))" "wifi_ok c"
  shows "tool_ptc_qh_d2c_decode_getWifi m d = Inr (0, c)"
proof -
  note f = wifi_fields_ok [OF assms(2)]
  note says = assms(1) [unfolded reply_def]
  show ?thesis
    by (simp add: tool_ptc_qh_d2c_decode_getWifi_def read_result_ok [OF says f(2)] parsed_result_strings [OF says f(1,2)] f(3))
qed

lemma printed_call:
  assumes "length rtxt < PTC_MSG_SIZE" "length txt < PTC_MSG_SIZE" "msg_shape buf" "h_cmd (head buf) = cmd"
    and "req = msg_print rtxt (cfg_msg cmd)" "camera = msg_print txt buf"
    and "answered d dev sys (length (sent_bytes req)) hl bl (sent_head camera) (sent_bytes camera) later"
  shows "\<exists>msg' sys'. nc_qh_user_doCfg_v2 d 0 dev req sys = Inr (0, msg', sys') \<and> says (msg_text msg') txt
    \<and> outbox (sys_net sys') = outbox (sys_net sys) @ call_wire dev req hl \<and> inbox (sys_net sys') = later
    \<and> manager_count (sys_manager sys') = manager_count (sys_manager sys)"
proof -
  have blank: "msg_shape (cfg_msg cmd)" "h_cmd (head (cfg_msg cmd)) = cmd"
    by (simp_all add: cfg_msg_def msg_shape_def head_ok_def head_zero_def)
  note c = printed_message [OF assms(3,2)] and r = printed_message [OF blank(1) assms(1)]
  have n: "length (sent_bytes req) = unat (h_len (head req))"
    using r(1) by (simp add: assms(5) framed_def sent_head_def msg_stamp_def)
  have "h_cmd (sent_head camera) = h_cmd (head req)"
    using c(4) r(4) assms(4) blank(2) by (simp add: assms(5,6) sent_head_def msg_stamp_def)
  moreover have "msg_shape req" "unat (h_len (head req)) \<le> PTC_MSG_SIZE" using r(2,3) assms(1) by (simp_all add: assms(5))
  ultimately have "returns (nc_qh_user_doCfg_v2 d 0 dev req sys) (\<lambda>(ret, msg', sys'). ret = 0
      \<and> msg' = (msg_stamp req)\<lparr> head := sent_head camera, data := sent_bytes camera @ 0 # drop (Suc (length (sent_bytes camera))) (data req) \<rparr>
      \<and> inbox (sys_net sys') = later \<and> outbox (sys_net sys') = outbox (sys_net sys) @ call_wire dev req hl
      \<and> manager_count (sys_manager sys') = manager_count (sys_manager sys))"
    using assms(7) unfolding n by (intro doCfg_v2_answered)
  then show ?thesis using c(5) by (auto simp: returns_def assms(6))
qed

lemma wifi_text_short:
  assumes "wifi_ok c"
  shows "length (reply PTC_OK (wifi_fields c)) < PTC_MSG_SIZE" "length (request cmd (wifi_fields c)) < PTC_MSG_SIZE"
    "length (request cmd []) < PTC_MSG_SIZE" "length (reply PTC_OK []) < PTC_MSG_SIZE"
  using short_length [OF wifi_fields_ok(1) [OF assms]] short_length [of "[]"]
  by (simp_all add: reply_def request_def PTC_MSG_SIZE_def fmt_short short_fields_def)

text \<open>C2: 
  Reading the WiFi configuration of a camera: when the camera accepts the login and answers with the
  text of its configuration, over a connection prompt enough, \<^verbatim>\<open>nc_qh_getCfg_wifi\<close> returns 0 and exactly
  that configuration; the login, one request and the logout went out, the camera's bytes were used up
  and the socket was closed.
\<close>

theorem getCfg_wifi_fetches:
  assumes "wifi_ok c" "msg_shape buf" "h_cmd (head buf) = PTC_CMD_CFG2_GET_WIFI"
    and "camera = snd (tool_ptc_qh_d2c_encode_getWifi buf c)"
    and "req = snd (tool_ptc_qh_c2d_encode_getWifi (cfg_msg PTC_CMD_CFG2_GET_WIFI))"
    and "answered d dev sys (length (sent_bytes req)) hl bl (sent_head camera) (sent_bytes camera) later"
  shows "\<exists>sys'. nc_qh_getCfg_wifi True d 0 (Some dev) (Some c0) sys = Inr (0, Some c, sys')
    \<and> outbox (sys_net sys') = outbox (sys_net sys) @ call_wire dev req hl \<and> inbox (sys_net sys') = later
    \<and> manager_count (sys_manager sys') = manager_count (sys_manager sys)"
proof -
  note texts = wifi_text_short [OF assms(1)]
  have req: "req = msg_print (request PTC_CMD_CFG2_GET_WIFI []) (cfg_msg PTC_CMD_CFG2_GET_WIFI)"
    and cam: "camera = msg_print (reply PTC_OK (wifi_fields c)) buf"
    by (simp_all add: assms(4,5) tool_ptc_qh_d2c_encode_getWifi_def tool_ptc_qh_c2d_encode_getWifi_def)
  from printed_call [OF texts(3,1) assms(2,3) req cam assms(6)] obtain msg' sys' where
    call: "nc_qh_user_doCfg_v2 d 0 dev req sys = Inr (0, msg', sys')" "says (msg_text msg') (reply PTC_OK (wifi_fields c))"
      "outbox (sys_net sys') = outbox (sys_net sys) @ call_wire dev req hl" "inbox (sys_net sys') = later"
      "manager_count (sys_manager sys') = manager_count (sys_manager sys)"
    by blast
  then show ?thesis
    by (simp add: nc_qh_getCfg_wifi_def qh_cfg_call_def assms(5) [symmetric] getWifi_says [OF call(2) assms(1)] ret_or_0_def)
qed

text \<open>C7: 
  Setting it: \<^verbatim>\<open>nc_qh_setCfg_wifi\<close> returns 0 when the camera reports success, and the bytes of the one
  request it sent are a message in which the camera's decoder finds exactly the configuration given.
\<close>

theorem setCfg_wifi_applies:
  assumes "wifi_ok c" "msg_shape buf" "h_cmd (head buf) = PTC_CMD_CFG2_SET_WIFI"
    and "camera = snd (tool_ptc_qh_d2c_encode_setWifi buf)"
    and "req = snd (tool_ptc_qh_c2d_encode_setWifi (cfg_msg PTC_CMD_CFG2_SET_WIFI) c)"
    and "answered d dev sys (length (sent_bytes req)) hl bl (sent_head camera) (sent_bytes camera) later"
    and "data got = sent_bytes req @ 0 # junk"
  shows "\<exists>sys'. nc_qh_setCfg_wifi True d 0 (Some dev) (Some c) sys = Inr (0, Some c, sys')
    \<and> outbox (sys_net sys') = outbox (sys_net sys) @ call_wire dev req hl
    \<and> manager_count (sys_manager sys') = manager_count (sys_manager sys)
    \<and> tool_ptc_qh_c2d_decode_setWifi got c1 = Inr (0, c)"
proof -
  note texts = wifi_text_short [OF assms(1)]
  have req: "req = msg_print (request PTC_CMD_CFG2_SET_WIFI (wifi_fields c)) (cfg_msg PTC_CMD_CFG2_SET_WIFI)"
    by (simp add: assms(5) tool_ptc_qh_c2d_encode_setWifi_def)
  have cam: "camera = msg_print (reply PTC_OK []) buf"
    by (simp add: assms(4) tool_ptc_qh_d2c_encode_setWifi_def encode_done_def)
  from printed_call [OF texts(2,4) assms(2,3) req cam assms(6)] obtain msg' sys' where
    call: "nc_qh_user_doCfg_v2 d 0 dev req sys = Inr (0, msg', sys')" "says (msg_text msg') (reply PTC_OK [])"
      "outbox (sys_net sys') = outbox (sys_net sys) @ call_wire dev req hl" "inbox (sys_net sys') = later"
      "manager_count (sys_manager sys') = manager_count (sys_manager sys)"
    by blast
  have fin: "decode_done err msg' = Inr 0" for err
    by (simp add: decode_done_def read_result_ok [OF call(2) [unfolded reply_def]] json_calc)
  have "msg_shape (cfg_msg PTC_CMD_CFG2_SET_WIFI)" by (simp add: cfg_msg_def msg_shape_def head_ok_def head_zero_def)
  from printed_message(5) [OF this texts(2) [of PTC_CMD_CFG2_SET_WIFI], where m = got and r = junk] have
    "says (msg_text got) (request PTC_CMD_CFG2_SET_WIFI (wifi_fields c))"
    using assms(7) by (simp add: req msg_text_def)
  from setWifi_says [OF this assms(1)] call show ?thesis
    by (simp add: nc_qh_setCfg_wifi_def qh_cfg_call_def assms(5) [symmetric] set_done_def
        tool_ptc_qh_d2c_decode_setWifi_def fin ret_or_0_def)
qed

definition demo_peer :: "nat \<Rightarrow> u8 list \<Rightarrow> qh_sys" where
  "demo_peer n bs = \<lparr> sys_manager = \<lparr> manager_tick = 0, manager_count = 3, ys_port = 22000 \<rparr>,
     sys_net = demo_net n bs, sys_calls = [] \<rparr>"

definition login_reply :: ptc_msg where
  "login_reply = msg_print [] (cfg_msg PTC_CMD_USER_LOGIN)"

lemma demo_address: "cstr (array_strncpy 40 ''10.0.0.1'') = ''10.0.0.1''"
  by (simp add: array_strncpy_def cstr_def)

lemma demo_answered:
  assumes "framed hr br" "241 + n + length br \<le> k"
  shows "answered good_dial demo_dev (demo_peer k (head_bytes (sent_head login_reply) @ head_bytes hr @ br)) n
     (sent_head login_reply) [] hr br []"
proof -
  have "carries (opened good_dial 0 item_zero, demo_net k bs) (241 + n + length br)" for bs
    using assms(2)
    by (auto simp: carries_def opened_def good_dial_def item_zero_def demo_net_def prompt_def moves_def sorted_replicate
        filter_replicate map_replicate split: if_splits)
  then show ?thesis
    using assms(1)
    by (simp add: answered_def demo_peer_def connects_def cfg_ip_def cfg_port_def demo_dev_def PTC_PORT_OFFSET_def demo_address good_dial_def demo_net_def login_reply_def sent_head_def
        framed_def msg_stamp_def msg_print_def c_snprintf_def cfg_msg_def head_zero_def head_ok_def PTC_MSG_SIZE_def
        PTC_ACK_ERROR_AUTH_def)
qed

lemma cfg_msg_shape: "msg_shape (cfg_msg cmd)" "h_cmd (head (cfg_msg cmd)) = cmd"
  by (simp_all add: cfg_msg_def msg_shape_def head_ok_def head_zero_def)

theorem getCfg_wifi_fetches_witness:
  "\<exists>k bs sys'. nc_qh_getCfg_wifi True good_dial 0 (Some demo_dev) (Some wifi_zero) (demo_peer k bs) = Inr (0, Some demo_wifi, sys')
    \<and> inbox (sys_net sys') = [] \<and> manager_count (sys_manager sys') = 3"
proof -
  define camera where "camera = snd (tool_ptc_qh_d2c_encode_getWifi (cfg_msg PTC_CMD_CFG2_GET_WIFI) demo_wifi)"
  define req where "req = snd (tool_ptc_qh_c2d_encode_getWifi (cfg_msg PTC_CMD_CFG2_GET_WIFI))"
  define k where "k = 241 + length (sent_bytes req) + length (sent_bytes camera)"
  have "framed (sent_head camera) (sent_bytes camera)"
    unfolding camera_def tool_ptc_qh_d2c_encode_getWifi_def snd_conv
    by (rule printed_message(1) [OF cfg_msg_shape(1) wifi_text_short(1) [OF demo_wifi_ok]])
  from demo_answered [OF this, of "length (sent_bytes req)" k] obtain bs where
    "answered good_dial demo_dev (demo_peer k bs) (length (sent_bytes req)) (sent_head login_reply) [] (sent_head camera) (sent_bytes camera) []"
    by (auto simp: k_def)
  from getCfg_wifi_fetches [OF demo_wifi_ok cfg_msg_shape camera_def req_def this] show ?thesis
    by (fastforce simp: demo_peer_def)
qed

theorem setCfg_wifi_applies_witness:
  "\<exists>k bs sys' got. nc_qh_setCfg_wifi True good_dial 0 (Some demo_dev) (Some demo_wifi) (demo_peer k bs) = Inr (0, Some demo_wifi, sys')
    \<and> manager_count (sys_manager sys') = 3 \<and> tool_ptc_qh_c2d_decode_setWifi got wifi_zero = Inr (0, demo_wifi)"
proof -
  define camera where "camera = snd (tool_ptc_qh_d2c_encode_setWifi (cfg_msg PTC_CMD_CFG2_SET_WIFI))"
  define req where "req = snd (tool_ptc_qh_c2d_encode_setWifi (cfg_msg PTC_CMD_CFG2_SET_WIFI) demo_wifi)"
  define k where "k = 241 + length (sent_bytes req) + length (sent_bytes camera)"
  define got where "got = (cfg_msg 0)\<lparr> data := sent_bytes req @ 0 # [] \<rparr>"
  have "framed (sent_head camera) (sent_bytes camera)"
    unfolding camera_def tool_ptc_qh_d2c_encode_setWifi_def encode_done_def snd_conv
    by (rule printed_message(1) [OF cfg_msg_shape(1) wifi_text_short(4) [OF demo_wifi_ok]])
  from demo_answered [OF this, of "length (sent_bytes req)" k] obtain bs where
    "answered good_dial demo_dev (demo_peer k bs) (length (sent_bytes req)) (sent_head login_reply) [] (sent_head camera) (sent_bytes camera) []"
    by (auto simp: k_def)
  from setCfg_wifi_applies [OF demo_wifi_ok cfg_msg_shape camera_def req_def this, of got "[]"] show ?thesis
    by (fastforce simp: demo_peer_def got_def)
qed

end
