(* ===== verification/Nc_Search.thy ===== *)
theory Nc_Search
  imports Nc_Qh
begin

text \<open>
  The devices found in the local network: the broadcast search of the QH client and the list it keeps
  between searches (\<^verbatim>\<open>sab_app/jni/nc/nc_qh.c\<close>), and the search over all clients (\<^verbatim>\<open>nc.c\<close>). An entry is
  the 512 bytes of \<^verbatim>\<open>ptc_mcast_search_t\<close>, because entries arrive as datagrams and are compared as memory.
\<close>

section \<open>Entries\<close>

definition PTC_MCAST_SEARCH_SIZE :: nat where "PTC_MCAST_SEARCH_SIZE = 256"
definition PTC_CMD_MCAST_SEARCH_REQ :: u32 where "PTC_CMD_MCAST_SEARCH_REQ = 0x00060001"
definition PTC_CMD_MCAST_SEARCH_RESP :: u32 where "PTC_CMD_MCAST_SEARCH_RESP = 0x00060002"
definition PTC_BCAST_IP :: string where "PTC_BCAST_IP = ''255.255.255.255''"
definition PTC_BCAST_C2S_PORT :: int where "PTC_BCAST_C2S_PORT = 13001"
definition PTC_BCAST_S2C_PORT :: int where "PTC_BCAST_S2C_PORT = 13002"
definition NC_PTC_Qihan :: u32 where "NC_PTC_Qihan = 0"

type_synonym ptc_mcast_search = "u8 list"

definition mcast_dev_id :: "ptc_mcast_search \<Rightarrow> string" where
  "mcast_dev_id e = text_of (take 64 (drop 16 e))"

definition mcast_flag :: "ptc_mcast_search \<Rightarrow> u8" where
  "mcast_flag e = e ! 127"

definition mcast_ip1 :: "ptc_mcast_search \<Rightarrow> string" where
  "mcast_ip1 e = dotted (uint (e ! 132)) (uint (e ! 133)) (uint (e ! 134)) (uint (e ! 135))"

definition mcast_dev_port :: "ptc_mcast_search \<Rightarrow> int" where
  "mcast_dev_port e = uint (le16 (e ! 174) (e ! 175))"

definition mcast_typed :: "u32 \<Rightarrow> ptc_mcast_search \<Rightarrow> ptc_mcast_search" where
  "mcast_typed ptc e = take 508 e @ le4 ptc"

record ptc_mcast_searchs =
  ms_num :: nat
  ms_search :: "ptc_mcast_search list"

definition listed :: "ptc_mcast_searchs \<Rightarrow> ptc_mcast_search list" where
  "listed s = take (ms_num s) (ms_search s)"

text \<open>Storing behind the last entry; behind the array it would overwrite other memory.\<close>

definition mcast_add :: "ptc_mcast_search \<Rightarrow> ptc_mcast_searchs \<Rightarrow> ptc_mcast_searchs outcome" where
  "mcast_add e s =
     (if ms_num s < length (ms_search s)
      then Inr (s\<lparr> ms_search := (ms_search s)[ms_num s := e], ms_num := ms_num s + 1 \<rparr>) else Inl Fault)"

section \<open>Searching\<close>

text \<open>One round of the loop: the clock, what the poll returned, what \<^verbatim>\<open>recvfrom\<close> then delivered.\<close>

record search_round =
  sr_clock :: "int \<times> int"
  sr_poll :: int
  sr_datagram :: "u8 list option"

text \<open>
  An answer is compared with the first unused entry, as often as there are entries: \<open>searchs->num\<close>
  and not \<open>i\<close> is the index.
\<close>

definition mcast_answer :: "ptc_mcast_search \<Rightarrow> ptc_mcast_searchs \<Rightarrow> ptc_mcast_searchs outcome" where
  "mcast_answer e s =
     (if ms_num s > 0 \<and> ms_search s ! ms_num s = e then Inr s
      else mcast_add (mcast_typed NC_PTC_Qihan e) s)"

primrec searchDev_loop ::
  "search_round list \<Rightarrow> int \<times> int \<Rightarrow> tool_sock_item \<Rightarrow> ptc_msg \<Rightarrow> ptc_mcast_searchs
     \<Rightarrow> (tool_sock_item \<times> ptc_mcast_searchs) outcome" where
  "searchDev_loop [] tv item msg s = (if ms_num s \<ge> PTC_MCAST_SEARCH_SIZE then Inr (item, s) else Inl Fuel)"
| "searchDev_loop (r # rs) tv item msg s =
     (if ms_num s \<ge> PTC_MCAST_SEARCH_SIZE then Inr (item, s)
      else if tool_sysf_isTickTimeout (sr_clock r) (fst tv) (snd tv) (5000 * 1000) \<noteq> 0 then Inr (item, s)
      else let (ret, item) = tool_sock_item_pollRead (sr_poll r) item
      in if ret < 0 then Inr (item, s)
      else if ret = 0 then searchDev_loop rs tv item msg s
      else let (ret, msg) = tool_ptc_qh_recvfromMsg (sr_datagram r) (msg\<lparr> head := head_zero \<rparr>)
      in if ret < 0 then Inr (item, s)
      else if h_len (head msg) \<noteq> 512 then searchDev_loop rs tv item msg s
      else if h_cmd (head msg) = PTC_CMD_MCAST_SEARCH_RESP
      then andThen (mcast_answer (take 512 (data msg)) s) (\<lambda>s. searchDev_loop rs tv item msg s)
      else searchDev_loop rs tv item msg s)"

text \<open>Leaving the function: both sockets are closed on every path, opened or not.\<close>

definition search_leave ::
  "int \<times> int \<Rightarrow> int \<Rightarrow> tool_sock_item \<Rightarrow> tool_sock_item \<Rightarrow> tool_sock_manager \<Rightarrow> ptc_mcast_searchs
     \<Rightarrow> (int \<times> ptc_mcast_searchs \<times> tool_sock_manager) outcome" where
  "search_leave crets result c2s s2c m s =
     (let (c2s, m) = tool_sock_item_close (fst crets) m c2s;
          (s2c, m) = tool_sock_item_close (snd crets) m s2c
      in Inr (result, s, m))"

text \<open>A broadcast socket is opened without waiting: no rounds of its connection are looked at.\<close>

definition no_rounds :: net where
  "no_rounds = \<lparr> steps = [], now = 0, inbox = [], outbox = [] \<rparr>"

definition bcast_open ::
  "sock_dial \<Rightarrow> int \<Rightarrow> tool_sock_item \<Rightarrow> tool_sock_manager \<Rightarrow> (int \<times> tool_sock_item \<times> tool_sock_manager) outcome" where
  "bcast_open d port item m =
     andThen (tool_sock_item_open_v2 d (Some m) (item, no_rounds) TOOL_SOCK_TYPE1_BCAST TOOL_SOCK_TYPE2_NONE
       (Some PTC_BCAST_IP) port None port) (\<lambda>(r, item, m, nt). Inr (r, item, m))"

text \<open>
  \<open>d1\<close>, \<open>d2\<close>: the system calls that open the two sockets; \<open>c2s\<close>, \<open>s2c\<close>, \<open>msg\<close>: the uninitialised objects
  on the stack; \<open>sent\<close>: what \<^verbatim>\<open>sendto\<close> returns; \<open>tv\<close>: the clock when the request was sent.
\<close>

definition nc_qh_searchDev ::
  "sock_dial \<Rightarrow> sock_dial \<Rightarrow> int \<times> int \<Rightarrow> (u8 list \<Rightarrow> int) \<Rightarrow> int \<times> int \<Rightarrow> search_round list
     \<Rightarrow> tool_sock_item \<Rightarrow> tool_sock_item \<Rightarrow> ptc_msg \<Rightarrow> tool_sock_manager \<Rightarrow> ptc_mcast_searchs
     \<Rightarrow> (int \<times> ptc_mcast_searchs \<times> tool_sock_manager) outcome" where
  "nc_qh_searchDev d1 d2 crets sent tv rounds c2s s2c msg m s =
     (let s = s\<lparr> ms_num := 0 \<rparr>
      in andThen (bcast_open d1 PTC_BCAST_C2S_PORT c2s m) (\<lambda>(r, c2s, m).
         if r < 0 then search_leave crets NC_ERROR_INTERNAL c2s s2c m s
         else andThen (bcast_open d2 PTC_BCAST_S2C_PORT s2c m) (\<lambda>(r, s2c, m).
         if r < 0 then search_leave crets NC_ERROR_INTERNAL c2s s2c m s
         else andThen (tool_ptc_qh_sendtoMsg sent
                (msg\<lparr> head := head_zero\<lparr> h_cmd := PTC_CMD_MCAST_SEARCH_REQ \<rparr> \<rparr>)) (\<lambda>(r, msg).
         if r < 0 then search_leave crets NC_ERROR_SEND c2s s2c m s
         else andThen (searchDev_loop rounds tv s2c msg s) (\<lambda>(s2c, s).
              search_leave crets 0 c2s s2c m s)))))"

section \<open>The list kept between searches\<close>

definition same_device :: "string \<Rightarrow> ptc_mcast_search \<Rightarrow> bool" where
  "same_device dev_id e \<longleftrightarrow> c_strncmp dev_id (mcast_dev_id e) 64 = 0"

text \<open>The loop over the old entries, after their flags were counted down.\<close>

primrec keep_loop :: "ptc_mcast_search list \<Rightarrow> ptc_mcast_searchs \<Rightarrow> ptc_mcast_searchs outcome" where
  "keep_loop [] s = Inr s"
| "keep_loop (e # es) s =
     (if mcast_flag e = 0 \<or> mcast_flag e > 2 then keep_loop es s
      else if ms_num s = PTC_MCAST_SEARCH_SIZE then Inr s
      else if list_ex (\<lambda>x. c_strncmp (mcast_dev_id x) (mcast_dev_id e) 64 = 0) (listed s) then keep_loop es s
      else andThen (mcast_add e s) (keep_loop es))"

definition set_flags :: "(u8 \<Rightarrow> u8) \<Rightarrow> ptc_mcast_searchs \<Rightarrow> ptc_mcast_searchs" where
  "set_flags f s = s\<lparr> ms_search := map (\<lambda>e. e[127 := f (mcast_flag e)]) (listed s) @ drop (ms_num s) (ms_search s) \<rparr>"

text \<open>\<open>found\<close>: what the search has just delivered; \<open>old\<close>: the list of the client.\<close>

definition nc_qh_merge :: "ptc_mcast_searchs \<Rightarrow> ptc_mcast_searchs \<Rightarrow> ptc_mcast_searchs outcome" where
  "nc_qh_merge found old = keep_loop (listed (set_flags (\<lambda>x. x - 1) old)) (set_flags (\<lambda>_. 2) found)"

section \<open>Looking a device up\<close>

definition nc_qh_getSearchById :: "ptc_mcast_searchs \<Rightarrow> nc_dev \<Rightarrow> int \<times> nc_dev" where
  "nc_qh_getSearchById s dev =
     (case find (same_device (dev_dev_id dev)) (listed s) of
        None \<Rightarrow> (0, dev)
      | Some e \<Rightarrow> (1, dev\<lparr> dev_ptc := NC_PTC_Qihan,
          dev_ip := mcast_ip1 e @ [NUL] @ drop (length (mcast_ip1 e) + 1) (dev_ip dev),
          dev_msg_port := mcast_dev_port e, dev_stream_port := 0,
          dev_user := ''qihan'' @ replicate 27 NUL, dev_pswd := ''nahiq'' @ replicate 27 NUL \<rparr>))"

section \<open>All clients\<close>

text \<open>One of the four loops of \<^verbatim>\<open>nc_searchDev\<close>.\<close>

primrec collect_loop :: "ptc_mcast_search list \<Rightarrow> ptc_mcast_searchs \<Rightarrow> ptc_mcast_searchs outcome" where
  "collect_loop [] s = Inr s"
| "collect_loop (e # es) s =
     (if ms_num s \<ge> PTC_MCAST_SEARCH_SIZE then Inr s
      else if e \<in> set (listed s) then collect_loop es s
      else andThen (mcast_add e s) (collect_loop es))"

text \<open>The results of the searches of the four clients, which \<^verbatim>\<open>nc_searchDev\<close> has waited for.\<close>

definition nc_searchDev ::
  "ptc_mcast_searchs \<Rightarrow> ptc_mcast_searchs \<Rightarrow> ptc_mcast_searchs \<Rightarrow> ptc_mcast_searchs \<Rightarrow> ptc_mcast_searchs
     \<Rightarrow> (int \<times> ptc_mcast_searchs) outcome" where
  "nc_searchDev qh hy ys xm s =
     andThen (collect_loop (listed qh) (s\<lparr> ms_num := 0 \<rparr>)) (\<lambda>s.
     andThen (collect_loop (listed hy) s) (\<lambda>s.
     andThen (collect_loop (listed ys) s) (\<lambda>s.
     andThen (collect_loop (listed xm) s) (\<lambda>s. Inr (0, s)))))"

end
