(* ===== verification/Nc_Search_Rt.thy ===== *)
theory Nc_Search_Rt
  imports Nc_Search
begin

text \<open>
  The device lists of \<^verbatim>\<open>Nc_Search\<close>: the list of the QH client holds the devices of the last two
  searches, the search over all clients is the union of theirs without repetition, and the broadcast
  search lists every answer, repeated ones too.
\<close>

section \<open>Arrays of entries\<close>

definition devs_ok :: "ptc_mcast_searchs \<Rightarrow> bool" where
  "devs_ok s \<longleftrightarrow> length (ms_search s) = PTC_MCAST_SEARCH_SIZE \<and> ms_num s \<le> PTC_MCAST_SEARCH_SIZE
     \<and> (\<forall>e\<in>set (listed s). length e = 512)"

lemma length_listed [simp]: "devs_ok s \<Longrightarrow> length (listed s) = ms_num s"
  by (simp add: devs_ok_def listed_def)

lemma mcast_add_listed:
  assumes "devs_ok s" "ms_num s < PTC_MCAST_SEARCH_SIZE" "length e = 512"
  shows "\<exists>s'. mcast_add e s = Inr s' \<and> devs_ok s' \<and> listed s' = listed s @ [e] \<and> ms_num s' = ms_num s + 1
     \<and> (\<forall>i > ms_num s. ms_search s' ! i = ms_search s ! i)"
proof -
  have "take (ms_num s + 1) ((ms_search s)[ms_num s := e]) = take (ms_num s) (ms_search s) @ [e]"
    using assms by (simp add: devs_ok_def take_Suc_conv_app_nth)
  then show ?thesis using assms by (auto simp: mcast_add_def devs_ok_def listed_def)
qed

section \<open>The union of several searches\<close>

text \<open>The elements of a list in the order of their first occurrence.\<close>

definition first_seen :: "'a list \<Rightarrow> 'a list" where
  "first_seen xs = rev (remdups (rev xs))"

lemma first_seen_snoc: "first_seen (xs @ [x]) = first_seen xs @ (if x \<in> set xs then [] else [x])"
  by (simp add: first_seen_def)

lemma first_seen_prefix: "\<exists>zs. first_seen (xs @ ys) = first_seen xs @ zs"
proof (induction ys rule: rev_induct)
  case (snoc y ys)
  then show ?case using first_seen_snoc [of "xs @ ys" y] by auto
qed simp

lemma set_first_seen [simp]: "set (first_seen xs) = set xs"
  by (simp add: first_seen_def)

definition collected :: "ptc_mcast_search list \<Rightarrow> ptc_mcast_searchs \<Rightarrow> bool" where
  "collected xs s \<longleftrightarrow> devs_ok s \<and> listed s = take PTC_MCAST_SEARCH_SIZE (first_seen xs)"

lemma collect_loop_collects:
  assumes "collected xs s" "\<forall>e\<in>set es. length e = 512"
  shows "returns (collect_loop es s) (collected (xs @ es))"
  using assms
proof (induction es arbitrary: xs s)
  case (Cons e es)
  have ok: "devs_ok s" and l: "listed s = take PTC_MCAST_SEARCH_SIZE (first_seen xs)"
    using Cons.prems by (auto simp: collected_def)
  show ?case
  proof (cases "ms_num s \<ge> PTC_MCAST_SEARCH_SIZE")
    case True
    obtain zs where "first_seen (xs @ e # es) = first_seen xs @ zs" using first_seen_prefix by blast
    moreover have "length (listed s) = PTC_MCAST_SEARCH_SIZE" using ok True by (simp add: devs_ok_def)
    then have "length (first_seen xs) \<ge> PTC_MCAST_SEARCH_SIZE" using l by (simp add: min_def split: if_splits)
    ultimately show ?thesis using True ok l by (simp add: collected_def)
  next
    case False
    then have "length (listed s) < PTC_MCAST_SEARCH_SIZE" using ok by simp
    then have small: "length (first_seen xs) < PTC_MCAST_SEARCH_SIZE" "listed s = first_seen xs"
      using l by (auto simp: min_def split: if_splits)
    show ?thesis
    proof (cases "e \<in> set xs")
      case True
      then have "collected (xs @ [e]) s" using ok l by (simp add: collected_def first_seen_snoc)
      with Cons.IH [of "xs @ [e]" s] Cons.prems(2) False True small show ?thesis by simp
    next
      case new: False
      obtain s' where s': "mcast_add e s = Inr s'" "devs_ok s'" "listed s' = listed s @ [e]"
        using mcast_add_listed [OF ok] False Cons.prems(2) by force
      then have "collected (xs @ [e]) s'" using new small by (simp add: collected_def first_seen_snoc)
      with Cons.IH [of "xs @ [e]" s'] Cons.prems(2) False new small s'(1) show ?thesis by simp
    qed
  qed
qed simp

section \<open>The list kept between searches\<close>

text \<open>What identifies a device: the text in the 64 characters of its name.\<close>

definition dev_key :: "string \<Rightarrow> string" where
  "dev_key s = cstr (take 64 s)"

lemma c_strncmp_cstr: "c_strncmp a b n = 0 \<longleftrightarrow> cstr (take n a) = cstr (take n b)"
proof (induction a b n rule: c_strncmp.induct)
  case (2 a b n)
  then show ?case by (cases a; cases b) (auto simp: cstr_def Let_def)
qed (simp add: cstr_def)

definition keys :: "ptc_mcast_searchs \<Rightarrow> string set" where
  "keys s = dev_key ` mcast_dev_id ` set (listed s)"

lemma mcast_dev_id_flag [simp]: "mcast_dev_id (e[127 := x]) = mcast_dev_id e"
  by (simp add: mcast_dev_id_def drop_update_swap)

lemma mcast_flag_set [simp]: "length e = 512 \<Longrightarrow> mcast_flag (e[127 := x]) = x"
  by (simp add: mcast_flag_def)

lemma set_flags_ok:
  assumes "devs_ok s"
  shows "devs_ok (set_flags f s)" "listed (set_flags f s) = map (\<lambda>e. e[127 := f (mcast_flag e)]) (listed s)"
    "ms_num (set_flags f s) = ms_num s"
  using assms by (auto simp: devs_ok_def set_flags_def listed_def)

lemma keys_set_flags [simp]: "devs_ok s \<Longrightarrow> keys (set_flags f s) = keys s"
  by (simp add: keys_def set_flags_ok image_image)

text \<open>The entries that survive: those whose flag is still 1 or 2.\<close>

definition alive :: "ptc_mcast_search \<Rightarrow> bool" where
  "alive e \<longleftrightarrow> mcast_flag e = 1 \<or> mcast_flag e = 2"

lemma dead_iff: "mcast_flag e = 0 \<or> mcast_flag e > 2 \<longleftrightarrow> \<not> alive e"
proof -
  have "(x :: u8) = 0 \<or> x > 2 \<longleftrightarrow> \<not> (x = 1 \<or> x = 2)" for x :: u8
    by (auto simp: word_less_nat_alt word_unat_eq_iff)
  then show ?thesis by (simp add: alive_def)
qed

lemma known_iff:
  "list_ex (\<lambda>x. c_strncmp (mcast_dev_id x) (mcast_dev_id e) 64 = 0) (listed s) \<longleftrightarrow> dev_key (mcast_dev_id e) \<in> keys s"
  unfolding list_ex_iff c_strncmp_cstr keys_def dev_key_def image_iff by (simp add: bex_simps) metis

definition extends :: "ptc_mcast_search list \<Rightarrow> ptc_mcast_searchs \<Rightarrow> ptc_mcast_searchs \<Rightarrow> bool" where
  "extends es s s' \<longleftrightarrow> devs_ok s' \<and> (\<exists>zs. listed s' = listed s @ zs \<and> set zs \<subseteq> {e \<in> set es. alive e})
     \<and> (ms_num s' < PTC_MCAST_SEARCH_SIZE \<longrightarrow> dev_key ` mcast_dev_id ` {e \<in> set es. alive e} \<subseteq> keys s')"

lemma extends_keys: "extends es s s' \<Longrightarrow> keys s \<subseteq> keys s'"
  by (auto simp: extends_def keys_def)

lemma keep_loop_extends:
  assumes "devs_ok s" "\<forall>e\<in>set es. length e = 512"
  shows "returns (keep_loop es s) (extends es s)"
  using assms
proof (induction es arbitrary: s)
  case Nil
  then show ?case by (simp add: extends_def)
next
  case (Cons e es)
  note dead = dead_iff [of e]
  have len: "length e = 512" "\<forall>e\<in>set es. length e = 512" using Cons.prems by auto
  show ?case
  proof (cases "alive e")
    case False
    then have "mcast_flag e = 0 \<or> mcast_flag e > 2" using dead by blast
    with Cons.IH [OF Cons.prems(1) len(2)] False show ?thesis
      by (auto elim!: returns_mono simp: extends_def)
  next
    case True
    then have nd: "\<not> (mcast_flag e = 0 \<or> mcast_flag e > 2)" using dead by blast
    show ?thesis
    proof (cases "ms_num s = PTC_MCAST_SEARCH_SIZE")
      case full: True
      with nd Cons.prems(1) show ?thesis by (simp add: extends_def)
    next
      case room: False
      then have lt: "ms_num s < PTC_MCAST_SEARCH_SIZE" using Cons.prems(1) by (simp add: devs_ok_def)
      show ?thesis
      proof (cases "dev_key (mcast_dev_id e) \<in> keys s")
        case known: True
        have "extends (e # es) s s'" if "extends es s s'" for s'
          using that known extends_keys [OF that] by (auto simp: extends_def)
        with Cons.IH [OF Cons.prems(1) len(2)] nd room known show ?thesis
          by (auto elim!: returns_mono simp: known_iff)
      next
        case new: False
        obtain s1 where s1: "mcast_add e s = Inr s1" "devs_ok s1" "listed s1 = listed s @ [e]"
          using mcast_add_listed [OF Cons.prems(1) lt len(1)] by blast
        have "extends (e # es) s s'" if x: "extends es s1 s'" for s'
        proof -
          have "dev_key (mcast_dev_id e) \<in> keys s1" using s1(3) by (simp add: keys_def)
          with extends_keys [OF x] x s1(3) True show ?thesis by (auto simp: extends_def)
        qed
        with Cons.IH [OF s1(2) len(2)] nd room new s1(1) show ?thesis
          by (auto elim!: returns_mono simp: known_iff)
      qed
    qed
  qed
qed


text \<open>One search after the other, starting from the empty list of \<^verbatim>\<open>nc_qh_init\<close>.\<close>

definition devs_start :: ptc_mcast_searchs where
  "devs_start = \<lparr> ms_num = 0, ms_search = replicate PTC_MCAST_SEARCH_SIZE (replicate 512 0) \<rparr>"

primrec searches :: "ptc_mcast_searchs list \<Rightarrow> ptc_mcast_searchs \<Rightarrow> ptc_mcast_searchs outcome" where
  "searches [] s = Inr s"
| "searches (found # fs) s = andThen (nc_qh_merge found s) (searches fs)"

text \<open>The list after a search that found the devices \<open>new\<close>, the search before having found \<open>prev\<close>.\<close>

definition recent :: "string set \<Rightarrow> string set \<Rightarrow> ptc_mcast_searchs \<Rightarrow> bool" where
  "recent prev new s \<longleftrightarrow> devs_ok s \<and> (\<forall>e\<in>set (listed s). alive e)
     \<and> new \<subseteq> keys s \<and> keys s \<subseteq> new \<union> prev \<and> (ms_num s < PTC_MCAST_SEARCH_SIZE \<longrightarrow> prev \<subseteq> keys s)
     \<and> (\<forall>e\<in>set (listed s). mcast_flag e = 2 \<longrightarrow> dev_key (mcast_dev_id e) \<in> new)
     \<and> (\<forall>k\<in>new. \<exists>e\<in>set (listed s). mcast_flag e = 2 \<and> dev_key (mcast_dev_id e) = k)"

lemma recent_start: "recent {} {} devs_start"
  by (simp add: recent_def devs_start_def devs_ok_def listed_def keys_def)

lemma counted_down:
  assumes "length e = 512" "alive e"
  shows "alive (e[127 := mcast_flag e - 1]) \<longleftrightarrow> mcast_flag e = 2" "mcast_flag e = 2 \<Longrightarrow> mcast_flag (e[127 := mcast_flag e - 1]) = 1"
  using assms by (auto simp: alive_def)

lemma merge_recent:
  assumes "recent prev new s" "devs_ok found"
  shows "returns (nc_qh_merge found s) (recent new (keys found))"
proof -
  let ?old = "listed (set_flags (\<lambda>x. x - 1) s)" and ?f = "set_flags (\<lambda>_. 2) found"
  have s: "devs_ok s" "\<forall>e\<in>set (listed s). alive e \<and> length e = 512" using assms(1) by (auto simp: recent_def devs_ok_def)
  have old: "set ?old = (\<lambda>e. e[127 := mcast_flag e - 1]) ` set (listed s)" using set_flags_ok(2) [OF s(1)] by simp
  have f: "devs_ok ?f" "keys ?f = keys found" "\<forall>e\<in>set (listed ?f). mcast_flag e = 2"
    using set_flags_ok [OF assms(2)] assms(2) by (auto simp: devs_ok_def)
  have surv: "{e \<in> set ?old. alive e} = (\<lambda>e. e[127 := mcast_flag e - 1]) ` {e \<in> set (listed s). mcast_flag e = 2}"
    using counted_down(1) s(2) unfolding old by fastforce
  have one: "\<forall>e\<in>{e \<in> set ?old. alive e}. mcast_flag e = 1"
    using s(2) counted_down(2) unfolding surv by auto
  have ks: "dev_key ` mcast_dev_id ` {e \<in> set ?old. alive e} = new"
    using assms(1) unfolding surv by (auto simp: recent_def image_image)
  have "recent new (keys found) s'" if x: "extends ?old ?f s'" for s'
  proof -
    from x obtain zs where z: "listed s' = listed ?f @ zs" "set zs \<subseteq> {e \<in> set ?old. alive e}" by (auto simp: extends_def)
    have zk: "dev_key ` mcast_dev_id ` set zs \<subseteq> new" using z(2) ks by blast
    have "keys s' = keys ?f \<union> dev_key ` mcast_dev_id ` set zs" using z(1) by (simp add: keys_def image_Un)
    then have k: "keys found \<subseteq> keys s'" "keys s' \<subseteq> keys found \<union> new" using f(2) zk by blast+
    have one': "\<forall>e\<in>set zs. mcast_flag e = 1" using z(2) one by blast
    then have live: "\<forall>e\<in>set (listed s'). alive e" using f(3) z(1) by (auto simp: alive_def)
    have "\<forall>e\<in>set (listed s'). mcast_flag e = 2 \<longrightarrow> dev_key (mcast_dev_id e) \<in> keys ?f"
      using one' z(1) by (auto simp: keys_def)
    moreover have "\<forall>k\<in>keys ?f. \<exists>e\<in>set (listed s'). mcast_flag e = 2 \<and> dev_key (mcast_dev_id e) = k"
      using f(3) z(1) by (auto simp: keys_def)
    ultimately show ?thesis using x k live unfolding recent_def extends_def ks f(2) by simp
  qed
  moreover have "returns (keep_loop ?old ?f) (extends ?old ?f)"
    using keep_loop_extends [OF f(1)] s set_flags_ok(1) [OF s(1)] by (simp add: devs_ok_def)
  ultimately show ?thesis unfolding nc_qh_merge_def by (rule returns_mono [rotated])
qed


lemma searches_append: "searches (xs @ ys) s = andThen (searches xs s) (searches ys)"
  by (induction xs arbitrary: s) (auto simp: andThen_def split: sum.splits)

lemma searches_recent:
  assumes "\<forall>f\<in>set fs. devs_ok f"
  shows "returns (searches fs devs_start) (\<lambda>s. \<exists>prev new. recent prev new s)"
  using assms
proof (induction fs rule: rev_induct)
  case Nil
  then show ?case using recent_start by auto
next
  case (snoc f fs)
  then have "returns (searches fs devs_start) (\<lambda>s. \<exists>prev new. recent prev new s)" "devs_ok f" by auto
  then show ?case unfolding searches_append returns_simps
    by (elim returns_mono exE) (auto intro: returns_mono [OF merge_recent])
qed

section \<open>Looking a device up\<close>

lemma getSearchById_iff:
  "fst (nc_qh_getSearchById s dev) = 1 \<longleftrightarrow> dev_key (dev_dev_id dev) \<in> keys s"
  unfolding nc_qh_getSearchById_def
  by (auto simp: find_None_iff find_Some_iff same_device_def c_strncmp_cstr keys_def dev_key_def image_iff
      split: option.splits)

section \<open>The broadcast search\<close>

text \<open>
  What a search hears until its time is over: at any clock before, a poll that finds nothing, a message
  of this protocol that is not an answer (another length or another command), or an answer.
\<close>

definition in_time :: "int \<times> int \<Rightarrow> int \<times> int \<Rightarrow> bool" where
  "in_time tv c \<longleftrightarrow> tool_sysf_isTickTimeout c (fst tv) (snd tv) (5000 * 1000) = 0"

definition delivers :: "search_round \<Rightarrow> ptc_head \<Rightarrow> u8 list \<Rightarrow> bool" where
  "delivers r h bs \<longleftrightarrow> 0 < sr_poll r \<and> sr_datagram r = Some (head_bytes h @ bs) \<and> head_ok h \<and> h_flag h = PTC_FLAG
     \<and> unat (h_len h) \<le> PTC_MSG_SIZE \<and> length bs \<le> PTC_MSG_SIZE"

inductive hears :: "int \<times> int \<Rightarrow> search_round list \<Rightarrow> ptc_mcast_search list \<Rightarrow> bool" for tv where
  over: "hears tv [] []"
| nothing: "in_time tv (sr_clock r) \<Longrightarrow> sr_poll r = 0 \<Longrightarrow> hears tv rs es \<Longrightarrow> hears tv (r # rs) es"
| other: "in_time tv (sr_clock r) \<Longrightarrow> delivers r h bs \<Longrightarrow> h_len h \<noteq> 512 \<or> h_cmd h \<noteq> PTC_CMD_MCAST_SEARCH_RESP
    \<Longrightarrow> hears tv rs es \<Longrightarrow> hears tv (r # rs) es"
| answer: "in_time tv (sr_clock r) \<Longrightarrow> delivers r h e \<Longrightarrow> h_len h = 512 \<Longrightarrow> h_cmd h = PTC_CMD_MCAST_SEARCH_RESP
    \<Longrightarrow> length e = 512 \<Longrightarrow> hears tv rs es \<Longrightarrow> hears tv (r # rs) (e # es)"

lemma recv_delivered:
  assumes "delivers r h bs" "length (data msg) = PTC_MSG_SIZE"
  obtains d where "tool_ptc_qh_recvfromMsg (sr_datagram r) (msg\<lparr> head := head_zero \<rparr>) = (0, \<lparr> head = h, data = d \<rparr>)"
    "take (length bs) d = bs" "length d = PTC_MSG_SIZE"
proof -
  let ?img = "head_bytes h @ bs" and ?msg = "msg\<lparr> head := head_zero \<rparr>"
  have a: "sr_datagram r = Some ?img" "head_ok h" "h_flag h = PTC_FLAG" "unat (h_len h) \<le> PTC_MSG_SIZE" "length bs \<le> PTC_MSG_SIZE"
    using assms(1) by (simp_all add: delivers_def)
  have z: "head_ok head_zero" by (simp add: head_zero_def head_ok_def)
  have t: "take (32 + length (data ?msg)) ?img = ?img" using a assms(2) by simp
  have h: "head_of_bytes (head_bytes h @ bs @ x) = h" for x using head_of_head_bytes [OF a(2), of "bs @ x"] by simp
  show ?thesis
    using a(1,3-5) assms(2) z length_head_bytes [OF a(2)] length_head_bytes [OF z]
    by (intro that [of "bs @ drop (length bs) (data msg)"]) (simp_all add: tool_ptc_qh_recvfromMsg_def t h Let_def)
qed

lemma searchDev_loop_lists:
  assumes "hears tv rs es" "devs_ok s" "ms_num s + length es \<le> PTC_MCAST_SEARCH_SIZE" "\<not> is_error item"
    "length (data msg) = PTC_MSG_SIZE" "\<not> in_time tv (sr_clock r')"
    "\<forall>i<length es. ms_num s + i > 0 \<longrightarrow> ms_search s ! (ms_num s + i) \<noteq> es ! i"
  shows "\<exists>s'. searchDev_loop (rs @ [r']) tv item msg s = Inr (item, s')
     \<and> listed s' = listed s @ map (mcast_typed NC_PTC_Qihan) es"
  using assms
proof (induction arbitrary: s msg rule: hears.induct)
  case over
  then show ?case by (simp add: in_time_def)
next
  case (nothing r rs es)
  show ?case
  proof (cases "PTC_MCAST_SEARCH_SIZE \<le> ms_num s")
    case True
    then have "es = []" using nothing.prems(2) by (cases es) auto
    with True show ?thesis by simp
  next
    case False
    then show ?thesis
      using nothing.IH [OF nothing.prems] nothing.hyps(1,2) nothing.prems(3)
      by (simp add: tool_sock_item_pollRead_def in_time_def)
  qed
next
  case (other r h bs rs es)
  show ?case
  proof (cases "PTC_MCAST_SEARCH_SIZE \<le> ms_num s")
    case True
    then have "es = []" using other.prems(2) by (cases es) auto
    with True show ?thesis by simp
  next
    case False
    obtain d where d: "tool_ptc_qh_recvfromMsg (sr_datagram r) (msg\<lparr> head := head_zero \<rparr>) = (0, \<lparr> head = h, data = d \<rparr>)"
      "length d = PTC_MSG_SIZE" using recv_delivered [OF other.hyps(2) other.prems(4)] by blast
    have "0 < sr_poll r" using other.hyps(2) by (simp add: delivers_def)
    with False d other.IH [of s "\<lparr> head = h, data = d \<rparr>"] other.hyps(1,3) other.prems show ?thesis
      by (auto simp: tool_sock_item_pollRead_def in_time_def)
  qed
next
  case (answer r h e rs es)
  let ?e = "mcast_typed NC_PTC_Qihan e"
  have e: "length ?e = 512" using answer.hyps(5) by (simp add: mcast_typed_def le4_def)
  have lt: "ms_num s < PTC_MCAST_SEARCH_SIZE" using answer.prems(2) by simp
  obtain s1 where s1: "mcast_add ?e s = Inr s1" "devs_ok s1" "listed s1 = listed s @ [?e]" "ms_num s1 = ms_num s + 1"
    "\<forall>i > ms_num s. ms_search s1 ! i = ms_search s ! i"
    using mcast_add_listed [OF answer.prems(1) lt e] by blast
  have "ms_num s > 0 \<longrightarrow> ms_search s ! ms_num s \<noteq> e" using spec [OF answer.prems(6), of 0] by simp
  then have ans: "mcast_answer e s = Inr s1" using s1(1) by (auto simp: mcast_answer_def)
  obtain d where d: "tool_ptc_qh_recvfromMsg (sr_datagram r) (msg\<lparr> head := head_zero \<rparr>) = (0, \<lparr> head = h, data = d \<rparr>)"
    "take 512 d = e" "length d = PTC_MSG_SIZE" using recv_delivered [OF answer.hyps(2) answer.prems(4)] answer.hyps(5) by auto
  have unused: "\<forall>i<length es. ms_num s1 + i > 0 \<longrightarrow> ms_search s1 ! (ms_num s1 + i) \<noteq> es ! i"
  proof (intro allI impI)
    fix i assume "i < length es"
    then show "ms_search s1 ! (ms_num s1 + i) \<noteq> es ! i" using spec [OF answer.prems(6), of "Suc i"] s1(4,5) by simp
  qed
  have "ms_num s1 + length es \<le> PTC_MCAST_SEARCH_SIZE" using answer.prems(2) s1(4) by simp
  from answer.IH [OF s1(2) this answer.prems(3) _ answer.prems(5) unused, of "\<lparr> head = h, data = d \<rparr>"] d(3) obtain s' where
    s': "searchDev_loop (rs @ [r']) tv item \<lparr> head = h, data = d \<rparr> s1 = Inr (item, s')"
      "listed s' = listed s1 @ map (mcast_typed NC_PTC_Qihan) es" by auto
  have "0 < sr_poll r" using answer.hyps(2) by (simp add: delivers_def)
  with lt d ans s' s1(3) answer.hyps(1,3,4) answer.prems(3) show ?case
    by (simp add: tool_sock_item_pollRead_def in_time_def)
qed

lemma send_request:
  assumes "length (data msg) = PTC_MSG_SIZE" "\<forall>b. sent b = int (length b)"
  shows "\<exists>msg'. tool_ptc_qh_sendtoMsg sent (msg\<lparr> head := head_zero\<lparr> h_cmd := cmd \<rparr> \<rparr>) = Inr (0, msg')
     \<and> length (data msg') = PTC_MSG_SIZE"
proof -
  have "head_ok (head (msg_stamp (msg\<lparr> head := head_zero\<lparr> h_cmd := cmd \<rparr> \<rparr>)))"
    by (simp add: msg_stamp_def head_zero_def head_ok_def)
  then show ?thesis using assms
    by (simp add: tool_ptc_qh_sendtoMsg_def msg_image_def int32_id Let_def) (simp add: msg_stamp_def head_zero_def int32_id)
qed

definition opens :: "sock_dial \<Rightarrow> int \<Rightarrow> bool" where
  "opens d port \<longleftrightarrow> 0 \<le> dial_addr d (Some PTC_BCAST_IP) port \<and> 0 \<le> dial_addr d None port \<and> 0 < dial_sock d \<and> 0 \<le> dial_bind d"

lemma open_bcast:
  assumes "opens d (port mod 65536)"
  shows "bcast_open d port item m
    = Inr (0, item\<lparr> item_tick := manager_tick m, type1 := TOOL_SOCK_TYPE1_BCAST, type2 := TOOL_SOCK_TYPE2_NONE,
        timeout := 10, fd := dial_sock d, is_error := False \<rparr>, m\<lparr> manager_count := manager_count m + 1 \<rparr>)"
  using assms
  by (simp add: bcast_open_def opens_def tool_sock_item_open_v2_def tool_sock_init_def TOOL_SOCK_TIMEOUT_def Let_def)

section \<open>Properties\<close>

text \<open>The demonstration device, as an entry of a list.\<close>

definition demo_entry :: "string \<Rightarrow> ptc_mcast_search" where
  "demo_entry name = replicate 16 0 @ text_bytes name @ replicate (496 - length name) 0"

definition demo_found :: "ptc_mcast_search list \<Rightarrow> ptc_mcast_searchs" where
  "demo_found es = \<lparr> ms_num = length es, ms_search = es @ replicate (256 - length es) (replicate 512 0) \<rparr>"

lemma demo_entry_facts:
  "length (demo_entry ''qh-1'') = 512" "length (demo_entry ''qh-2'') = 512" "demo_entry ''qh-1'' \<noteq> demo_entry ''qh-2''"
  "dev_key (mcast_dev_id (demo_entry ''qh-1'')) = ''qh-1''" "dev_key (mcast_dev_id (demo_entry ''qh-2'')) = ''qh-2''"
  by (simp_all add: demo_entry_def text_bytes_def mcast_dev_id_def dev_key_def text_of_def cstr_def char_of_def bit_0)

lemma demo_found_ok: "length es \<le> 256 \<Longrightarrow> \<forall>e\<in>set es. length e = 512 \<Longrightarrow> devs_ok (demo_found es)"
  "listed (demo_found es) = es"
  by (auto simp: demo_found_def devs_ok_def listed_def PTC_MCAST_SEARCH_SIZE_def)

text \<open>C8: 
  The list kept between searches holds the devices of the last two: after any number of searches, a
  device that answered the last one is found, one that answered neither of the last two is not, and
  one that only answered the search before is found as long as the list is not full. No search
  writes outside the array.
\<close>

theorem devices_of_last_two_searches:
  assumes "\<forall>f\<in>set fs. devs_ok f" "devs_ok a" "devs_ok b"
  shows "returns (searches (fs @ [a, b]) devs_start) (\<lambda>s. devs_ok s \<and> (\<forall>dev.
       let found = fst (nc_qh_getSearchById s dev) = 1; k = dev_key (dev_dev_id dev)
       in (k \<in> keys b \<longrightarrow> found) \<and> (found \<longrightarrow> k \<in> keys a \<union> keys b)
        \<and> (k \<in> keys a \<and> ms_num s < PTC_MCAST_SEARCH_SIZE \<longrightarrow> found)))"
proof -
  have "returns (searches fs devs_start) (\<lambda>s. \<exists>prev new. recent prev new s)" using searches_recent assms(1) .
  then have "returns (searches (fs @ [a, b]) devs_start) (recent (keys a) (keys b))"
    unfolding searches_append searches.simps returns_simps
    by (elim returns_mono exE) (auto intro!: returns_mono [OF merge_recent [OF _ assms(2)]] merge_recent [OF _ assms(3)])
  then show ?thesis by (rule returns_mono) (auto simp: recent_def getSearchById_iff Let_def)
qed

theorem devices_of_last_two_searches_witness:
  "\<exists>s. searches [demo_found [demo_entry ''qh-2''], demo_found [demo_entry ''qh-1'']] devs_start = Inr s
     \<and> fst (nc_qh_getSearchById s \<lparr> dev_ptc = 0, dev_dev_id = ''qh-1'', dev_ip = [], dev_msg_port = 0,
           dev_stream_port = 0, dev_user = [], dev_pswd = [] \<rparr>) = 1"
proof -
  let ?dev = "\<lparr> dev_ptc = 0, dev_dev_id = ''qh-1'', dev_ip = [], dev_msg_port = 0, dev_stream_port = 0, dev_user = [], dev_pswd = [] \<rparr>"
  have "dev_key (dev_dev_id ?dev) \<in> keys (demo_found [demo_entry ''qh-1''])"
    by (simp add: keys_def demo_found_ok demo_entry_facts) (simp add: dev_key_def cstr_def)
  then show ?thesis
    using devices_of_last_two_searches [of "[]" "demo_found [demo_entry ''qh-2'']" "demo_found [demo_entry ''qh-1'']"]
    by (auto simp: returns_def demo_found_ok demo_entry_facts Let_def)
qed

text \<open>C9: 
  The search over all clients returns what the four searches found, each entry once and in the order
  of the clients, cut at the 256 places of the array.
\<close>

theorem nc_searchDev_union:
  assumes "devs_ok qh" "devs_ok hy" "devs_ok ys" "devs_ok xm" "devs_ok s"
  shows "\<exists>s'. nc_searchDev qh hy ys xm s = Inr (0, s') \<and> devs_ok s'
     \<and> listed s' = take PTC_MCAST_SEARCH_SIZE (first_seen (listed qh @ listed hy @ listed ys @ listed xm))"
proof -
  have e: "\<forall>e\<in>set (listed x). length e = 512" if "devs_ok x" for x using that by (simp add: devs_ok_def)
  have "collected [] (s\<lparr> ms_num := 0 \<rparr>)"
    using assms(5) by (simp add: collected_def devs_ok_def listed_def first_seen_def)
  then have "returns (nc_searchDev qh hy ys xm s)
      (\<lambda>(r, s'). r = 0 \<and> collected (((([] @ listed qh) @ listed hy) @ listed ys) @ listed xm) s')"
    unfolding nc_searchDev_def returns_simps
    by (intro returns_mono [OF collect_loop_collects] e assms(1-4)) (assumption | simp only: prod.case simp_thms)+
  then show ?thesis by (auto simp: returns_def collected_def)
qed

theorem nc_searchDev_union_witness:
  "\<exists>s'. nc_searchDev (demo_found [demo_entry ''qh-1'']) (demo_found []) (demo_found [demo_entry ''qh-2'', demo_entry ''qh-1''])
       (demo_found []) devs_start = Inr (0, s') \<and> listed s' = [demo_entry ''qh-1'', demo_entry ''qh-2'']"
proof -
  have "devs_ok devs_start" using recent_start by (simp add: recent_def)
  then show ?thesis
    using nc_searchDev_union [of "demo_found [demo_entry ''qh-1'']" "demo_found []"
        "demo_found [demo_entry ''qh-2'', demo_entry ''qh-1'']" "demo_found []" devs_start]
    by (auto simp: demo_found_ok demo_entry_facts demo_entry_facts(3) [symmetric] first_seen_def PTC_MCAST_SEARCH_SIZE_def)
qed

text \<open>C33: A broadcast search lists every answer that arrives in time, in the order of arrival, whatever polls
  find nothing and whatever other messages of the protocol arrive in between, at whatever clocks: also a
  second answer of the same device, because answers are compared with the unused entry behind the last
  one (none of which may happen to hold the answer already). At most 256 answers arrive. The search
  leaves as many sockets open as before.\<close>

theorem searchDev_lists_every_answer:
  assumes "hears tv rs es" "\<not> in_time tv (sr_clock r')" "length es \<le> PTC_MCAST_SEARCH_SIZE" "devs_ok s"
    and "\<forall>i<length es. i > 0 \<longrightarrow> ms_search s ! i \<noteq> es ! i"
    and "length (data msg) = PTC_MSG_SIZE" "\<forall>b. sent b = int (length b)"
    and "opens d1 PTC_BCAST_C2S_PORT" "opens d2 PTC_BCAST_S2C_PORT"
  shows "\<exists>s' m'. nc_qh_searchDev d1 d2 (0, 0) sent tv (rs @ [r']) c2s s2c msg m s = Inr (0, s', m')
     \<and> listed s' = map (mcast_typed NC_PTC_Qihan) es \<and> manager_count m' = manager_count m"
proof -
  have ok: "devs_ok (s\<lparr> ms_num := 0 \<rparr>)" "listed (s\<lparr> ms_num := 0 \<rparr>) = []" using assms(4) by (simp_all add: devs_ok_def listed_def)
  have loop: "\<exists>s'. searchDev_loop (rs @ [r']) tv item msg' (s\<lparr> ms_num := 0 \<rparr>) = Inr (item, s')
      \<and> listed s' = map (mcast_typed NC_PTC_Qihan) es"
    if "\<not> is_error item" "length (data msg') = PTC_MSG_SIZE" for item msg'
    using searchDev_loop_lists [OF assms(1) ok(1) _ that assms(2)] assms(3,5) ok(2) by simp
  obtain msg' where snd: "tool_ptc_qh_sendtoMsg sent (msg\<lparr> head := head_zero\<lparr> h_cmd := PTC_CMD_MCAST_SEARCH_REQ \<rparr> \<rparr>) = Inr (0, msg')"
      "length (data msg') = PTC_MSG_SIZE"
    using send_request [OF assms(6,7)] by blast
  define i1 where "i1 = c2s\<lparr> item_tick := manager_tick m, type1 := TOOL_SOCK_TYPE1_BCAST, type2 := TOOL_SOCK_TYPE2_NONE,
      timeout := 10, fd := dial_sock d1, is_error := False \<rparr>"
  define i2 where "i2 = s2c\<lparr> item_tick := manager_tick m, type1 := TOOL_SOCK_TYPE1_BCAST, type2 := TOOL_SOCK_TYPE2_NONE,
      timeout := 10, fd := dial_sock d2, is_error := False \<rparr>"
  obtain s' where "searchDev_loop (rs @ [r']) tv i2 msg' (s\<lparr> ms_num := 0 \<rparr>) = Inr (i2, s')"
      "listed s' = map (mcast_typed NC_PTC_Qihan) es"
    using loop [of i2 msg'] snd(2) by (auto simp: i2_def)
  moreover have "fd i1 > 0" "fd i2 > 0" using assms(8,9) by (simp_all add: i1_def i2_def opens_def)
  moreover have "opens d1 (PTC_BCAST_C2S_PORT mod 65536)" "opens d2 (PTC_BCAST_S2C_PORT mod 65536)"
    using assms(8,9) by (simp_all add: PTC_BCAST_C2S_PORT_def PTC_BCAST_S2C_PORT_def)
  ultimately show ?thesis
    using snd(1) unfolding nc_qh_searchDev_def
    by (simp add: open_bcast i1_def [symmetric] i2_def [symmetric] search_leave_def tool_sock_item_close_def Let_def)
qed

text \<open>
  Polls that find nothing, a heartbeat of the protocol, and the same device twice: listed twice.
\<close>

definition answer_head :: ptc_head where
  "answer_head = head_zero\<lparr> h_flag := PTC_FLAG, h_cmd := PTC_CMD_MCAST_SEARCH_RESP, h_len := 512 \<rparr>"

definition demo_rounds :: "search_round list" where
  "demo_rounds =
     [\<lparr> sr_clock = (0, 100000), sr_poll = 0, sr_datagram = None \<rparr>,
      \<lparr> sr_clock = (1, 0), sr_poll = 1, sr_datagram = Some (head_bytes answer_head @ demo_entry ''qh-1'') \<rparr>,
      \<lparr> sr_clock = (1, 100000), sr_poll = 0, sr_datagram = None \<rparr>,
      \<lparr> sr_clock = (2, 0), sr_poll = 1, sr_datagram = Some (head_bytes (answer_head\<lparr> h_len := 0 \<rparr>) @ []) \<rparr>,
      \<lparr> sr_clock = (4, 0), sr_poll = 1, sr_datagram = Some (head_bytes answer_head @ demo_entry ''qh-1'') \<rparr>]"

lemma demo_hears: "hears (0, 0) demo_rounds [demo_entry ''qh-1'', demo_entry ''qh-1'']"
proof -
  have t: "in_time (0, 0) (0, 100000)" "in_time (0, 0) (1, 0)" "in_time (0, 0) (1, 100000)" "in_time (0, 0) (2, 0)"
    "in_time (0, 0) (4, 0)"
    by (simp_all add: in_time_def tool_sysf_isTickTimeout_def tick_elapsed_def int32_id)
  have a: "delivers \<lparr> sr_clock = c, sr_poll = 1, sr_datagram = Some (head_bytes answer_head @ demo_entry ''qh-1'') \<rparr>
      answer_head (demo_entry ''qh-1'')" for c
    by (simp add: delivers_def answer_head_def head_zero_def head_ok_def PTC_MSG_SIZE_def demo_entry_facts)
  have o: "delivers \<lparr> sr_clock = c, sr_poll = 1, sr_datagram = Some (head_bytes (answer_head\<lparr> h_len := 0 \<rparr>) @ []) \<rparr>
      (answer_head\<lparr> h_len := 0 \<rparr>) []" for c
    by (simp add: delivers_def answer_head_def head_zero_def head_ok_def)
  show ?thesis unfolding demo_rounds_def
    apply (rule hears.nothing, simp add: t, simp)
    apply (rule hears.answer [OF _ a], simp add: t, simp add: answer_head_def, simp add: answer_head_def, simp add: demo_entry_facts)
    apply (rule hears.nothing, simp add: t, simp)
    apply (rule hears.other [OF _ o], simp add: t, simp)
    apply (rule hears.answer [OF _ a], simp add: t, simp add: answer_head_def, simp add: answer_head_def, simp add: demo_entry_facts)
    apply (rule hears.over)
    done
qed

definition bcast_dial :: sock_dial where
  "bcast_dial = \<lparr> dial_addr = (\<lambda>_ _. 0), dial_sock = 5, dial_bind = 0, dial_listen = 0, dial_conn = (\<lambda>_ _. - 1), dial_err = 0 \<rparr>"

theorem searchDev_lists_every_answer_witness:
  "let d = bcast_dial; e = demo_entry ''qh-1''; m = \<lparr> manager_tick = 0, manager_count = 3, ys_port = 22000 \<rparr>
   in \<exists>s' m'. nc_qh_searchDev d d (0, 0) (\<lambda>b. int (length b)) (0, 0)
       (demo_rounds @ [\<lparr> sr_clock = (9, 0), sr_poll = 0, sr_datagram = None \<rparr>])
       item_zero item_zero (cfg_msg 0) m devs_start = Inr (0, s', m')
     \<and> listed s' = [mcast_typed NC_PTC_Qihan e, mcast_typed NC_PTC_Qihan e] \<and> manager_count m' = 3"
proof -
  let ?e = "demo_entry ''qh-1''" and ?m = "\<lparr> manager_tick = 0, manager_count = 3, ys_port = 22000 \<rparr>"
  have ok: "devs_ok devs_start" using recent_start by (simp add: recent_def)
  have ne: "replicate 512 0 \<noteq> ?e" by (simp add: demo_entry_def text_bytes_def list_eq_iff_nth_eq) (rule exI [of _ 16], simp add: nth_append)
  have t: "\<not> in_time (0, 0) (sr_clock \<lparr> sr_clock = (9, 0), sr_poll = 0, sr_datagram = None \<rparr>)"
    by (simp add: in_time_def tool_sysf_isTickTimeout_def tick_elapsed_def int32_id)
  have st: "\<forall>i<length [?e, ?e]. i > 0 \<longrightarrow> ms_search devs_start ! i \<noteq> [?e, ?e] ! i"
    using ne by (auto simp: devs_start_def PTC_MCAST_SEARCH_SIZE_def less_Suc_eq)
  have d: "opens bcast_dial port" for port by (simp add: opens_def bcast_dial_def)
  have "\<exists>s' m'. nc_qh_searchDev bcast_dial bcast_dial (0, 0) (\<lambda>b. int (length b)) (0, 0)
       (demo_rounds @ [\<lparr> sr_clock = (9, 0), sr_poll = 0, sr_datagram = None \<rparr>])
       item_zero item_zero (cfg_msg 0) ?m devs_start = Inr (0, s', m')
     \<and> listed s' = map (mcast_typed NC_PTC_Qihan) [?e, ?e] \<and> manager_count m' = manager_count ?m"
    by (rule searchDev_lists_every_answer [OF demo_hears t _ ok st _ _ d d])
      (simp_all add: PTC_MCAST_SEARCH_SIZE_def cfg_msg_def)
  then show ?thesis by (simp add: Let_def)
qed

end
