(* ===== verification/Nc_Table.thy ===== *)
theory Nc_Table
  imports Nc_User Nc_Search Tool_Stream3
begin

text \<open>
  The table of users of the QH client (\<^verbatim>\<open>sab_app/jni/nc/nc_qh.c\<close>): starting the client, starting and
  stopping users, closing it, and the functions of the interface that name a user by its number. The
  memory and the threads are those counted in \<^verbatim>\<open>Tool_Sysf\<close>. What a user's thread does between start
  and stop is \<^verbatim>\<open>Nc_User\<close>.
\<close>

section \<open>State\<close>

definition NC_QH_USER_SIZE :: nat where "NC_QH_USER_SIZE = 128"
definition NC_QH_RTS_POOL_SIZE :: u32 where "NC_QH_RTS_POOL_SIZE = 4 * 1024 * 1024"
definition NC_QH_PBS_POOL_SIZE :: u32 where "NC_QH_PBS_POOL_SIZE = 4 * 1024 * 1024"

text \<open>\<^verbatim>\<open>sizeof (ptc_frame_t)\<close> and \<^verbatim>\<open>sizeof (ptc_frame_video_t)\<close>: a head of 32 bytes and 500 KB.\<close>

definition frame_object_size :: u32 where "frame_object_size = 512032"

text \<open>
  A user as it stands in the table: the fields of \<^verbatim>\<open>Nc_User\<close> and those of the table, with the
  pointers to the objects a user owns.
\<close>

record qh_slot = nc_qh_user +
  qs_is_used :: bool
  qs_state :: bool
  qs_frame :: "nat option"
  qs_stream3_recv :: tool_stream3
  qs_stream3_frame_data :: "nat option"
  qs_audio_send :: "nat option"

text \<open>\<^verbatim>\<open>nc_qh_t\<close> at the address \<open>nq_ptr\<close>.\<close>

record nc_qh =
  nq_ptr :: nat
  nq_user :: "qh_slot list"
  nq_state :: bool
  nq_buffer_usec :: int
  nq_search_tick :: int
  nq_searchs :: ptc_mcast_searchs

text \<open>
  What the system answers while a user is started: the blocks for the frame, the pool of the ring, the
  frame of the player and the talk ring, with what is in them; the results of the calls that make the
  ring's mutex and the two threads; the size of \<^verbatim>\<open>tool_stream2_t\<close>, which contains a mutex.
\<close>

record qh_grant =
  gr_frame :: "nat option"
  gr_junk :: ptc_frame
  gr_pool :: "nat option"
  gr_mem :: mem
  gr_video :: "nat option"
  gr_audio :: "nat option"
  gr_audio_size :: u32
  gr_ring :: tool_stream2
  gr_mutex :: int
  gr_pid :: int
  gr_pid2 :: int

section \<open>Starting a user\<close>

text \<open>A thread that cannot be made ends the program.\<close>

definition qh_thread :: "int \<Rightarrow> sysf \<Rightarrow> sysf outcome" where
  "qh_thread ret sy = (let (r, sy) = tool_thread_create ret sy in if r < 0 then Inl Exit else Inr sy)"

text \<open>The objects of a user that receives a stream.\<close>

definition slot_stream :: "qh_grant \<Rightarrow> u32 \<Rightarrow> qh_slot \<Rightarrow> sysf \<Rightarrow> (qh_slot \<times> sysf) outcome" where
  "slot_stream g pool user sy =
     andThen (tool_mem_malloc (gr_frame g) [] frame_object_size False sy) (\<lambda>(p, sy).
     andThen (tool_stream3_init (gr_pool g) (gr_mem g) (gr_mutex g) sy (Some (qs_stream3_recv user)) pool) (\<lambda>(ring, sy).
     andThen (tool_mem_malloc (gr_video g) [] frame_object_size False sy) (\<lambda>(v, sy).
       Inr (user\<lparr> qu_frame := gr_junk g, qs_frame := Some p, qs_stream3_recv := ring, qs_stream3_frame_data := Some v \<rparr>, sy))))"

text \<open>The branches on the type; \<open>rts\<close>, \<open>pbs\<close>: what the pointers point to (\<open>None\<close>: NULL).\<close>

definition slot_open ::
  "qh_grant \<Rightarrow> u8 list option \<Rightarrow> ptc_cfg_record option \<Rightarrow> qh_slot \<Rightarrow> sysf \<Rightarrow> (qh_slot \<times> sysf) outcome" where
  "slot_open g rts pbs user sy =
     (if qu_type user = PTC_CMD_RTS_BASE
      then (case rts of None \<Rightarrow> Inl Fault
            | Some r \<Rightarrow> slot_stream g NC_QH_RTS_POOL_SIZE (user\<lparr> qu_rts_start := r \<rparr>) sy)
      else if qu_type user = PTC_CMD_TALK_BASE
      then andThen (tool_mem_malloc (gr_audio g) [] (gr_audio_size g) False sy) (\<lambda>(p, sy).
           andThen (tool_stream2_init (gr_mutex g) sy (Some (gr_ring g))) (\<lambda>(ring, sy).
           andThen (tool_stream2_initReadPos (Some ring) (Some (qu_audio_pos user))) (\<lambda>pos.
             Inr (user\<lparr> qs_audio_send := Some p, qu_audio_send := ring, qu_audio_pos := pos \<rparr>, sy))))
      else if qu_type user = PTC_CMD_PBS_BASE
      then (case pbs of None \<Rightarrow> Inl Fault
            | Some r \<Rightarrow> andThen (slot_stream g NC_QH_PBS_POOL_SIZE (user\<lparr> qu_pbs_start := r \<rparr>) sy) (\<lambda>(user, sy).
                Inr (user\<lparr> qu_pbs_end_flag := False \<rparr>, sy)))
      else Inr (user, sy))"

definition slot_threads :: "qh_grant \<Rightarrow> qh_slot \<Rightarrow> sysf \<Rightarrow> sysf outcome" where
  "slot_threads g user sy =
     andThen (qh_thread (gr_pid g) sy) (\<lambda>sy.
       if qu_type user = PTC_CMD_RTS_BASE \<or> qu_type user = PTC_CMD_PBS_BASE then qh_thread (gr_pid2 g) sy else Inr sy)"

definition nc_qh_user_start ::
  "qh_grant \<Rightarrow> string \<Rightarrow> int \<Rightarrow> string \<Rightarrow> string \<Rightarrow> u32 \<Rightarrow> bool \<Rightarrow> u8 list option \<Rightarrow> ptc_cfg_record option
     \<Rightarrow> nc_qh \<Rightarrow> sysf \<Rightarrow> (int \<times> nc_qh \<times> sysf) outcome" where
  "nc_qh_user_start g ip_addr port user_name user_pswd type cb rts pbs nc sy =
     (let i = length (takeWhile qs_is_used (nq_user nc))
      in if i = length (nq_user nc) then Inr (NC_ERROR_FULL, nc, sy)
         else let user = (nq_user nc ! i)\<lparr> qs_is_used := True, qu_ip_addr := array_strncpy 40 ip_addr, qu_port := port,
                qu_user_name := array_strncpy 32 user_name, qu_user_pswd := array_strncpy 32 user_pswd,
                qu_type := type, qu_cb := cb \<rparr>
              in andThen (slot_open g rts pbs user sy) (\<lambda>(user, sy).
                 andThen (slot_threads g user sy) (\<lambda>sy.
                   Inr (int i, nc\<lparr> nq_user := (nq_user nc)[i := user\<lparr> qs_state := True \<rparr>] \<rparr>, sy))))"

section \<open>Stopping a user\<close>

text \<open>The results of the two joins and of destroying the ring's mutex.\<close>

record qh_ending =
  en_join :: int
  en_join2 :: int
  en_mutex :: int

definition slot_stream_close :: "qh_ending \<Rightarrow> qh_slot \<Rightarrow> sysf \<Rightarrow> (qh_slot \<times> sysf) outcome" where
  "slot_stream_close e user sy =
     (let sy = snd (tool_thread_join (en_join2 e) sy)
      in andThen (if qs_frame user \<noteq> None then tool_mem_free (qs_frame user) sy else Inr sy) (\<lambda>sy.
         andThen (tool_stream3_done (en_mutex e) sy (Some (qs_stream3_recv user))) (\<lambda>(ring, sy).
         andThen (tool_mem_free (qs_stream3_frame_data user) sy) (\<lambda>sy.
           Inr (user\<lparr> qs_frame := None, qs_stream3_recv := ring, qs_stream3_frame_data := None \<rparr>, sy)))))"

definition slot_close :: "qh_ending \<Rightarrow> qh_slot \<Rightarrow> sysf \<Rightarrow> (qh_slot \<times> sysf) outcome" where
  "slot_close e user sy =
     (if qu_type user = PTC_CMD_RTS_BASE then slot_stream_close e user sy
      else if qu_type user = PTC_CMD_TALK_BASE
      then andThen (tool_stream2_done (en_mutex e) sy (map_option (\<lambda>_. qu_audio_send user) (qs_audio_send user))) (\<lambda>sy.
           andThen (tool_mem_free (qs_audio_send user) sy) (\<lambda>sy. Inr (user\<lparr> qs_audio_send := None \<rparr>, sy)))
      else if qu_type user = PTC_CMD_PBS_BASE then slot_stream_close e user sy
      else Inr (user, sy))"

definition nc_qh_user_stop :: "qh_ending \<Rightarrow> qh_slot \<Rightarrow> sysf \<Rightarrow> (qh_slot \<times> sysf) outcome" where
  "nc_qh_user_stop e user sy =
     (if \<not> qs_state user then Inr (user, sy)
      else andThen (slot_close e (user\<lparr> qs_state := False \<rparr>) (snd (tool_thread_join (en_join e) sy))) (\<lambda>(user, sy).
             Inr (user\<lparr> qu_cb := False, qs_is_used := False \<rparr>, sy)))"

section \<open>The client\<close>

definition nc_qh_user_init :: "int \<Rightarrow> qh_slot \<Rightarrow> sysf \<Rightarrow> qh_slot \<times> sysf" where
  "nc_qh_user_init ret user sy =
     (user\<lparr> qu_sock_item := (qu_sock_item user)\<lparr> has_flag := True \<rparr> \<rparr>, snd (tool_thread_initMutex ret sy))"

text \<open>A user of the zeroed \<^verbatim>\<open>nc_qh_t\<close>.\<close>

definition slot_zero :: qh_slot where
  "slot_zero = nc_qh_user.extend (qh_user_for [] 0 [] [] 0)
     (qh_slot.fields False False None
        \<lparr> s3_pool = None, s3_mem = (\<lambda>_. 0), s3_size = 0, s3_len = 0, s3_count = 0,
          s3_write_pos = \<lparr> p_offset = 0, p_ring = 0, p_tick_sec = 0, p_tick_usec = 0 \<rparr>, drop_flag = 0 \<rparr> None None)"

text \<open>The loop over the users, the first \<open>n\<close> of which are initialised.\<close>

primrec init_users :: "nat \<Rightarrow> int \<Rightarrow> sysf \<Rightarrow> qh_slot list \<times> sysf" where
  "init_users 0 ret sy = ([], sy)"
| "init_users (Suc n) ret sy =
     (let (us, sy) = init_users n ret sy; (u, sy) = nc_qh_user_init ret slot_zero sy in (us @ [u], sy))"

text \<open>\<open>answer\<close>, \<open>sz\<close>: the block for \<^verbatim>\<open>nc_qh_t\<close> and its size; \<open>ret\<close>: the results of making the mutexes.\<close>

definition nc_qh_init ::
  "nat option \<Rightarrow> u32 \<Rightarrow> int \<Rightarrow> int \<Rightarrow> nc_qh option \<Rightarrow> sysf \<Rightarrow> (nc_qh option \<times> sysf) outcome" where
  "nc_qh_init answer sz ret pid g sy =
     (case g of
        Some nc \<Rightarrow> Inr (g, sy)
      | None \<Rightarrow> andThen (tool_mem_malloc answer [] sz True sy) (\<lambda>(p, sy).
          let sy = snd (tool_thread_initMutex ret (snd (tool_thread_initMutex ret sy)));
              (us, sy) = init_users NC_QH_USER_SIZE ret sy
          in andThen (qh_thread pid sy) (\<lambda>sy.
             Inr (Some \<lparr> nq_ptr = p, nq_user = us, nq_state = True, nq_buffer_usec = 300 * 1000, nq_search_tick = - 12345678,
                    nq_searchs = \<lparr> ms_num = 0, ms_search = replicate PTC_MCAST_SEARCH_SIZE (replicate 512 0) \<rparr> \<rparr>, sy))))"

definition nc_qh_user_done :: "qh_ending \<Rightarrow> int \<Rightarrow> qh_slot \<Rightarrow> sysf \<Rightarrow> sysf outcome" where
  "nc_qh_user_done e ret user sy =
     andThen (nc_qh_user_stop e user sy) (\<lambda>(user, sy). Inr (snd (tool_thread_doneMutex ret sy)))"

primrec done_users :: "qh_ending \<Rightarrow> int \<Rightarrow> qh_slot list \<Rightarrow> sysf \<Rightarrow> sysf outcome" where
  "done_users e ret [] sy = Inr sy"
| "done_users e ret (u # us) sy = andThen (nc_qh_user_done e ret u sy) (done_users e ret us)"

text \<open>
  The block, the mutex and the tick thread of the sockets' manager, which all clients share (its contents
  are in \<^verbatim>\<open>Tool_Sock\<close>); \<open>mp\<close>: the pointer to it.
\<close>

definition sock_manager_init ::
  "nat option \<Rightarrow> u32 \<Rightarrow> int \<Rightarrow> int \<Rightarrow> nat option \<Rightarrow> sysf \<Rightarrow> (nat \<times> sysf) outcome" where
  "sock_manager_init answer sz ret pid mp sy =
     (case mp of
        Some p \<Rightarrow> Inr (p, sy)
      | None \<Rightarrow> andThen (tool_mem_malloc answer [] sz True sy) (\<lambda>(p, sy).
          let (r, sy) = tool_thread_create pid (snd (tool_thread_initMutex ret sy))
          in if r \<noteq> 0 then Inl Exit else Inr (p, sy)))"

definition sock_manager_done :: "int \<Rightarrow> int \<Rightarrow> nat option \<Rightarrow> sysf \<Rightarrow> sysf outcome" where
  "sock_manager_done join ret mp sy =
     (case mp of
        None \<Rightarrow> Inr sy
      | Some p \<Rightarrow> tool_mem_free mp (snd (tool_thread_doneMutex ret (snd (tool_thread_join join sy)))))"

text \<open>The last step closes the manager, for all clients.\<close>

definition nc_qh_done ::
  "qh_ending \<Rightarrow> int \<Rightarrow> nc_qh option \<Rightarrow> nat option \<Rightarrow> sysf \<Rightarrow> (nc_qh option \<times> nat option \<times> sysf) outcome" where
  "nc_qh_done e ret g mp sy =
     (case g of
        None \<Rightarrow> Inr (None, mp, sy)
      | Some nc \<Rightarrow> andThen (done_users e ret (nq_user nc) (snd (tool_thread_join (en_join e) sy))) (\<lambda>sy.
          let sy = snd (tool_thread_doneMutex ret (snd (tool_thread_doneMutex ret sy)))
          in andThen (tool_mem_free (Some (nq_ptr nc)) sy) (\<lambda>sy.
             andThen (sock_manager_done (en_join e) ret mp sy) (\<lambda>sy. Inr (None, None, sy)))))"

section \<open>The interface\<close>

text \<open>A function that names a user: the client has to be running and the number one of the table.\<close>

definition user_call ::
  "(qh_slot \<Rightarrow> sysf \<Rightarrow> (qh_slot \<times> sysf) outcome) \<Rightarrow> int \<Rightarrow> nc_qh option \<Rightarrow> sysf \<Rightarrow> (int \<times> nc_qh option \<times> sysf) outcome" where
  "user_call f user_id g sy =
     (case g of
        None \<Rightarrow> Inr (NC_ERROR_UNINIT, g, sy)
      | Some nc \<Rightarrow>
          if user_id < 0 \<or> user_id \<ge> int NC_QH_USER_SIZE then Inr (NC_ERROR_INPUT, g, sy)
          else andThen (f (nq_user nc ! nat user_id) sy) (\<lambda>(u, sy).
                 Inr (0, Some (nc\<lparr> nq_user := (nq_user nc)[nat user_id := u] \<rparr>), sy)))"

definition nc_qh_logout :: "qh_ending \<Rightarrow> int \<Rightarrow> nc_qh option \<Rightarrow> sysf \<Rightarrow> (int \<times> nc_qh option \<times> sysf) outcome" where
  "nc_qh_logout e user_id g sy = user_call (nc_qh_user_stop e) user_id g sy"

definition nc_qh_stopRts :: "qh_ending \<Rightarrow> int \<Rightarrow> nc_qh option \<Rightarrow> sysf \<Rightarrow> (int \<times> nc_qh option \<times> sysf) outcome" where
  "nc_qh_stopRts e user_id g sy = user_call (nc_qh_user_stop e) user_id g sy"

definition nc_qh_stopTalk :: "qh_ending \<Rightarrow> int \<Rightarrow> nc_qh option \<Rightarrow> sysf \<Rightarrow> (int \<times> nc_qh option \<times> sysf) outcome" where
  "nc_qh_stopTalk e user_id g sy = user_call (nc_qh_user_stop e) user_id g sy"

definition nc_qh_stopPbs :: "qh_ending \<Rightarrow> int \<Rightarrow> nc_qh option \<Rightarrow> sysf \<Rightarrow> (int \<times> nc_qh option \<times> sysf) outcome" where
  "nc_qh_stopPbs e user_id g sy = user_call (nc_qh_user_stop e) user_id g sy"

text \<open>
  The part of a user its thread works on, and what other threads ask of it: the commands of
  \<^verbatim>\<open>Nc_User\<close>, done without asking whether the user is in use.
\<close>

definition slot_with :: "nc_qh_user \<Rightarrow> qh_slot \<Rightarrow> qh_slot" where
  "slot_with u s = nc_qh_user.extend u (qh_slot.fields (qs_is_used s) (qs_state s) (qs_frame s) (qs_stream3_recv s)
     (qs_stream3_frame_data s) (qs_audio_send s))"

definition slot_obey :: "qh_command \<Rightarrow> qh_slot \<Rightarrow> sysf \<Rightarrow> (qh_slot \<times> sysf) outcome" where
  "slot_obey c s sy = andThen (qh_obey c (nc_qh_user.truncate s)) (\<lambda>u. Inr (slot_with u s, sy))"

definition nc_qh_forceRtsKeyFrame :: "int \<Rightarrow> nc_qh option \<Rightarrow> sysf \<Rightarrow> (int \<times> nc_qh option \<times> sysf) outcome" where
  "nc_qh_forceRtsKeyFrame user_id g sy = user_call (slot_obey Force_key) user_id g sy"

definition nc_qh_setPbsPos :: "int \<Rightarrow> u32 \<Rightarrow> nc_qh option \<Rightarrow> sysf \<Rightarrow> (int \<times> nc_qh option \<times> sysf) outcome" where
  "nc_qh_setPbsPos user_id pos g sy = user_call (slot_obey (Set_pos pos)) user_id g sy"

definition nc_qh_pausePbs :: "int \<Rightarrow> nc_qh option \<Rightarrow> sysf \<Rightarrow> (int \<times> nc_qh option \<times> sysf) outcome" where
  "nc_qh_pausePbs user_id g sy = user_call (slot_obey Pause) user_id g sy"

definition nc_qh_restartPbs :: "int \<Rightarrow> nc_qh option \<Rightarrow> sysf \<Rightarrow> (int \<times> nc_qh option \<times> sysf) outcome" where
  "nc_qh_restartPbs user_id g sy = user_call (slot_obey Restart) user_id g sy"

definition nc_qh_setPbsSpeed :: "int \<Rightarrow> int \<Rightarrow> nc_qh option \<Rightarrow> sysf \<Rightarrow> (int \<times> nc_qh option \<times> sysf) outcome" where
  "nc_qh_setPbsSpeed user_id speed g sy =
     (case g of
        None \<Rightarrow> Inr (NC_ERROR_UNINIT, g, sy)
      | Some nc \<Rightarrow>
          if user_id < 0 \<or> user_id \<ge> int NC_QH_USER_SIZE then Inr (NC_ERROR_INPUT, g, sy)
          else if speed < - 3 \<or> speed > 3 then Inr (NC_ERROR_INPUT, g, sy)
          else user_call (slot_obey (Set_speed (word_of_int speed))) user_id g sy)"

text \<open>The sound goes to the ring the user's pointer leads to, if any.\<close>

definition slot_talk :: "u8 list \<Rightarrow> u32 \<Rightarrow> qh_slot \<Rightarrow> sysf \<Rightarrow> (qh_slot \<times> sysf) outcome" where
  "slot_talk buf len s sy =
     andThen (tool_stream2_set (map_option (\<lambda>_. qu_audio_send s) (qs_audio_send s)) (Some buf) len) (\<lambda>ring.
       Inr (s\<lparr> qu_audio_send := ring \<rparr>, sy))"

definition nc_qh_sendTalk ::
  "int \<Rightarrow> u8 list option \<Rightarrow> int \<Rightarrow> nc_qh option \<Rightarrow> sysf \<Rightarrow> (int \<times> nc_qh option \<times> sysf) outcome" where
  "nc_qh_sendTalk user_id buf len g sy =
     (case buf of
        None \<Rightarrow> Inr (if g = None then NC_ERROR_UNINIT else NC_ERROR_INPUT, g, sy)
      | Some b \<Rightarrow> user_call (slot_talk b (word_of_int len)) user_id g sy)"

definition nc_qh_getOnlineStatus :: "int \<Rightarrow> nc_qh option \<Rightarrow> int" where
  "nc_qh_getOnlineStatus user_id g =
     (case g of
        None \<Rightarrow> NC_ERROR_UNINIT
      | Some nc \<Rightarrow> if user_id < 0 \<or> user_id \<ge> int NC_QH_USER_SIZE then NC_ERROR_INPUT
                  else tool_sock_item_isLive (qu_sock_item (nq_user nc ! nat user_id)))"

definition nc_qh_getRtsStatus :: "int \<Rightarrow> nc_qh option \<Rightarrow> int" where
  "nc_qh_getRtsStatus user_id g =
     (case g of
        None \<Rightarrow> NC_ERROR_UNINIT
      | Some nc \<Rightarrow> if user_id < 0 \<or> user_id \<ge> int NC_QH_USER_SIZE then NC_ERROR_INPUT
                  else tool_sock_item_isLive (qu_sock_item (nq_user nc ! nat user_id)))"

definition nc_qh_setBuffer :: "int \<Rightarrow> nc_qh option \<Rightarrow> int \<times> nc_qh option" where
  "nc_qh_setBuffer buffer_usec g =
     (case g of
        None \<Rightarrow> (NC_ERROR_UNINIT, g)
      | Some nc \<Rightarrow> if buffer_usec < 0 \<or> buffer_usec > 3000 * 1000 then (NC_ERROR_INPUT, g)
                  else (0, Some (nc\<lparr> nq_buffer_usec := buffer_usec \<rparr>)))"

text \<open>A function that starts a user for a device.\<close>

definition start_call ::
  "qh_grant \<Rightarrow> nc_dev \<Rightarrow> u32 \<Rightarrow> bool \<Rightarrow> u8 list option \<Rightarrow> ptc_cfg_record option \<Rightarrow> nc_qh \<Rightarrow> sysf
     \<Rightarrow> (int \<times> nc_qh option \<times> sysf) outcome" where
  "start_call gr d type cb rts pbs nc sy =
     andThen (nc_qh_user_start gr (dev_ip d) (dev_msg_port d) (dev_user d) (dev_pswd d) type cb rts pbs nc sy) (\<lambda>(r, nc, sy).
       Inr (r, Some nc, sy))"

definition nc_qh_login_v2 ::
  "qh_grant \<Rightarrow> nc_dev option \<Rightarrow> bool \<Rightarrow> nc_qh option \<Rightarrow> sysf \<Rightarrow> (int \<times> nc_qh option \<times> sysf) outcome" where
  "nc_qh_login_v2 gr dev cb g sy =
     (case g of
        None \<Rightarrow> Inr (NC_ERROR_UNINIT, g, sy)
      | Some nc \<Rightarrow> (case dev of
          None \<Rightarrow> Inr (NC_ERROR_INPUT, g, sy)
        | Some d \<Rightarrow> start_call gr d PTC_CMD_ALARM_BASE cb None None nc sy))"

text \<open>\<open>junk\<close>: the 14 bytes of \<^verbatim>\<open>ptc_rts_start_t\<close> that are not set.\<close>

definition nc_qh_startRts_v2 ::
  "qh_grant \<Rightarrow> u8 list \<Rightarrow> nc_dev option \<Rightarrow> int \<Rightarrow> int \<Rightarrow> bool \<Rightarrow> nc_qh option \<Rightarrow> sysf
     \<Rightarrow> (int \<times> nc_qh option \<times> sysf) outcome" where
  "nc_qh_startRts_v2 gr junk dev channel stream_type cb g sy =
     (case g of
        None \<Rightarrow> Inr (NC_ERROR_UNINIT, g, sy)
      | Some nc \<Rightarrow> (case dev of
          None \<Rightarrow> Inr (NC_ERROR_INPUT, g, sy)
        | Some d \<Rightarrow> start_call gr d PTC_CMD_RTS_BASE cb
            (Some ([word_of_int channel, word_of_int stream_type] @ junk)) None nc sy))"

definition nc_qh_startTalk_v2 ::
  "qh_grant \<Rightarrow> nc_dev option \<Rightarrow> bool \<Rightarrow> nc_qh option \<Rightarrow> sysf \<Rightarrow> (int \<times> nc_qh option \<times> sysf) outcome" where
  "nc_qh_startTalk_v2 gr dev cb g sy =
     (case g of
        None \<Rightarrow> Inr (NC_ERROR_UNINIT, g, sy)
      | Some nc \<Rightarrow> (case dev of
          None \<Rightarrow> Inr (NC_ERROR_INPUT, g, sy)
        | Some d \<Rightarrow> start_call gr d PTC_CMD_TALK_BASE cb None None nc sy))"

definition nc_qh_startPbs ::
  "qh_grant \<Rightarrow> nc_dev option \<Rightarrow> ptc_cfg_record option \<Rightarrow> bool \<Rightarrow> nc_qh option \<Rightarrow> sysf
     \<Rightarrow> (int \<times> nc_qh option \<times> sysf) outcome" where
  "nc_qh_startPbs gr dev pbs cb g sy =
     (case g of
        None \<Rightarrow> Inr (NC_ERROR_UNINIT, g, sy)
      | Some nc \<Rightarrow> (case (dev, pbs) of
          (Some d, Some r) \<Rightarrow> start_call gr d PTC_CMD_PBS_BASE cb None (Some r) nc sy
        | _ \<Rightarrow> Inr (NC_ERROR_INPUT, g, sy)))"

text \<open>A turn of the thread of a user in the table.\<close>

definition slot_turn :: "qh_turn \<Rightarrow> qh_slot \<Rightarrow> qh_sys \<Rightarrow> (qh_slot \<times> qh_sys) outcome" where
  "slot_turn t s sys =
     andThen (qh_turn_of t (nc_qh_user.truncate s) (qh_at (turn_clock t) sys)) (\<lambda>(_, u, sys). Inr (slot_with u s, sys))"

end
