(* ===== verification/Nc_Table_Rt.thy ===== *)
theory Nc_Table_Rt
  imports Nc_Table Nc_User_Rt Nc_Call_Rt
begin

text \<open>
  The user table owns its memory: every user that is in use holds the blocks of its kind, no two users
  share one, and starting, stopping and closing neither lose a block nor free one twice.
\<close>

section \<open>Owned blocks\<close>

text \<open>The heap is \<open>h\<close> and, besides it, the blocks at \<open>A\<close>.\<close>

definition owns :: "nat set \<Rightarrow> (nat \<rightharpoonup> heap_block) \<Rightarrow> sysf \<Rightarrow> bool" where
  "owns A h sy \<longleftrightarrow> (\<forall>a. a \<notin> A \<longrightarrow> heap sy a = h a) \<and> (\<forall>a\<in>A. heap sy a \<noteq> None \<and> h a = None)"

definition same_threads :: "sysf \<Rightarrow> sysf \<Rightarrow> bool" where
  "same_threads sy sy' \<longleftrightarrow> g_tool_thread_count sy' = g_tool_thread_count sy \<and> g_tool_mutex_count sy' = g_tool_mutex_count sy"

lemma malloc_owns:
  assumes "owns A h sy" "heap sy a = None" "unat (sz + 4) \<ge> 4"
  shows "returns (tool_mem_malloc (Some a) junk sz z sy) (\<lambda>(p, sy').
     p = a + 4 \<and> a \<notin> A \<and> owns (insert a A) h sy' \<and> same_threads sy sy' \<and> heap sy' = (heap sy)(a \<mapsto> the (heap sy' a)))"
  using assms by (auto simp: owns_def tool_mem_malloc_def same_threads_def)

lemma free_owns:
  assumes "owns (insert a A) h sy" "a \<notin> A"
  shows "returns (tool_mem_free (Some (a + 4)) sy) (\<lambda>sy'. owns A h sy' \<and> same_threads sy sy')"
  using assms by (auto simp: owns_def tool_mem_free_def same_threads_def split: option.splits)

lemma owns_counters [simp]:
  "owns A h (sy\<lparr> g_tool_thread_count := n \<rparr>) = owns A h sy" "owns A h (sy\<lparr> g_tool_mutex_count := n \<rparr>) = owns A h sy"
  by (simp_all add: owns_def)

lemma returnsE: "returns m P \<Longrightarrow> \<exists>x. m = Inr x \<and> P x"
  by (simp add: returns_def)

section \<open>Users\<close>

definition streams :: "u32 \<Rightarrow> bool" where
  "streams t \<longleftrightarrow> t = PTC_CMD_RTS_BASE \<or> t = PTC_CMD_PBS_BASE"

lemma type_distinct [simp]:
  "PTC_CMD_RTS_BASE \<noteq> PTC_CMD_TALK_BASE" "PTC_CMD_PBS_BASE \<noteq> PTC_CMD_TALK_BASE"
  "PTC_CMD_TALK_BASE \<noteq> PTC_CMD_RTS_BASE" "PTC_CMD_TALK_BASE \<noteq> PTC_CMD_PBS_BASE"
  "PTC_CMD_PBS_BASE \<noteq> PTC_CMD_RTS_BASE" "PTC_CMD_RTS_BASE \<noteq> PTC_CMD_PBS_BASE"
  by (simp_all add: PTC_CMD_RTS_BASE_def PTC_CMD_TALK_BASE_def PTC_CMD_PBS_BASE_def)

text \<open>The addresses of the blocks a user holds; the pointers are four bytes behind.\<close>

definition slot_blocks :: "qh_slot \<Rightarrow> nat set" where
  "slot_blocks u = {a. qs_frame u = Some (a + 4) \<or> s3_pool (qs_stream3_recv u) = Some (a + 4)
     \<or> qs_stream3_frame_data u = Some (a + 4) \<or> qs_audio_send u = Some (a + 4)}"

text \<open>A user holds what its kind needs while it is in use, in different blocks, and nothing otherwise.\<close>

definition slot_ok :: "qh_slot \<Rightarrow> bool" where
  "slot_ok u \<longleftrightarrow> qs_is_used u = qs_state u
     \<and> (if qs_state u \<and> streams (qu_type u)
        then \<exists>a b c. qs_frame u = Some (a + 4) \<and> s3_pool (qs_stream3_recv u) = Some (b + 4)
           \<and> qs_stream3_frame_data u = Some (c + 4) \<and> a \<noteq> b \<and> a \<noteq> c \<and> b \<noteq> c \<and> qs_audio_send u = None
        else qs_frame u = None \<and> s3_pool (qs_stream3_recv u) = None \<and> qs_stream3_frame_data u = None
           \<and> (if qs_state u \<and> qu_type u = PTC_CMD_TALK_BASE then \<exists>a. qs_audio_send u = Some (a + 4) else qs_audio_send u = None))"

definition slot_threads_num :: "qh_slot \<Rightarrow> int" where
  "slot_threads_num u = (if \<not> qs_state u then 0 else if streams (qu_type u) then 2 else 1)"

definition slot_mutexes :: "qh_slot \<Rightarrow> int" where
  "slot_mutexes u = (if qs_state u \<and> (streams (qu_type u) \<or> qu_type u = PTC_CMD_TALK_BASE) then 1 else 0)"

text \<open>The counters moved by \<open>t\<close> threads and \<open>m\<close> mutexes.\<close>

definition moved :: "int \<Rightarrow> int \<Rightarrow> sysf \<Rightarrow> sysf \<Rightarrow> bool" where
  "moved t m sy sy' \<longleftrightarrow> g_tool_thread_count sy' = g_tool_thread_count sy + t \<and> g_tool_mutex_count sy' = g_tool_mutex_count sy + m"

lemma stream_close_frees:
  assumes "owns (insert a (insert b (insert c A))) h sy" "a \<notin> insert b (insert c A)" "b \<notin> insert c A" "c \<notin> A"
    and "qs_frame u = Some (a + 4)" "s3_pool (qs_stream3_recv u) = Some (b + 4)" "qs_stream3_frame_data u = Some (c + 4)"
    and "en_join2 e = 0" "en_mutex e = 0"
  shows "returns (slot_stream_close e u sy) (\<lambda>(u', sy'). owns A h sy' \<and> moved (- 1) (- 1) sy sy'
     \<and> u' = u\<lparr> qs_frame := None, qs_stream3_recv := (qs_stream3_recv u)\<lparr> s3_pool := None \<rparr>, qs_stream3_frame_data := None \<rparr>)"
proof -
  define sy1 where "sy1 = snd (tool_thread_join (en_join2 e) sy)"
  have "owns (insert a (insert b (insert c A))) h sy1" using assms(1,8) by (simp add: sy1_def tool_thread_join_def)
  from returnsE [OF free_owns [OF this assms(2)]] obtain sy2 where
    2: "tool_mem_free (Some (a + 4)) sy1 = Inr sy2" "owns (insert b (insert c A)) h sy2" "same_threads sy1 sy2" by auto
  from returnsE [OF free_owns [OF 2(2) assms(3)]] obtain sy3 where
    3: "tool_mem_free (Some (b + 4)) sy2 = Inr sy3" "owns (insert c A) h sy3" "same_threads sy2 sy3" by auto
  define sy4 where "sy4 = snd (tool_thread_doneMutex (en_mutex e) sy3)"
  have "owns (insert c A) h sy4" using 3(2) assms(9) by (simp add: sy4_def tool_thread_doneMutex_def)
  from returnsE [OF free_owns [OF this assms(4)]] obtain sy5 where
    5: "tool_mem_free (Some (c + 4)) sy4 = Inr sy5" "owns A h sy5" "same_threads sy4 sy5" by auto
  have "moved (- 1) (- 1) sy sy5" using 2(3) 3(3) 5(3) assms(8,9)
    by (simp add: moved_def same_threads_def sy1_def sy4_def tool_thread_join_def tool_thread_doneMutex_def)
  then show ?thesis using 2(1) 3(1) 5(1,2) assms(5-7)
    by (simp add: slot_stream_close_def tool_stream3_done_def sy1_def [symmetric] sy4_def [symmetric])
qed

lemma stop_closes:
  assumes "owns (A \<union> slot_blocks u) h sy" "A \<inter> slot_blocks u = {}" "slot_ok u"
    and "en_join e = 0" "en_join2 e = 0" "en_mutex e = 0"
  shows "returns (nc_qh_user_stop e u sy) (\<lambda>(u', sy'). owns A h sy' \<and> slot_ok u' \<and> \<not> qs_is_used u'
     \<and> moved (- slot_threads_num u) (- slot_mutexes u) sy sy' \<and> (\<not> qs_state u \<longrightarrow> u' = u))"
proof (cases "qs_state u \<and> (streams (qu_type u) \<or> qu_type u = PTC_CMD_TALK_BASE)")
  case False
  then have "slot_blocks u = {}" using assms(3) by (auto simp: slot_ok_def slot_blocks_def)
  with False assms show ?thesis
    by (auto simp: nc_qh_user_stop_def slot_close_def streams_def slot_ok_def moved_def slot_threads_num_def slot_mutexes_def
        tool_thread_join_def)
next
  case True
  let ?u = "u\<lparr> qs_state := False \<rparr>" and ?sy = "snd (tool_thread_join (en_join e) sy)"
  have own: "owns (A \<union> slot_blocks u) h ?sy" using assms(1,4) by (simp add: tool_thread_join_def)
  show ?thesis
  proof (cases "streams (qu_type u)")
    case s: True
    obtain a b c where p: "qs_frame u = Some (a + 4)" "s3_pool (qs_stream3_recv u) = Some (b + 4)"
      "qs_stream3_frame_data u = Some (c + 4)" "a \<noteq> b" "a \<noteq> c" "b \<noteq> c" "qs_audio_send u = None"
      using assms(3) True s by (auto simp: slot_ok_def)
    have blocks: "slot_blocks u = {a, b, c}" using p by (auto simp: slot_blocks_def)
    have set: "A \<union> {a, b, c} = insert a (insert b (insert c A))" by auto
    have "slot_close e ?u ?sy = slot_stream_close e ?u ?sy" using s by (auto simp: slot_close_def streams_def)
    moreover have "returns (slot_stream_close e ?u ?sy) (\<lambda>(u', sy'). owns A h sy' \<and> moved (- 1) (- 1) ?sy sy'
       \<and> u' = ?u\<lparr> qs_frame := None, qs_stream3_recv := (qs_stream3_recv ?u)\<lparr> s3_pool := None \<rparr>, qs_stream3_frame_data := None \<rparr>)"
      using assms(2,5,6) p own blocks by (intro stream_close_frees [of a b c]) (auto simp: set)
    then obtain sy' where "slot_stream_close e ?u ?sy = Inr (?u\<lparr> qs_frame := None,
        qs_stream3_recv := (qs_stream3_recv ?u)\<lparr> s3_pool := None \<rparr>, qs_stream3_frame_data := None \<rparr>, sy')"
      "owns A h sy'" "moved (- 1) (- 1) ?sy sy'" by (auto simp: returns_def)
    ultimately show ?thesis using True s p(7) assms(4)
      by (simp add: nc_qh_user_stop_def slot_ok_def moved_def slot_threads_num_def slot_mutexes_def tool_thread_join_def)
  next
    case talk: False
    then have t: "qu_type u = PTC_CMD_TALK_BASE" "\<not> streams (qu_type u)" using True by auto
    obtain a where p: "qs_audio_send u = Some (a + 4)" "qs_frame u = None" "s3_pool (qs_stream3_recv u) = None"
      "qs_stream3_frame_data u = None" using assms(3) True t by (auto simp: slot_ok_def)
    have blocks: "slot_blocks u = {a}" using p by (auto simp: slot_blocks_def)
    define sy2 where "sy2 = snd (tool_thread_doneMutex (en_mutex e) ?sy)"
    have "owns (insert a A) h sy2" "a \<notin> A" using own assms(2,6) blocks by (auto simp: sy2_def tool_thread_doneMutex_def)
    from returnsE [OF free_owns [OF this]] obtain sy3 where
      3: "tool_mem_free (Some (a + 4)) sy2 = Inr sy3" "owns A h sy3" "same_threads sy2 sy3" by auto
    have "moved (- 1) (- 1) sy sy3" using 3(3) assms(4,6)
      by (simp add: moved_def same_threads_def sy2_def tool_thread_join_def tool_thread_doneMutex_def)
    then show ?thesis using True t p 3(1,2)
      by (simp add: nc_qh_user_stop_def slot_close_def tool_stream2_done_def sy2_def [symmetric] slot_ok_def
          slot_threads_num_def slot_mutexes_def)
  qed
qed


text \<open>What the system grants when nothing fails: blocks that are free, and the mutex and the threads.\<close>

definition granted :: "qh_grant \<Rightarrow> sysf \<Rightarrow> bool" where
  "granted g sy \<longleftrightarrow> (\<exists>a b c d. gr_frame g = Some a \<and> gr_pool g = Some b \<and> gr_video g = Some c \<and> gr_audio g = Some d
       \<and> {heap sy a, heap sy b, heap sy c, heap sy d} = {None} \<and> a \<noteq> b \<and> a \<noteq> c \<and> b \<noteq> c)
     \<and> unat (gr_audio_size g + 4) \<ge> 4 \<and> gr_mutex g = 0 \<and> gr_pid g = 0 \<and> gr_pid2 g = 0"

lemma stream_opens:
  assumes "owns A h sy" "granted g sy" "pool = 4 * 1024 * 1024"
  shows "\<exists>a b c ring sy'. slot_stream g pool u sy = Inr (u\<lparr> qu_frame := gr_junk g, qs_frame := Some (a + 4),
         qs_stream3_recv := ring, qs_stream3_frame_data := Some (c + 4) \<rparr>, sy') \<and> a \<noteq> b \<and> a \<noteq> c \<and> b \<noteq> c
     \<and> owns (A \<union> {a, b, c}) h sy' \<and> A \<inter> {a, b, c} = {} \<and> moved 0 1 sy sy' \<and> s3_pool ring = Some (b + 4)"
proof -
  obtain a b c where f: "gr_frame g = Some a" "gr_pool g = Some b" "gr_video g = Some c" "a \<noteq> b" "a \<noteq> c" "b \<noteq> c"
    "heap sy a = None" "heap sy b = None" "heap sy c = None" using assms(2) by (auto simp: granted_def)
  have sz: "unat (frame_object_size + 4) \<ge> 4" by (simp add: frame_object_size_def)
  from returnsE [OF malloc_owns [OF assms(1) f(7) sz]] obtain sy1 where
    1: "tool_mem_malloc (Some a) [] frame_object_size False sy = Inr (a + 4, sy1)" "a \<notin> A" "owns (insert a A) h sy1"
      "same_threads sy sy1" "heap sy1 = (heap sy)(a \<mapsto> the (heap sy1 a))" by auto
  have "heap sy1 b = None" using 1(5) f(4,8) by (metis fun_upd_other)
  have psz: "unat (pool + 4) \<ge> 4" by (simp add: assms(3))
  from returnsE [OF malloc_owns [OF 1(3) \<open>heap sy1 b = None\<close> psz]] obtain sy2 where
    2: "tool_mem_malloc (Some b) [] pool False sy1 = Inr (b + 4, sy2)" "b \<notin> insert a A" "owns (insert b (insert a A)) h sy2"
      "same_threads sy1 sy2" "heap sy2 = (heap sy1)(b \<mapsto> the (heap sy2 b))" by auto
  define sy3 where "sy3 = snd (tool_thread_initMutex (gr_mutex g) sy2)"
  have sy3: "heap sy3 = heap sy2" "moved 0 1 sy2 sy3" "owns (insert b (insert a A)) h sy3"
    using assms(2) 2(3) by (simp_all add: sy3_def tool_thread_initMutex_def granted_def moved_def)
  have "heap sy3 c = None" using 1(5) 2(5) sy3(1) f(5,6,9) by (metis fun_upd_other)
  from returnsE [OF malloc_owns [OF sy3(3) this sz]] obtain sy4 where
    4: "tool_mem_malloc (Some c) [] frame_object_size False sy3 = Inr (c + 4, sy4)" "c \<notin> insert b (insert a A)"
      "owns (insert c (insert b (insert a A))) h sy4" "same_threads sy3 sy4" by auto
  have set: "A \<union> {a, b, c} = insert c (insert b (insert a A))" by auto
  have m: "moved 0 1 sy sy4" using 1(4) 2(4) 4(4) sy3(2) by (simp add: moved_def same_threads_def)
  define ring where "ring = (qs_stream3_recv u)\<lparr> s3_size := pool, s3_pool := Some (b + 4), s3_mem := gr_mem g, s3_len := 0, s3_count := 0,
      s3_write_pos := (s3_write_pos (qs_stream3_recv u))\<lparr> p_offset := 0, p_ring := 0 \<rparr>, drop_flag := 0 \<rparr>"
  have "tool_stream3_init (gr_pool g) (gr_mem g) (gr_mutex g) sy1 (Some (qs_stream3_recv u)) pool = Inr (ring, sy3)"
    using assms(3) f(2) 2(1) by (simp add: tool_stream3_init_def ring_def sy3_def Let_def)
  then have r: "slot_stream g pool u sy = Inr (u\<lparr> qu_frame := gr_junk g, qs_frame := Some (a + 4), qs_stream3_recv := ring,
      qs_stream3_frame_data := Some (c + 4) \<rparr>, sy4)"
    using 1(1) 4(1) f(1,3) by (simp add: slot_stream_def)
  have p: "s3_pool ring = Some (b + 4)" by (simp add: ring_def)
  have d: "A \<inter> {a, b, c} = {}" using 1(2) 2(2) 4(2) by auto
  show ?thesis using r f(4-6) m p d 4(3) unfolding set [symmetric] by blast
qed


lemma stream_blocks:
  "qs_frame v = Some (a + 4) \<Longrightarrow> s3_pool (qs_stream3_recv v) = Some (b + 4) \<Longrightarrow> qs_stream3_frame_data v = Some (c + 4)
     \<Longrightarrow> qs_audio_send v = None \<Longrightarrow> slot_blocks v = {a, b, c}"
  by (auto simp: slot_blocks_def)

lemma open_opens:
  assumes "owns A h sy" "granted g sy" "slot_ok u'" "\<not> qs_is_used u'"
    and "qu_type u = PTC_CMD_RTS_BASE \<longrightarrow> rts \<noteq> None" "qu_type u = PTC_CMD_PBS_BASE \<longrightarrow> pbs \<noteq> None"
    and "qs_is_used u" "qs_frame u = qs_frame u'" "qs_stream3_recv u = qs_stream3_recv u'"
    and "qs_stream3_frame_data u = qs_stream3_frame_data u'" "qs_audio_send u = qs_audio_send u'"
  shows "returns (slot_open g rts pbs u sy) (\<lambda>(v, sy'). let v = v\<lparr> qs_state := True \<rparr>
     in owns (A \<union> slot_blocks v) h sy' \<and> A \<inter> slot_blocks v = {} \<and> slot_ok v
      \<and> moved 0 (slot_mutexes v) sy sy' \<and> qu_type v = qu_type u \<and> qs_is_used v
      \<and> qu_pbs_pos v = qu_pbs_pos u \<and> qu_last_type v = qu_last_type u \<and> qu_ip_addr v = qu_ip_addr u \<and> qu_port v = qu_port u)"
proof -
  have free: "qs_frame u = None" "s3_pool (qs_stream3_recv u) = None" "qs_stream3_frame_data u = None" "qs_audio_send u = None"
    using assms(3,4,8-11) by (simp_all add: slot_ok_def)
  consider (rts) r where "qu_type u = PTC_CMD_RTS_BASE" "rts = Some r" | (pbs) r where "qu_type u = PTC_CMD_PBS_BASE" "pbs = Some r"
    | (talk) "qu_type u = PTC_CMD_TALK_BASE" | (other) "\<not> streams (qu_type u)" "qu_type u \<noteq> PTC_CMD_TALK_BASE"
    using assms(5,6) by (auto simp: streams_def)
  then show ?thesis
  proof cases
    case rts
    then have "slot_open g rts pbs u sy = slot_stream g (4 * 1024 * 1024) (u\<lparr> qu_rts_start := r \<rparr>) sy"
      by (simp add: slot_open_def NC_QH_RTS_POOL_SIZE_def)
    moreover have "streams (qu_type u)" using rts by (simp add: streams_def)
    moreover obtain a b c ring sy' where "slot_stream g (4 * 1024 * 1024) (u\<lparr> qu_rts_start := r \<rparr>) sy = Inr (u\<lparr> qu_rts_start := r,
        qu_frame := gr_junk g, qs_frame := Some (a + 4), qs_stream3_recv := ring, qs_stream3_frame_data := Some (c + 4) \<rparr>, sy')"
      "a \<noteq> b" "a \<noteq> c" "b \<noteq> c" "owns (A \<union> {a, b, c}) h sy'" "A \<inter> {a, b, c} = {}" "moved 0 1 sy sy'" "s3_pool ring = Some (b + 4)"
      using stream_opens [OF assms(1,2) refl, of "u\<lparr> qu_rts_start := r \<rparr>"] by blast
    ultimately show ?thesis using free assms(7)
      by (simp add: Let_def slot_ok_def slot_mutexes_def stream_blocks [of _ a b c])
  next
    case pbs
    then have "slot_open g rts pbs u sy = andThen (slot_stream g (4 * 1024 * 1024) (u\<lparr> qu_pbs_start := r \<rparr>) sy) (\<lambda>(user, sy).
        Inr (user\<lparr> qu_pbs_end_flag := False \<rparr>, sy))"
      by (simp add: slot_open_def NC_QH_PBS_POOL_SIZE_def)
    moreover have "streams (qu_type u)" using pbs by (simp add: streams_def)
    moreover obtain a b c ring sy' where "slot_stream g (4 * 1024 * 1024) (u\<lparr> qu_pbs_start := r \<rparr>) sy = Inr (u\<lparr> qu_pbs_start := r,
        qu_frame := gr_junk g, qs_frame := Some (a + 4), qs_stream3_recv := ring, qs_stream3_frame_data := Some (c + 4) \<rparr>, sy')"
      "a \<noteq> b" "a \<noteq> c" "b \<noteq> c" "owns (A \<union> {a, b, c}) h sy'" "A \<inter> {a, b, c} = {}" "moved 0 1 sy sy'" "s3_pool ring = Some (b + 4)"
      using stream_opens [OF assms(1,2) refl, of "u\<lparr> qu_pbs_start := r \<rparr>"] by blast
    ultimately show ?thesis using free assms(7)
      by (simp add: Let_def slot_ok_def slot_mutexes_def stream_blocks [of _ a b c])
  next
    case talk
    obtain d where d: "gr_audio g = Some d" "heap sy d = None" "unat (gr_audio_size g + 4) \<ge> 4" "gr_mutex g = 0"
      using assms(2) by (auto simp: granted_def)
    from returnsE [OF malloc_owns [OF assms(1) d(2,3)]] obtain sy1 where
      1: "tool_mem_malloc (Some d) [] (gr_audio_size g) False sy = Inr (d + 4, sy1)" "d \<notin> A" "owns (insert d A) h sy1"
        "same_threads sy sy1" by auto
    have "slot_blocks (w\<lparr> qs_state := True, qs_audio_send := Some (d + 4) \<rparr>) = {d}"
      if "qs_frame w = None" "s3_pool (qs_stream3_recv w) = None" "qs_stream3_frame_data w = None" for w
      using that by (auto simp: slot_blocks_def)
    with 1 d talk free assms(7) show ?thesis
      by (simp add: slot_open_def tool_stream2_init_def tool_stream2_initReadPos_def tool_thread_initMutex_def Let_def
          slot_ok_def slot_mutexes_def streams_def moved_def same_threads_def slot_blocks_def)
  next
    case other
    then have "slot_open g rts pbs u sy = Inr (u, sy)" by (auto simp: slot_open_def streams_def)
    with other free assms(1,7) show ?thesis
      by (simp add: Let_def slot_blocks_def slot_ok_def slot_mutexes_def moved_def)
  qed
qed

section \<open>The table\<close>

definition all_blocks :: "qh_slot list \<Rightarrow> nat set" where
  "all_blocks us = \<Union> (slot_blocks ` set us)"

primrec apart :: "qh_slot list \<Rightarrow> bool" where
  "apart [] \<longleftrightarrow> True"
| "apart (u # us) \<longleftrightarrow> slot_blocks u \<inter> all_blocks us = {} \<and> apart us"

lemma all_blocks_simps [simp]:
  "all_blocks [] = {}" "all_blocks (u # us) = slot_blocks u \<union> all_blocks us" "all_blocks (us @ vs) = all_blocks us \<union> all_blocks vs"
  by (auto simp: all_blocks_def)

lemma apart_middle: "apart (xs @ u # ys) \<longleftrightarrow> apart (xs @ ys) \<and> slot_blocks u \<inter> all_blocks (xs @ ys) = {}"
  by (induction xs) auto

text \<open>
  \<open>h\<close>, \<open>t\<close>, \<open>m\<close>: the heap and the numbers of threads and mutexes before the client was started.
\<close>

definition table_ok :: "(nat \<rightharpoonup> heap_block) \<Rightarrow> int \<Rightarrow> int \<Rightarrow> nc_qh \<Rightarrow> sysf \<Rightarrow> bool" where
  "table_ok h t m nc sy \<longleftrightarrow> length (nq_user nc) = NC_QH_USER_SIZE \<and> (\<forall>u\<in>set (nq_user nc). slot_ok u) \<and> apart (nq_user nc)
     \<and> (\<exists>p. nq_ptr nc = p + 4 \<and> p \<notin> all_blocks (nq_user nc) \<and> owns (insert p (all_blocks (nq_user nc))) h sy)
     \<and> g_tool_thread_count sy = t + 1 + sum_list (map slot_threads_num (nq_user nc))
     \<and> g_tool_mutex_count sy = m + 130 + sum_list (map slot_mutexes (nq_user nc))"

text \<open>Replacing one user: what the operation on it has to do for the table to stay as it should be.\<close>

lemma table_replace:
  assumes "table_ok h t m nc sy" "nq_user nc = xs @ u # ys" "slot_ok u'"
    and "moved (slot_threads_num u' - slot_threads_num u) (slot_mutexes u' - slot_mutexes u) sy sy'"
    and "\<And>p. nq_ptr nc = p + 4 \<Longrightarrow> insert p (all_blocks (xs @ ys)) \<inter> slot_blocks u' = {}
           \<and> owns (insert p (all_blocks (xs @ ys)) \<union> slot_blocks u') h sy'"
  shows "table_ok h t m (nc\<lparr> nq_user := xs @ u' # ys \<rparr>) sy'"
proof -
  obtain p where p: "nq_ptr nc = p + 4" "p \<notin> all_blocks (nq_user nc)" using assms(1) by (auto simp: table_ok_def)
  have "insert p (all_blocks (xs @ u' # ys)) = insert p (all_blocks (xs @ ys)) \<union> slot_blocks u'" by auto
  then have o: "owns (insert p (all_blocks (xs @ u' # ys))) h sy'" using assms(5) [OF p(1)] by simp
  have n: "p \<notin> all_blocks (xs @ u' # ys)" using assms(5) [OF p(1)] p(2) assms(2) by auto
  have a: "apart (xs @ u' # ys)" using assms(1,2) assms(5) [OF p(1)] by (auto simp: table_ok_def apart_middle)
  show ?thesis using assms(1-4) p(1) o n a by (auto simp: table_ok_def moved_def)
qed

lemma takeWhile_split:
  assumes "length (takeWhile P us) < length us"
  shows "us = takeWhile P us @ us ! length (takeWhile P us) # drop (Suc (length (takeWhile P us))) us"
    "\<not> P (us ! length (takeWhile P us))"
  using assms nth_length_takeWhile [of P us] id_take_nth_drop [OF assms] takeWhile_eq_take [of P us] by simp_all


lemma start_table:
  assumes "table_ok h t m nc sy" "granted g sy"
    and "type = PTC_CMD_RTS_BASE \<longrightarrow> rts \<noteq> None" "type = PTC_CMD_PBS_BASE \<longrightarrow> pbs \<noteq> None"
  shows "returns (nc_qh_user_start g ip_addr port user_name user_pswd type cb rts pbs nc sy) (\<lambda>(r, nc', sy'). table_ok h t m nc' sy'
     \<and> (if \<forall>u\<in>set (nq_user nc). qs_is_used u then r = NC_ERROR_FULL \<and> nc' = nc
        else \<exists>i < NC_QH_USER_SIZE. r = int i \<and> \<not> qs_is_used (nq_user nc ! i) \<and> (\<forall>j<i. qs_is_used (nq_user nc ! j))
          \<and> (\<exists>v. nq_user nc' = (nq_user nc)[i := v] \<and> qs_is_used v \<and> qu_type v = type
             \<and> qu_pbs_pos v = qu_pbs_pos (nq_user nc ! i) \<and> qu_last_type v = qu_last_type (nq_user nc ! i)
             \<and> qu_ip_addr v = array_strncpy 40 ip_addr \<and> qu_port v = port)))"
proof -
  let ?us = "nq_user nc" and ?i = "length (takeWhile qs_is_used (nq_user nc))"
  have len: "length ?us = NC_QH_USER_SIZE" using assms(1) by (simp add: table_ok_def)
  show ?thesis
  proof (cases "?i = length ?us")
    case True
    then have "\<forall>u\<in>set ?us. qs_is_used u" by (metis takeWhile_eq_all_conv takeWhile_eq_take take_all order_refl)
    with True assms(1) show ?thesis by (simp add: nc_qh_user_start_def)
  next
    case False
    then have lt: "?i < length ?us" using length_takeWhile_le [of qs_is_used ?us] by linarith
    define xs ys old where "xs = takeWhile qs_is_used ?us" and "ys = drop (Suc ?i) ?us" and "old = ?us ! ?i"
    have sp: "?us = xs @ old # ys" "\<not> qs_is_used old" "?i = length xs"
      using takeWhile_split [OF lt] by (simp_all add: xs_def ys_def old_def)
    have ok: "slot_ok old" using assms(1) sp(1) by (simp add: table_ok_def)
    then have z: "slot_threads_num old = 0" "slot_mutexes old = 0" "slot_blocks old = {}"
      using sp(2) by (auto simp: slot_ok_def slot_threads_num_def slot_mutexes_def slot_blocks_def)
    let ?u = "old\<lparr> qs_is_used := True, qu_ip_addr := array_strncpy 40 ip_addr, qu_port := port,
        qu_user_name := array_strncpy 32 user_name, qu_user_pswd := array_strncpy 32 user_pswd, qu_type := type, qu_cb := cb \<rparr>"
    obtain p where p: "nq_ptr nc = p + 4" "owns (insert p (all_blocks (xs @ ys))) h sy"
      using assms(1) sp(1) z(3) by (auto simp: table_ok_def)
    have "returns (slot_open g rts pbs ?u sy) (\<lambda>(v, sy'). let v = v\<lparr> qs_state := True \<rparr>
       in owns (insert p (all_blocks (xs @ ys)) \<union> slot_blocks v) h sy' \<and> insert p (all_blocks (xs @ ys)) \<inter> slot_blocks v = {}
        \<and> slot_ok v \<and> moved 0 (slot_mutexes v) sy sy' \<and> qu_type v = qu_type ?u \<and> qs_is_used v
        \<and> qu_pbs_pos v = qu_pbs_pos ?u \<and> qu_last_type v = qu_last_type ?u \<and> qu_ip_addr v = qu_ip_addr ?u \<and> qu_port v = qu_port ?u)"
      using assms(3,4) by (intro open_opens [OF p(2) assms(2) ok sp(2)]) simp_all
    then obtain v sy1 where v: "slot_open g rts pbs ?u sy = Inr (v, sy1)"
      "owns (insert p (all_blocks (xs @ ys)) \<union> slot_blocks (v\<lparr> qs_state := True \<rparr>)) h sy1"
      "insert p (all_blocks (xs @ ys)) \<inter> slot_blocks (v\<lparr> qs_state := True \<rparr>) = {}" "slot_ok (v\<lparr> qs_state := True \<rparr>)"
      "moved 0 (slot_mutexes (v\<lparr> qs_state := True \<rparr>)) sy sy1" "qu_type v = type" "qs_is_used v"
      "qu_pbs_pos v = qu_pbs_pos old" "qu_last_type v = qu_last_type old" "qu_ip_addr v = array_strncpy 40 ip_addr" "qu_port v = port"
      by (auto simp: returns_def Let_def)
    define sy2 where "sy2 = sy1\<lparr> g_tool_thread_count := g_tool_thread_count sy1 + slot_threads_num (v\<lparr> qs_state := True \<rparr>) \<rparr>"
    have th: "slot_threads g v sy1 = Inr sy2"
      using assms(2) by (auto simp: slot_threads_def qh_thread_def tool_thread_create_def granted_def sy2_def slot_threads_num_def
          streams_def Let_def)
    have "moved (slot_threads_num (v\<lparr> qs_state := True \<rparr>) - slot_threads_num old)
        (slot_mutexes (v\<lparr> qs_state := True \<rparr>) - slot_mutexes old) sy sy2"
      using v(5) z by (simp add: moved_def sy2_def)
    then have "table_ok h t m (nc\<lparr> nq_user := xs @ v\<lparr> qs_state := True \<rparr> # ys \<rparr>) sy2"
      using v(2,3,4) p(1) by (intro table_replace [OF assms(1) sp(1)]) (simp_all add: sy2_def)
    moreover have "?us[?i := v\<lparr> qs_state := True \<rparr>] = xs @ v\<lparr> qs_state := True \<rparr> # ys" using sp by simp
    moreover have "nc_qh_user_start g ip_addr port user_name user_pswd type cb rts pbs nc sy =
        Inr (int ?i, nc\<lparr> nq_user := ?us[?i := v\<lparr> qs_state := True \<rparr>] \<rparr>, sy2)"
      using False v(1) th by (simp add: nc_qh_user_start_def Let_def old_def)
    moreover have "\<forall>j<?i. qs_is_used (?us ! j)" using nth_length_takeWhile by (metis set_takeWhileD nth_mem takeWhile_nth)
    moreover have "\<not> (\<forall>u\<in>set ?us. qs_is_used u)" using lt sp(2) nth_mem old_def by metis
    moreover have "\<exists>w. ?us[?i := v\<lparr> qs_state := True \<rparr>] = ?us[?i := w] \<and> qs_is_used w \<and> qu_type w = type
        \<and> qu_pbs_pos w = qu_pbs_pos (?us ! ?i) \<and> qu_last_type w = qu_last_type (?us ! ?i) \<and> qu_ip_addr w = array_strncpy 40 ip_addr \<and> qu_port w = port"
      using v(6-11) by (intro exI [of _ "v\<lparr> qs_state := True \<rparr>"]) (simp add: old_def)
    ultimately have "nc_qh_user_start g ip_addr port user_name user_pswd type cb rts pbs nc sy =
        Inr (int ?i, nc\<lparr> nq_user := ?us[?i := v\<lparr> qs_state := True \<rparr>] \<rparr>, sy2)"
      "table_ok h t m (nc\<lparr> nq_user := ?us[?i := v\<lparr> qs_state := True \<rparr>] \<rparr>) sy2"
      "\<not> (\<forall>u\<in>set ?us. qs_is_used u)"
      "?i < NC_QH_USER_SIZE \<and> int ?i = int ?i \<and> \<not> qs_is_used (?us ! ?i) \<and> (\<forall>j<?i. qs_is_used (?us ! j))
        \<and> (\<exists>w. ?us[?i := v\<lparr> qs_state := True \<rparr>] = ?us[?i := w] \<and> qs_is_used w \<and> qu_type w = type
           \<and> qu_pbs_pos w = qu_pbs_pos (?us ! ?i) \<and> qu_last_type w = qu_last_type (?us ! ?i) \<and> qu_ip_addr w = array_strncpy 40 ip_addr \<and> qu_port w = port)"
      using sp(2) lt len by (simp_all only: old_def simp_thms)
    then show ?thesis by (simp only: returns_simps prod.case if_False nc_qh.simps) (intro conjI exI [of _ ?i]; simp)
  qed
qed

lemma stop_table:
  assumes "table_ok h t m nc sy" "i < NC_QH_USER_SIZE" "en_join e = 0" "en_join2 e = 0" "en_mutex e = 0"
  shows "returns (nc_qh_user_stop e (nq_user nc ! i) sy) (\<lambda>(u', sy').
     table_ok h t m (nc\<lparr> nq_user := (nq_user nc)[i := u'] \<rparr>) sy' \<and> \<not> qs_is_used u')"
proof -
  let ?us = "nq_user nc" and ?u = "nq_user nc ! i"
  have lt: "i < length ?us" using assms(1,2) by (simp add: table_ok_def)
  define xs ys where "xs = take i ?us" and "ys = drop (Suc i) ?us"
  have sp: "?us = xs @ ?u # ys" "length xs = i" using id_take_nth_drop [OF lt] lt by (simp_all add: xs_def ys_def)
  have ok: "slot_ok ?u" using assms(1) lt by (simp add: table_ok_def)
  obtain p where p: "nq_ptr nc = p + 4" "p \<notin> all_blocks ?us" "owns (insert p (all_blocks ?us)) h sy" and a: "apart ?us"
    using assms(1) by (auto simp: table_ok_def)
  have b: "all_blocks ?us = all_blocks (xs @ ys) \<union> slot_blocks ?u" using sp(1) by (metis all_blocks_simps(2,3) Un_assoc Un_commute)
  have d: "all_blocks (xs @ ys) \<inter> slot_blocks ?u = {}" using a sp(1) apart_middle by (metis Int_commute)
  have "insert p (all_blocks ?us) = insert p (all_blocks (xs @ ys)) \<union> slot_blocks ?u" using b by auto
  then have o: "owns (insert p (all_blocks (xs @ ys)) \<union> slot_blocks ?u) h sy" using p(3) by simp
  have n: "insert p (all_blocks (xs @ ys)) \<inter> slot_blocks ?u = {}" using d p(2) b by auto
  from returnsE [OF stop_closes [OF o n ok assms(3-5)]] obtain u' sy' where
    r: "nc_qh_user_stop e ?u sy = Inr (u', sy')" "owns (insert p (all_blocks (xs @ ys))) h sy'" "slot_ok u'" "\<not> qs_is_used u'"
      "moved (- slot_threads_num ?u) (- slot_mutexes ?u) sy sy'" by auto
  have z: "slot_threads_num u' = 0" "slot_mutexes u' = 0" "slot_blocks u' = {}"
    using r(3,4) by (auto simp: slot_ok_def slot_threads_num_def slot_mutexes_def slot_blocks_def)
  have "table_ok h t m (nc\<lparr> nq_user := xs @ u' # ys \<rparr>) sy'"
    using r(2,3,5) p(1) z by (intro table_replace [OF assms(1) sp(1)]) simp_all
  moreover have "?us[i := u'] = xs @ u' # ys" using sp by (metis list_update_length)
  ultimately show ?thesis using r(1,4) by simp
qed

text \<open>Operations that leave a user's type and pointers alone.\<close>

lemma table_touch:
  assumes "table_ok h t m nc sy" "i < NC_QH_USER_SIZE" "qu_type u' = qu_type (nq_user nc ! i)"
    and "qs_is_used u' = qs_is_used (nq_user nc ! i)"
    and "qs_state u' = qs_state (nq_user nc ! i)" "qs_frame u' = qs_frame (nq_user nc ! i)"
    and "qs_stream3_recv u' = qs_stream3_recv (nq_user nc ! i)" "qs_stream3_frame_data u' = qs_stream3_frame_data (nq_user nc ! i)"
    and "qs_audio_send u' = qs_audio_send (nq_user nc ! i)"
  shows "table_ok h t m (nc\<lparr> nq_user := (nq_user nc)[i := u'] \<rparr>) sy"
proof -
  let ?us = "nq_user nc" and ?u = "nq_user nc ! i"
  have lt: "i < length ?us" using assms(1,2) by (simp add: table_ok_def)
  define xs ys where "xs = take i ?us" and "ys = drop (Suc i) ?us"
  have sp: "?us = xs @ ?u # ys" "length xs = i" using id_take_nth_drop [OF lt] lt by (simp_all add: xs_def ys_def)
  have same: "slot_ok u' = slot_ok ?u" "slot_blocks u' = slot_blocks ?u" "slot_threads_num u' = slot_threads_num ?u"
    "slot_mutexes u' = slot_mutexes ?u"
    using assms(3-) by (simp_all add: slot_ok_def slot_blocks_def slot_threads_num_def slot_mutexes_def)
  have ok: "slot_ok u'" using assms(1) lt same(1) by (simp add: table_ok_def)
  obtain p where p: "nq_ptr nc = p + 4" "p \<notin> all_blocks ?us" "owns (insert p (all_blocks ?us)) h sy" and a: "apart ?us"
    using assms(1) by (auto simp: table_ok_def)
  have b: "all_blocks ?us = all_blocks (xs @ ys) \<union> slot_blocks ?u" using sp(1) by (metis all_blocks_simps(2,3) Un_assoc Un_commute)
  have d: "all_blocks (xs @ ys) \<inter> slot_blocks ?u = {}" using a sp(1) apart_middle by (metis Int_commute)
  have "insert p (all_blocks (xs @ ys)) \<union> slot_blocks ?u = insert p (all_blocks ?us)" using b by auto
  then have "table_ok h t m (nc\<lparr> nq_user := xs @ u' # ys \<rparr>) sy"
    using p b d by (intro table_replace [OF assms(1) sp(1) ok]) (auto simp: same moved_def)
  moreover have "?us[i := u'] = xs @ u' # ys" using sp by (metis list_update_length)
  ultimately show ?thesis by simp
qed

lemma slot_with_fields [simp]:
  "qs_is_used (slot_with u s) = qs_is_used s" "qs_state (slot_with u s) = qs_state s" "qs_frame (slot_with u s) = qs_frame s"
  "qs_stream3_recv (slot_with u s) = qs_stream3_recv s" "qs_stream3_frame_data (slot_with u s) = qs_stream3_frame_data s"
  "qs_audio_send (slot_with u s) = qs_audio_send s" "qu_type (slot_with u s) = qu_type u"
  by (simp_all add: slot_with_def nc_qh_user.defs qh_slot.defs)

lemma truncate_type [simp]: "qu_type (nc_qh_user.truncate s) = qu_type s"
  by (simp add: nc_qh_user.defs)

section \<open>Starting and closing the client\<close>

lemma init_users_eq:
  "init_users n 0 sy = (replicate n (slot_zero\<lparr> qu_sock_item := (qu_sock_item slot_zero)\<lparr> has_flag := True \<rparr> \<rparr>),
     sy\<lparr> g_tool_mutex_count := g_tool_mutex_count sy + int n \<rparr>)"
  by (induction n) (simp_all add: nc_qh_user_init_def tool_thread_initMutex_def replicate_append_same)

lemma all_blocks_replicate: "slot_blocks u = {} \<Longrightarrow> all_blocks (replicate n u) = {}"
  by (auto simp: all_blocks_def)

lemma apart_replicate: "slot_blocks u = {} \<Longrightarrow> apart (replicate n u)"
  by (induction n) simp_all

lemma init_table:
  assumes "heap sy0 a = None" "unat (sz + 4) \<ge> 4"
  shows "returns (nc_qh_init (Some a) sz 0 0 None sy0) (\<lambda>(g, sy). \<exists>nc. g = Some nc \<and> (\<forall>u\<in>set (nq_user nc). \<not> qs_is_used u)
     \<and> table_ok (heap sy0) (g_tool_thread_count sy0) (g_tool_mutex_count sy0) nc sy \<and> listed (nq_searchs nc) = [])"
proof -
  have "owns {} (heap sy0) sy0" by (simp add: owns_def)
  from returnsE [OF malloc_owns [OF this assms]] obtain sy1 where
    1: "tool_mem_malloc (Some a) [] sz True sy0 = Inr (a + 4, sy1)" "owns {a} (heap sy0) sy1" "same_threads sy0 sy1" by auto
  define u where "u = slot_zero\<lparr> qu_sock_item := (qu_sock_item slot_zero)\<lparr> has_flag := True \<rparr> \<rparr>"
  have u: "slot_ok u" "slot_blocks u = {}" "slot_threads_num u = 0" "slot_mutexes u = 0" "\<not> qs_is_used u"
    by (simp_all add: u_def slot_zero_def nc_qh_user.defs qh_slot.defs slot_ok_def slot_blocks_def slot_threads_num_def
        slot_mutexes_def qh_user_for_def)
  show ?thesis using 1 u
    by (simp add: nc_qh_init_def init_users_eq u_def [symmetric] tool_thread_initMutex_def qh_thread_def tool_thread_create_def
        Let_def table_ok_def all_blocks_replicate apart_replicate same_threads_def NC_QH_USER_SIZE_def sum_list_replicate listed_def)
qed

text \<open>The joins succeed and so does destroying a mutex.\<close>

definition plain_end :: "qh_ending \<Rightarrow> bool" where
  "plain_end e \<longleftrightarrow> en_join e = 0 \<and> en_join2 e = 0 \<and> en_mutex e = 0"

lemma done_users_frees:
  assumes "plain_end e"
  shows "owns (B \<union> all_blocks us) h sy \<Longrightarrow> B \<inter> all_blocks us = {} \<Longrightarrow> apart us \<Longrightarrow> \<forall>u\<in>set us. slot_ok u
     \<Longrightarrow> returns (done_users e 0 us sy) (\<lambda>sy'. owns B h sy'
       \<and> moved (- sum_list (map slot_threads_num us)) (- sum_list (map slot_mutexes us) - int (length us)) sy sy')"
proof (induction us arbitrary: sy)
  case Nil
  then show ?case by (simp add: moved_def)
next
  case (Cons u us)
  have "owns ((B \<union> all_blocks us) \<union> slot_blocks u) h sy" using Cons.prems(1) by (simp add: Un_ac)
  moreover have "(B \<union> all_blocks us) \<inter> slot_blocks u = {}" using Cons.prems(2,3) by auto
  ultimately obtain u' sy1 where
    1: "nc_qh_user_stop e u sy = Inr (u', sy1)" "owns (B \<union> all_blocks us) h sy1"
      "moved (- slot_threads_num u) (- slot_mutexes u) sy sy1"
    using returnsE [OF stop_closes [of "B \<union> all_blocks us" u h sy e]] Cons.prems(4) assms by (auto simp: plain_end_def)
  define sy2 where "sy2 = snd (tool_thread_doneMutex 0 sy1)"
  have 2: "owns (B \<union> all_blocks us) h sy2" "moved 0 (- 1) sy1 sy2"
    using 1(2) by (simp_all add: sy2_def tool_thread_doneMutex_def moved_def)
  have "B \<inter> all_blocks us = {}" "apart us" "\<forall>u\<in>set us. slot_ok u" using Cons.prems(2-4) by auto
  from returnsE [OF Cons.IH [OF 2(1) this]] obtain sy' where
    3: "done_users e 0 us sy2 = Inr sy'" "owns B h sy'"
      "moved (- sum_list (map slot_threads_num us)) (- sum_list (map slot_mutexes us) - int (length us)) sy2 sy'" by auto
  show ?case using 1(1,3) 2(2) 3
    by (simp add: nc_qh_user_done_def sy2_def [symmetric] moved_def)
qed

lemma done_table:
  assumes "table_ok h t m nc sy" "plain_end e" "h q \<noteq> None"
  shows "returns (nc_qh_done e 0 (Some nc) (Some (q + 4)) sy) (\<lambda>(g, mp, sy'). g = None \<and> mp = None \<and> heap sy' = h(q := None)
     \<and> g_tool_thread_count sy' = t - 1 \<and> g_tool_mutex_count sy' = m - 1)"
proof -
  let ?us = "nq_user nc" and ?sy = "snd (tool_thread_join (en_join e) sy)"
  obtain p where p: "nq_ptr nc = p + 4" "p \<notin> all_blocks ?us" "owns (insert p (all_blocks ?us)) h sy" and a: "apart ?us"
    and ok: "\<forall>u\<in>set ?us. slot_ok u" and len: "length ?us = NC_QH_USER_SIZE"
    using assms(1) by (auto simp: table_ok_def)
  have "owns ({p} \<union> all_blocks ?us) h ?sy" using p(3) assms(2) by (simp add: tool_thread_join_def plain_end_def)
  from returnsE [OF done_users_frees [OF assms(2) this _ a ok]] p(2) obtain sy1 where
    1: "done_users e 0 ?us ?sy = Inr sy1" "owns {p} h sy1"
      "moved (- sum_list (map slot_threads_num ?us)) (- sum_list (map slot_mutexes ?us) - int (length ?us)) ?sy sy1" by auto
  define sy2 where "sy2 = snd (tool_thread_doneMutex 0 (snd (tool_thread_doneMutex 0 sy1)))"
  have 2: "owns {p} h sy2" "moved 0 (- 2) sy1 sy2" using 1(2) by (simp_all add: sy2_def tool_thread_doneMutex_def moved_def)
  from returnsE [OF free_owns [of p "{}" h sy2]] 2(1) obtain sy3 where
    3: "tool_mem_free (Some (p + 4)) sy2 = Inr sy3" "owns {} h sy3" "same_threads sy2 sy3" by auto
  have h: "heap sy3 = h" using 3(2) by (auto simp: owns_def)
  have c: "g_tool_thread_count sy3 = t \<and> g_tool_mutex_count sy3 = m"
    using assms(1,2) 1(3) 2(2) 3(3) len
    by (simp add: table_ok_def moved_def same_threads_def tool_thread_join_def plain_end_def NC_QH_USER_SIZE_def)
  have "returns (sock_manager_done (en_join e) 0 (Some (q + 4)) sy3) (\<lambda>sy'. heap sy' = h(q := None)
     \<and> g_tool_thread_count sy' = t - 1 \<and> g_tool_mutex_count sy' = m - 1)"
    using h c assms(2,3) by (auto simp: sock_manager_done_def tool_mem_free_def tool_thread_join_def tool_thread_doneMutex_def
        plain_end_def)
  with 1(1) 3(1) p(1) show ?thesis by (simp add: nc_qh_done_def sy2_def [symmetric] Let_def)
qed

section \<open>The client in use\<close>

text \<open>
  What can happen to the client from its start on, in any order: users are started and stopped, commanded
  by other threads, and their threads take turns. Memory and threads are granted, and \<^verbatim>\<open>socket\<close> and
  \<^verbatim>\<open>close\<close> succeed; what the network does is not restricted.
\<close>

definition starts ::
  "qh_grant \<Rightarrow> nc_dev option \<Rightarrow> bool \<Rightarrow> nc_qh \<Rightarrow> sysf \<Rightarrow> (int \<times> nc_qh option \<times> sysf) outcome set" where
  "starts gr dev cb nc sy = {nc_qh_login_v2 gr dev cb (Some nc) sy, nc_qh_startTalk_v2 gr dev cb (Some nc) sy}
     \<union> {nc_qh_startRts_v2 gr junk dev ch st cb (Some nc) sy |junk ch st. True}
     \<union> {nc_qh_startPbs gr dev pbs cb (Some nc) sy |pbs. True}"

definition stops :: "qh_ending \<Rightarrow> int \<Rightarrow> nc_qh \<Rightarrow> sysf \<Rightarrow> (int \<times> nc_qh option \<times> sysf) outcome set" where
  "stops e i nc sy = {nc_qh_logout e i (Some nc) sy, nc_qh_stopRts e i (Some nc) sy, nc_qh_stopTalk e i (Some nc) sy,
     nc_qh_stopPbs e i (Some nc) sy}"

definition commands :: "int \<Rightarrow> nc_qh \<Rightarrow> sysf \<Rightarrow> (int \<times> nc_qh option \<times> sysf) outcome set" where
  "commands i nc sy = {nc_qh_forceRtsKeyFrame i (Some nc) sy, nc_qh_pausePbs i (Some nc) sy, nc_qh_restartPbs i (Some nc) sy}
     \<union> {nc_qh_setPbsPos i pos (Some nc) sy |pos. True} \<union> {nc_qh_setPbsSpeed i speed (Some nc) sy |speed. True}
     \<union> {nc_qh_sendTalk i buf len (Some nc) sy |buf len. True}"

inductive client :: "sysf \<Rightarrow> nc_qh \<Rightarrow> sysf \<Rightarrow> bool" for sy0 where
  Client_init: "heap sy0 a = None \<Longrightarrow> unat (sz + 4) \<ge> 4 \<Longrightarrow> nc_qh_init (Some a) sz 0 0 None sy0 = Inr (Some nc, sy)
     \<Longrightarrow> client sy0 nc sy"
| Client_start: "client sy0 nc sy \<Longrightarrow> granted gr sy \<Longrightarrow> Inr (r, Some nc', sy') \<in> starts gr dev cb nc sy \<Longrightarrow> client sy0 nc' sy'"
| Client_stop: "client sy0 nc sy \<Longrightarrow> plain_end e \<Longrightarrow> Inr (r, Some nc', sy') \<in> stops e i nc sy \<Longrightarrow> client sy0 nc' sy'"
| Client_command: "client sy0 nc sy \<Longrightarrow> Inr (r, Some nc', sy') \<in> commands i nc sy \<Longrightarrow> client sy0 nc' sy'"
| Client_turn: "client sy0 nc sy \<Longrightarrow> i < NC_QH_USER_SIZE \<Longrightarrow> qs_state (nq_user nc ! i) \<Longrightarrow> plain_turn t
     \<Longrightarrow> slot_turn t (nq_user nc ! i) sys = Inr (u, sys') \<Longrightarrow> client sy0 (nc\<lparr> nq_user := (nq_user nc)[i := u] \<rparr>) sy"

text \<open>Each of these keeps the table as it should be.\<close>

lemma user_call_cases:
  assumes "Inr (r, Some nc', sy') = user_call f i (Some nc) sy"
  obtains "nc' = nc" "sy' = sy" "r = NC_ERROR_INPUT" "i < 0 \<or> i \<ge> int NC_QH_USER_SIZE"
  | u where "nat i < NC_QH_USER_SIZE" "0 \<le> i" "f (nq_user nc ! nat i) sy = Inr (u, sy')" "r = 0"
      "nc' = nc\<lparr> nq_user := (nq_user nc)[nat i := u] \<rparr>"
proof (cases "i < 0 \<or> i \<ge> int NC_QH_USER_SIZE")
  case True
  then show thesis using assms that(1) by (simp add: user_call_def)
next
  case False
  then obtain x where "f (nq_user nc ! nat i) sy = Inr x" "nc' = nc\<lparr> nq_user := (nq_user nc)[nat i := fst x] \<rparr>" "snd x = sy'" "r = 0"
    using assms by (auto simp: user_call_def andThen_Inr_iff eq_commute [of "Inr _" "andThen _ _"])
  then show thesis using False that(2) [of "fst x"] by (cases x) (simp add: nat_less_iff)
qed

text \<open>A user was started: the lowest number that was free, or none was.\<close>

definition qh_full :: "nc_qh \<Rightarrow> bool" where
  "qh_full nc \<longleftrightarrow> (\<forall>u\<in>set (nq_user nc). qs_is_used u)"

definition started :: "u32 \<Rightarrow> string \<Rightarrow> int \<Rightarrow> int \<Rightarrow> nc_qh \<Rightarrow> nc_qh \<Rightarrow> bool" where
  "started type ip port r nc nc' \<longleftrightarrow>
     (if qh_full nc then r = NC_ERROR_FULL \<and> nc' = nc
      else \<exists>i < NC_QH_USER_SIZE. r = int i \<and> \<not> qs_is_used (nq_user nc ! i) \<and> (\<forall>j<i. qs_is_used (nq_user nc ! j))
        \<and> (\<exists>v. nq_user nc' = (nq_user nc)[i := v] \<and> qs_is_used v \<and> qu_type v = type
           \<and> qu_pbs_pos v = qu_pbs_pos (nq_user nc ! i) \<and> qu_last_type v = qu_last_type (nq_user nc ! i)
           \<and> qu_ip_addr v = array_strncpy 40 ip \<and> qu_port v = port))"

lemma start_call_returns:
  assumes "table_ok h t m nc sy" "granted gr sy"
    and "type = PTC_CMD_RTS_BASE \<longrightarrow> rts \<noteq> None" "type = PTC_CMD_PBS_BASE \<longrightarrow> pbs \<noteq> None"
  shows "returns (start_call gr d type cb rts pbs nc sy) (\<lambda>(r, g, sy'). \<exists>nc'. g = Some nc' \<and> table_ok h t m nc' sy'
     \<and> started type (dev_ip d) (dev_msg_port d) r nc nc')"
  unfolding start_call_def returns_simps
  by (rule returns_mono [OF start_table [OF assms]]) (clarsimp simp only: returns_simps started_def qh_full_def prod.case, blast)

lemma starts_table:
  assumes "table_ok h t m nc sy" "granted gr sy" "Inr (r, Some nc', sy') \<in> starts gr dev cb nc sy"
  shows "table_ok h t m nc' sy'"
proof -
  have s: "table_ok h t m nc' sy'"
    if "start_call gr d type cb rts pbs nc sy = Inr (r, Some nc', sy')"
      "type = PTC_CMD_RTS_BASE \<longrightarrow> rts \<noteq> None" "type = PTC_CMD_PBS_BASE \<longrightarrow> pbs \<noteq> None" for d type rts pbs
    using start_call_returns [OF assms(1,2) that(2,3), of d cb] that(1) by simp
  have ne: "PTC_CMD_ALARM_BASE \<noteq> PTC_CMD_RTS_BASE" "PTC_CMD_ALARM_BASE \<noteq> PTC_CMD_PBS_BASE"
    by (simp_all add: PTC_CMD_ALARM_BASE_def PTC_CMD_RTS_BASE_def PTC_CMD_PBS_BASE_def)
  from assms(3) consider "nc_qh_login_v2 gr dev cb (Some nc) sy = Inr (r, Some nc', sy')"
    | "nc_qh_startTalk_v2 gr dev cb (Some nc) sy = Inr (r, Some nc', sy')"
    | junk ch st where "nc_qh_startRts_v2 gr junk dev ch st cb (Some nc) sy = Inr (r, Some nc', sy')"
    | pbs where "nc_qh_startPbs gr dev pbs cb (Some nc) sy = Inr (r, Some nc', sy')"
    unfolding starts_def by (elim UnE insertE emptyE CollectE exE conjE) (blast dest: sym)+
  then show ?thesis
  proof cases
    case 1
    with assms(1) ne show ?thesis by (cases dev) (simp_all add: nc_qh_login_v2_def s)
  next
    case 2
    with assms(1) show ?thesis by (cases dev) (simp_all add: nc_qh_startTalk_v2_def s)
  next
    case 3
    with assms(1) show ?thesis by (cases dev) (simp_all add: nc_qh_startRts_v2_def s)
  next
    case 4
    with assms(1) show ?thesis by (cases dev; cases pbs) (simp_all add: nc_qh_startPbs_def s)
  qed
qed

lemma stops_table:
  assumes "table_ok h t m nc sy" "plain_end e" "Inr (r, Some nc', sy') \<in> stops e i nc sy"
  shows "table_ok h t m nc' sy'"
proof -
  have "Inr (r, Some nc', sy') = user_call (nc_qh_user_stop e) i (Some nc) sy"
    using assms(3) by (auto simp: stops_def nc_qh_logout_def nc_qh_stopRts_def nc_qh_stopTalk_def nc_qh_stopPbs_def)
  then show ?thesis
  proof (cases rule: user_call_cases)
    case (2 u)
    then show ?thesis using stop_table [OF assms(1) 2(1), of e] assms(2) by (simp add: plain_end_def)
  qed (use assms(1) in simp)
qed

lemma obey_table:
  assumes "table_ok h t m nc sy" "i < NC_QH_USER_SIZE" "slot_obey c (nq_user nc ! i) sy = Inr (u, sy')"
  shows "table_ok h t m (nc\<lparr> nq_user := (nq_user nc)[i := u] \<rparr>) sy'"
proof -
  obtain w where "qh_obey c (nc_qh_user.truncate (nq_user nc ! i)) = Inr w" "u = slot_with w (nq_user nc ! i)" "sy' = sy"
    using assms(3) by (auto simp: slot_obey_def andThen_Inr_iff)
  moreover from yieldsD [OF obey_keeps this(1)] have "qu_type w = qu_type (nq_user nc ! i)" by simp
  ultimately show ?thesis by (simp add: table_touch [OF assms(1,2)])
qed

lemma commands_table:
  assumes "table_ok h t m nc sy" "Inr (r, Some nc', sy') \<in> commands i nc sy"
  shows "table_ok h t m nc' sy'"
proof -
  have o: ?thesis if "Inr (r, Some nc', sy') = user_call (slot_obey c) i (Some nc) sy" for c
    using that by (cases rule: user_call_cases) (use assms(1) obey_table [OF assms(1)] in auto)
  have k: ?thesis if "Inr (r, Some nc', sy') = user_call (slot_talk b n) i (Some nc) sy" for b n
    using that
  proof (cases rule: user_call_cases)
    case (2 u)
    then obtain ring where "u = (nq_user nc ! nat i)\<lparr> qu_audio_send := ring \<rparr>" "sy' = sy" by (auto simp: slot_talk_def andThen_Inr_iff)
    with 2 show ?thesis by (simp add: table_touch [OF assms(1)])
  qed (use assms(1) in simp)
  from assms(2) consider c where "Inr (r, Some nc', sy') = user_call (slot_obey c) i (Some nc) sy"
    | b n where "Inr (r, Some nc', sy') = user_call (slot_talk b n) i (Some nc) sy"
    | "nc' = nc" "sy' = sy"
    by (auto simp: commands_def nc_qh_forceRtsKeyFrame_def nc_qh_pausePbs_def nc_qh_restartPbs_def nc_qh_setPbsPos_def
        nc_qh_setPbsSpeed_def nc_qh_sendTalk_def split: if_splits option.splits)
  then show ?thesis by cases (use o k assms(1) in blast)+
qed

lemma turn_table:
  assumes "table_ok h t m nc sy" "i < NC_QH_USER_SIZE" "plain_turn tn" "slot_turn tn (nq_user nc ! i) sys = Inr (u, sys')"
  shows "table_ok h t m (nc\<lparr> nq_user := (nq_user nc)[i := u] \<rparr>) sy"
proof -
  obtain q w where q: "qh_turn_of tn (nc_qh_user.truncate (nq_user nc ! i)) (qh_at (turn_clock tn) sys) = Inr (q, w, sys')"
    "u = slot_with w (nq_user nc ! i)"
    using assms(4) by (auto simp: slot_turn_def andThen_Inr_iff)
  from yieldsD [OF turn_kept [OF assms(3)] q(1)] have "qu_type w = qu_type (nq_user nc ! i)" by (simp add: kept_def)
  with q(2) show ?thesis by (simp add: table_touch [OF assms(1,2)])
qed

lemma client_table:
  "client sy0 nc sy \<Longrightarrow> table_ok (heap sy0) (g_tool_thread_count sy0) (g_tool_mutex_count sy0) nc sy"
proof (induction rule: client.induct)
  case (Client_init a sz nc sy)
  then show ?case using init_table [OF Client_init(1,2)] by simp
qed (blast intro: starts_table stops_table commands_table turn_table)+

lemma apart_nth: "apart us \<Longrightarrow> i < j \<Longrightarrow> j < length us \<Longrightarrow> slot_blocks (us ! i) \<inter> slot_blocks (us ! j) = {}"
proof (induction us arbitrary: i j)
  case (Cons u us)
  obtain j' where j: "j = Suc j'" using Cons.prems(2) by (cases j) auto
  show ?case
  proof (cases i)
    case 0
    have "us ! j' \<in> set us" using Cons.prems(3) j by simp
    then have "slot_blocks (us ! j') \<subseteq> all_blocks us" by (auto simp: all_blocks_def)
    then show ?thesis using Cons.prems(1) 0 j by auto
  next
    case (Suc i')
    then show ?thesis using Cons j by simp
  qed
qed simp

section \<open>Runs to apply the theorems to\<close>

definition demo_grant :: "nat \<Rightarrow> qh_grant" where
  "demo_grant a = \<lparr> gr_frame = Some a, gr_junk = \<lparr> f_head = head_zero, f_data = [] \<rparr>, gr_pool = Some (a + 1),
     gr_mem = (\<lambda>_. 0), gr_video = Some (a + 2), gr_audio = Some (a + 3), gr_audio_size = 100,
     gr_ring = \<lparr> s2_pool = [], s2_write_pos = 0 \<rparr>, gr_mutex = 0, gr_pid = 0, gr_pid2 = 0 \<rparr>"

text \<open>The sockets' manager has its block at 16, its thread and its mutex.\<close>

definition demo_sysf :: sysf where
  "demo_sysf = sysf_start\<lparr> heap := [16 \<mapsto> \<lparr> psize = 40, payload = [] \<rparr>], g_tool_mem_count := 1, g_tool_thread_count := 1,
     g_tool_mutex_count := 1 \<rparr>"

definition demo_end :: qh_ending where
  "demo_end = \<lparr> en_join = 0, en_join2 = 0, en_mutex = 0 \<rparr>"

lemma demo_plain: "plain_end demo_end"
  by (simp add: demo_end_def plain_end_def)

text \<open>The client has just been started.\<close>

lemma demo_idle:
  "\<exists>nc sy a. client demo_sysf nc sy \<and> (\<forall>u\<in>set (nq_user nc). \<not> qs_is_used u) \<and> granted (demo_grant a) sy \<and> listed (nq_searchs nc) = []"
proof -
  have sz: "unat ((1000 :: u32) + 4) \<ge> 4" by simp
  have h: "heap demo_sysf 0 = None" by (simp add: demo_sysf_def)
  from returnsE [OF init_table [OF h sz]] obtain nc sy where
    i: "nc_qh_init (Some 0) 1000 0 0 None demo_sysf = Inr (Some nc, sy)" "\<forall>u\<in>set (nq_user nc). \<not> qs_is_used u"
      "table_ok (heap demo_sysf) (g_tool_thread_count demo_sysf) (g_tool_mutex_count demo_sysf) nc sy" "listed (nq_searchs nc) = []" by auto
  have "slot_blocks u = {}" if "u \<in> set (nq_user nc)" for u
    using i(2,3) that by (auto simp: table_ok_def slot_ok_def slot_blocks_def)
  then have "all_blocks (nq_user nc) = {}" by (auto simp: all_blocks_def)
  then obtain p where "owns {p} (heap demo_sysf) sy" using i(3) by (auto simp: table_ok_def)
  then have "granted (demo_grant (p + 17)) sy" by (auto simp: granted_def demo_grant_def owns_def demo_sysf_def)
  with Client_init [OF h sz i(1)] i(2,4) show ?thesis by blast
qed

text \<open>A live stream has been started.\<close>

lemma demo_live:
  "\<exists>nc sy. client demo_sysf nc sy \<and> qs_is_used (nq_user nc ! 0) \<and> qu_type (nq_user nc ! 0) = PTC_CMD_RTS_BASE"
proof -
  obtain nc sy a where i: "client demo_sysf nc sy" "\<forall>u\<in>set (nq_user nc). \<not> qs_is_used u" "granted (demo_grant a) sy"
    using demo_idle by blast
  let ?m = "nc_qh_startRts_v2 (demo_grant a) [] (Some demo_dev) 0 0 True (Some nc) sy"
  have len: "length (nq_user nc) = NC_QH_USER_SIZE" using client_table [OF i(1)] by (simp add: table_ok_def)
  from returnsE [OF start_call_returns [OF client_table [OF i(1)] i(3), of PTC_CMD_RTS_BASE "Some [word_of_int 0, word_of_int 0]" None
      demo_dev True]] obtain r nc' sy' where
    s: "?m = Inr (r, Some nc', sy')" "started PTC_CMD_RTS_BASE (dev_ip demo_dev) (dev_msg_port demo_dev) r nc nc'"
    by (auto simp: nc_qh_startRts_v2_def)
  have n: "nq_user nc \<noteq> []" using len by (auto simp: NC_QH_USER_SIZE_def)
  then have "\<not> qh_full nc" using i(2) by (metis list.set_sel(1) qh_full_def)
  with s(2) obtain k v where k: "k < NC_QH_USER_SIZE" "\<forall>j<k. qs_is_used (nq_user nc ! j)" "nq_user nc' = (nq_user nc)[k := v]"
    "qs_is_used v" "qu_type v = PTC_CMD_RTS_BASE" by (auto simp: started_def)
  have "k = 0"
  proof (rule ccontr)
    assume "k \<noteq> 0"
    then have "qs_is_used (nq_user nc ! 0)" using k(2) by simp
    moreover have "nq_user nc ! 0 \<in> set (nq_user nc)" using n by simp
    ultimately show False using i(2) by simp
  qed
  then have "nq_user nc' ! 0 = v" using k(3) n by simp
  moreover have "Inr (r, Some nc', sy') \<in> starts (demo_grant a) (Some demo_dev) True nc sy"
    using s(1) by (auto simp: starts_def) metis
  ultimately show ?thesis using Client_start [OF i(1,3)] k(4,5) by blast
qed

section \<open>Properties\<close>

text \<open>C4: whatever users were started, stopped, commanded and running, closing the client ends its threads,
  frees every block it has allocated, each once, and leaves the heap and the counts of threads and mutexes as they
  were before the client was started, except that the manager of all sockets, with its block at \<open>q\<close>, is gone too.\<close>

theorem client_returns_all:
  assumes "client sy0 nc sy" "plain_end e" "heap sy0 q \<noteq> None"
  shows "returns (nc_qh_done e 0 (Some nc) (Some (q + 4)) sy) (\<lambda>(g, mp, sy'). g = None \<and> mp = None
     \<and> heap sy' = (heap sy0)(q := None) \<and> g_tool_thread_count sy' = g_tool_thread_count sy0 - 1
     \<and> g_tool_mutex_count sy' = g_tool_mutex_count sy0 - 1)"
  using done_table [OF client_table [OF assms(1)] assms(2,3)] .

theorem client_returns_all_witness:
  "\<exists>nc sy. client demo_sysf nc sy \<and> qs_is_used (nq_user nc ! 0)
     \<and> returns (nc_qh_done demo_end 0 (Some nc) (Some 20) sy) (\<lambda>(g, mp, sy'). g = None \<and> heap sy' = Map.empty)"
proof -
  obtain nc sy where d: "client demo_sysf nc sy" "qs_is_used (nq_user nc ! 0)" using demo_live by blast
  have "heap demo_sysf 16 \<noteq> None" by (simp add: demo_sysf_def)
  from returnsE [OF client_returns_all [OF d(1) demo_plain this]]
  have "returns (nc_qh_done demo_end 0 (Some nc) (Some 20) sy) (\<lambda>(g, mp, sy'). g = None \<and> heap sy' = Map.empty)"
    by (auto simp: demo_sysf_def)
  with d show ?thesis by blast
qed

text \<open>C5: in every state the client reaches, a user has exactly what its kind needs: the frame, the pool of the
  ring and the player's frame for a stream, the ring of sound for a talk, nothing for the other kinds and for users
  not in use; what it has is allocated, and no two users have a block in common.\<close>

theorem client_users_typed:
  assumes "client sy0 nc sy" "i < NC_QH_USER_SIZE"
  defines "u \<equiv> nq_user nc ! i"
  shows "(qs_frame u \<noteq> None) = (qs_is_used u \<and> (qu_type u = PTC_CMD_RTS_BASE \<or> qu_type u = PTC_CMD_PBS_BASE))
     \<and> (s3_pool (qs_stream3_recv u) \<noteq> None) = (qs_frame u \<noteq> None) \<and> (qs_stream3_frame_data u \<noteq> None) = (qs_frame u \<noteq> None)
     \<and> (qs_audio_send u \<noteq> None) = (qs_is_used u \<and> qu_type u = PTC_CMD_TALK_BASE)
     \<and> (\<forall>a. a \<in> slot_blocks u \<longrightarrow> heap sy a \<noteq> None \<and> heap sy0 a = None)
     \<and> (\<forall>j < NC_QH_USER_SIZE. j \<noteq> i \<longrightarrow> slot_blocks u \<inter> slot_blocks (nq_user nc ! j) = {})"
proof -
  note t = client_table [OF assms(1), unfolded table_ok_def]
  have mem: "u \<in> set (nq_user nc)" using t assms(2) by (simp add: u_def)
  then have ok: "slot_ok u" and sub: "slot_blocks u \<subseteq> all_blocks (nq_user nc)" using t by (auto simp: all_blocks_def)
  have "slot_blocks u \<inter> slot_blocks (nq_user nc ! j) = {}" if "j < NC_QH_USER_SIZE" "j \<noteq> i" for j
    using apart_nth [of "nq_user nc" i j] apart_nth [of "nq_user nc" j i] t assms(2) that
    by (cases "i < j") (auto simp: u_def Int_commute)
  moreover have "heap sy a \<noteq> None \<and> heap sy0 a = None" if "a \<in> slot_blocks u" for a
    using t sub that by (auto simp: owns_def)
  ultimately show ?thesis using ok by (auto simp: slot_ok_def streams_def split: if_splits)
qed

theorem client_users_typed_witness:
  "\<exists>nc sy. client demo_sysf nc sy \<and> qs_is_used (nq_user nc ! 0) \<and> qs_frame (nq_user nc ! 0) \<noteq> None"
proof -
  obtain nc sy where "client demo_sysf nc sy" "qs_is_used (nq_user nc ! 0)" "qu_type (nq_user nc ! 0) = PTC_CMD_RTS_BASE"
    using demo_live by blast
  moreover have "0 < NC_QH_USER_SIZE" by (simp add: NC_QH_USER_SIZE_def)
  from client_users_typed [OF calculation(1) this, THEN conjunct1] calculation(2,3) have "qs_frame (nq_user nc ! 0) \<noteq> None"
    by blast
  ultimately show ?thesis by blast
qed

text \<open>C34: starting a live stream succeeds with the lowest number that is not in use, which is then in use for
  live streams, and no other user is touched; when all 128 are in use it returns \<^verbatim>\<open>NC_ERROR_FULL\<close> and the client is
  as it was.\<close>

theorem startRts_lowest_free:
  assumes "client sy0 nc sy" "granted gr sy"
  shows "returns (nc_qh_startRts_v2 gr junk (Some d) ch st cb (Some nc) sy) (\<lambda>(r, g, _).
     if qh_full nc then r = NC_ERROR_FULL \<and> g = Some nc
     else \<exists>i v nc'. i < NC_QH_USER_SIZE \<and> r = int i \<and> g = Some nc' \<and> \<not> qs_is_used (nq_user nc ! i)
       \<and> (\<forall>j<i. qs_is_used (nq_user nc ! j)) \<and> nq_user nc' = (nq_user nc)[i := v] \<and> qs_is_used v \<and> qu_type v = PTC_CMD_RTS_BASE)"
proof -
  have p: "if qh_full nc then r = NC_ERROR_FULL \<and> Some nc' = Some nc
     else \<exists>i v n. i < NC_QH_USER_SIZE \<and> r = int i \<and> Some nc' = Some n \<and> \<not> qs_is_used (nq_user nc ! i)
       \<and> (\<forall>j<i. qs_is_used (nq_user nc ! j)) \<and> nq_user n = (nq_user nc)[i := v] \<and> qs_is_used v \<and> qu_type v = PTC_CMD_RTS_BASE"
    if "started PTC_CMD_RTS_BASE (dev_ip d) (dev_msg_port d) r nc nc'" for r nc'
    using that by (cases "qh_full nc") (simp_all add: started_def, blast)
  show ?thesis unfolding nc_qh_startRts_v2_def option.case
    by (rule returns_mono [OF start_call_returns [OF client_table [OF assms(1)] assms(2)]]) (simp, simp, clarify, rule p)
qed

theorem startRts_lowest_free_witness:
  "\<exists>nc sy gr. client demo_sysf nc sy \<and> returns (nc_qh_startRts_v2 gr [] (Some demo_dev) 0 1 True (Some nc) sy) (\<lambda>(r, g, _). r \<ge> 0)"
proof -
  obtain nc sy a where i: "client demo_sysf nc sy" "\<forall>u\<in>set (nq_user nc). \<not> qs_is_used u" "granted (demo_grant a) sy"
    using demo_idle by blast
  have "nq_user nc \<noteq> []" using client_table [OF i(1)] by (auto simp: table_ok_def NC_QH_USER_SIZE_def)
  then have "\<not> qh_full nc" using i(2) by (metis list.set_sel(1) qh_full_def)
  then have "returns (nc_qh_startRts_v2 (demo_grant a) [] (Some demo_dev) 0 1 True (Some nc) sy) (\<lambda>(r, g, _). r \<ge> 0)"
    by (intro returns_mono [OF startRts_lowest_free [OF i(1,3)]]) auto
  with i(1) show ?thesis by blast
qed

text \<open>C35: sound sent to a user that is not talking ends the program: the function checks the number but not what
  the user is for, and \<^verbatim>\<open>tool_stream2_set\<close> does not accept NULL.\<close>

theorem sendTalk_without_talk:
  assumes "client sy0 nc sy" "0 \<le> i" "i < int NC_QH_USER_SIZE"
    and "\<not> (qs_is_used (nq_user nc ! nat i) \<and> qu_type (nq_user nc ! nat i) = PTC_CMD_TALK_BASE)"
  shows "nc_qh_sendTalk i (Some buf) len (Some nc) sy = Inl Exit"
proof -
  have "nq_user nc ! nat i \<in> set (nq_user nc)" using client_table [OF assms(1)] assms(2,3) by (simp add: table_ok_def nat_less_iff)
  then have "slot_ok (nq_user nc ! nat i)" using client_table [OF assms(1)] by (simp add: table_ok_def)
  then have "qs_audio_send (nq_user nc ! nat i) = None" using assms(4) by (auto simp: slot_ok_def split: if_splits)
  then show ?thesis using assms(2,3) by (simp add: nc_qh_sendTalk_def user_call_def slot_talk_def tool_stream2_set_def)
qed

theorem sendTalk_without_talk_witness:
  "\<exists>nc sy. client demo_sysf nc sy \<and> nc_qh_sendTalk 0 (Some [1, 2]) 2 (Some nc) sy = Inl Exit"
proof -
  obtain nc sy where "client demo_sysf nc sy" "qu_type (nq_user nc ! 0) = PTC_CMD_RTS_BASE" using demo_live by blast
  moreover from sendTalk_without_talk [OF this(1), of 0] this(2) have "nc_qh_sendTalk 0 (Some [1, 2]) 2 (Some nc) sy = Inl Exit"
    by (simp add: NC_QH_USER_SIZE_def)
  ultimately show ?thesis by blast
qed

end
