(* ===== verification/Nc_Hy.thy ===== *)
theory Nc_Hy
  imports Nc_Table
begin

text \<open>
  The table of devices of the HY client (\<^verbatim>\<open>sab_app/jni/nc/nc_hy.c\<close>). A device is started the first time
  something is wanted of it and shared by everything that is: live streams of its channels, a playback, a
  talk, alarms. Starting and stopping set what is wanted; the device's thread acts on it. What that
  thread does is not modelled: it logs in, creates two threads for each channel of the device and for the
  playback, with their rings, frames and sockets, and takes them away when it logs out. A thread of the client stops devices of which nothing is wanted. The operations on the table
  run one after the other, under its mutex. A callback is a number, \<open>None\<close> for NULL.
\<close>

section \<open>State\<close>

definition NC_HY_USER_SIZE :: nat where "NC_HY_USER_SIZE = 10"
definition NC_HY_CHANNEL_SIZE :: nat where "NC_HY_CHANNEL_SIZE = 16"
definition NC_HY_STREAM_SIZE :: int where "NC_HY_STREAM_SIZE = 2"
definition NC_PTC_HuaYi :: u32 where "NC_PTC_HuaYi = 0x01000000"
definition NC_ERROR_TIMEOUT :: int where "NC_ERROR_TIMEOUT = - 12"
definition NC_ERROR_REPEAT :: int where "NC_ERROR_REPEAT = - 15"
definition NC_ERROR_PTZNORTS :: int where "NC_ERROR_PTZNORTS = - 16"

text \<open>
  \<^verbatim>\<open>nc_hy_dev_t\<close>: the fields the table's operations use. \<open>hd_ptz\<close>: channel, command, parameter and step of
  the last order to the camera's motor.
\<close>

record nc_hy_dev =
  hd_state :: bool
  hd_ip_addr :: string
  hd_port :: int
  hd_user_name :: string
  hd_user_pswd :: string
  hd_state_tick :: "int \<times> int"
  hd_msg_sock :: tool_sock_item
  hd_rts_enable :: "bool list"
  hd_rts_stream_type :: "int list"
  hd_rts_cb :: "nat option list"
  hd_pbs_enable :: bool
  hd_pbs_record :: ptc_cfg_record
  hd_pbs_cb :: "nat option"
  hd_ptz :: "u8 \<times> u8 \<times> u8 \<times> u8"
  hd_talk_enable :: bool
  hd_last_talk_enable :: bool
  hd_talk_send_stream :: "tool_stream2 option"
  hd_talk_cb :: "nat option"
  hd_alarm_enable :: bool
  hd_alarm_cb :: "nat option"

text \<open>\<^verbatim>\<open>nc_hy_t\<close> at the address \<open>nh_ptr\<close>.\<close>

record nc_hy =
  nh_ptr :: nat
  nh_dev :: "nc_hy_dev list"
  nh_buffer_usec :: int

section \<open>A device\<close>

text \<open>The number the application gets: the client, the device and what was started on it.\<close>

definition hy_id :: "nat \<Rightarrow> int \<Rightarrow> int" where
  "hy_id dev_id no = sint (NC_PTC_HuaYi OR push_bit 8 (of_nat dev_id) OR word_of_int no :: u32)"

definition hy_pbs_no :: int where "hy_pbs_no = int NC_HY_CHANNEL_SIZE"
definition hy_talk_no :: int where "hy_talk_no = int NC_HY_CHANNEL_SIZE * 2"
definition hy_alarm_no :: int where "hy_alarm_no = int NC_HY_CHANNEL_SIZE * 3"

text \<open>\<open>pid\<close>, \<open>jn\<close>: the results of creating and joining the login thread; \<open>tv\<close>: the clock.\<close>

definition nc_hy_dev_start ::
  "int \<Rightarrow> int \<times> int \<Rightarrow> string \<Rightarrow> int \<Rightarrow> string \<Rightarrow> string \<Rightarrow> nc_hy_dev \<Rightarrow> sysf \<Rightarrow> (nc_hy_dev \<times> sysf) outcome" where
  "nc_hy_dev_start pid tv ip_addr port user_name user_pswd d sy =
     (let (r, sy) = tool_thread_create pid sy
      in if r < 0 then Inl Exit
         else Inr (d\<lparr> hd_ip_addr := array_strncpy 40 ip_addr, hd_port := port, hd_user_name := array_strncpy 32 user_name,
                hd_user_pswd := array_strncpy 32 user_pswd, hd_msg_sock := tool_sock_item_init (hd_msg_sock d),
                hd_state_tick := tv, hd_state := True \<rparr>, sy))"

definition nc_hy_dev_stop :: "int \<Rightarrow> nc_hy_dev \<Rightarrow> sysf \<Rightarrow> nc_hy_dev \<times> sysf" where
  "nc_hy_dev_stop jn d sy =
     (if \<not> hd_state d then (d, sy) else (d\<lparr> hd_state := False \<rparr>, snd (tool_thread_join jn sy)))"

definition nc_hy_dev_startAlarm :: "int \<times> int \<Rightarrow> nat option \<Rightarrow> nat \<Rightarrow> nc_hy_dev \<Rightarrow> int \<times> nc_hy_dev" where
  "nc_hy_dev_startAlarm tv cb i d =
     (if hd_alarm_enable d then (NC_ERROR_REPEAT, d)
      else (hy_id i hy_alarm_no, d\<lparr> hd_alarm_cb := cb, hd_alarm_enable := True, hd_state_tick := tv \<rparr>))"

definition nc_hy_dev_stopAlarm :: "int \<times> int \<Rightarrow> nc_hy_dev \<Rightarrow> nc_hy_dev" where
  "nc_hy_dev_stopAlarm tv d =
     (if hd_alarm_enable d then d\<lparr> hd_alarm_enable := False, hd_alarm_cb := None \<rparr> else d)\<lparr> hd_state_tick := tv \<rparr>"

definition nc_hy_dev_startRts ::
  "int \<times> int \<Rightarrow> nat \<Rightarrow> int \<Rightarrow> nat option \<Rightarrow> nat \<Rightarrow> nc_hy_dev \<Rightarrow> int \<times> nc_hy_dev" where
  "nc_hy_dev_startRts tv channel_no stream_type cb i d =
     (if hd_rts_enable d ! channel_no then (NC_ERROR_REPEAT, d)
      else (hy_id i (int channel_no),
            d\<lparr> hd_rts_cb := (hd_rts_cb d)[channel_no := cb], hd_rts_enable := (hd_rts_enable d)[channel_no := True],
               hd_rts_stream_type := (hd_rts_stream_type d)[channel_no := stream_type], hd_state_tick := tv \<rparr>))"

definition nc_hy_dev_stopRts :: "int \<times> int \<Rightarrow> nat \<Rightarrow> nc_hy_dev \<Rightarrow> nc_hy_dev" where
  "nc_hy_dev_stopRts tv channel_no d =
     (if hd_rts_enable d ! channel_no
      then d\<lparr> hd_rts_enable := (hd_rts_enable d)[channel_no := False], hd_rts_cb := (hd_rts_cb d)[channel_no := None] \<rparr>
      else d)\<lparr> hd_state_tick := tv \<rparr>"

text \<open>
  Waiting for the last playback to end: a round is the tick counter and whether the playback is still
  active; \<open>tick\<close> is the tick at the start.
\<close>

fun hy_pbs_wait :: "int \<Rightarrow> (int \<times> bool) list \<Rightarrow> int outcome" where
  "hy_pbs_wait tick [] = Inl Fuel"
| "hy_pbs_wait tick ((clk, active) # rounds) =
     (if clk - tick \<ge> 5 \<or> clk < tick then Inr NC_ERROR_TIMEOUT
      else if \<not> active then Inr 0 else hy_pbs_wait tick rounds)"

definition nc_hy_dev_startPbs ::
  "int \<times> int \<Rightarrow> int \<Rightarrow> (int \<times> bool) list \<Rightarrow> ptc_cfg_record \<Rightarrow> nat option \<Rightarrow> nat \<Rightarrow> nc_hy_dev \<Rightarrow> (int \<times> nc_hy_dev) outcome" where
  "nc_hy_dev_startPbs tv tick rounds pbs cb i d =
     andThen (hy_pbs_wait tick rounds) (\<lambda>ret.
       Inr (if ret < 0 then (ret, d)
            else if hd_pbs_enable d then (NC_ERROR_REPEAT, d)
            else (hy_id i hy_pbs_no,
                  d\<lparr> hd_pbs_record := pbs, hd_pbs_cb := cb, hd_pbs_enable := True, hd_state_tick := tv \<rparr>)))"

definition nc_hy_dev_stopPbs :: "int \<times> int \<Rightarrow> nc_hy_dev \<Rightarrow> nc_hy_dev" where
  "nc_hy_dev_stopPbs tv d =
     (if hd_pbs_enable d then d\<lparr> hd_pbs_enable := False, hd_pbs_cb := None \<rparr> else d)\<lparr> hd_state_tick := tv \<rparr>"

definition nc_hy_dev_ptz :: "int \<times> int \<Rightarrow> int \<Rightarrow> int \<Rightarrow> int \<Rightarrow> nc_hy_dev \<Rightarrow> nc_hy_dev" where
  "nc_hy_dev_ptz tv channel_no cmd param d =
     d\<lparr> hd_ptz := (word_of_int channel_no, word_of_int cmd, word_of_int param, 0), hd_state_tick := tv \<rparr>"

definition nc_hy_dev_startTalk :: "int \<times> int \<Rightarrow> nat option \<Rightarrow> nat \<Rightarrow> nc_hy_dev \<Rightarrow> int \<times> nc_hy_dev" where
  "nc_hy_dev_startTalk tv cb i d =
     (if hd_talk_enable d then (NC_ERROR_REPEAT, d)
      else (hy_id i hy_talk_no, d\<lparr> hd_talk_cb := cb, hd_talk_enable := True, hd_state_tick := tv \<rparr>))"

definition nc_hy_dev_stopTalk :: "int \<times> int \<Rightarrow> nc_hy_dev \<Rightarrow> nc_hy_dev" where
  "nc_hy_dev_stopTalk tv d =
     (if hd_talk_enable d then d\<lparr> hd_talk_enable := False, hd_talk_cb := None \<rparr> else d)\<lparr> hd_state_tick := tv \<rparr>"

section \<open>The client\<close>

text \<open>The device of the zeroed \<^verbatim>\<open>nc_hy_t\<close> after \<^verbatim>\<open>nc_hy_dev_init\<close>.\<close>

definition hy_dev_zero :: nc_hy_dev where
  "hy_dev_zero = \<lparr> hd_state = False, hd_ip_addr = [], hd_port = 0, hd_user_name = [], hd_user_pswd = [],
     hd_state_tick = (0, 0), hd_msg_sock = item_zero\<lparr> has_flag := True \<rparr>,
     hd_rts_enable = replicate NC_HY_CHANNEL_SIZE False, hd_rts_stream_type = replicate NC_HY_CHANNEL_SIZE 0,
     hd_rts_cb = replicate NC_HY_CHANNEL_SIZE None, hd_pbs_enable = False, hd_pbs_record = record_zero, hd_pbs_cb = None,
     hd_ptz = (0, 0, 0, 0), hd_talk_enable = False, hd_last_talk_enable = False, hd_talk_send_stream = None,
     hd_talk_cb = None, hd_alarm_enable = False, hd_alarm_cb = None \<rparr>"

text \<open>The locks of a device: a mutex and three conditions.\<close>

definition nc_hy_dev_init :: "int \<Rightarrow> sysf \<Rightarrow> sysf" where
  "nc_hy_dev_init ret sy =
     snd (tool_thread_initCond ret (snd (tool_thread_initCond ret (snd (tool_thread_initCond ret
       (snd (tool_thread_initMutex ret sy)))))))"

definition nc_hy_dev_done :: "int \<Rightarrow> sysf \<Rightarrow> sysf" where
  "nc_hy_dev_done ret sy =
     snd (tool_thread_doneCond ret (snd (tool_thread_doneCond ret (snd (tool_thread_doneCond ret
       (snd (tool_thread_doneMutex ret sy)))))))"

definition nc_hy_init :: "nat option \<Rightarrow> u32 \<Rightarrow> int \<Rightarrow> int \<Rightarrow> nc_hy option \<Rightarrow> sysf \<Rightarrow> (nc_hy option \<times> sysf) outcome" where
  "nc_hy_init answer sz ret pid g sy =
     (case g of
        Some nc \<Rightarrow> Inr (g, sy)
      | None \<Rightarrow> andThen (tool_mem_malloc answer [] sz True sy) (\<lambda>(p, sy).
          let sy = (nc_hy_dev_init ret ^^ NC_HY_USER_SIZE) (snd (tool_thread_initMutex ret sy))
          in andThen (qh_thread pid sy) (\<lambda>sy.
             Inr (Some \<lparr> nh_ptr = p, nh_dev = replicate NC_HY_USER_SIZE hy_dev_zero, nh_buffer_usec = 300 * 1000 \<rparr>, sy))))"

definition nc_hy_setBuffer :: "int \<Rightarrow> nc_hy option \<Rightarrow> int \<times> nc_hy option" where
  "nc_hy_setBuffer buffer_usec g =
     (case g of
        None \<Rightarrow> (NC_ERROR_UNINIT, g)
      | Some nc \<Rightarrow> if buffer_usec < 0 \<or> buffer_usec > 3000 * 1000 then (NC_ERROR_INPUT, g)
                  else (0, Some (nc\<lparr> nh_buffer_usec := buffer_usec \<rparr>)))"

definition nc_hy_done :: "int \<Rightarrow> int \<Rightarrow> nc_hy option \<Rightarrow> nat option \<Rightarrow> sysf \<Rightarrow> (nc_hy option \<times> nat option \<times> sysf) outcome" where
  "nc_hy_done jn ret g mp sy =
     (case g of
        None \<Rightarrow> Inr (None, mp, sy)
      | Some nc \<Rightarrow>
          let sy = snd (tool_thread_doneMutex ret ((nc_hy_dev_done ret ^^ length (nh_dev nc)) (snd (tool_thread_join jn sy))))
          in andThen (tool_mem_free (Some (nh_ptr nc)) sy) (\<lambda>sy.
             andThen (sock_manager_done jn ret mp sy) (\<lambda>sy. Inr (None, None, sy))))"

text \<open>A pass of the client's thread over the devices.\<close>

definition hy_idle_dev :: "int \<Rightarrow> int \<times> int \<Rightarrow> nc_hy_dev \<Rightarrow> sysf \<Rightarrow> nc_hy_dev \<times> sysf" where
  "hy_idle_dev jn tv d sy =
     (if \<not> hd_state d then (d, sy)
      else if True \<notin> set (hd_rts_enable d) \<and> \<not> hd_pbs_enable d \<and> \<not> hd_talk_enable d
        \<and> tool_sysf_isTickTimeout tv (fst (hd_state_tick d)) (snd (hd_state_tick d)) (60 * 1000 * 1000) \<noteq> 0
      then nc_hy_dev_stop jn d sy else (d, sy))"

primrec nc_hy_run_pass :: "int \<Rightarrow> int \<times> int \<Rightarrow> nc_hy_dev list \<Rightarrow> sysf \<Rightarrow> nc_hy_dev list \<times> sysf" where
  "nc_hy_run_pass jn tv [] sy = ([], sy)"
| "nc_hy_run_pass jn tv (d # ds) sy =
     (let (d, sy) = hy_idle_dev jn tv d sy; (ds, sy) = nc_hy_run_pass jn tv ds sy in (d # ds, sy))"

section \<open>The interface\<close>

text \<open>Finding the device that is meant.\<close>

definition hy_same :: "nc_dev \<Rightarrow> nc_hy_dev \<Rightarrow> bool" where
  "hy_same info d \<longleftrightarrow> c_strncmp (hd_ip_addr d) (dev_ip info) 39 = 0 \<and> c_strncmp (hd_user_name d) (dev_user info) 31 = 0
     \<and> c_strncmp (hd_user_pswd d) (dev_pswd info) 31 = 0 \<and> hd_port d = dev_msg_port info \<and> hd_state d"

text \<open>
  \<open>f\<close> is done on the device that is meant, which is started when it is not running; \<open>undo\<close>: it is stopped
  again when \<open>f\<close> fails on a device that was not running.
\<close>

record hy_env =
  he_pid :: int
  he_join :: int
  he_now :: "int \<times> int"

definition hy_use ::
  "hy_env \<Rightarrow> bool \<Rightarrow> (nat \<Rightarrow> nc_hy_dev \<Rightarrow> (int \<times> nc_hy_dev) outcome) \<Rightarrow> nc_dev \<Rightarrow> nc_hy \<Rightarrow> sysf
     \<Rightarrow> (int \<times> nc_hy option \<times> sysf) outcome" where
  "hy_use e undo f info nc sy =
     (let ds = nh_dev nc; i = length (takeWhile (\<lambda>d. \<not> hy_same info d) ds); j = length (takeWhile hd_state ds)
      in if i < length ds
         then andThen (f i (ds ! i)) (\<lambda>(ret, d). Inr (ret, Some (nc\<lparr> nh_dev := ds[i := d] \<rparr>), sy))
         else if j = length ds then Inr (NC_ERROR_FULL, Some nc, sy)
         else andThen (nc_hy_dev_start (he_pid e) (he_now e) (dev_ip info) (dev_msg_port info) (dev_user info)
                (dev_pswd info) (ds ! j) sy) (\<lambda>(d, sy).
              andThen (f j d) (\<lambda>(ret, d).
              let (d, sy) = (if ret < 0 \<and> undo then nc_hy_dev_stop (he_join e) d sy else (d, sy))
              in Inr (ret, Some (nc\<lparr> nh_dev := ds[j := d] \<rparr>), sy))))"

text \<open>The checks every function begins with.\<close>

definition hy_call :: "nc_hy option \<Rightarrow> bool \<Rightarrow> sysf \<Rightarrow> (nc_hy \<Rightarrow> (int \<times> nc_hy option \<times> sysf) outcome) \<Rightarrow> (int \<times> nc_hy option \<times> sysf) outcome" where
  "hy_call g ok sy f =
     (case g of None \<Rightarrow> Inr (NC_ERROR_UNINIT, g, sy) | Some nc \<Rightarrow> if ok then f nc else Inr (NC_ERROR_INPUT, g, sy))"

definition nc_hy_login_v2 ::
  "hy_env \<Rightarrow> nc_dev option \<Rightarrow> nat option \<Rightarrow> nc_hy option \<Rightarrow> sysf \<Rightarrow> (int \<times> nc_hy option \<times> sysf) outcome" where
  "nc_hy_login_v2 e info cb g sy =
     hy_call g (info \<noteq> None) sy (\<lambda>nc.
       hy_use e False (\<lambda>i d. Inr (nc_hy_dev_startAlarm (he_now e) cb i d)) (the info) nc sy)"

definition nc_hy_startRts_v2 ::
  "hy_env \<Rightarrow> nc_dev option \<Rightarrow> int \<Rightarrow> int \<Rightarrow> nat option \<Rightarrow> nc_hy option \<Rightarrow> sysf \<Rightarrow> (int \<times> nc_hy option \<times> sysf) outcome" where
  "nc_hy_startRts_v2 e info channel stream_type cb g sy =
     hy_call g (info \<noteq> None \<and> \<not> channel < 0 \<and> \<not> channel \<ge> int NC_HY_CHANNEL_SIZE \<and> \<not> stream_type < 0
         \<and> \<not> stream_type \<ge> NC_HY_STREAM_SIZE) sy (\<lambda>nc.
       hy_use e False (\<lambda>i d. Inr (nc_hy_dev_startRts (he_now e) (nat channel) stream_type cb i d)) (the info) nc sy)"

text \<open>\<open>tick\<close>, \<open>rounds\<close>: what is seen while waiting for the last playback to end.\<close>

definition nc_hy_startPbs ::
  "hy_env \<Rightarrow> int \<Rightarrow> (int \<times> bool) list \<Rightarrow> nc_dev option \<Rightarrow> ptc_cfg_record option \<Rightarrow> nat option \<Rightarrow> nc_hy option \<Rightarrow> sysf
     \<Rightarrow> (int \<times> nc_hy option \<times> sysf) outcome" where
  "nc_hy_startPbs e tick rounds info pbs cb g sy =
     hy_call g (info \<noteq> None \<and> pbs \<noteq> None) sy (\<lambda>nc.
       hy_use e False (nc_hy_dev_startPbs (he_now e) tick rounds (the pbs) cb) (the info) nc sy)"

definition nc_hy_startTalk_v2 ::
  "hy_env \<Rightarrow> nc_dev option \<Rightarrow> nat option \<Rightarrow> nc_hy option \<Rightarrow> sysf \<Rightarrow> (int \<times> nc_hy option \<times> sysf) outcome" where
  "nc_hy_startTalk_v2 e info cb g sy =
     hy_call g (info \<noteq> None) sy (\<lambda>nc.
       hy_use e True (\<lambda>i d. Inr (nc_hy_dev_startTalk (he_now e) cb i d)) (the info) nc sy)"

text \<open>The device and the thing a number stands for.\<close>

definition hy_id_dev :: "int \<Rightarrow> nat" where
  "hy_id_dev user_id = unat (drop_bit 8 (word_of_int user_id) AND 0xFF :: u32)"

definition hy_id_no :: "int \<Rightarrow> int" where
  "hy_id_no user_id = uint (word_of_int user_id AND 0xFF :: u32)"

definition hy_stop_call :: "int \<Rightarrow> bool \<Rightarrow> (nc_hy_dev \<Rightarrow> nc_hy_dev) \<Rightarrow> nc_hy option \<Rightarrow> int \<times> nc_hy option" where
  "hy_stop_call user_id ok f g =
     (case g of
        None \<Rightarrow> (NC_ERROR_UNINIT, g)
      | Some nc \<Rightarrow> if hy_id_dev user_id \<ge> NC_HY_USER_SIZE \<or> \<not> ok then (NC_ERROR_INPUT, g)
                  else (0, Some (nc\<lparr> nh_dev := (nh_dev nc)[hy_id_dev user_id := f (nh_dev nc ! hy_id_dev user_id)] \<rparr>)))"

definition nc_hy_logout :: "int \<times> int \<Rightarrow> int \<Rightarrow> nc_hy option \<Rightarrow> int \<times> nc_hy option" where
  "nc_hy_logout tv user_id g = hy_stop_call user_id (hy_id_no user_id = 3 * int NC_HY_CHANNEL_SIZE) (nc_hy_dev_stopAlarm tv) g"

definition nc_hy_stopRts :: "int \<times> int \<Rightarrow> int \<Rightarrow> nc_hy option \<Rightarrow> int \<times> nc_hy option" where
  "nc_hy_stopRts tv user_id g =
     hy_stop_call user_id (hy_id_no user_id < int NC_HY_CHANNEL_SIZE) (nc_hy_dev_stopRts tv (nat (hy_id_no user_id))) g"

definition nc_hy_stopPbs :: "int \<times> int \<Rightarrow> int \<Rightarrow> nc_hy option \<Rightarrow> int \<times> nc_hy option" where
  "nc_hy_stopPbs tv user_id g = hy_stop_call user_id (hy_id_no user_id = int NC_HY_CHANNEL_SIZE) (nc_hy_dev_stopPbs tv) g"

definition nc_hy_stopTalk :: "int \<times> int \<Rightarrow> int \<Rightarrow> nc_hy option \<Rightarrow> int \<times> nc_hy option" where
  "nc_hy_stopTalk tv user_id g = hy_stop_call user_id (hy_id_no user_id = 2 * int NC_HY_CHANNEL_SIZE) (nc_hy_dev_stopTalk tv) g"

text \<open>Sound of 2048 bytes behind a head of 32, to a talk its thread has opened.\<close>

definition nc_hy_sendTalk :: "int \<Rightarrow> u8 list option \<Rightarrow> int \<Rightarrow> nc_hy option \<Rightarrow> (int \<times> nc_hy option) outcome" where
  "nc_hy_sendTalk user_id buf len g =
     (case g of
        None \<Rightarrow> Inr (NC_ERROR_UNINIT, g)
      | Some nc \<Rightarrow>
          let i = hy_id_dev user_id; d = nh_dev nc ! i
          in if i \<ge> NC_HY_USER_SIZE \<or> hy_id_no user_id \<noteq> 2 * int NC_HY_CHANNEL_SIZE \<or> buf = None \<or> len \<noteq> 2048 + 32
             then Inr (NC_ERROR_INPUT, g)
             else if hd_last_talk_enable d \<and> hd_talk_send_stream d \<noteq> None
             then andThen (tool_stream2_set (hd_talk_send_stream d) buf (word_of_int len)) (\<lambda>ring.
                    Inr (0, Some (nc\<lparr> nh_dev := (nh_dev nc)[i := d\<lparr> hd_talk_send_stream := Some ring \<rparr>] \<rparr>)))
             else Inr (0, g))"

text \<open>The motor is only moved on a device that is running.\<close>

definition nc_hy_controlPTZ_v2 ::
  "int \<times> int \<Rightarrow> nc_dev option \<Rightarrow> int \<Rightarrow> int \<Rightarrow> int \<Rightarrow> nc_hy option \<Rightarrow> int \<times> nc_hy option" where
  "nc_hy_controlPTZ_v2 tv info channel cmd param g =
     (case g of
        None \<Rightarrow> (NC_ERROR_UNINIT, g)
      | Some nc \<Rightarrow> (case info of
          None \<Rightarrow> (NC_ERROR_INPUT, g)
        | Some info \<Rightarrow>
            let i = length (takeWhile (\<lambda>d. \<not> hy_same info d) (nh_dev nc))
            in if i = length (nh_dev nc) then (NC_ERROR_PTZNORTS, g)
               else (0, Some (nc\<lparr> nh_dev := (nh_dev nc)[i := nc_hy_dev_ptz tv channel cmd param (nh_dev nc ! i)] \<rparr>))))"

end
