(* ===== verification/Nc_Route.thy ===== *)
theory Nc_Route
  imports Nc_Hy
begin

text \<open>
  The interface of the library, \<^verbatim>\<open>sab_app/jni/nc/nc.c\<close>: a call is passed to the client the upper byte of
  the device's protocol, or of the number it was given, stands for. The QH and the HY client are those of
  \<^verbatim>\<open>Nc_Table\<close> and \<^verbatim>\<open>Nc_Hy\<close>; what the other three return is an argument, \<open>other\<close>.
\<close>

section \<open>Routes\<close>

definition NC_PTC_YuShi :: u32 where "NC_PTC_YuShi = 0x02000000"
definition NC_PTC_YuShi_Cloud :: u32 where "NC_PTC_YuShi_Cloud = 0x03000000"
definition NC_PTC_QiHan_Cloud :: u32 where "NC_PTC_QiHan_Cloud = 0x04000000"
definition NC_PTC_XiongMai :: u32 where "NC_PTC_XiongMai = 0x05000000"
definition NC_ERROR_NOSUPPORTED :: int where "NC_ERROR_NOSUPPORTED = - 13"

datatype nc_client = Hy | Ys | Cloud | Xm | Qh

definition nc_route :: "u32 \<Rightarrow> nc_client" where
  "nc_route x =
     (if x AND 0xFF000000 = NC_PTC_HuaYi then Hy
      else if x AND 0xFF000000 = NC_PTC_YuShi \<or> x AND 0xFF000000 = NC_PTC_YuShi_Cloud then Ys
      else if x AND 0xFF000000 = NC_PTC_QiHan_Cloud then Cloud
      else if x AND 0xFF000000 = NC_PTC_XiongMai then Xm
      else Qh)"

record nc_sys =
  ns_qh :: "nc_qh option"
  ns_hy :: "nc_hy option"
  ns_sysf :: sysf

text \<open>What the system and the network answer during a call.\<close>

record nc_world =
  nw_qh :: qh_grant
  nw_end :: qh_ending
  nw_hy :: hy_env
  nw_junk :: "u8 list"
  nw_tick :: int
  nw_rounds :: "(int \<times> bool) list"

type_synonym nc_result = "(int \<times> nc_sys) outcome"

definition on_qh :: "(nc_qh option \<Rightarrow> sysf \<Rightarrow> (int \<times> nc_qh option \<times> sysf) outcome) \<Rightarrow> nc_sys \<Rightarrow> nc_result" where
  "on_qh f ns = andThen (f (ns_qh ns) (ns_sysf ns)) (\<lambda>(r, g, sy). Inr (r, ns\<lparr> ns_qh := g, ns_sysf := sy \<rparr>))"

definition on_hy :: "(nc_hy option \<Rightarrow> sysf \<Rightarrow> (int \<times> nc_hy option \<times> sysf) outcome) \<Rightarrow> nc_sys \<Rightarrow> nc_result" where
  "on_hy f ns = andThen (f (ns_hy ns) (ns_sysf ns)) (\<lambda>(r, g, sy). Inr (r, ns\<lparr> ns_hy := g, ns_sysf := sy \<rparr>))"

definition hy_pure :: "(nc_hy option \<Rightarrow> int \<times> nc_hy option) \<Rightarrow> nc_sys \<Rightarrow> nc_result" where
  "hy_pure f ns = (let (r, g) = f (ns_hy ns) in Inr (r, ns\<lparr> ns_hy := g \<rparr>))"

section \<open>Finding a device by its name\<close>

text \<open>
  \<open>asked\<close>: what the relay service knows of a device (its return value and the device); \<open>ping\<close>: what
  \<^verbatim>\<open>tool_sock_item_ping\<close> returns for an address and a port.
\<close>

definition qh_found :: "nc_qh option \<Rightarrow> nc_dev \<Rightarrow> int \<times> nc_dev" where
  "qh_found g dev = (case g of None \<Rightarrow> (NC_ERROR_UNINIT, dev) | Some nc \<Rightarrow> nc_qh_getSearchById (nq_searchs nc) dev)"

definition nc_getDevById ::
  "(nc_dev \<Rightarrow> int \<times> nc_dev) \<Rightarrow> (string \<Rightarrow> int \<Rightarrow> int) \<Rightarrow> nc_qh option \<Rightarrow> nc_dev \<Rightarrow> int \<times> nc_dev" where
  "nc_getDevById asked ping g dev =
     (let (a, dev1) = asked dev; (b, dev2) = qh_found g dev
      in if a > 0 \<and> ping (dev_ip dev1) (dev_msg_port dev1) \<ge> 0 then (1, dev1)
         else if b > 0 \<and> ping (dev_ip dev2) (dev_msg_port dev2) \<ge> 0 then (1, dev2)
         else if ping ''192.168.1.10'' 5000 \<ge> 0
         then (1, \<lparr> dev_ptc = NC_PTC_Qihan, dev_dev_id = [], dev_ip = array_strncpy 40 ''192.168.1.10'', dev_msg_port = 5000,
                dev_stream_port = 0, dev_user = array_strncpy 32 ''qihan'', dev_pswd = array_strncpy 32 ''nahiq'' \<rparr>)
         else (0, dev))"

section \<open>Calls on devices\<close>

text \<open>\<open>look\<close>: the lookup above; the device is the caller's and keeps what the lookup put into it.\<close>

definition dev_call ::
  "(nc_dev \<Rightarrow> int \<times> nc_dev) \<Rightarrow> (nc_dev \<Rightarrow> nc_sys \<Rightarrow> nc_result) \<Rightarrow> (nc_dev \<Rightarrow> nc_sys \<Rightarrow> nc_result)
     \<Rightarrow> (nc_client \<Rightarrow> nc_dev \<Rightarrow> int) \<Rightarrow> nc_dev \<Rightarrow> nc_sys \<Rightarrow> (int \<times> nc_dev \<times> nc_sys) outcome" where
  "dev_call look hy qh other dev ns =
     (case nc_route (dev_ptc dev) of
        Hy \<Rightarrow> andThen (hy dev ns) (\<lambda>(r, ns). Inr (r, dev, ns))
      | Cloud \<Rightarrow> (let (found, dev) = look dev
          in if found > 0 then andThen (qh dev ns) (\<lambda>(r, ns). Inr (r, dev, ns)) else Inr (other Cloud dev, dev, ns))
      | Qh \<Rightarrow> andThen (qh dev ns) (\<lambda>(r, ns). Inr (r, dev, ns))
      | c \<Rightarrow> Inr (other c dev, dev, ns))"

definition nc_startRts_v2 ::
  "nc_world \<Rightarrow> (nc_dev \<Rightarrow> int \<times> nc_dev) \<Rightarrow> (nc_client \<Rightarrow> nc_dev \<Rightarrow> int) \<Rightarrow> nc_dev \<Rightarrow> int \<Rightarrow> int \<Rightarrow> nat option \<Rightarrow> nc_sys
     \<Rightarrow> (int \<times> nc_dev \<times> nc_sys) outcome" where
  "nc_startRts_v2 w look other dev channel stream_type cb ns =
     dev_call look
       (\<lambda>dev. on_hy (nc_hy_startRts_v2 (nw_hy w) (Some dev) channel stream_type cb))
       (\<lambda>dev. on_qh (nc_qh_startRts_v2 (nw_qh w) (nw_junk w) (Some dev) channel stream_type (cb \<noteq> None))) other dev ns"

definition nc_startTalk_v2 ::
  "nc_world \<Rightarrow> (nc_dev \<Rightarrow> int \<times> nc_dev) \<Rightarrow> (nc_client \<Rightarrow> nc_dev \<Rightarrow> int) \<Rightarrow> nc_dev \<Rightarrow> nat option \<Rightarrow> nc_sys
     \<Rightarrow> (int \<times> nc_dev \<times> nc_sys) outcome" where
  "nc_startTalk_v2 w look other dev cb ns =
     dev_call look
       (\<lambda>dev. on_hy (nc_hy_startTalk_v2 (nw_hy w) (Some dev) cb))
       (\<lambda>dev. on_qh (nc_qh_startTalk_v2 (nw_qh w) (Some dev) (cb \<noteq> None))) other dev ns"

definition nc_startPbs ::
  "nc_world \<Rightarrow> (nc_dev \<Rightarrow> int \<times> nc_dev) \<Rightarrow> (nc_client \<Rightarrow> nc_dev \<Rightarrow> int) \<Rightarrow> nc_dev \<Rightarrow> ptc_cfg_record option \<Rightarrow> nat option \<Rightarrow> nc_sys
     \<Rightarrow> (int \<times> nc_dev \<times> nc_sys) outcome" where
  "nc_startPbs w look other dev pbs cb ns =
     dev_call look
       (\<lambda>dev. on_hy (nc_hy_startPbs (nw_hy w) (nw_tick w) (nw_rounds w) (Some dev) pbs cb))
       (\<lambda>dev. on_qh (nc_qh_startPbs (nw_qh w) (Some dev) pbs (cb \<noteq> None))) other dev ns"

text \<open>Alarms are only for devices of the first two clients.\<close>

definition nc_login_v2 :: "nc_world \<Rightarrow> nc_dev \<Rightarrow> nat option \<Rightarrow> nc_sys \<Rightarrow> nc_result" where
  "nc_login_v2 w dev cb ns =
     (case nc_route (dev_ptc dev) of
        Hy \<Rightarrow> on_hy (nc_hy_login_v2 (nw_hy w) (Some dev) cb) ns
      | Qh \<Rightarrow> on_qh (nc_qh_login_v2 (nw_qh w) (Some dev) (cb \<noteq> None)) ns
      | _ \<Rightarrow> Inr (NC_ERROR_NOSUPPORTED, ns))"

section \<open>Calls on numbers\<close>

definition id_route :: "int \<Rightarrow> nc_client" where
  "id_route user_id = nc_route (word_of_int user_id)"

text \<open>A function only the QH client has.\<close>

definition qh_only ::
  "int \<Rightarrow> (nc_qh option \<Rightarrow> sysf \<Rightarrow> (int \<times> nc_qh option \<times> sysf) outcome) \<Rightarrow> nc_sys \<Rightarrow> nc_result" where
  "qh_only user_id f ns = (if id_route user_id = Qh then on_qh f ns else Inr (NC_ERROR_NOSUPPORTED, ns))"

definition nc_logout :: "nc_world \<Rightarrow> int \<Rightarrow> nc_sys \<Rightarrow> nc_result" where
  "nc_logout w user_id ns = qh_only user_id (nc_qh_logout (nw_end w) user_id) ns"

definition nc_forceRtsKeyFrame :: "int \<Rightarrow> nc_sys \<Rightarrow> nc_result" where
  "nc_forceRtsKeyFrame user_id ns = qh_only user_id (nc_qh_forceRtsKeyFrame user_id) ns"

definition nc_setPbsPos :: "int \<Rightarrow> u32 \<Rightarrow> nc_sys \<Rightarrow> nc_result" where
  "nc_setPbsPos user_id pos ns = qh_only user_id (nc_qh_setPbsPos user_id pos) ns"

definition nc_pausePbs :: "int \<Rightarrow> nc_sys \<Rightarrow> nc_result" where
  "nc_pausePbs user_id ns = qh_only user_id (nc_qh_pausePbs user_id) ns"

definition nc_restartPbs :: "int \<Rightarrow> nc_sys \<Rightarrow> nc_result" where
  "nc_restartPbs user_id ns = qh_only user_id (nc_qh_restartPbs user_id) ns"

definition nc_setPbsSpeed :: "int \<Rightarrow> int \<Rightarrow> nc_sys \<Rightarrow> nc_result" where
  "nc_setPbsSpeed user_id speed ns = qh_only user_id (nc_qh_setPbsSpeed user_id speed) ns"

definition nc_getOnlineStatus :: "int \<Rightarrow> nc_sys \<Rightarrow> int" where
  "nc_getOnlineStatus user_id ns =
     (if id_route user_id = Qh then nc_qh_getOnlineStatus user_id (ns_qh ns) else NC_ERROR_NOSUPPORTED)"

definition nc_getRtsStatus :: "int \<Rightarrow> nc_sys \<Rightarrow> int" where
  "nc_getRtsStatus user_id ns =
     (if id_route user_id = Qh then nc_qh_getRtsStatus user_id (ns_qh ns) else NC_ERROR_NOSUPPORTED)"

text \<open>\<open>other\<close>: what another client returns for the number.\<close>

definition id_call ::
  "(nc_sys \<Rightarrow> nc_result) \<Rightarrow> (nc_sys \<Rightarrow> nc_result) \<Rightarrow> (nc_client \<Rightarrow> int \<Rightarrow> int) \<Rightarrow> int \<Rightarrow> nc_sys \<Rightarrow> nc_result" where
  "id_call hy qh other user_id ns =
     (case id_route user_id of Hy \<Rightarrow> hy ns | Qh \<Rightarrow> qh ns | c \<Rightarrow> Inr (other c user_id, ns))"

definition nc_stopRts :: "nc_world \<Rightarrow> (nc_client \<Rightarrow> int \<Rightarrow> int) \<Rightarrow> int \<Rightarrow> nc_sys \<Rightarrow> nc_result" where
  "nc_stopRts w other user_id ns =
     id_call (hy_pure (nc_hy_stopRts (he_now (nw_hy w)) user_id)) (on_qh (nc_qh_stopRts (nw_end w) user_id)) other user_id ns"

definition nc_stopTalk :: "nc_world \<Rightarrow> (nc_client \<Rightarrow> int \<Rightarrow> int) \<Rightarrow> int \<Rightarrow> nc_sys \<Rightarrow> nc_result" where
  "nc_stopTalk w other user_id ns =
     id_call (hy_pure (nc_hy_stopTalk (he_now (nw_hy w)) user_id)) (on_qh (nc_qh_stopTalk (nw_end w) user_id)) other user_id ns"

definition nc_stopPbs :: "nc_world \<Rightarrow> (nc_client \<Rightarrow> int \<Rightarrow> int) \<Rightarrow> int \<Rightarrow> nc_sys \<Rightarrow> nc_result" where
  "nc_stopPbs w other user_id ns =
     id_call (hy_pure (nc_hy_stopPbs (he_now (nw_hy w)) user_id)) (on_qh (nc_qh_stopPbs (nw_end w) user_id)) other user_id ns"

definition nc_sendTalk :: "(nc_client \<Rightarrow> int \<Rightarrow> int) \<Rightarrow> int \<Rightarrow> u8 list option \<Rightarrow> int \<Rightarrow> nc_sys \<Rightarrow> nc_result" where
  "nc_sendTalk other user_id buf len ns =
     id_call (\<lambda>ns. andThen (nc_hy_sendTalk user_id buf len (ns_hy ns)) (\<lambda>(r, g). Inr (r, ns\<lparr> ns_hy := g \<rparr>)))
       (on_qh (nc_qh_sendTalk user_id buf len)) other user_id ns"

definition nc_setBuffer :: "int \<Rightarrow> nc_sys \<Rightarrow> int \<times> nc_sys" where
  "nc_setBuffer buffer_usec ns =
     (0, ns\<lparr> ns_hy := snd (nc_hy_setBuffer buffer_usec (ns_hy ns)), ns_qh := snd (nc_qh_setBuffer buffer_usec (ns_qh ns)) \<rparr>)"

end
