(* ===== verification/Nc_Hy_Rt.thy ===== *)
theory Nc_Hy_Rt
  imports Nc_Hy Nc_Table_Rt Nc_Search_Rt
begin

text \<open>
  The table of HY devices keeps one running device per target: whatever is wanted of a device is wanted of
  the one that runs for its address, port and account, and a thread is created only for the first. What the
  threads of the devices themselves create and free is left open: the system is then in any state.
\<close>

section \<open>Targets\<close>

definition hy_info_key :: "nc_dev \<Rightarrow> string \<times> string \<times> string \<times> int" where
  "hy_info_key info = (cstr (take 39 (dev_ip info)), cstr (take 31 (dev_user info)), cstr (take 31 (dev_pswd info)), dev_msg_port info)"

definition hy_key :: "nc_hy_dev \<Rightarrow> string \<times> string \<times> string \<times> int" where
  "hy_key d = (cstr (take 39 (hd_ip_addr d)), cstr (take 31 (hd_user_name d)), cstr (take 31 (hd_user_pswd d)), hd_port d)"

lemma hy_same_iff: "hy_same info d \<longleftrightarrow> hd_state d \<and> hy_key d = hy_info_key info"
  by (auto simp: hy_same_def hy_key_def hy_info_key_def c_strncmp_cstr)

lemma cstr_array_strncpy: "cstr (take (n - 1) (array_strncpy n s)) = cstr (take (n - 1) s)"
proof -
  have "takeWhile (\<lambda>c. c \<noteq> NUL) (take k (takeWhile (\<lambda>c. c \<noteq> NUL) s @ replicate k NUL)) = takeWhile (\<lambda>c. c \<noteq> NUL) (take k s)" for k
  proof (induction s arbitrary: k)
    case Nil
    then show ?case by (cases k) simp_all
  next
    case (Cons c s)
    show ?case
    proof (cases k)
      case (Suc m)
      have "take m (takeWhile (\<lambda>c. c \<noteq> NUL) s @ replicate (Suc m) NUL) = take m (takeWhile (\<lambda>c. c \<noteq> NUL) s @ replicate m NUL)"
        by (simp add: take_Cons' flip: replicate_append_same)
      with Suc Cons.IH [of m] show ?thesis by simp
    qed simp
  qed
  note eq = this [of "n - 1"]
  define X where "X = cstr s @ replicate (n - 1) NUL"
  have "length (take (n - 1) X) = n - 1" by (simp add: X_def)
  then have "take (n - 1) (array_strncpy n s) = take (n - 1) X" by (simp add: array_strncpy_def X_def)
  with eq show ?thesis by (simp add: X_def cstr_def)
qed

lemma start_key:
  assumes "nc_hy_dev_start 0 tv (dev_ip info) (dev_msg_port info) (dev_user info) (dev_pswd info) d sy = Inr (d', sy')"
  shows "hd_state d'" "hy_key d' = hy_info_key info"
    "d' = d\<lparr> hd_ip_addr := hd_ip_addr d', hd_port := hd_port d', hd_user_name := hd_user_name d', hd_user_pswd := hd_user_pswd d',
       hd_msg_sock := hd_msg_sock d', hd_state_tick := tv, hd_state := True \<rparr>"
    "sy' = sy\<lparr> g_tool_thread_count := g_tool_thread_count sy + 1 \<rparr>"
proof -
  show "hd_state d'" "sy' = sy\<lparr> g_tool_thread_count := g_tool_thread_count sy + 1 \<rparr>"
    "d' = d\<lparr> hd_ip_addr := hd_ip_addr d', hd_port := hd_port d', hd_user_name := hd_user_name d', hd_user_pswd := hd_user_pswd d',
       hd_msg_sock := hd_msg_sock d', hd_state_tick := tv, hd_state := True \<rparr>"
    using assms by (auto simp: nc_hy_dev_start_def tool_thread_create_def)
  show "hy_key d' = hy_info_key info"
    using assms cstr_array_strncpy [of 40] cstr_array_strncpy [of 32]
    by (auto simp: nc_hy_dev_start_def tool_thread_create_def hy_key_def hy_info_key_def)
qed

section \<open>The table\<close>

definition hy_shape :: "nc_hy_dev \<Rightarrow> bool" where
  "hy_shape d \<longleftrightarrow> length (hd_rts_enable d) = NC_HY_CHANNEL_SIZE \<and> length (hd_rts_stream_type d) = NC_HY_CHANNEL_SIZE
     \<and> length (hd_rts_cb d) = NC_HY_CHANNEL_SIZE"

definition hy_apart :: "nc_hy_dev list \<Rightarrow> bool" where
  "hy_apart ds \<longleftrightarrow> (\<forall>i<length ds. \<forall>j<length ds. i \<noteq> j \<longrightarrow> hd_state (ds ! i) \<longrightarrow> hd_state (ds ! j) \<longrightarrow> hy_key (ds ! i) \<noteq> hy_key (ds ! j))"

definition hy_ok :: "nc_hy \<Rightarrow> bool" where
  "hy_ok nc \<longleftrightarrow> length (nh_dev nc) = NC_HY_USER_SIZE \<and> (\<forall>d\<in>set (nh_dev nc). hy_shape d) \<and> hy_apart (nh_dev nc)"

text \<open>An operation on a device that keeps its target and whether it runs.\<close>

definition hy_keeps :: "nc_hy_dev \<Rightarrow> nc_hy_dev \<Rightarrow> bool" where
  "hy_keeps d d' \<longleftrightarrow> hd_state d' = hd_state d \<and> hy_key d' = hy_key d \<and> (hy_shape d \<longrightarrow> hy_shape d')"

lemmas hy_dev_defs = nc_hy_dev_startAlarm_def nc_hy_dev_stopAlarm_def nc_hy_dev_startRts_def nc_hy_dev_stopRts_def
  nc_hy_dev_startPbs_def nc_hy_dev_stopPbs_def nc_hy_dev_startTalk_def nc_hy_dev_stopTalk_def nc_hy_dev_ptz_def

lemma hy_ops_keep:
  "hy_keeps d (snd (nc_hy_dev_startAlarm tv cb i d))" "hy_keeps d (nc_hy_dev_stopAlarm tv d)"
  "hy_keeps d (snd (nc_hy_dev_startRts tv c st cb i d))" "hy_keeps d (nc_hy_dev_stopRts tv c d)"
  "hy_keeps d (nc_hy_dev_stopPbs tv d)" "hy_keeps d (snd (nc_hy_dev_startTalk tv cb i d))" "hy_keeps d (nc_hy_dev_stopTalk tv d)"
  "hy_keeps d (nc_hy_dev_ptz tv ch cmd param d)"
  "yields (nc_hy_dev_startPbs tv tick rounds pbs cb i d) (\<lambda>x. hy_keeps d (snd x))"
  by (auto simp: hy_dev_defs hy_keeps_def hy_key_def hy_shape_def yields_def andThen_Inr_iff)

lemma hy_update:
  assumes "hy_ok nc" "i < NC_HY_USER_SIZE" "hy_keeps (nh_dev nc ! i) d"
  shows "hy_ok (nc\<lparr> nh_dev := (nh_dev nc)[i := d] \<rparr>)"
proof -
  have lt: "i < length (nh_dev nc)" using assms(1,2) by (simp add: hy_ok_def)
  have shape: "\<forall>x\<in>set ((nh_dev nc)[i := d]). hy_shape x"
    using assms(1,3) lt by (auto simp: hy_ok_def hy_keeps_def dest!: set_update_subset_insert [THEN subsetD])
  have "hy_apart ((nh_dev nc)[i := d])"
    using assms(1,3) lt unfolding hy_apart_def hy_ok_def hy_keeps_def by (auto simp: nth_list_update)
  with assms lt shape show ?thesis by (auto simp: hy_ok_def hy_keeps_def)
qed

lemma hy_start:
  assumes "hy_ok nc" "i < NC_HY_USER_SIZE" "\<not> hd_state (nh_dev nc ! i)" "\<forall>d\<in>set (nh_dev nc). \<not> hy_same info d"
    and "hy_key d = hy_info_key info" "hd_state d" "hy_shape (nh_dev nc ! i) \<Longrightarrow> hy_shape d"
  shows "hy_ok (nc\<lparr> nh_dev := (nh_dev nc)[i := d] \<rparr>)"
proof -
  have lt: "i < length (nh_dev nc)" using assms(1,2) by (simp add: hy_ok_def)
  have shape: "\<forall>x\<in>set ((nh_dev nc)[i := d]). hy_shape x"
    using assms(1,7) lt by (auto simp: hy_ok_def dest!: set_update_subset_insert [THEN subsetD])
  have "\<forall>j<length (nh_dev nc). hd_state (nh_dev nc ! j) \<longrightarrow> hy_key (nh_dev nc ! j) \<noteq> hy_key d \<and> hy_key d \<noteq> hy_key (nh_dev nc ! j)"
    using assms(4,5) by (metis hy_same_iff nth_mem)
  then have "hy_apart ((nh_dev nc)[i := d])"
    using assms(1) lt unfolding hy_apart_def hy_ok_def by (auto simp: nth_list_update)
  with assms lt shape show ?thesis by (auto simp: hy_ok_def)
qed

lemma hy_stop:
  assumes "hy_ok nc" "i < NC_HY_USER_SIZE" "hy_shape (nh_dev nc ! i) \<Longrightarrow> hy_shape d" "\<not> hd_state d"
  shows "hy_ok (nc\<lparr> nh_dev := (nh_dev nc)[i := d] \<rparr>)"
proof -
  have lt: "i < length (nh_dev nc)" using assms(1,2) by (simp add: hy_ok_def)
  have shape: "\<forall>x\<in>set ((nh_dev nc)[i := d]). hy_shape x"
    using assms(1,3) lt by (auto simp: hy_ok_def dest!: set_update_subset_insert [THEN subsetD])
  have "hy_apart ((nh_dev nc)[i := d])"
    using assms(1,4) lt unfolding hy_apart_def hy_ok_def by (auto simp: nth_list_update)
  with assms lt shape show ?thesis by (auto simp: hy_ok_def)
qed

text \<open>What \<open>hy_use\<close> did.\<close>

lemma hy_use_cases:
  assumes "hy_use e undo f info nc sy = Inr (r, g, sy')" "he_pid e = 0" "he_join e = 0"
  obtains (full) "g = Some nc" "sy' = sy" "r = NC_ERROR_FULL"
  | (known) i d where "i < length (nh_dev nc)" "hy_same info (nh_dev nc ! i)" "f i (nh_dev nc ! i) = Inr (r, d)"
      "g = Some (nc\<lparr> nh_dev := (nh_dev nc)[i := d] \<rparr>)" "sy' = sy"
  | (fresh) i d d' where "i < length (nh_dev nc)" "\<forall>d\<in>set (nh_dev nc). \<not> hy_same info d" "\<not> hd_state (nh_dev nc ! i)"
      "\<forall>j<i. hd_state (nh_dev nc ! j)"
      "nc_hy_dev_start 0 (he_now e) (dev_ip info) (dev_msg_port info) (dev_user info) (dev_pswd info) (nh_dev nc ! i) sy
        = Inr (d, sy\<lparr> g_tool_thread_count := g_tool_thread_count sy + 1 \<rparr>)"
      "f i d = Inr (r, d')"
      "g = Some (nc\<lparr> nh_dev := (nh_dev nc)[i := if r < 0 \<and> undo \<and> hd_state d' then d'\<lparr> hd_state := False \<rparr> else d'] \<rparr>)"
      "sy' = (if r < 0 \<and> undo \<and> hd_state d' then sy else sy\<lparr> g_tool_thread_count := g_tool_thread_count sy + 1 \<rparr>)"
proof -
  let ?ds = "nh_dev nc"
  let ?i = "length (takeWhile (\<lambda>d. \<not> hy_same info d) ?ds)" and ?j = "length (takeWhile hd_state ?ds)"
  consider "?i < length ?ds" | "\<not> ?i < length ?ds" "?j = length ?ds" | "\<not> ?i < length ?ds" "?j \<noteq> length ?ds" by blast
  then show thesis
  proof cases
    case 1
    then obtain d where "f ?i (?ds ! ?i) = Inr (r, d)" "g = Some (nc\<lparr> nh_dev := ?ds[?i := d] \<rparr>)" "sy' = sy"
      using assms(1) by (auto simp: hy_use_def Let_def andThen_Inr_iff)
    moreover have "hy_same info (?ds ! ?i)" using nth_length_takeWhile [OF 1] by simp
    ultimately show thesis using known 1 by blast
  next
    case 2
    then show thesis using assms(1) full by (simp add: hy_use_def Let_def)
  next
    case 3
    have none: "\<forall>d\<in>set ?ds. \<not> hy_same info d"
      using 3(1) length_takeWhile_le [of "\<lambda>d. \<not> hy_same info d" ?ds] by (metis le_neq_implies_less takeWhile_eq_all_conv takeWhile_eq_take take_all_iff)
    have j: "?j < length ?ds" using 3(2) length_takeWhile_le [of hd_state ?ds] by linarith
    have nst: "\<not> hd_state (?ds ! ?j)" using nth_length_takeWhile [OF j] .
    have below: "\<forall>k<?j. hd_state (?ds ! k)" by (metis set_takeWhileD nth_mem takeWhile_nth)
    obtain d sy1 where d: "nc_hy_dev_start 0 (he_now e) (dev_ip info) (dev_msg_port info) (dev_user info) (dev_pswd info) (?ds ! ?j) sy
        = Inr (d, sy1)" "sy1 = sy\<lparr> g_tool_thread_count := g_tool_thread_count sy + 1 \<rparr>"
      by (simp add: nc_hy_dev_start_def tool_thread_create_def)
    then obtain d' where "f ?j d = Inr (r, d')"
      "g = Some (nc\<lparr> nh_dev := ?ds[?j := if r < 0 \<and> undo \<and> hd_state d' then d'\<lparr> hd_state := False \<rparr> else d'] \<rparr>)"
      "sy' = (if r < 0 \<and> undo \<and> hd_state d' then sy else sy1)"
      using assms 3 by (auto simp: hy_use_def Let_def andThen_Inr_iff nc_hy_dev_stop_def tool_thread_join_def split: if_splits)
    then show thesis using fresh j none nst below d by metis
  qed
qed

lemma hy_use_ok:
  assumes "hy_ok nc" "hy_use e undo f info nc sy = Inr (r, Some nc', sy')" "he_pid e = 0" "he_join e = 0"
    and "\<And>i d. yields (f i d) (\<lambda>x. hy_keeps d (snd x))"
  shows "hy_ok nc'"
  using assms(2-4)
proof (cases rule: hy_use_cases)
  case full
  then show ?thesis using assms(1) by simp
next
  case (known i d)
  from yieldsD [OF assms(5) known(3)] have "hy_keeps (nh_dev nc ! i) d" by simp
  then show ?thesis using known assms(1) hy_update [OF assms(1), of i d] by (simp add: hy_ok_def)
next
  case (fresh i d d')
  note s = start_key [OF fresh(5)]
  from yieldsD [OF assms(5) fresh(6)] have k: "hy_keeps d d'" by simp
  have lt: "i < NC_HY_USER_SIZE" using fresh(1) assms(1) by (simp add: hy_ok_def)
  have shape: "hy_shape (nh_dev nc ! i) \<Longrightarrow> hy_shape d" by (subst s(3)) (simp add: hy_shape_def)
  show ?thesis
  proof (cases "r < 0 \<and> undo \<and> hd_state d'")
    case True
    have "hy_ok (nc\<lparr> nh_dev := (nh_dev nc)[i := d'] \<rparr>)"
      using k s(1,2) shape by (intro hy_start [OF assms(1) lt fresh(3,2)]) (auto simp: hy_keeps_def)
    from hy_stop [OF this lt, of "d'\<lparr> hd_state := False \<rparr>"] True fresh(1,7,8) show ?thesis
      by (simp add: hy_shape_def)
  next
    case False
    have "hy_ok (nc\<lparr> nh_dev := (nh_dev nc)[i := d'] \<rparr>)"
      using k s(1,2) shape by (intro hy_start [OF assms(1) lt fresh(3,2)]) (auto simp: hy_keeps_def)
    then show ?thesis using False fresh(7,8) by (simp add: if_not_P)
  qed
qed

section \<open>Starting and closing the client, and its own thread\<close>

lemma hy_init_ok:
  assumes "heap sy0 a = None" "unat (sz + 4) \<ge> 4"
  shows "returns (nc_hy_init (Some a) sz 0 0 None sy0) (\<lambda>(g, sy). \<exists>nc. g = Some nc \<and> nh_dev nc = replicate NC_HY_USER_SIZE hy_dev_zero
     \<and> hy_ok nc)"
proof -
  have "owns {} (heap sy0) sy0" by (simp add: owns_def)
  from returnsE [OF malloc_owns [OF this assms]] obtain sy1 where
    1: "tool_mem_malloc (Some a) [] sz True sy0 = Inr (a + 4, sy1)" by auto
  have z: "\<not> hd_state hy_dev_zero" "hy_shape hy_dev_zero" by (simp_all add: hy_dev_zero_def hy_shape_def)
  show ?thesis using 1 z
    by (simp add: nc_hy_init_def qh_thread_def tool_thread_create_def Let_def hy_ok_def hy_apart_def NC_HY_USER_SIZE_def)
qed

text \<open>A running device of which the client's thread thinks that nothing is wanted.\<close>

definition hy_idle :: "int \<times> int \<Rightarrow> nc_hy_dev \<Rightarrow> bool" where
  "hy_idle tv d \<longleftrightarrow> hd_state d \<and> True \<notin> set (hd_rts_enable d) \<and> \<not> hd_pbs_enable d \<and> \<not> hd_talk_enable d
     \<and> tool_sysf_isTickTimeout tv (fst (hd_state_tick d)) (snd (hd_state_tick d)) (60 * 1000 * 1000) \<noteq> 0"

definition hy_rested :: "int \<times> int \<Rightarrow> nc_hy_dev \<Rightarrow> nc_hy_dev" where
  "hy_rested tv d = (if hy_idle tv d then d\<lparr> hd_state := False \<rparr> else d)"

lemma hy_pass_eq: "fst (nc_hy_run_pass 0 tv ds sy) = map (hy_rested tv) ds"
proof (induction ds arbitrary: sy)
  case (Cons d ds)
  have "fst (hy_idle_dev 0 tv d sy) = hy_rested tv d"
    by (auto simp: hy_idle_dev_def hy_rested_def hy_idle_def nc_hy_dev_stop_def)
  then show ?case using Cons.IH by (simp add: case_prod_beta Let_def)
qed simp

lemma hy_pass_ok:
  assumes "hy_ok nc" "nc_hy_run_pass 0 tv (nh_dev nc) sy = (ds, sy')"
  shows "hy_ok (nc\<lparr> nh_dev := ds \<rparr>)"
proof -
  have r: "hd_state (hy_rested tv d) \<Longrightarrow> hd_state d" "hy_key (hy_rested tv d) = hy_key d" "hy_shape (hy_rested tv d) = hy_shape d" for d
    by (auto simp: hy_rested_def hy_key_def hy_shape_def split: if_splits)
  have "hy_apart (map (hy_rested tv) (nh_dev nc))"
    using assms(1) by (simp add: hy_ok_def hy_apart_def r)
  then show ?thesis using assms hy_pass_eq [of tv "nh_dev nc" sy] by (auto simp: hy_ok_def r)
qed

section \<open>The client in use\<close>

definition hy_starts :: "hy_env \<Rightarrow> nc_dev option \<Rightarrow> nat option \<Rightarrow> nc_hy \<Rightarrow> sysf \<Rightarrow> (int \<times> nc_hy option \<times> sysf) outcome set" where
  "hy_starts e info cb nc sy = {nc_hy_login_v2 e info cb (Some nc) sy, nc_hy_startTalk_v2 e info cb (Some nc) sy}
     \<union> {nc_hy_startRts_v2 e info ch st cb (Some nc) sy |ch st. True}
     \<union> {nc_hy_startPbs e tick rounds info pbs cb (Some nc) sy |tick rounds pbs. True}"

definition hy_stops :: "int \<times> int \<Rightarrow> int \<Rightarrow> nc_hy \<Rightarrow> (int \<times> nc_hy option) set" where
  "hy_stops tv user_id nc = {nc_hy_logout tv user_id (Some nc), nc_hy_stopRts tv user_id (Some nc),
     nc_hy_stopPbs tv user_id (Some nc), nc_hy_stopTalk tv user_id (Some nc)}
     \<union> {nc_hy_controlPTZ_v2 tv info ch cmd param (Some nc) |info ch cmd param. True}"

text \<open>
  What can happen to the client, in any order. Threads can be created and joined. The last rule is the
  thread of a device, from its start until it is joined. Of the table it writes the device's socket and the
  two fields of the talk. What it creates and frees, logging in and out, is left open: two threads for each
  channel and for the playback, their rings, frames and sockets, the ring of the talk. It leaves the system
  in any state.
\<close>

inductive hy_client :: "sysf \<Rightarrow> nc_hy \<Rightarrow> sysf \<Rightarrow> bool" for sy0 where
  Hy_init: "heap sy0 a = None \<Longrightarrow> unat (sz + 4) \<ge> 4 \<Longrightarrow> nc_hy_init (Some a) sz 0 0 None sy0 = Inr (Some nc, sy) \<Longrightarrow> hy_client sy0 nc sy"
| Hy_start: "hy_client sy0 nc sy \<Longrightarrow> he_pid e = 0 \<Longrightarrow> he_join e = 0 \<Longrightarrow> Inr (r, Some nc', sy') \<in> hy_starts e info cb nc sy
     \<Longrightarrow> hy_client sy0 nc' sy'"
| Hy_stop: "hy_client sy0 nc sy \<Longrightarrow> (r, Some nc') \<in> hy_stops tv user_id nc \<Longrightarrow> hy_client sy0 nc' sy"
| Hy_buffer: "hy_client sy0 nc sy \<Longrightarrow> nc_hy_setBuffer n (Some nc) = (r, Some nc') \<Longrightarrow> hy_client sy0 nc' sy"
| Hy_sound: "hy_client sy0 nc sy \<Longrightarrow> nc_hy_sendTalk user_id buf len (Some nc) = Inr (r, Some nc') \<Longrightarrow> hy_client sy0 nc' sy"
| Hy_pass: "hy_client sy0 nc sy \<Longrightarrow> nc_hy_run_pass 0 tv (nh_dev nc) sy = (ds, sy') \<Longrightarrow> hy_client sy0 (nc\<lparr> nh_dev := ds \<rparr>) sy'"
| Hy_thread: "hy_client sy0 nc sy \<Longrightarrow> i < NC_HY_USER_SIZE
     \<Longrightarrow> hy_client sy0 (nc\<lparr> nh_dev := (nh_dev nc)[i := (nh_dev nc ! i)\<lparr> hd_msg_sock := item, hd_last_talk_enable := tk,
           hd_talk_send_stream := ring \<rparr>] \<rparr>) sy'"

lemma hy_call_ok:
  assumes "hy_ok nc" "he_pid e = 0" "he_join e = 0"
    and "Inr (r, Some nc', sy') = hy_call (Some nc) ok sy (\<lambda>nc. hy_use e undo f target nc sy)"
    and "\<And>i d. yields (f i d) (\<lambda>x. hy_keeps d (snd x))"
  shows "hy_ok nc'"
  using assms(1,4) hy_use_ok [OF assms(1) _ assms(2,3,5), where undo = undo and info = target and r = r and nc' = nc' and sy' = sy']
  by (auto simp: hy_call_def split: if_splits)

lemma hy_startsE:
  assumes "Inr (r, Some nc', sy') \<in> hy_starts e info cb nc sy"
  obtains undo f ok where "Inr (r, Some nc', sy') = hy_call (Some nc) ok sy (\<lambda>nc. hy_use e undo f (the info) nc sy)"
    "\<And>i d. yields (f i d) (\<lambda>x. hy_keeps d (snd x))"
proof -
  note defs = nc_hy_login_v2_def nc_hy_startTalk_v2_def nc_hy_startRts_v2_def nc_hy_startPbs_def
  from assms consider "Inr (r, Some nc', sy') = nc_hy_login_v2 e info cb (Some nc) sy"
    | "Inr (r, Some nc', sy') = nc_hy_startTalk_v2 e info cb (Some nc) sy"
    | ch st where "Inr (r, Some nc', sy') = nc_hy_startRts_v2 e info ch st cb (Some nc) sy"
    | tick rounds pbs where "Inr (r, Some nc', sy') = nc_hy_startPbs e tick rounds info pbs cb (Some nc) sy"
    unfolding hy_starts_def by blast
  then show thesis
    by cases (simp_all only: defs; erule that; simp add: hy_ops_keep)+
qed

lemma hy_starts_ok:
  assumes "hy_ok nc" "he_pid e = 0" "he_join e = 0" "Inr (r, Some nc', sy') \<in> hy_starts e info cb nc sy"
  shows "hy_ok nc'"
  using assms(4) by (rule hy_startsE) (rule hy_call_ok [OF assms(1-3)])

lemma hy_stops_ok:
  assumes "hy_ok nc" "(r, Some nc') \<in> hy_stops tv user_id nc"
  shows "hy_ok nc'"
proof -
  have s: "hy_ok nc'" if "(r, Some nc') = hy_stop_call user_id ok f (Some nc)" "\<And>d. hy_keeps d (f d)" for ok f
    using assms(1) that hy_update [OF assms(1)] by (auto simp: hy_stop_call_def split: if_splits)
  have len: "length (nh_dev nc) = NC_HY_USER_SIZE" using assms(1) by (simp add: hy_ok_def)
  have p: "hy_ok nc'" if "(r, Some nc') = nc_hy_controlPTZ_v2 tv info ch cmd param (Some nc)" for info ch cmd param
  proof -
    have "\<exists>i < NC_HY_USER_SIZE. nc' = nc\<lparr> nh_dev := (nh_dev nc)[i := nc_hy_dev_ptz tv ch cmd param (nh_dev nc ! i)] \<rparr>" if "nc' \<noteq> nc"
      using that \<open>(r, Some nc') = _\<close> len length_takeWhile_le [of "\<lambda>d. \<not> hy_same (the info) d" "nh_dev nc"]
      by (cases info) (auto simp: nc_hy_controlPTZ_v2_def Let_def split: if_splits intro!: exI [of _ "length (takeWhile _ (nh_dev nc))"])
    then show ?thesis using assms(1) hy_update [OF assms(1) _ hy_ops_keep(8)] by blast
  qed
  from assms(2) consider "(r, Some nc') = nc_hy_logout tv user_id (Some nc)" | "(r, Some nc') = nc_hy_stopRts tv user_id (Some nc)"
    | "(r, Some nc') = nc_hy_stopPbs tv user_id (Some nc)" | "(r, Some nc') = nc_hy_stopTalk tv user_id (Some nc)"
    | info ch cmd param where "(r, Some nc') = nc_hy_controlPTZ_v2 tv info ch cmd param (Some nc)"
    unfolding hy_stops_def by blast
  then show ?thesis
  proof cases
    case 5
    then show ?thesis by (rule p)
  qed (simp_all only: nc_hy_logout_def nc_hy_stopRts_def nc_hy_stopPbs_def nc_hy_stopTalk_def;
      erule s; simp add: hy_ops_keep)+
qed

lemma hy_client_ok: "hy_client sy0 nc sy \<Longrightarrow> hy_ok nc"
proof (induction rule: hy_client.induct)
  case (Hy_init a sz nc sy)
  then show ?case using hy_init_ok [OF Hy_init(1,2)] by auto
next
  case (Hy_sound nc sy user_id buf len r nc')
  then show ?case using hy_update [of nc] by (auto simp: nc_hy_sendTalk_def Let_def andThen_Inr_iff hy_keeps_def hy_key_def hy_shape_def split: if_splits)
next
  case (Hy_buffer nc sy n r nc')
  then show ?case by (auto simp: nc_hy_setBuffer_def hy_ok_def split: if_splits)
next
  case (Hy_thread nc sy i item tk ring sy')
  then show ?case by (intro hy_update) (simp_all add: hy_keeps_def hy_key_def hy_shape_def)
qed (blast intro: hy_starts_ok hy_stops_ok hy_pass_ok)+

section \<open>Properties\<close>

lemma hy_use_one:
  assumes "hy_ok nc" "hy_use e undo f info nc sy = Inr (r, Some nc', sy')" "he_pid e = 0" "he_join e = 0"
    and "\<And>i d. yields (f i d) (\<lambda>x. hy_keeps d (snd x))" "0 \<le> r"
  shows "\<exists>i<NC_HY_USER_SIZE. hy_same info (nh_dev nc' ! i)
     \<and> (\<forall>j<NC_HY_USER_SIZE. j \<noteq> i \<longrightarrow> \<not> hy_same info (nh_dev nc' ! j) \<and> nh_dev nc' ! j = nh_dev nc ! j)
     \<and> (if \<exists>j<NC_HY_USER_SIZE. hy_same info (nh_dev nc ! j) then sy' = sy
        else \<not> hd_state (nh_dev nc ! i) \<and> (\<forall>j<i. hd_state (nh_dev nc ! j))
          \<and> sy' = sy\<lparr> g_tool_thread_count := g_tool_thread_count sy + 1 \<rparr>)"
proof -
  have len: "length (nh_dev nc) = NC_HY_USER_SIZE" using assms(1) by (simp add: hy_ok_def)
  have ok: "hy_ok nc'" by (rule hy_use_ok [OF assms(1-5)])
  have others: "\<not> hy_same info (nh_dev nc' ! j)" if "hy_same info (nh_dev nc' ! i)" "i < NC_HY_USER_SIZE" "j < NC_HY_USER_SIZE" "j \<noteq> i" for i j
    using ok that unfolding hy_ok_def hy_apart_def hy_same_iff by metis
  from assms(2-4) show ?thesis
  proof (cases rule: hy_use_cases)
    case full
    then show ?thesis using assms(6) by (simp add: NC_ERROR_FULL_def)
  next
    case (known i d)
    have "hy_same info d" using yieldsD [OF assms(5) known(3)] known(2) by (simp add: hy_keeps_def hy_same_iff)
    then show ?thesis using known others [of i] len by (intro exI [of _ i]) auto
  next
    case (fresh i d d')
    have "hy_same info d'" using yieldsD [OF assms(5) fresh(6)] start_key [OF fresh(5)] by (simp add: hy_keeps_def hy_same_iff)
    moreover have "nc' = nc\<lparr> nh_dev := (nh_dev nc)[i := d'] \<rparr>" using fresh(7) assms(6) by simp
    ultimately show ?thesis using fresh others [of i] len assms(6) by (intro exI [of _ i]) auto
  qed
qed

lemma hy_call_one:
  assumes "hy_ok nc" "he_pid e = 0" "he_join e = 0" "0 \<le> r"
    and "Inr (r, Some nc', sy') = hy_call (Some nc) ok sy (\<lambda>nc. hy_use e undo f info nc sy)"
    and "\<And>i d. yields (f i d) (\<lambda>x. hy_keeps d (snd x))"
  shows "hy_use e undo f info nc sy = Inr (r, Some nc', sy')"
  using assms(4,5) by (auto simp: hy_call_def NC_ERROR_INPUT_def split: if_splits)

text \<open>C37: whatever is started on a device of the HY client, in any reachable state and whatever the threads of the
  devices have done to the system: when it succeeds, exactly one running device has this address, port and
  account. It is the one that was running for it before, and then no thread is created; or, when there was
  none, the first place that is not running, with one thread created. The other devices are unchanged.\<close>

theorem hy_one_device_per_target:
  assumes "hy_client sy0 nc sy" "he_pid e = 0" "he_join e = 0" "Inr (r, Some nc', sy') \<in> hy_starts e (Some info) cb nc sy" "0 \<le> r"
  shows "\<exists>i<NC_HY_USER_SIZE. hy_same info (nh_dev nc' ! i)
     \<and> (\<forall>j<NC_HY_USER_SIZE. j \<noteq> i \<longrightarrow> \<not> hy_same info (nh_dev nc' ! j) \<and> nh_dev nc' ! j = nh_dev nc ! j)
     \<and> (if \<exists>j<NC_HY_USER_SIZE. hy_same info (nh_dev nc ! j) then sy' = sy
        else \<not> hd_state (nh_dev nc ! i) \<and> (\<forall>j<i. hd_state (nh_dev nc ! j))
          \<and> sy' = sy\<lparr> g_tool_thread_count := g_tool_thread_count sy + 1 \<rparr>)"
proof -
  note ok = hy_client_ok [OF assms(1)]
  from assms(4) obtain undo f okay where
    "Inr (r, Some nc', sy') = hy_call (Some nc) okay sy (\<lambda>nc. hy_use e undo f info nc sy)"
    "\<And>i d. yields (f i d) (\<lambda>x. hy_keeps d (snd x))"
    by (rule hy_startsE) (unfold option.sel, blast)
  then show ?thesis using hy_use_one [OF ok hy_call_one [OF ok assms(2,3,5)] assms(2,3)] assms(5) by blast
qed

text \<open>A client that has just been started, and one with a live stream on its first device.\<close>

lemma demo_hy: "\<exists>nc sy. hy_client demo_sysf nc sy \<and> nh_dev nc = replicate NC_HY_USER_SIZE hy_dev_zero"
proof -
  have sz: "unat ((1000 :: u32) + 4) \<ge> 4" by simp
  have h: "heap demo_sysf 0 = None" by (simp add: demo_sysf_def)
  from returnsE [OF hy_init_ok [OF h sz]] Hy_init [OF h sz] show ?thesis by auto
qed

definition demo_env :: hy_env where
  "demo_env = \<lparr> he_pid = 0, he_join = 0, he_now = (100, 0) \<rparr>"

lemma hy_use_first:
  assumes "nh_dev nc = replicate NC_HY_USER_SIZE hy_dev_zero" "he_pid e = 0"
  shows "\<exists>d sy'. nc_hy_dev_start 0 (he_now e) (dev_ip info) (dev_msg_port info) (dev_user info) (dev_pswd info) hy_dev_zero sy = Inr (d, sy')
     \<and> hd_state d \<and> hy_use e False f info nc sy = andThen (f 0 d) (\<lambda>(r, d). Inr (r, Some (nc\<lparr> nh_dev := (nh_dev nc)[0 := d] \<rparr>), sy'))"
proof -
  have z: "\<not> hy_same info hy_dev_zero" "\<not> hd_state hy_dev_zero" by (simp_all add: hy_same_def hy_dev_zero_def)
  have "length (takeWhile (\<lambda>d. \<not> hy_same info d) (nh_dev nc)) = length (nh_dev nc)"
    using assms(1) z by (subst takeWhile_eq_all_conv [THEN iffD2]) simp_all
  moreover have "takeWhile hd_state (nh_dev nc) = []" "nh_dev nc ! 0 = hy_dev_zero" "length (nh_dev nc) \<noteq> 0"
    using assms(1) z by (simp_all add: NC_HY_USER_SIZE_def numeral_eq_Suc)
  ultimately show ?thesis using assms(2)
    by (auto simp: hy_use_def Let_def nc_hy_dev_start_def tool_thread_create_def split: if_splits)
qed

lemma demo_hy_alarm:
  "\<exists>nc sy. hy_client demo_sysf nc sy \<and> hd_state (nh_dev nc ! 0) \<and> hd_alarm_enable (nh_dev nc ! 0) \<and> hd_alarm_cb (nh_dev nc ! 0) = cb
     \<and> hy_idle (200, 0) (nh_dev nc ! 0) \<and> hy_same demo_dev (nh_dev nc ! 0) \<and> (\<forall>i < NC_HY_USER_SIZE. i \<noteq> 0 \<longrightarrow> \<not> hd_state (nh_dev nc ! i))"
proof -
  obtain nc sy where i: "hy_client demo_sysf nc sy" "nh_dev nc = replicate NC_HY_USER_SIZE hy_dev_zero" using demo_hy by blast
  let ?f = "\<lambda>i d. Inr (nc_hy_dev_startAlarm (he_now demo_env) cb i d)"
  obtain d sy' where d: "nc_hy_dev_start 0 (he_now demo_env) (dev_ip demo_dev) (dev_msg_port demo_dev) (dev_user demo_dev)
      (dev_pswd demo_dev) hy_dev_zero sy = Inr (d, sy')" "hd_state d"
    "hy_use demo_env False ?f demo_dev nc sy = andThen (?f 0 d) (\<lambda>(r, d). Inr (r, Some (nc\<lparr> nh_dev := (nh_dev nc)[0 := d] \<rparr>), sy'))"
    using hy_use_first [OF i(2), of demo_env demo_dev sy ?f] by (auto simp: demo_env_def)
  have s: "\<not> hd_alarm_enable d" "True \<notin> set (hd_rts_enable d)" "\<not> hd_pbs_enable d" "\<not> hd_talk_enable d"
    using d(1) by (auto simp: nc_hy_dev_start_def tool_thread_create_def hy_dev_zero_def)
  define nc' where "nc' = nc\<lparr> nh_dev := (nh_dev nc)[0 := snd (nc_hy_dev_startAlarm (he_now demo_env) cb 0 d)] \<rparr>"
  obtain r where "nc_hy_login_v2 demo_env (Some demo_dev) cb (Some nc) sy = Inr (r, Some nc', sy')"
    using d(3) s(1) by (simp add: nc_hy_login_v2_def hy_call_def nc'_def nc_hy_dev_startAlarm_def)
  then have "Inr (r, Some nc', sy') \<in> hy_starts demo_env (Some demo_dev) cb nc sy" by (simp add: hy_starts_def)
  from Hy_start [OF i(1) _ _ this] have "hy_client demo_sysf nc' sy'" by (simp add: demo_env_def)
  moreover have "0 < NC_HY_USER_SIZE" by (simp add: NC_HY_USER_SIZE_def)
  moreover have "hy_idle (200, 0) (snd (nc_hy_dev_startAlarm (he_now demo_env) cb 0 d))"
    using s d(2) by (simp add: hy_idle_def nc_hy_dev_startAlarm_def demo_env_def tool_sysf_isTickTimeout_def tick_elapsed_def int32_def)
  moreover have "hy_same demo_dev (snd (nc_hy_dev_startAlarm (he_now demo_env) cb 0 d))"
    using start_key [OF d(1)] by (simp add: nc_hy_dev_startAlarm_def hy_same_iff hy_key_def)
  ultimately show ?thesis using s d(2) i(2)
    by (intro exI [of _ nc'] exI [of _ sy']) (simp add: nc'_def nc_hy_dev_startAlarm_def hy_dev_zero_def)
qed

text \<open>A device that runs for its alarms, and a live stream of it: no second device, no second thread.\<close>

theorem hy_one_device_per_target_witness:
  "\<exists>nc sy r nc'. hy_client demo_sysf nc sy \<and> hd_alarm_enable (nh_dev nc ! 0)
     \<and> nc_hy_startRts_v2 demo_env (Some demo_dev) 3 1 (Some 9) (Some nc) sy = Inr (r, Some nc', sy) \<and> 0 \<le> r
     \<and> (\<exists>!i. i < NC_HY_USER_SIZE \<and> hy_same demo_dev (nh_dev nc' ! i))"
proof -
  obtain nc sy where c: "hy_client demo_sysf nc sy" "hd_alarm_enable (nh_dev nc ! 0)" "hy_idle (200, 0) (nh_dev nc ! 0)"
    "hy_same demo_dev (nh_dev nc ! 0)" using demo_hy_alarm by blast
  have sh: "length (nh_dev nc) = NC_HY_USER_SIZE" "hy_shape (nh_dev nc ! 0)"
    using hy_client_ok [OF c(1)] by (auto simp: hy_ok_def NC_HY_USER_SIZE_def)
  have z: "(0::nat) < NC_HY_USER_SIZE" "takeWhile (\<lambda>d. \<not> hy_same demo_dev d) (nh_dev nc) = []"
    using c(4) sh(1) by (simp add: NC_HY_USER_SIZE_def) (use c(4) sh(1) in \<open>cases "nh_dev nc"; simp add: NC_HY_USER_SIZE_def\<close>)
  have "hd_rts_enable (nh_dev nc ! 0) ! 3 \<in> set (hd_rts_enable (nh_dev nc ! 0))"
    using sh(2) by (intro nth_mem) (simp add: hy_shape_def NC_HY_CHANNEL_SIZE_def)
  then have off: "\<not> hd_rts_enable (nh_dev nc ! 0) ! 3" using c(3) by (metis (full_types) hy_idle_def)
  have r: "0 \<le> hy_id 0 3" by (simp add: hy_id_def NC_PTC_HuaYi_def)
  obtain nc' sy' where s: "nc_hy_startRts_v2 demo_env (Some demo_dev) 3 1 (Some 9) (Some nc) sy = Inr (hy_id 0 3, Some nc', sy')"
    using off z sh(1) by (simp add: nc_hy_startRts_v2_def hy_call_def hy_use_def Let_def NC_HY_CHANNEL_SIZE_def NC_HY_STREAM_SIZE_def
        nc_hy_dev_startRts_def)
  then have "Inr (hy_id 0 3, Some nc', sy') \<in> hy_starts demo_env (Some demo_dev) (Some 9) nc sy"
    unfolding hy_starts_def by (metis (mono_tags, lifting) UnI1 UnI2 mem_Collect_eq)
  from hy_one_device_per_target [OF c(1) _ _ this r] c(4) z(1) obtain i where
    "sy' = sy" "i < NC_HY_USER_SIZE" "hy_same demo_dev (nh_dev nc' ! i)"
    "\<forall>j<NC_HY_USER_SIZE. j \<noteq> i \<longrightarrow> \<not> hy_same demo_dev (nh_dev nc' ! j)"
    by (auto simp: demo_env_def split: if_splits)
  with c(1,2) s r show ?thesis by blast
qed

end
