(* ===== verification/Nc_Route_Rt.thy ===== *)
theory Nc_Route_Rt
  imports Nc_Route Nc_Hy_Rt
begin

text \<open>
  Calls through the interface of the library: a number a client gave out leads back to what it stands
  for; what becomes of alarms when their device is thought to be idle; where an unknown device leads.
\<close>

section \<open>Numbers\<close>

lemma byte_word:
  assumes "b AND 0xFF = (b :: u32)"
  shows "b AND 0xFF000000 = 0" "drop_bit 8 b = 0"
proof -
  have "b AND 0xFF000000 = b AND (0xFF AND 0xFF000000)" using assms by (metis and.assoc)
  then show "b AND 0xFF000000 = 0" by simp
  have "drop_bit 8 b = drop_bit 8 b AND drop_bit 8 0xFF" using assms by (metis drop_bit_and)
  then show "drop_bit 8 b = 0" by simp
qed

lemma hy_id_parts:
  assumes "i < NC_HY_USER_SIZE" "0 \<le> no" "no < 256"
  shows "hy_id_dev (hy_id i no) = i" "hy_id_no (hy_id i no) = no" "id_route (hy_id i no) = Hy"
proof -
  define b :: u32 where "b = word_of_int no"
  have u: "uint b = no" using assms(2,3) by (simp add: b_def uint_word_of_int_eq take_bit_int_eq_self)
  have "take_bit 8 b = b" using assms(2,3) u
    by (intro word_uint_eqI) (simp_all add: unsigned_take_bit_eq take_bit_int_eq_self)
  then have b: "b AND 0xFF = b" by (simp add: take_bit_eq_mask mask_numeral)
  note b' = b byte_word [OF b]
  have w: "word_of_int (hy_id i no) = (NC_PTC_HuaYi OR push_bit 8 (of_nat i) OR b :: u32)" by (simp add: hy_id_def b_def)
  have i: "i \<in> {0,1,2,3,4,5,6,7,8,9}" using assms(1) by (auto simp: NC_HY_USER_SIZE_def)
  note parts = hy_id_dev_def hy_id_no_def id_route_def w nc_route_def NC_PTC_HuaYi_def bit.conj_disj_distrib2 drop_bit_or b'
  show "hy_id_dev (hy_id i no) = i" using i by (auto simp: parts)
  show "hy_id_no (hy_id i no) = no" using i u by (auto simp: parts)
  show "id_route (hy_id i no) = Hy" using i by (auto simp: parts)
qed

section \<open>What is started can be stopped\<close>

lemma on_hy_result:
  "on_hy f ns = Inr (r, ns') \<Longrightarrow> \<exists>g sy. f (ns_hy ns) (ns_sysf ns) = Inr (r, g, sy) \<and> ns' = ns\<lparr> ns_hy := g, ns_sysf := sy \<rparr>"
  by (cases "f (ns_hy ns) (ns_sysf ns)") (auto simp: on_hy_def)

lemma dev_call_hy:
  "dev_call look hy qh other dev ns = Inr (r, dev', ns') \<Longrightarrow> nc_route (dev_ptc dev) = Hy \<Longrightarrow> hy dev ns = Inr (r, ns') \<and> dev' = dev"
  by (cases "hy dev ns") (auto simp: dev_call_def)

text \<open>C38: when a live stream of a HY device is started through the interface, stopping the number returned
  succeeds and ends the stream of this channel of this device and nothing else.\<close>

theorem hy_stream_stops:
  assumes "hy_client sy0 nc sy" "he_pid (nw_hy w) = 0" "he_join (nw_hy w) = 0"
    and "nc_route (dev_ptc dev) = Hy" "ns_hy ns = Some nc" "ns_sysf ns = sy"
    and "nc_startRts_v2 w look other dev ch st cb ns = Inr (r, dev', ns1)" "0 \<le> r"
  shows "\<exists>i nc1 nc2. dev' = dev \<and> ns_hy ns1 = Some nc1 \<and> i < NC_HY_USER_SIZE \<and> hy_same dev (nh_dev nc1 ! i)
     \<and> hd_rts_enable (nh_dev nc1 ! i) ! nat ch \<and> hd_rts_cb (nh_dev nc1 ! i) ! nat ch = cb
     \<and> nc_stopRts w' other' r ns1 = Inr (0, ns1\<lparr> ns_hy := Some nc2 \<rparr>)
     \<and> nh_dev nc2 = (nh_dev nc1)[i := (nh_dev nc1 ! i)\<lparr> hd_rts_enable := (hd_rts_enable (nh_dev nc1 ! i))[nat ch := False],
         hd_rts_cb := (hd_rts_cb (nh_dev nc1 ! i))[nat ch := None], hd_state_tick := he_now (nw_hy w') \<rparr>]"
proof -
  let ?e = "nw_hy w" and ?c = "nat ch"
  let ?f = "\<lambda>i d. Inr (nc_hy_dev_startRts (he_now ?e) ?c st cb i d) :: (int \<times> nc_hy_dev) outcome"
  note ok = hy_client_ok [OF assms(1)]
  obtain g sy1 where h: "nc_hy_startRts_v2 ?e (Some dev) ch st cb (Some nc) sy = Inr (r, g, sy1)" "dev' = dev"
    "ns1 = ns\<lparr> ns_hy := g, ns_sysf := sy1 \<rparr>"
    using on_hy_result [OF dev_call_hy [OF assms(7) [unfolded nc_startRts_v2_def] assms(4), THEN conjunct1]]
      dev_call_hy [OF assms(7) [unfolded nc_startRts_v2_def] assms(4)] assms(5,6) by auto
  then have ch: "0 \<le> ch" "ch < 16" and u: "hy_use ?e False ?f dev nc sy = Inr (r, g, sy1)"
    using assms(8) by (auto simp: nc_hy_startRts_v2_def hy_call_def NC_HY_CHANNEL_SIZE_def NC_ERROR_INPUT_def split: if_splits)
  have rts: "r = hy_id i ch \<and> d' = d\<lparr> hd_rts_cb := (hd_rts_cb d)[?c := cb], hd_rts_enable := (hd_rts_enable d)[?c := True],
      hd_rts_stream_type := (hd_rts_stream_type d)[?c := st], hd_state_tick := he_now ?e \<rparr>" if "?f i d = Inr (r, d')" for i d d'
    using that assms(8) ch by (auto simp: nc_hy_dev_startRts_def NC_ERROR_REPEAT_def split: if_splits)
  have "\<exists>i d d'. i < NC_HY_USER_SIZE \<and> hy_shape d \<and> hy_same dev d \<and> ?f i d = Inr (r, d') \<and> g = Some (nc\<lparr> nh_dev := (nh_dev nc)[i := d'] \<rparr>)"
    using u assms(2,3)
  proof (cases rule: hy_use_cases)
    case full
    then show ?thesis using assms(8) by (simp add: NC_ERROR_FULL_def)
  next
    case (known i d)
    then show ?thesis using ok by (intro exI [of _ i] exI [of _ "nh_dev nc ! i"] exI [of _ d]) (auto simp: hy_ok_def)
  next
    case (fresh i d d')
    note s = start_key [OF fresh(5)]
    have "hy_shape d" using ok fresh(1) by (subst s(3)) (auto simp: hy_ok_def hy_shape_def)
    then show ?thesis using fresh s(1,2) ok assms(8)
      by (intro exI [of _ i] exI [of _ d] exI [of _ d']) (auto simp: hy_ok_def hy_same_iff)
  qed
  then obtain i d d' where i: "i < NC_HY_USER_SIZE" "hy_shape d" "hy_same dev d" "?f i d = Inr (r, d')"
    "g = Some (nc\<lparr> nh_dev := (nh_dev nc)[i := d'] \<rparr>)" by blast
  note d' = rts [OF i(4)]
  have len: "length (nh_dev nc) = NC_HY_USER_SIZE" using ok by (simp add: hy_ok_def)
  have same: "hy_same dev d'" using i(3) d' by (simp add: hy_same_def)
  have id: "hy_id_dev r = i" "hy_id_no r = ch" "id_route r = Hy" using hy_id_parts [OF i(1) ch(1)] ch(2) d' by simp_all
  have c: "?c < 16" using ch by simp
  have on: "hd_rts_enable d' ! ?c" "hd_rts_cb d' ! ?c = cb"
    using d' i(2) c by (simp_all add: hy_shape_def NC_HY_CHANNEL_SIZE_def)
  have "nc_stopRts w' other' r ns1 = Inr (0, ns1\<lparr> ns_hy := Some (nc\<lparr> nh_dev := (nh_dev nc)[i := nc_hy_dev_stopRts (he_now (nw_hy w')) ?c d'] \<rparr>) \<rparr>)"
    using h(3) i(1,5) id ch len
    by (simp add: nc_stopRts_def id_call_def hy_pure_def nc_hy_stopRts_def hy_stop_call_def NC_HY_CHANNEL_SIZE_def)
  then show ?thesis using h(2,3) i(1,5) same on len
    by (intro exI [of _ i] exI [of _ "nc\<lparr> nh_dev := (nh_dev nc)[i := d'] \<rparr>"]
        exI [of _ "nc\<lparr> nh_dev := (nh_dev nc)[i := nc_hy_dev_stopRts (he_now (nw_hy w')) ?c d'] \<rparr>"])
      (simp add: nc_hy_dev_stopRts_def)
qed

definition demo_world :: nc_world where
  "demo_world = \<lparr> nw_qh = demo_grant 100, nw_end = demo_end, nw_hy = demo_env, nw_junk = [], nw_tick = 0, nw_rounds = [] \<rparr>"

definition hy_demo_dev :: nc_dev where
  "hy_demo_dev = demo_dev\<lparr> dev_ptc := NC_PTC_HuaYi, dev_ip := ''10.0.0.9'' \<rparr>"

lemma hy_demo_route: "nc_route (dev_ptc hy_demo_dev) = Hy"
  by (simp add: hy_demo_dev_def nc_route_def NC_PTC_HuaYi_def)

theorem hy_stream_stops_witness:
  "\<exists>nc sy r ns1 ns2. hy_client demo_sysf nc sy
     \<and> nc_startRts_v2 demo_world (\<lambda>d. (0, d)) (\<lambda>_ _. 0) hy_demo_dev 3 1 (Some 7) \<lparr> ns_qh = None, ns_hy = Some nc, ns_sysf = sy \<rparr>
         = Inr (r, hy_demo_dev, ns1)
     \<and> nc_stopRts demo_world (\<lambda>_ _. 0) r ns1 = Inr (0, ns2)"
proof -
  obtain nc sy where i: "hy_client demo_sysf nc sy" "nh_dev nc = replicate NC_HY_USER_SIZE hy_dev_zero" using demo_hy by blast
  let ?f = "\<lambda>i d. Inr (nc_hy_dev_startRts (he_now demo_env) 3 1 (Some 7) i d)"
  obtain d sy' where d: "nc_hy_dev_start 0 (he_now demo_env) (dev_ip hy_demo_dev) (dev_msg_port hy_demo_dev) (dev_user hy_demo_dev)
      (dev_pswd hy_demo_dev) hy_dev_zero sy = Inr (d, sy')"
    "hy_use demo_env False ?f hy_demo_dev nc sy = andThen (?f 0 d) (\<lambda>(r, d). Inr (r, Some (nc\<lparr> nh_dev := (nh_dev nc)[0 := d] \<rparr>), sy'))"
    using hy_use_first [OF i(2), of demo_env hy_demo_dev sy ?f] by (auto simp: demo_env_def)
  have off: "\<not> hd_rts_enable d ! 3"
    using d(1) by (auto simp: nc_hy_dev_start_def tool_thread_create_def hy_dev_zero_def NC_HY_CHANNEL_SIZE_def)
  let ?ns = "\<lparr> ns_qh = None, ns_hy = Some nc, ns_sysf = sy \<rparr>"
  obtain ns1 where s: "nc_startRts_v2 demo_world (\<lambda>d. (0, d)) (\<lambda>_ _. 0) hy_demo_dev 3 1 (Some 7) ?ns = Inr (hy_id 0 3, hy_demo_dev, ns1)"
    using d(2) off hy_demo_route by (simp add: nc_startRts_v2_def dev_call_def on_hy_def nc_hy_startRts_v2_def hy_call_def
        NC_HY_CHANNEL_SIZE_def NC_HY_STREAM_SIZE_def demo_world_def nc_hy_dev_startRts_def)
  have "0 \<le> hy_id 0 3" by (simp add: hy_id_def NC_PTC_HuaYi_def)
  from hy_stream_stops [OF i(1) _ _ hy_demo_route _ _ s this, of demo_world "\<lambda>_ _. 0"] obtain ns2 where
    "nc_stopRts demo_world (\<lambda>_ _. 0) (hy_id 0 3) ns1 = Inr (0, ns2)" by (auto simp: demo_world_def demo_env_def)
  with i(1) s show ?thesis by blast
qed

section \<open>Alarms of an idle device\<close>

text \<open>C39: a device that is only wanted for its alarms is stopped like an idle one after a minute, and its alarms stay
  marked as wanted. The next device that gets its place is started, but is refused alarms of its own, as if it
  had them already; the callback kept there is still that of the first. (No callback is ever called: the
  function that would report an alarm, \<^verbatim>\<open>nc_hy_dev_doAlarm\<close>, is commented out.)\<close>

theorem hy_stale_alarm_refuses:
  assumes "hy_client sy0 nc sy" "i < NC_HY_USER_SIZE" "hd_alarm_enable (nh_dev nc ! i)" "hd_alarm_cb (nh_dev nc ! i) = cb1"
    and "hy_idle tv (nh_dev nc ! i)" "nc_hy_run_pass 0 tv (nh_dev nc) sy = (ds, sy1)"
    and "\<forall>j<i. hd_state (ds ! j)" "\<forall>d\<in>set ds. \<not> hy_same info d"
    and "nc_route (dev_ptc info) = Hy" "he_pid (nw_hy w) = 0"
    and "ns_hy ns = Some (nc\<lparr> nh_dev := ds \<rparr>)"
  shows "\<exists>ns2 nc2. nc_login_v2 w info cb2 ns = Inr (NC_ERROR_REPEAT, ns2) \<and> ns_hy ns2 = Some nc2
     \<and> hy_same info (nh_dev nc2 ! i) \<and> hd_alarm_enable (nh_dev nc2 ! i) \<and> hd_alarm_cb (nh_dev nc2 ! i) = cb1"
proof -
  let ?e = "nw_hy w" and ?f = "\<lambda>i d. Inr (nc_hy_dev_startAlarm (he_now (nw_hy w)) cb2 i d) :: (int \<times> nc_hy_dev) outcome"
  have ds: "ds = map (hy_rested tv) (nh_dev nc)" using hy_pass_eq [of tv "nh_dev nc" sy] assms(6) by simp
  have len: "length ds = NC_HY_USER_SIZE" using hy_client_ok [OF assms(1)] ds by (simp add: hy_ok_def)
  have di: "ds ! i = (nh_dev nc ! i)\<lparr> hd_state := False \<rparr>"
    using hy_client_ok [OF assms(1)] assms(2,5) ds by (simp add: hy_ok_def hy_rested_def)
  have none: "length (takeWhile (\<lambda>d. \<not> hy_same info d) ds) = length ds"
    using assms(8) by (subst takeWhile_eq_all_conv [THEN iffD2]) simp_all
  have "takeWhile hd_state ds = take i ds" using assms(7) di by (intro takeWhile_eq_take_P_nth) simp_all
  then have first: "length (takeWhile hd_state ds) = i" using assms(2) len by simp
  obtain d sy2 where d: "nc_hy_dev_start 0 (he_now ?e) (dev_ip info) (dev_msg_port info) (dev_user info) (dev_pswd info) (ds ! i) (ns_sysf ns)
      = Inr (d, sy2)"
    by (simp add: nc_hy_dev_start_def tool_thread_create_def)
  note s = start_key [OF d]
  have a: "hd_alarm_enable d" "hd_alarm_cb d = cb1" using assms(3,4) di by (subst s(3), simp)+
  have "hy_use ?e False ?f info (nc\<lparr> nh_dev := ds \<rparr>) (ns_sysf ns) = Inr (NC_ERROR_REPEAT, Some (nc\<lparr> nh_dev := ds[i := d] \<rparr>), sy2)"
    using none first assms(2,10) len d a(1) by (simp add: hy_use_def Let_def nc_hy_dev_startAlarm_def)
  then have "nc_login_v2 w info cb2 ns = Inr (NC_ERROR_REPEAT, ns\<lparr> ns_hy := Some (nc\<lparr> nh_dev := ds[i := d] \<rparr>), ns_sysf := sy2 \<rparr>)"
    using assms(9,11) by (simp add: nc_login_v2_def on_hy_def nc_hy_login_v2_def hy_call_def)
  moreover have "hy_same info d" using s(1,2) by (simp add: hy_same_iff)
  ultimately show ?thesis using a assms(2) len by simp
qed

theorem hy_stale_alarm_refuses_witness:
  "\<exists>nc sy ds sy1 ns2 nc2. hy_client demo_sysf nc sy \<and> hd_alarm_cb (nh_dev nc ! 0) = Some 7
     \<and> nc_hy_run_pass 0 (200, 0) (nh_dev nc) sy = (ds, sy1)
     \<and> nc_login_v2 demo_world hy_demo_dev (Some 8) \<lparr> ns_qh = None, ns_hy = Some (nc\<lparr> nh_dev := ds \<rparr>), ns_sysf = sy1 \<rparr>
         = Inr (NC_ERROR_REPEAT, ns2)
     \<and> ns_hy ns2 = Some nc2 \<and> hy_same hy_demo_dev (nh_dev nc2 ! 0) \<and> hd_alarm_cb (nh_dev nc2 ! 0) = Some 7"
proof -
  obtain nc sy where c: "hy_client demo_sysf nc sy" "hd_alarm_enable (nh_dev nc ! 0)" "hd_alarm_cb (nh_dev nc ! 0) = Some 7"
    "hy_idle (200, 0) (nh_dev nc ! 0)" "\<forall>i < NC_HY_USER_SIZE. i \<noteq> 0 \<longrightarrow> \<not> hd_state (nh_dev nc ! i)"
    using demo_hy_alarm by blast
  obtain ds sy1 where p: "nc_hy_run_pass 0 (200, 0) (nh_dev nc) sy = (ds, sy1)" by fastforce
  have len: "length (nh_dev nc) = NC_HY_USER_SIZE" using hy_client_ok [OF c(1)] by (simp add: hy_ok_def)
  have ds: "ds = map (hy_rested (200, 0)) (nh_dev nc)" using p hy_pass_eq [of "(200, 0)" "nh_dev nc" sy] by simp
  have "\<not> hd_state (ds ! i)" if "i < NC_HY_USER_SIZE" for i
    using c(4,5) that len by (cases "i = 0") (auto simp: ds hy_rested_def hy_idle_def)
  then have "\<forall>d\<in>set ds. \<not> hy_same hy_demo_dev d" using len by (auto simp: ds in_set_conv_nth hy_same_def)
  moreover have "0 < NC_HY_USER_SIZE" by (simp add: NC_HY_USER_SIZE_def)
  ultimately show ?thesis
    using hy_stale_alarm_refuses [OF c(1) _ c(2,3,4) p _ _ hy_demo_route, of demo_world
        "\<lparr> ns_qh = None, ns_hy = Some (nc\<lparr> nh_dev := ds \<rparr>), ns_sysf = sy1 \<rparr>" "Some 8"] c(1,3) p
    by (simp add: demo_world_def demo_env_def) blast
qed

section \<open>Devices nobody knows\<close>

text \<open>The only address a user's thread connects to.\<close>

lemma login_refused:
  assumes "0 \<le> dial_sock d" "dial_conn d (Some (cstr (qu_ip_addr user))) ((qu_port user + PTC_PORT_OFFSET) mod 65536) < 0"
  shows "returns (nc_qh_user_login d cret user sys) (\<lambda>(r, _). r = NC_ERROR_CONNECT)"
  using assms
  by (simp add: nc_qh_user_login_def doState_eq qh_report_eq tool_sock_item_open_v2_def tool_sock_item_connect_def Let_def case_prod_beta)

text \<open>C40: a device of the relay service that neither the service nor the local search finds is replaced by whatever
  accepts a connection at 192.168.1.10:5000: the device the application holds afterwards has this address and
  port, and the stream it gets is that of this address: its thread connects to 192.168.1.10:5005 (the port
  with \<^verbatim>\<open>PTC_PORT_OFFSET\<close>) and, when that is refused, does not log in, whatever other addresses would accept.\<close>

theorem unknown_device_redirected:
  assumes "client sy0 nc sy" "granted (nw_qh w) sy" "\<not> qh_full nc" "ns_qh ns = Some nc" "ns_sysf ns = sy"
    and "nc_route (dev_ptc dev) = Cloud" "fst (asked dev) \<le> 0" "fst (nc_qh_getSearchById (nq_searchs nc) dev) \<le> 0"
    and "0 \<le> ping ''192.168.1.10'' 5000"
  shows "returns (nc_startRts_v2 w (nc_getDevById asked ping (ns_qh ns)) other dev ch st cb ns) (\<lambda>(r, dev', ns').
     dev_dev_id dev' = [] \<and> dev_ip dev' = array_strncpy 40 ''192.168.1.10'' \<and> dev_msg_port dev' = 5000
     \<and> (\<exists>i nc'. r = int i \<and> ns_qh ns' = Some nc' \<and> i < NC_QH_USER_SIZE \<and> qs_is_used (nq_user nc' ! i)
         \<and> cstr (qu_ip_addr (nq_user nc' ! i)) = ''192.168.1.10'' \<and> qu_port (nq_user nc' ! i) = 5000
         \<and> (\<forall>d cret sys. 0 \<le> dial_sock d \<longrightarrow> dial_conn d (Some ''192.168.1.10'') 5005 < 0
              \<longrightarrow> returns (nc_qh_user_login d cret (nc_qh_user.truncate (nq_user nc' ! i)) sys) (\<lambda>(r, _). r = NC_ERROR_CONNECT))))"
proof -
  define dev' where "dev' = \<lparr> dev_ptc = NC_PTC_Qihan, dev_dev_id = [], dev_ip = array_strncpy 40 ''192.168.1.10'', dev_msg_port = 5000,
                dev_stream_port = 0, dev_user = array_strncpy 32 ''qihan'', dev_pswd = array_strncpy 32 ''nahiq'' \<rparr>"
  have look: "nc_getDevById asked ping (ns_qh ns) dev = (1, dev')"
    using assms(4,7-9) by (cases "asked dev"; cases "nc_qh_getSearchById (nq_searchs nc) dev")
      (simp add: nc_getDevById_def qh_found_def dev'_def)
  have len: "length (nq_user nc) = NC_QH_USER_SIZE" using client_table [OF assms(1)] by (simp add: table_ok_def)
  define good where "good u \<longleftrightarrow> qs_is_used u \<and> cstr (qu_ip_addr u) = ''192.168.1.10'' \<and> qu_port u = 5000" for u :: qh_slot
  have s: "\<exists>i. r = int i \<and> i < NC_QH_USER_SIZE \<and> good (nq_user nc' ! i)"
    if "started PTC_CMD_RTS_BASE (dev_ip dev') (dev_msg_port dev') r nc nc'" for r nc'
    using that assms(3) len by (auto simp: started_def good_def dev'_def array_strncpy_def cstr_def)
  have "returns (nc_qh_startRts_v2 (nw_qh w) (nw_junk w) (Some dev') ch st (cb \<noteq> None) (Some nc) sy) (\<lambda>(r, g, sy').
      \<exists>i nc'. g = Some nc' \<and> r = int i \<and> i < NC_QH_USER_SIZE \<and> good (nq_user nc' ! i))"
    unfolding nc_qh_startRts_v2_def option.case
    by (rule returns_mono [OF start_call_returns [OF client_table [OF assms(1)] assms(2)]]) (simp, simp, use s in blast)
  from returnsE [OF this] obtain i nc' sy' where
    r: "nc_qh_startRts_v2 (nw_qh w) (nw_junk w) (Some dev') ch st (cb \<noteq> None) (Some nc) sy = Inr (int i, Some nc', sy')"
    "i < NC_QH_USER_SIZE" "good (nq_user nc' ! i)" by auto
  have "returns (nc_qh_user_login d cret (nc_qh_user.truncate (nq_user nc' ! i)) sys) (\<lambda>(r, _). r = NC_ERROR_CONNECT)"
    if "0 \<le> dial_sock d" "dial_conn d (Some ''192.168.1.10'') 5005 < 0" for d cret sys
    using that r(3) by (intro login_refused) (simp_all add: good_def PTC_PORT_OFFSET_def nc_qh_user.defs)
  with r show ?thesis using look assms(4-6)
    by (simp add: nc_startRts_v2_def dev_call_def on_qh_def good_def) (simp add: dev'_def)
qed

text \<open>A network that refuses port 5005 of this address and accepts everything else: no connection.\<close>

definition but_there :: sock_dial where
  "but_there = \<lparr> dial_addr = \<lambda>_ _. 0, dial_sock = 4, dial_bind = 0, dial_listen = 0,
     dial_conn = (\<lambda>ip port. if ip = Some ''192.168.1.10'' \<and> port = 5005 then - 1 else 0), dial_err = 0 \<rparr>"

theorem unknown_device_redirected_witness:
  "\<exists>nc sy a. client demo_sysf nc sy
     \<and> returns (nc_startRts_v2 (demo_world\<lparr> nw_qh := demo_grant a \<rparr>) (nc_getDevById (\<lambda>d. (0, d)) (\<lambda>_ _. 0) (Some nc)) (\<lambda>_ _. 0)
          (demo_dev\<lparr> dev_ptc := NC_PTC_QiHan_Cloud, dev_ip := ''172.16.0.4'' \<rparr>) 0 0 (Some 1) \<lparr> ns_qh = Some nc, ns_hy = None, ns_sysf = sy \<rparr>)
        (\<lambda>(r, dev', ns'). dev_ip dev' = array_strncpy 40 ''192.168.1.10'' \<and> dev_msg_port dev' = 5000
          \<and> (\<exists>i nc'. r = int i \<and> ns_qh ns' = Some nc'
              \<and> returns (nc_qh_user_login but_there 0 (nc_qh_user.truncate (nq_user nc' ! i)) demo_sys) (\<lambda>(r, _). r = NC_ERROR_CONNECT)))"
proof -
  obtain nc sy a where i: "client demo_sysf nc sy" "\<forall>u\<in>set (nq_user nc). \<not> qs_is_used u" "granted (demo_grant a) sy"
    "listed (nq_searchs nc) = []" using demo_idle by blast
  have "nq_user nc \<noteq> []" using client_table [OF i(1)] by (auto simp: table_ok_def NC_QH_USER_SIZE_def)
  then have n: "\<not> qh_full nc" using i(2) by (metis list.set_sel(1) qh_full_def)
  let ?w = "demo_world\<lparr> nw_qh := demo_grant a \<rparr>" and ?d = "demo_dev\<lparr> dev_ptc := NC_PTC_QiHan_Cloud, dev_ip := ''172.16.0.4'' \<rparr>"
    and ?ns = "\<lparr> ns_qh = Some nc, ns_hy = None, ns_sysf = sy \<rparr>"
  have g: "granted (nw_qh ?w) sy" using i(3) by simp
  have r: "nc_route (dev_ptc ?d) = Cloud"
    by (simp add: nc_route_def NC_PTC_HuaYi_def NC_PTC_YuShi_def NC_PTC_YuShi_Cloud_def NC_PTC_QiHan_Cloud_def)
  have "fst (nc_qh_getSearchById (nq_searchs nc) ?d) \<le> 0" using i(4) by (simp add: nc_qh_getSearchById_def)
  have d: "0 \<le> dial_sock but_there" "dial_conn but_there (Some ''192.168.1.10'') 5005 < 0" by (simp_all add: but_there_def)
  from unknown_device_redirected [OF i(1) g n, of ?ns ?d "\<lambda>d. (0, d)" "\<lambda>_ _. 0" "\<lambda>_ _. 0" 0 0 "Some 1"] r this
  have "returns (nc_startRts_v2 ?w (nc_getDevById (\<lambda>d. (0, d)) (\<lambda>_ _. 0) (Some nc)) (\<lambda>_ _. 0) ?d 0 0 (Some 1) ?ns)
     (\<lambda>(r, dev', ns'). dev_ip dev' = array_strncpy 40 ''192.168.1.10'' \<and> dev_msg_port dev' = 5000
          \<and> (\<exists>i nc'. r = int i \<and> ns_qh ns' = Some nc'
              \<and> returns (nc_qh_user_login but_there 0 (nc_qh_user.truncate (nq_user nc' ! i)) demo_sys) (\<lambda>(r, _). r = NC_ERROR_CONNECT)))"
    using i(4) d by (simp add: nc_qh_getSearchById_def) (erule returns_mono, auto)
  with i(1) show ?thesis by blast
qed

end
