(* ===== verification/Spec2Isabelle.thy ===== *)
theory Spec2Isabelle
  imports Tool_Base64 Tool_Hash Tool_Md5 Tool_Char Ptc_Search_Rt Tool_Stream1 Tool_Stream3 Tool_Tpool
    Nc_User_Rt Nc_Answer Nc_Search_Rt Nc_Table_Rt Nc_Route_Rt
begin

text \<open>
  \<^bold>\<open>The network-camera library of the Android app.\<close>

  The repository holds an Android application for network cameras, \<^verbatim>\<open>src/sab_app\<close>, a small
  streaming application, \<^verbatim>\<open>src/my_pull\<close>, and unmodified third-party code (FFmpeg twice, headers
  and binaries of libjpeg and x264).  The repository's own program is the C library in
  \<^verbatim>\<open>src/sab_app/jni/nc\<close>, from here on \<^verbatim>\<open>nc/\<close>: clients of several camera protocols on a layer of
  tools.  This development models the tool layer, the QH protocol on top of it, the QH client, the
  one the application uses for its own cameras, up to the functions its users call, the device table of a
  second client, and the interface that chooses between clients.

  \<^bold>\<open>Parts and how they meet.\<close>  The client (\<^verbatim>\<open>nc_qh.c\<close>) keeps a table of 128 users; each runs a thread for a
  live stream, a talk, an alarm subscription or a playback.  The thread connects, logs in and receives
  frames, which it puts into a ring of bytes (\<^verbatim>\<open>tool_stream3.c\<close>); a player takes them out.  Sound to be
  sent waits in a ring of frames (\<^verbatim>\<open>tool_stream2.c\<close>).  Other threads ask a user for a position, a speed and
  so on by setting fields that its thread looks at.  Configuration calls open a connection of their own.
  A call builds a request (\<^verbatim>\<open>tool_ptc_qh_c2d_encode_*\<close>) by printing
  JSON text into the data of a message, and hands the message to \<^verbatim>\<open>tool_ptc_qh_sendMsg\<close>, which
  stamps the head and calls \<^verbatim>\<open>tool_sock_item_send\<close>, a loop of polls and \<^verbatim>\<open>send\<close> calls with a
  deadline.  The peer receives head and data with \<^verbatim>\<open>tool_sock_item_recv\<close>, checks the head, and
  decodes the text (\<^verbatim>\<open>tool_ptc_qh_c2d_decode_*\<close>) with one of two JSON readers: \<^verbatim>\<open>tool_json2_*\<close> searches
  the text for a name each time, \<^verbatim>\<open>tool_json_parse\<close> builds a table of fields in a copy of the text.
  Replies travel the other way.  Frames are larger and travel as numbered packets.

  \<^bold>\<open>Theories.\<close>
  \<^item> \<^verbatim>\<open>Nc_Prelude\<close>: integer types, the result type (an abort of the C program, a fault of the memory,
    exhausted fuel, or a value), buffers, lists.  \<^verbatim>\<open>C_Lib\<close>: the standard library the code uses on
    text (\<^verbatim>\<open>strlen\<close>, \<^verbatim>\<open>strstr\<close>, \<^verbatim>\<open>strncpy\<close>, \<^verbatim>\<open>atoi\<close>, \<^verbatim>\<open>printf\<close> of integers).
  \<^item> \<^verbatim>\<open>Tool_Base64\<close>, \<^verbatim>\<open>Tool_Hash\<close>, \<^verbatim>\<open>Tool_Md5\<close>, \<^verbatim>\<open>Tool_Char\<close>: the pure tools of \<^verbatim>\<open>nc/tool_base64.c\<close>,
    \<^verbatim>\<open>tool_hash.c\<close>, \<^verbatim>\<open>tool_md5.c\<close>, \<^verbatim>\<open>tool_char.c\<close>, on words of the width the code uses.
  \<^item> \<^verbatim>\<open>Tool_Sysf\<close>: the parts of \<^verbatim>\<open>nc/tool_sysf.c\<close> with logic of their own (counted allocation, counted
    threads and locks, tick timeouts, hexadecimal text, addresses, masks, the shuffle).
  \<^item> \<^verbatim>\<open>Tool_Json2\<close> and \<^verbatim>\<open>Tool_Json\<close>: the two readers of \<^verbatim>\<open>nc/tool_json.c\<close>.  A pointer into the text is a
    pair of the text before and after it; a read or write outside the buffer is a fault.
  \<^item> \<^verbatim>\<open>Tool_Sock\<close>: \<^verbatim>\<open>nc/tool_sock.c\<close>.  What the system calls that open a socket return, for an address and a
    port, is an argument (\<open>sock_dial\<close>); the wait for a connection is one of the loops below.  The outside world is a list of rounds (is the caller's flag still
    on, what is the clock, how many bytes can this system call move) and two byte streams; each loop
    of the code consumes a round per iteration, so every way a connection can behave is some list.
  \<^item> \<^verbatim>\<open>Tool_Stream1\<close>, \<^verbatim>\<open>Tool_Stream2\<close>, \<^verbatim>\<open>Tool_Stream3\<close>: the three rings, \<^verbatim>\<open>nc/tool_stream1.c\<close> to
    \<^verbatim>\<open>tool_stream3.c\<close>.  The memory of the last one is a function from offsets to bytes, with
    the wrap-around of its positions written out.
  \<^item> \<^verbatim>\<open>Tool_Tpool\<close>: \<^verbatim>\<open>nc/tool_tpool.c\<close> as a step relation of workers and callers; waiting on the condition,
    signals and broadcasts are part of it, and the reads and writes the code makes outside its lock are steps
    of their own.
  \<^item> \<^verbatim>\<open>Ptc_Qh\<close>: messages, frames and shuffled frames of \<^verbatim>\<open>nc/tool_ptc.c\<close>.  The framing is defined over an
    arbitrary send and receive operation and instantiated with the socket's.
  \<^item> \<^verbatim>\<open>Ptc_Text\<close>, \<^verbatim>\<open>Ptc_Cfg\<close>, \<^verbatim>\<open>Ptc_Cfg_Rt\<close>: printing into messages and reading fields back; the encoders
    and decoders of all configuration commands; their round trips.  \<^verbatim>\<open>Ptc_Search\<close>, \<^verbatim>\<open>Ptc_Search_Rt\<close>: the
    searches for logs, recordings and days.
  \<^item> \<^verbatim>\<open>Nc_Qh\<close>: sessions of \<^verbatim>\<open>nc/nc_qh.c\<close> (login, logout, one request per connection) and the configuration
    functions.  \<^verbatim>\<open>Nc_Qh_Rt\<close>, \<^verbatim>\<open>Nc_Call_Rt\<close>, \<^verbatim>\<open>Nc_Answer\<close>: a call closes its connection, ends in time, and
    does what it is for when the camera answers.
  \<^item> \<^verbatim>\<open>Nc_User\<close>, \<^verbatim>\<open>Nc_User_Rt\<close>: a turn of the thread of each kind of user, and whole runs of it.
  \<^item> \<^verbatim>\<open>Nc_Search\<close>, \<^verbatim>\<open>Nc_Search_Rt\<close>: the broadcast search, the list of devices the client keeps, and the
    search over all clients of \<^verbatim>\<open>nc/nc.c\<close>.
  \<^item> \<^verbatim>\<open>Nc_Table\<close>, \<^verbatim>\<open>Nc_Table_Rt\<close>: starting and closing the client, the table of users, and the functions
    that name a user by its number.
  \<^item> \<^verbatim>\<open>Nc_Hy\<close>, \<^verbatim>\<open>Nc_Hy_Rt\<close>: the table of devices of \<^verbatim>\<open>nc/nc_hy.c\<close>, which streams, talks, a playback and
    alarms of one device share, and the thread that stops idle devices.
  \<^item> \<^verbatim>\<open>Nc_Route\<close>, \<^verbatim>\<open>Nc_Route_Rt\<close>: the interface, \<^verbatim>\<open>nc/nc.c\<close>: a call goes to the client its device or
    number belongs to.

  \<^bold>\<open>State.\<close>  Each record has the fields of the C type it models (\<^verbatim>\<open>ptc_head_t\<close>, \<^verbatim>\<open>ptc_msg_t\<close>,
  \<^verbatim>\<open>tool_md5_t\<close>, \<^verbatim>\<open>tool_json_t\<close>, \<^verbatim>\<open>tool_sock_item_t\<close>, \<^verbatim>\<open>tool_stream3_t\<close>, \<^verbatim>\<open>nc_qh_user_t\<close>, the
  \<^verbatim>\<open>ptc_cfg_*_t\<close>); the static variables of a C file are a record that its operations take and return.
  A user is two records: \<^verbatim>\<open>nc_qh_user\<close> with what its thread works on, and \<^verbatim>\<open>qh_slot\<close>, which extends it
  with what only starting and stopping touch.

  \<^bold>\<open>What the lemmas show.\<close>  The pure tools equal independent specifications (polynomials, the padded
  one-shot digest, the inverse of an encoder).  The readers are total and stay inside their buffers,
  and return the fields of a printed object.  The loops over a socket deliver what was sent when the
  connection is prompt, and a prefix of it otherwise.  The framing round-trips messages and frames
  through such a socket, and a receiver stays inside its buffers whatever the peer sends.  The
  encoders and decoders are inverse where the code makes them so; where it does not, the theorem
  says what happens instead.  The rings refine queues.  The pool runs every job once, in order, without
  losing a wake-up, and stopping it ends.  What a
  viewer is shown is a run of the machine connecting, logging in, starting, running, whatever the network
  does.  The table of users owns its memory: every state the client reaches has exactly the blocks its
  users need, and closing it gives all of them back.
  Through the interface, the number of a live stream of the HY client leads back to this stream; for one
  address, port and account this client runs one device.  Where the code loses something (alarms of an
  idle device, an unknown device) the theorem says what happens instead.

  \<^bold>\<open>Locales.\<close>  A locale states what a client relies on: the byte transport and the reader used by the
  framing, the codec of one command, the delivery of a text, a queue (\<^verbatim>\<open>fifo\<close>) and a bounded one that a
  full write empties (\<^verbatim>\<open>ring_queue\<close>), the rows of a reply (\<^verbatim>\<open>row_array\<close>), an operation that leaves an
  observation of the connection alone (\<^verbatim>\<open>observed\<close>).  Each is interpreted on the definitions of the
  component that provides it.

  \<^bold>\<open>Bounds and fuel.\<close>  The parser's recursion is by fuel; a text of length \<open>n\<close> needs at most \<open>3 n + 1\<close>, so
  \<open>JSON_FUEL = 12289\<close> covers the 4096 characters its buffer holds.  Reassembly of a frame takes one
  unit per packet, and a frame of less than 512000 bytes has at most 500.  The array search of
  \<^verbatim>\<open>tool_json2\<close> has fuel because it can hang, and the theorem says when.  A turn of an alarm user bounds
  the messages that can come before the answer to its heartbeat (\<open>turn_fuel\<close>), which the code does not.
  The byte ring carries frames of up to \<open>2^20 - 47\<close> bytes; its reader's buffer has 512032.  A
  configuration call ends within 80 ticks of the clock, the sum of its timeouts: the wait for the
  connection and the sends and receives of login, request and logout.

  \<^bold>\<open>Not modelled.\<close>  Functions that only forward to one system or library call (files, sockets, TLS,
  Java, FFmpeg): their results are arguments of the models that use them.  Floating-point text
  (\<^verbatim>\<open>%f\<close>) is a parameter.  The threads of the HY client's devices, what they create and
  free, and their messages (the reachable states of \<^verbatim>\<open>Nc_Hy_Rt\<close> leave open what they do to the system),
  the other makers' clients (\<^verbatim>\<open>nc_ys.c\<close>, \<^verbatim>\<open>nc_xm.c\<close>) and the relay service's (\<^verbatim>\<open>hdcctv_client.c\<close>), with
  their message helpers: threads around calls to this layer, of which the QH client is the fullest; what
  they return is an argument of the interface.  The configuration functions of \<^verbatim>\<open>nc.c\<close>, which forward like
  those modelled.  HTTP, TLS and logging.  The codecs and the drawing code of the
  application, which hand their data to vendored libraries.  Vendored code is left aside.
\<close>

end
